(* ===== verification/Prelude.thy ===== *)
theory Prelude
  imports Main "HOL-Library.Word" "HOL-Library.List_Lexorder" "HOL-Library.Char_ord"
    "HOL-Library.Product_Lexorder"
begin

text \<open>
  Shared ground of the development: the machine integers of the Rust sources, the \<open>Result\<close>
  type with its question-mark operator, the slice and iterator functions the sources call
  (\<open>get\<close>, \<open>position\<close>, \<open>rposition\<close>, \<open>find\<close>, duplicate tests), the decimal printer and the
  whitespace test behind \<open>format!\<close> and \<open>str::trim\<close>, and the locales that state what a
  transition function with errors promises to its callers.

  Rust strings are byte sequences; \<open>string\<close> (a list of 8-bit characters) is that sequence,
  so \<open>len\<close> is \<open>length\<close>, equality is equality and \<open>Ord\<close> on \<open>str\<close> is the lexicographic order
  of \<open>List_Lexorder\<close> over \<open>Char_ord\<close>.
\<close>

section \<open>Machine integers\<close>

type_synonym u8 = "8 word"
type_synonym u16 = "16 word"
type_synonym u32 = "32 word"
type_synonym u64 = "64 word"

section \<open>Proof collections\<close>

named_theorems rust_std \<open>slice and iterator functions of the standard library\<close>
named_theorems frame \<open>fields an operation leaves unchanged\<close>
named_theorems result_split \<open>inversion of successful results\<close>

section \<open>Results\<close>

text \<open>\<open>Result<T, E>\<close> is the sum \<open>'e + 'a\<close>; \<open>and_then r f\<close> is \<open>f(r?)\<close>.\<close>

definition and_then :: "'e + 'a \<Rightarrow> ('a \<Rightarrow> 'e + 'b) \<Rightarrow> 'e + 'b" where
  "and_then r f = (case r of Inl e \<Rightarrow> Inl e | Inr x \<Rightarrow> f x)"

definition ok_or :: "'a option \<Rightarrow> 'e \<Rightarrow> 'e + 'a" where
  "ok_or x e = (case x of None \<Rightarrow> Inl e | Some y \<Rightarrow> Inr y)"

definition ensure :: "bool \<Rightarrow> 'e \<Rightarrow> 'e + unit" where
  "ensure b e = (if b then Inr () else Inl e)"

definition or_else :: "'a option \<Rightarrow> 'a option \<Rightarrow> 'a option" where
  "or_else x y = (case x of None \<Rightarrow> y | Some v \<Rightarrow> Some v)"

lemma and_then_simps [simp]:
  "and_then (Inl e) f = Inl e"
  "and_then (Inr x) f = f x"
  by (simp_all add: and_then_def)

lemma and_then_eq_Inr [result_split]:
  "and_then r f = Inr y \<longleftrightarrow> (\<exists>x. r = Inr x \<and> f x = Inr y)"
  by (cases r) auto

lemma and_then_eq_Inl:
  "and_then r f = Inl e \<longleftrightarrow> r = Inl e \<or> (\<exists>x. r = Inr x \<and> f x = Inl e)"
  by (cases r) auto

lemma ok_or_simps [simp]: "ok_or None e = Inl e" "ok_or (Some x) e = Inr x"
  by (simp_all add: ok_or_def)

lemma ok_or_eq_Inr [result_split]: "ok_or x e = Inr y \<longleftrightarrow> x = Some y"
  by (cases x) auto

lemma ok_or_eq_Inl: "ok_or x e = Inl e' \<longleftrightarrow> x = None \<and> e' = e"
  by (cases x) auto

lemma ensure_eq_Inr [result_split]: "ensure b e = Inr u \<longleftrightarrow> b"
  by (simp add: ensure_def)

lemma ensure_eq_Inl: "ensure b e = Inl e' \<longleftrightarrow> \<not> b \<and> e' = e"
  by (auto simp: ensure_def)

lemma ensure_simps [simp]: "ensure True e = Inr ()" "ensure False e = Inl e"
  by (simp_all add: ensure_def)

lemma or_else_simps [simp]:
  "or_else None y = y" "or_else (Some v) y = Some v" "or_else x None = x"
  by (auto simp: or_else_def split: option.splits)

lemma or_else_eq_None [simp]: "or_else x y = None \<longleftrightarrow> x = None \<and> y = None"
  by (cases x) auto

section \<open>Slices and iterators\<close>

definition slice_get :: "'a list \<Rightarrow> nat \<Rightarrow> 'a option" where
  "slice_get xs i = (if i < length xs then Some (xs ! i) else None)"

primrec position :: "('a \<Rightarrow> bool) \<Rightarrow> 'a list \<Rightarrow> nat option" where
  "position P [] = None"
| "position P (x # xs) = (if P x then Some 0 else map_option Suc (position P xs))"

primrec rposition :: "('a \<Rightarrow> bool) \<Rightarrow> 'a list \<Rightarrow> nat option" where
  "rposition P [] = None"
| "rposition P (x # xs) =
     (case rposition P xs of
        Some i \<Rightarrow> Some (Suc i)
      | None \<Rightarrow> if P x then Some 0 else None)"

primrec find_map :: "('a \<Rightarrow> 'b option) \<Rightarrow> 'a list \<Rightarrow> 'b option" where
  "find_map f [] = None"
| "find_map f (x # xs) = (case f x of Some y \<Rightarrow> Some y | None \<Rightarrow> find_map f xs)"

text \<open>
  \<open>has_duplicate xs\<close> is the test
  \<open>xs.iter().enumerate().any(|(i, x)| xs[..i].contains(x))\<close>.
\<close>

definition has_duplicate :: "'a list \<Rightarrow> bool" where
  "has_duplicate xs = (\<not> distinct xs)"

lemma slice_get_eq_Some [rust_std]: "slice_get xs i = Some x \<longleftrightarrow> i < length xs \<and> xs ! i = x"
  by (simp add: slice_get_def)

lemma slice_get_eq_None [rust_std]: "slice_get xs i = None \<longleftrightarrow> length xs \<le> i"
  by (simp add: slice_get_def)

lemma slice_get_in [simp]: "i < length xs \<Longrightarrow> slice_get xs i = Some (xs ! i)"
  by (simp add: slice_get_def)

lemma slice_get_out [simp]: "length xs \<le> i \<Longrightarrow> slice_get xs i = None"
  by (simp add: slice_get_def)

lemma position_eq_Some [rust_std]:
  "position P xs = Some i \<longleftrightarrow> i < length xs \<and> P (xs ! i) \<and> (\<forall>j < i. \<not> P (xs ! j))"
proof (induction xs arbitrary: i)
  case Nil
  then show ?case by simp
next
  case (Cons x xs)
  show ?case
    by (cases i) (auto simp: Cons.IH all_conj_distrib less_Suc_eq_0_disj)
qed

lemma position_eq_None [rust_std]: "position P xs = None \<longleftrightarrow> (\<forall>x \<in> set xs. \<not> P x)"
  by (induction xs) auto

lemma position_None_nth: "position P xs = None \<longleftrightarrow> (\<forall>i < length xs. \<not> P (xs ! i))"
  by (auto simp: position_eq_None all_set_conv_all_nth)

lemma rposition_eq_None [rust_std]: "rposition P xs = None \<longleftrightarrow> (\<forall>x \<in> set xs. \<not> P x)"
  by (induction xs) (auto split: option.splits)

lemma rposition_SomeD:
  "rposition P xs = Some i \<Longrightarrow>
     i < length xs \<and> P (xs ! i) \<and> (\<forall>j. i < j \<longrightarrow> j < length xs \<longrightarrow> \<not> P (xs ! j))"
proof (induction xs arbitrary: i)
  case Nil
  then show ?case by simp
next
  case (Cons x xs)
  show ?case
  proof (cases "rposition P xs")
    case None
    then have none: "\<forall>y \<in> set xs. \<not> P y" by (simp add: rposition_eq_None)
    from None Cons.prems have "P x" "i = 0" by (auto split: if_splits)
    with none show ?thesis by (auto simp: nth_Cons split: nat.splits)
  next
    case (Some k)
    with Cons.prems have "i = Suc k" by simp
    with Cons.IH [OF Some] show ?thesis by (auto simp: nth_Cons split: nat.splits)
  qed
qed

lemma rposition_None_nth: "rposition P xs = None \<longleftrightarrow> (\<forall>i < length xs. \<not> P (xs ! i))"
  by (auto simp: rposition_eq_None all_set_conv_all_nth)

lemma rposition_eq_Some [rust_std]:
  "rposition P xs = Some i \<longleftrightarrow>
     i < length xs \<and> P (xs ! i) \<and> (\<forall>j. i < j \<longrightarrow> j < length xs \<longrightarrow> \<not> P (xs ! j))"
proof
  assume "rposition P xs = Some i"
  then show "i < length xs \<and> P (xs ! i) \<and> (\<forall>j. i < j \<longrightarrow> j < length xs \<longrightarrow> \<not> P (xs ! j))"
    by (rule rposition_SomeD)
next
  assume i: "i < length xs \<and> P (xs ! i) \<and> (\<forall>j. i < j \<longrightarrow> j < length xs \<longrightarrow> \<not> P (xs ! j))"
  then have "rposition P xs \<noteq> None" by (auto simp: rposition_None_nth)
  then obtain k where k: "rposition P xs = Some k" by blast
  with i rposition_SomeD [OF k] have "k = i" by (metis nat_neq_iff)
  with k show "rposition P xs = Some i" by simp
qed

lemma position_upt:
  "position P [a..<b] = Some i \<longleftrightarrow> a + i < b \<and> P (a + i) \<and> (\<forall>j < i. \<not> P (a + j))"
  by (auto simp: position_eq_Some)

lemma find_upt:
  "List.find P [a..<b] = Some t \<longleftrightarrow> a \<le> t \<and> t < b \<and> P t \<and> (\<forall>j. a \<le> j \<longrightarrow> j < t \<longrightarrow> \<not> P j)"
proof
  assume "List.find P [a..<b] = Some t"
  then obtain i where i: "i < length [a..<b]" "P ([a..<b] ! i)" "t = [a..<b] ! i"
    "\<forall>j < i. \<not> P ([a..<b] ! j)"
    by (auto simp: find_Some_iff)
  then have t: "t = a + i" "a + i < b" "P (a + i)" by auto
  have "\<not> P j" if "a \<le> j" "j < t" for j
    using i(4) [rule_format, of "j - a"] i(1) that t by simp
  with t show "a \<le> t \<and> t < b \<and> P t \<and> (\<forall>j. a \<le> j \<longrightarrow> j < t \<longrightarrow> \<not> P j)" by simp
next
  assume t: "a \<le> t \<and> t < b \<and> P t \<and> (\<forall>j. a \<le> j \<longrightarrow> j < t \<longrightarrow> \<not> P j)"
  then show "List.find P [a..<b] = Some t"
    by (auto simp: find_Some_iff intro!: exI [of _ "t - a"])
qed

lemma find_upt_None: "List.find P [a..<b] = None \<longleftrightarrow> (\<forall>j. a \<le> j \<longrightarrow> j < b \<longrightarrow> \<not> P j)"
  by (auto simp: find_None_iff)

lemma find_SomeD: "List.find P xs = Some x \<Longrightarrow> x \<in> set xs \<and> P x"
  by (auto simp: find_Some_iff)

lemma find_filter_hd: "List.find P xs = (case filter P xs of [] \<Rightarrow> None | x # _ \<Rightarrow> Some x)"
  by (induction xs) auto

lemma find_map_eq_None [rust_std]: "find_map f xs = None \<longleftrightarrow> (\<forall>x \<in> set xs. f x = None)"
  by (induction xs) (auto split: option.splits)

lemma find_map_SomeD: "find_map f xs = Some y \<Longrightarrow> \<exists>x \<in> set xs. f x = Some y"
  by (induction xs) (auto split: option.splits)

lemma has_duplicate_iff [simp]: "has_duplicate xs \<longleftrightarrow> \<not> distinct xs"
  by (simp add: has_duplicate_def)

lemma position_distinct:
  assumes "distinct (map f xs)" and "i < length xs"
  shows "position (\<lambda>x. f x = f (xs ! i)) xs = Some i"
  using assms by (auto simp: position_eq_Some distinct_conv_nth)

section \<open>Text\<close>

definition digit_char :: "nat \<Rightarrow> char" where
  "digit_char d = char_of (48 + d)"

fun show_nat :: "nat \<Rightarrow> string" where
  "show_nat n = (if n < 10 then [digit_char n] else show_nat (n div 10) @ [digit_char (n mod 10)])"

declare show_nat.simps [simp del]

definition show_int :: "int \<Rightarrow> string" where
  "show_int i = (if i < 0 then CHR ''-'' # show_nat (nat (- i)) else show_nat (nat i))"

text \<open>
  \<open>strip_blank s\<close> removes one leading white-space character (Unicode \<open>White_Space\<close>, in its
  UTF-8 encoding) or is \<open>None\<close>; \<open>blank s\<close> is \<open>s.trim().is_empty()\<close>.
\<close>

fun strip_blank :: "nat list \<Rightarrow> nat list option" where
  "strip_blank (a # xs) =
     (if a \<in> {9, 10, 11, 12, 13, 32} then Some xs
      else case xs of
        b # ys \<Rightarrow>
          if a = 194 \<and> b \<in> {133, 160} then Some ys
          else (case ys of
             c # zs \<Rightarrow>
               if (a, b, c) = (225, 154, 128) \<or> (a = 226 \<and> b = 128 \<and> (128 \<le> c \<and> c \<le> 138
                  \<or> c \<in> {168, 169, 175})) \<or> (a, b, c) = (226, 129, 159) \<or> (a, b, c) = (227, 128, 128)
               then Some zs else None
           | [] \<Rightarrow> None)
      | [] \<Rightarrow> None)"
| "strip_blank [] = None"

lemma strip_blank_shorter: "strip_blank xs = Some ys \<Longrightarrow> length ys < length xs"
  by (induction xs rule: strip_blank.induct) (auto split: if_splits list.splits)

function blank_bytes :: "nat list \<Rightarrow> bool" where
  "blank_bytes xs =
     (case strip_blank xs of Some ys \<Rightarrow> blank_bytes ys | None \<Rightarrow> xs = [])"
  by pat_completeness auto
termination
  by (relation "measure length") (auto simp: strip_blank_shorter)

declare blank_bytes.simps [simp del]

definition blank :: "string \<Rightarrow> bool" where
  "blank s = blank_bytes (map of_char s)"

section \<open>Interfaces of transition functions\<close>

text \<open>
  A transition function takes a state and an input and either rejects the input or returns the
  next state with outputs. \<open>accepts\<close> lists the accepted inputs of a run from the left; a rejected
  input leaves the state alone, so runs of accepted inputs are all the runs there are.
\<close>

inductive accepts :: "('s \<Rightarrow> 'i \<Rightarrow> 'e + 's \<times> 'o list) \<Rightarrow> 's \<Rightarrow> 'i list \<Rightarrow> 's \<Rightarrow> bool"
  for f :: "'s \<Rightarrow> 'i \<Rightarrow> 'e + 's \<times> 'o list" where
  accepts_nil: "accepts f s [] s"
| accepts_snoc: "accepts f s ins t \<Longrightarrow> f t i = Inr (u, os) \<Longrightarrow> accepts f s (ins @ [i]) u"

inductive_cases accepts_nilE: "accepts f s [] t"
inductive_cases accepts_snocE: "accepts f s (ins @ [i]) t"

lemma accepts_append: "accepts f s ins t \<Longrightarrow> accepts f t js u \<Longrightarrow> accepts f s (ins @ js) u"
proof (induction js arbitrary: u rule: rev_induct)
  case Nil
  then show ?case by (auto elim: accepts_nilE)
next
  case (snoc j js)
  from snoc.prems(2) obtain v os where v: "accepts f t js v" "f v j = Inr (u, os)"
    by (auto elim: accepts_snocE)
  with snoc.IH [OF snoc.prems(1) v(1)] show ?case
    by (metis accepts_snoc append_assoc)
qed

lemma accepts_Cons:
  assumes "f s i = Inr (u, os)" and "accepts f u ins t"
  shows "accepts f s (i # ins) t"
proof -
  have "accepts f s ([] @ [i]) u" using accepts_nil assms(1) by (rule accepts_snoc)
  from accepts_append [OF this assms(2)] show ?thesis by simp
qed

locale transition =
  fixes step :: "'s \<Rightarrow> 'i \<Rightarrow> 'e + 's \<times> 'o list"

locale invariant_transition = transition step
  for step :: "'s \<Rightarrow> 'i \<Rightarrow> 'e + 's \<times> 'o list" +
  fixes inv :: "'s \<Rightarrow> bool"
  assumes step_inv: "inv s \<Longrightarrow> step s i = Inr (t, os) \<Longrightarrow> inv t"
begin

lemma run_inv: "accepts step s ins t \<Longrightarrow> inv s \<Longrightarrow> inv t"
  by (induction rule: accepts.induct) (auto intro: step_inv)

end

text \<open>
  An invariant that may be used up: \<open>inv k\<close> holds for \<open>k\<close> more accepted inputs of the kind \<open>ok\<close>.
\<close>

locale counted_transition = transition step
  for step :: "'s \<Rightarrow> 'i \<Rightarrow> 'e + 's \<times> 'o list" +
  fixes inv :: "nat \<Rightarrow> 's \<Rightarrow> bool" and ok :: "'i \<Rightarrow> bool"
  assumes step_counted: "inv (Suc k) s \<Longrightarrow> ok i \<Longrightarrow> step s i = Inr (t, os) \<Longrightarrow> inv k t"
begin

lemma run_counted:
  "accepts step s ins t \<Longrightarrow> inv (length ins + k) s \<Longrightarrow> \<forall>i \<in> set ins. ok i \<Longrightarrow> inv k t"
proof (induction arbitrary: k rule: accepts.induct)
  case (accepts_nil s)
  then show ?case by simp
next
  case (accepts_snoc s ins t i u os)
  then have "inv (Suc k) t" by simp
  then show ?case by (rule step_counted) (use accepts_snoc in simp_all)
qed

end

locale terminal_transition = transition step
  for step :: "'s \<Rightarrow> 'i \<Rightarrow> 'e + 's \<times> 'o list" +
  fixes terminal :: "'s \<Rightarrow> bool"
  assumes terminal_rejects: "terminal s \<Longrightarrow> \<exists>e. step s i = Inl e"
begin

lemma terminal_run: "accepts step s ins t \<Longrightarrow> terminal s \<Longrightarrow> ins = [] \<and> t = s"
proof (induction rule: accepts.induct)
  case (accepts_nil s)
  then show ?case by simp
next
  case (accepts_snoc s ins t i u os)
  then have "t = s" "terminal s" by auto
  with terminal_rejects [of s i] accepts_snoc.hyps(2) show ?case by auto
qed

end

end
