(* ===== verification/Workflow_Spec.thy ===== *)
theory Workflow_Spec
  imports Prelude
begin

text \<open>
  Workflows as data: the stage kinds of \<^verbatim>\<open>crates/agend-core/src/pipeline/stage.rs\<close> and the
  definitions of \<^verbatim>\<open>crates/agend-core/src/pipeline/workflow.rs\<close>: command templates and their
  placeholders, stages, workflows, the static save-time rules and the built-in workflows. The last
  rule of \<open>Workflow::validate\<close>, the completability witness, runs the state machine and is in
  \<open>Workflow_Validation\<close>.
\<close>

section \<open>Stage kinds\<close>

datatype StageKind = Work | Command | Approval | Submit | Merge | Fanout

definition StageKind_ALL :: "StageKind list" where
  "StageKind_ALL = [StageKind.Work, StageKind.Command, StageKind.Approval, StageKind.Submit,
     StageKind.Merge, StageKind.Fanout]"

fun StageKind_as_str :: "StageKind \<Rightarrow> string" where
  "StageKind_as_str StageKind.Work = ''work''"
| "StageKind_as_str StageKind.Command = ''command''"
| "StageKind_as_str StageKind.Approval = ''approval''"
| "StageKind_as_str StageKind.Submit = ''submit''"
| "StageKind_as_str StageKind.Merge = ''merge''"
| "StageKind_as_str StageKind.Fanout = ''fanout''"

definition StageKind_parse :: "string \<Rightarrow> StageKind option" where
  "StageKind_parse s = List.find (\<lambda>k. StageKind_as_str k = s) StageKind_ALL"

datatype FanoutJoin = All | First | Pick

section \<open>Command templates\<close>

definition DEFAULT_STAGE_TIMEOUT_MS :: u64 where
  "DEFAULT_STAGE_TIMEOUT_MS = 300000"

record CommandContext =
  ctx_pr :: "string option"
  ctx_head :: "string option"
  ctx_branch :: "string option"

definition PLACEHOLDERS :: "(string \<times> string) list" where
  "PLACEHOLDERS = [(''{pr}'', ''pr''), (''{head}'', ''head''), (''{branch}'', ''branch'')]"

definition placeholder_at :: "string \<Rightarrow> (string \<times> string) option" where
  "placeholder_at rest = List.find (\<lambda>(p, _). take (length p) rest = p) PLACEHOLDERS"

datatype Quote = NoQuote | Single | Double

abbreviation "squote \<equiv> CHR 0x27"
abbreviation "dquote \<equiv> CHR 0x22"
abbreviation "backslash \<equiv> CHR 0x5C"

lemma placeholder_at_Some:
  assumes "placeholder_at rest = Some (p, name)"
  shows "(p, name) \<in> set PLACEHOLDERS \<and> rest = p @ drop (length p) rest \<and> 0 < length p"
proof -
  from assms have p: "(p, name) \<in> set PLACEHOLDERS" and t: "take (length p) rest = p"
    by (auto simp: placeholder_at_def dest: find_SomeD)
  from t have "rest = p @ drop (length p) rest" by (metis append_take_drop_id)
  moreover from p have "0 < length p" by (auto simp: PLACEHOLDERS_def)
  ultimately show ?thesis using p by simp
qed

lemma placeholder_at_Nil [simp]: "placeholder_at [] = None"
  by (simp add: placeholder_at_def PLACEHOLDERS_def)

text \<open>
  The scan follows the byte offsets of the source. The source steps over whole characters; every
  byte of a multi-byte character is at least 128, so it is no quote, backslash or brace, and
  stepping over its bytes one by one gives the same result.
\<close>

function scan_placeholders :: "Quote \<Rightarrow> string list \<Rightarrow> string \<Rightarrow> string + string list" where
  "scan_placeholders q used rest =
     (case rest of
        [] \<Rightarrow> Inr used
      | c # cs \<Rightarrow>
          (case placeholder_at rest of
             Some (p, name) \<Rightarrow>
               if q \<noteq> NoQuote then Inl name
               else scan_placeholders q (if name \<in> set used then used else used @ [name])
                      (drop (length p) rest)
           | None \<Rightarrow>
               if q = Single \<and> c = squote \<or> q = Double \<and> c = dquote
               then scan_placeholders NoQuote used cs
               else if q = NoQuote \<and> c = squote then scan_placeholders Single used cs
               else if q = NoQuote \<and> c = dquote then scan_placeholders Double used cs
               else if q \<noteq> Single \<and> c = backslash then
                 (case placeholder_at cs of
                    Some (_, name) \<Rightarrow> Inl name
                  | None \<Rightarrow> scan_placeholders q used (drop 1 cs))
               else scan_placeholders q used cs))"
  by pat_completeness auto
termination
  by (relation "measure (\<lambda>(q, used, rest). length rest)")
    (auto dest: placeholder_at_Some)

declare scan_placeholders.simps [simp del]

definition command_placeholders :: "string \<Rightarrow> string + string list" where
  "command_placeholders template = scan_placeholders NoQuote [] template"

datatype CommandTemplateError = MissingValue string

fun CommandTemplateError_to_string :: "CommandTemplateError \<Rightarrow> string" where
  "CommandTemplateError_to_string (MissingValue name) =
     ''command placeholder `{'' @ name @ ''}` has no value''"

definition shell_quote :: "string \<Rightarrow> string" where
  "shell_quote v =
     squote # concat (map (\<lambda>c. if c = squote then [squote, backslash, squote, squote] else [c]) v)
       @ [squote]"

definition placeholder_value :: "CommandContext \<Rightarrow> string \<Rightarrow> string option" where
  "placeholder_value ctx name =
     (if name = ''pr'' then ctx_pr ctx else if name = ''head'' then ctx_head ctx else ctx_branch ctx)"

function expand_from :: "CommandContext \<Rightarrow> string \<Rightarrow> CommandTemplateError + string" where
  "expand_from ctx rest =
     (case rest of
        [] \<Rightarrow> Inr []
      | c # cs \<Rightarrow>
          (case placeholder_at rest of
             Some (p, name) \<Rightarrow>
               and_then (ok_or (placeholder_value ctx name) (MissingValue name)) (\<lambda>v.
               and_then (expand_from ctx (drop (length p) rest)) (\<lambda>out.
                 Inr (shell_quote v @ out)))
           | None \<Rightarrow> and_then (expand_from ctx cs) (\<lambda>out. Inr (c # out))))"
  by pat_completeness auto
termination
  by (relation "measure (\<lambda>(ctx, rest). length rest)") (auto dest: placeholder_at_Some)

declare expand_from.simps [simp del]

definition expand_command_placeholders ::
    "string \<Rightarrow> CommandContext \<Rightarrow> CommandTemplateError + string" where
  "expand_command_placeholders template ctx = expand_from ctx template"

section \<open>Stages and workflows\<close>

datatype WorkflowRequirement = Repo

datatype WorkOutput = Branch | Result | Plan

datatype Approver = Human | Role string

datatype FanoutSource = WorkOutput | Listed "string list"

datatype TimeoutAction = Notify | Reassign | Cancel

datatype Stage =
    Work string string WorkOutput
  | Command string
  | Approval Approver u8 bool
  | Submit string
  | Merge
  | Fanout FanoutSource FanoutJoin

fun kind :: "Stage \<Rightarrow> StageKind" where
  "kind (Stage.Work _ _ _) = StageKind.Work"
| "kind (Stage.Command _) = StageKind.Command"
| "kind (Stage.Approval _ _ _) = StageKind.Approval"
| "kind (Stage.Submit _) = StageKind.Submit"
| "kind Stage.Merge = StageKind.Merge"
| "kind (Stage.Fanout _ _) = StageKind.Fanout"

record WorkflowStage =
  ws_id :: string
  ws_stage :: Stage
  ws_timeout_ms :: "u64 option"
  ws_on_timeout :: "TimeoutAction option"
  ws_on_fail :: "string option"

definition WorkflowStage_new :: "string \<Rightarrow> Stage \<Rightarrow> WorkflowStage" where
  "WorkflowStage_new i st =
     \<lparr>ws_id = i, ws_stage = st, ws_timeout_ms = None, ws_on_timeout = None, ws_on_fail = None\<rparr>"

definition effective_timeout_ms :: "WorkflowStage \<Rightarrow> u64" where
  "effective_timeout_ms w =
     (case ws_timeout_ms w of Some t \<Rightarrow> t | None \<Rightarrow> DEFAULT_STAGE_TIMEOUT_MS)"

definition effective_timeout_action :: "WorkflowStage \<Rightarrow> TimeoutAction" where
  "effective_timeout_action w = (case ws_on_timeout w of Some a \<Rightarrow> a | None \<Rightarrow> Notify)"

record Workflow =
  wf_id :: string
  wf_version :: u64
  wf_requires :: "WorkflowRequirement list"
  wf_allow_unreviewed :: bool
  wf_stages :: "WorkflowStage list"

abbreviation stage_kind :: "WorkflowStage \<Rightarrow> StageKind" where
  "stage_kind w \<equiv> kind (ws_stage w)"

fun forge_of :: "Stage \<Rightarrow> string option" where
  "forge_of (Stage.Submit forge) = Some forge"
| "forge_of _ = None"

definition forge_kind :: "Workflow \<Rightarrow> string" where
  "forge_kind wfl =
     (case List.find (\<lambda>w. forge_of (ws_stage w) \<noteq> None) (wf_stages wfl) of
        Some w \<Rightarrow> the (forge_of (ws_stage w))
      | None \<Rightarrow> ''local'')"

definition requires_repo :: "Workflow \<Rightarrow> bool" where
  "requires_repo wfl = (Repo \<in> set (wf_requires wfl))"

fun is_branch_work_stage :: "Stage \<Rightarrow> bool" where
  "is_branch_work_stage (Stage.Work _ _ Branch) = True"
| "is_branch_work_stage _ = False"

fun is_bound_approval :: "Stage \<Rightarrow> bool" where
  "is_bound_approval (Stage.Approval _ _ True) = True"
| "is_bound_approval _ = False"

fun is_plan_work :: "Stage \<Rightarrow> bool" where
  "is_plan_work (Stage.Work _ _ Plan) = True"
| "is_plan_work _ = False"

definition is_branch_work :: "WorkflowStage \<Rightarrow> bool" where
  "is_branch_work w = is_branch_work_stage (ws_stage w)"

definition is_head_bound :: "WorkflowStage \<Rightarrow> bool" where
  "is_head_bound w = (stage_kind w = StageKind.Command \<or> is_bound_approval (ws_stage w))"

definition needs_head :: "WorkflowStage \<Rightarrow> bool" where
  "needs_head w =
     (stage_kind w = StageKind.Merge \<or> stage_kind w = StageKind.Command
      \<or> is_bound_approval (ws_stage w))"

section \<open>Save-time rules\<close>

text \<open>
  The free texts of \<open>NotCompletable\<close> are built with \<open>format!\<close> and derived \<open>Debug\<close> output.
  Their parts are kept as data: \<open>'r\<close> stands for the scenario and the reason.
\<close>

datatype 'r WorkflowError =
    DuplicateStageId string
  | ZeroTimeout string
  | InvalidFailureTarget string string
  | UnknownRole string string
  | ZeroApprovalCount string
  | InvalidCommand string
  | QuotedPlaceholder string string
  | PlaceholderWithoutSource string string
  | HeadBoundBeforeWork string string
  | MergeNotLast string
  | NoEarlierWork string
  | NoEarlierBranchWork string
  | SubmitWithoutBranchWork
  | InvalidForge string string
  | RepoRequired
  | MergeWithoutBoundApproval string
  | MergeWithoutCommand string
  | FanoutWithoutPlan string
  | InvalidFanoutSource string
  | PickWithoutApproval string
  | WorkAfterBranchWork string string
  | NotCompletable 'r

definition on_fail_errors :: "Workflow \<Rightarrow> nat \<Rightarrow> WorkflowStage \<Rightarrow> 'r WorkflowError list" where
  "on_fail_errors wfl index w =
     (case ws_on_fail w of
        None \<Rightarrow> []
      | Some target \<Rightarrow>
          (case position (\<lambda>c. ws_id c = target) (wf_stages wfl) of
             Some t \<Rightarrow>
               if t < index \<and> stage_kind (wf_stages wfl ! t) = StageKind.Work then []
               else [InvalidFailureTarget (ws_id w) target]
           | None \<Rightarrow> [InvalidFailureTarget (ws_id w) target]))"

definition has_placeholder_source :: "Workflow \<Rightarrow> nat \<Rightarrow> string \<Rightarrow> bool" where
  "has_placeholder_source wfl index name =
     (if name = ''pr''
      then list_ex (\<lambda>e. stage_kind e = StageKind.Submit) (take index (wf_stages wfl))
      else list_ex is_branch_work (take index (wf_stages wfl)))"

definition command_errors :: "Workflow \<Rightarrow> nat \<Rightarrow> string \<Rightarrow> string \<Rightarrow> 'r WorkflowError list" where
  "command_errors wfl index sid command =
     (if blank command then [InvalidCommand sid]
      else case command_placeholders command of
        Inl p \<Rightarrow> [QuotedPlaceholder sid p]
      | Inr used \<Rightarrow>
          map (PlaceholderWithoutSource sid)
            (filter (\<lambda>p. \<not> has_placeholder_source wfl index p) used))"

fun stage_rule_errors ::
    "Workflow \<Rightarrow> string list \<Rightarrow> nat \<Rightarrow> string \<Rightarrow> Stage \<Rightarrow> 'r WorkflowError list" where
  "stage_rule_errors wfl team_roles index sid (Stage.Submit forge) =
     (if forge \<notin> {''local'', ''github''} \<or> forge \<noteq> forge_kind wfl then [InvalidForge sid forge]
      else [])"
| "stage_rule_errors wfl team_roles index sid (Stage.Work role _ _) =
     (if role \<in> set team_roles then [] else [UnknownRole sid role])"
| "stage_rule_errors wfl team_roles index sid (Stage.Approval (Role role) count _) =
     (if role \<in> set team_roles then [] else [UnknownRole sid role])
     @ (if count = 0 then [ZeroApprovalCount sid] else [])"
| "stage_rule_errors wfl team_roles index sid (Stage.Approval Human count _) =
     (if count = 0 then [ZeroApprovalCount sid] else [])"
| "stage_rule_errors wfl team_roles index sid (Stage.Command command) =
     command_errors wfl index sid command"
| "stage_rule_errors wfl team_roles index sid _ = []"

definition stage_errors :: "Workflow \<Rightarrow> string list \<Rightarrow> nat \<Rightarrow> 'r WorkflowError list" where
  "stage_errors wfl team_roles index =
     (let w = wf_stages wfl ! index in
      (if ws_id w \<in> set (map ws_id (take index (wf_stages wfl)))
       then [DuplicateStageId (ws_id w)] else [])
      @ (if ws_timeout_ms w = Some 0 then [ZeroTimeout (ws_id w)] else [])
      @ on_fail_errors wfl index w
      @ stage_rule_errors wfl team_roles index (ws_id w) (ws_stage w))"

definition submit_errors :: "Workflow \<Rightarrow> 'r WorkflowError list" where
  "submit_errors wfl =
     (case position (\<lambda>w. stage_kind w = StageKind.Submit) (wf_stages wfl) of
        Some i \<Rightarrow>
          if list_ex is_branch_work (take i (wf_stages wfl)) then [] else [SubmitWithoutBranchWork]
      | None \<Rightarrow> [])"

definition repo_errors :: "Workflow \<Rightarrow> 'r WorkflowError list" where
  "repo_errors wfl =
     (if list_ex (\<lambda>w. stage_kind w = StageKind.Submit \<or> needs_head w) (wf_stages wfl)
         \<and> \<not> requires_repo wfl
      then [RepoRequired] else [])"

definition merge_errors :: "Workflow \<Rightarrow> nat \<Rightarrow> 'r WorkflowError list" where
  "merge_errors wfl index =
     (let w = wf_stages wfl ! index; earlier = take index (wf_stages wfl) in
      if stage_kind w = StageKind.Merge then
        (if list_ex (\<lambda>e. stage_kind e = StageKind.Command) earlier then []
         else [MergeWithoutCommand (ws_id w)])
        @ (if index + 1 \<noteq> length (wf_stages wfl) then [MergeNotLast (ws_id w)] else [])
        @ (if \<not> list_ex (\<lambda>e. is_bound_approval (ws_stage e)) earlier \<and> \<not> wf_allow_unreviewed wfl
           then [MergeWithoutBoundApproval (ws_id w)] else [])
      else [])"

definition fanout_errors :: "Workflow \<Rightarrow> nat \<Rightarrow> 'r WorkflowError list" where
  "fanout_errors wfl index =
     (let w = wf_stages wfl ! index in
      case ws_stage w of
        Stage.Fanout source join \<Rightarrow>
          (case source of
             Listed children \<Rightarrow>
               if children = [] \<or> list_ex blank children \<or> has_duplicate children
               then [InvalidFanoutSource (ws_id w)] else []
           | WorkOutput \<Rightarrow>
               if list_ex (\<lambda>e. is_plan_work (ws_stage e)) (take index (wf_stages wfl)) then []
               else [FanoutWithoutPlan (ws_id w)])
          @ (if join = Pick
                \<and> (case slice_get (wf_stages wfl) (index + 1) of
                     None \<Rightarrow> True
                   | Some following \<Rightarrow> stage_kind following \<noteq> StageKind.Approval)
             then [PickWithoutApproval (ws_id w)] else [])
      | _ \<Rightarrow> [])"

definition head_bound_before_work_errors :: "Workflow \<Rightarrow> 'r WorkflowError list" where
  "head_bound_before_work_errors wfl =
     (case rposition is_branch_work (wf_stages wfl) of
        None \<Rightarrow> []
      | Some last_branch_work \<Rightarrow>
          map (\<lambda>w. HeadBoundBeforeWork (ws_id w) (ws_id (wf_stages wfl ! last_branch_work)))
            (filter is_head_bound (take last_branch_work (wf_stages wfl))))"

definition earlier_work_errors :: "Workflow \<Rightarrow> nat \<Rightarrow> 'r WorkflowError list" where
  "earlier_work_errors wfl index =
     (let w = wf_stages wfl ! index; earlier = take index (wf_stages wfl) in
      (if stage_kind w \<in> {StageKind.Command, StageKind.Approval}
          \<and> \<not> list_ex (\<lambda>e. stage_kind e = StageKind.Work) earlier
       then [NoEarlierWork (ws_id w)] else [])
      @ (if needs_head w \<and> \<not> list_ex is_branch_work earlier
         then [NoEarlierBranchWork (ws_id w)] else []))"

definition work_after_branch_work_errors :: "Workflow \<Rightarrow> 'r WorkflowError list" where
  "work_after_branch_work_errors wfl =
     (if list_ex needs_head (wf_stages wfl)
      then (case rposition is_branch_work (wf_stages wfl) of
              None \<Rightarrow> []
            | Some last_branch_work \<Rightarrow>
                map (\<lambda>w. WorkAfterBranchWork (ws_id w) (ws_id (wf_stages wfl ! last_branch_work)))
                  (filter (\<lambda>w. stage_kind w = StageKind.Work)
                    (drop (last_branch_work + 1) (wf_stages wfl))))
      else [])"

definition static_errors :: "Workflow \<Rightarrow> string list \<Rightarrow> 'r WorkflowError list" where
  "static_errors wfl team_roles =
     (let indices = [0..<length (wf_stages wfl)] in
      concat (map (stage_errors wfl team_roles) indices)
      @ submit_errors wfl @ repo_errors wfl
      @ concat (map (merge_errors wfl) indices)
      @ concat (map (fanout_errors wfl) indices)
      @ head_bound_before_work_errors wfl
      @ concat (map (earlier_work_errors wfl) indices)
      @ work_after_branch_work_errors wfl)"

section \<open>Built-in workflows\<close>

definition builtin_code :: Workflow where
  "builtin_code =
     \<lparr>wf_id = ''code'', wf_version = 1, wf_requires = [Repo], wf_allow_unreviewed = False,
      wf_stages =
       [WorkflowStage_new ''work'' (Stage.Work ''dev'' [] Branch),
        WorkflowStage_new ''submit'' (Stage.Submit ''local''),
        \<lparr>ws_id = ''checks'', ws_stage = Stage.Command ''cargo test'',
         ws_timeout_ms = Some 300000, ws_on_timeout = None, ws_on_fail = None\<rparr>,
        WorkflowStage_new ''review'' (Stage.Approval (Role ''reviewer'') 1 True),
        WorkflowStage_new ''merge'' Stage.Merge]\<rparr>"

definition builtin_research :: Workflow where
  "builtin_research =
     \<lparr>wf_id = ''research'', wf_version = 1, wf_requires = [], wf_allow_unreviewed = False,
      wf_stages =
       [WorkflowStage_new ''work'' (Stage.Work ''researcher'' [] Result),
        WorkflowStage_new ''review'' (Stage.Approval (Role ''reviewer'') 1 False)]\<rparr>"

definition builtin_planned :: Workflow where
  "builtin_planned =
     \<lparr>wf_id = ''planned'', wf_version = 1, wf_requires = [Repo], wf_allow_unreviewed = False,
      wf_stages =
       [WorkflowStage_new ''plan'' (Stage.Work ''planner'' [] Result),
        WorkflowStage_new ''plan_review'' (Stage.Approval Human 1 False),
        WorkflowStage_new ''work'' (Stage.Work ''dev'' [] Branch),
        WorkflowStage_new ''submit'' (Stage.Submit ''local''),
        \<lparr>ws_id = ''checks'', ws_stage = Stage.Command ''cargo test'',
         ws_timeout_ms = Some 300000, ws_on_timeout = None, ws_on_fail = None\<rparr>,
        WorkflowStage_new ''review'' (Stage.Approval (Role ''reviewer'') 1 True),
        WorkflowStage_new ''merge'' Stage.Merge]\<rparr>"

definition builtin_epic :: Workflow where
  "builtin_epic =
     \<lparr>wf_id = ''epic'', wf_version = 1, wf_requires = [], wf_allow_unreviewed = False,
      wf_stages =
       [WorkflowStage_new ''plan'' (Stage.Work ''planner'' [] Plan),
        WorkflowStage_new ''fanout'' (Stage.Fanout WorkOutput All),
        WorkflowStage_new ''review'' (Stage.Approval Human 1 False)]\<rparr>"

end
