(* ===== verification/Merge_Gate.thy ===== *)
theory Merge_Gate
  imports Prelude
begin

text \<open>
  The merge gate and approval retention of \<^verbatim>\<open>crates/agend-core/src/policy/merge_gate.rs\<close>: one
  fact per command and approval stage before the merge stage, the first blocker found in the order
  of the source, and the decision whether a rebase keeps an approval. The locale \<open>merge_policy\<close>
  is what the pipeline relies on: an open gate means that every fact is satisfied.
\<close>

datatype GateFact =
    Check string "string list"
  | ApprovalFact string bool "string option list"

datatype MergeBlocker =
    NoHead
  | NoChecks
  | NoBoundApproval
  | ChecksNotPassed string
  | ApprovalMissing string
  | HeadChanged string

record MergeGateResult =
  allowed :: bool
  gate_blocker :: "MergeBlocker option"

definition approval_satisfied :: "bool \<Rightarrow> string option list \<Rightarrow> string option \<Rightarrow> bool" where
  "approval_satisfied bind heads cur =
     (if bind then cur \<noteq> None \<and> cur \<in> set heads else heads \<noteq> [])"

fun is_check :: "GateFact \<Rightarrow> bool" where
  "is_check (Check _ _) = True"
| "is_check _ = False"

fun is_bound_fact :: "GateFact \<Rightarrow> bool" where
  "is_bound_fact (ApprovalFact _ True _) = True"
| "is_bound_fact _ = False"

fun fact_blocker :: "string \<Rightarrow> GateFact \<Rightarrow> MergeBlocker option" where
  "fact_blocker h (Check sid passed_heads) =
     (if h \<in> set passed_heads then None else Some (ChecksNotPassed sid))"
| "fact_blocker h (ApprovalFact sid bind heads) =
     (if approval_satisfied bind heads (Some h) then None
      else Some (if heads = [] then ApprovalMissing sid else HeadChanged sid))"

fun first_blocker :: "string \<Rightarrow> GateFact list \<Rightarrow> MergeBlocker option" where
  "first_blocker h [] = None"
| "first_blocker h (f # fs) =
     (case fact_blocker h f of Some b \<Rightarrow> Some b | None \<Rightarrow> first_blocker h fs)"

definition blocker :: "string option \<Rightarrow> GateFact list \<Rightarrow> bool \<Rightarrow> MergeBlocker option" where
  "blocker cur facts allow_unreviewed =
     (case cur of
        None \<Rightarrow> Some NoHead
      | Some h \<Rightarrow>
          if \<not> list_ex is_check facts then Some NoChecks
          else if \<not> allow_unreviewed \<and> \<not> list_ex is_bound_fact facts then Some NoBoundApproval
          else first_blocker h facts)"

definition evaluate :: "string option \<Rightarrow> GateFact list \<Rightarrow> bool \<Rightarrow> MergeGateResult" where
  "evaluate cur facts allow_unreviewed =
     (let b = blocker cur facts allow_unreviewed in \<lparr>allowed = (b = None), gate_blocker = b\<rparr>)"

record RebaseOutcome =
  ro_conflict :: bool
  ro_rebased_head :: "string option"
  ro_previous_patch_id :: string
  ro_rebased_patch_id :: "string option"

datatype ApprovalAfterRebase = Keep string | ReturnToWork

definition approval_after_rebase :: "RebaseOutcome \<Rightarrow> ApprovalAfterRebase" where
  "approval_after_rebase o' =
     (if ro_conflict o' \<or> ro_rebased_patch_id o' \<noteq> Some (ro_previous_patch_id o')
      then ReturnToWork
      else case ro_rebased_head o' of Some h \<Rightarrow> Keep h | None \<Rightarrow> ReturnToWork)"

section \<open>The interface\<close>

text \<open>What one fact asks for, independently of the order in which blockers are reported.\<close>

fun fact_holds :: "string \<Rightarrow> GateFact \<Rightarrow> bool" where
  "fact_holds h (Check _ passed_heads) \<longleftrightarrow> h \<in> set passed_heads"
| "fact_holds h (ApprovalFact _ bind heads) \<longleftrightarrow> (if bind then Some h \<in> set heads else heads \<noteq> [])"

locale merge_policy =
  fixes gate :: "string option \<Rightarrow> GateFact list \<Rightarrow> bool \<Rightarrow> MergeGateResult"
  assumes gate_iff:
    "allowed (gate cur facts unrev) \<longleftrightarrow>
       (\<exists>h. cur = Some h \<and> (\<exists>f \<in> set facts. is_check f)
          \<and> (unrev \<or> (\<exists>f \<in> set facts. is_bound_fact f)) \<and> (\<forall>f \<in> set facts. fact_holds h f))"
begin

lemma open_head: "allowed (gate cur facts unrev) \<Longrightarrow> cur \<noteq> None"
  by (auto simp: gate_iff)

lemma open_fact: "allowed (gate (Some h) facts unrev) \<Longrightarrow> f \<in> set facts \<Longrightarrow> fact_holds h f"
  by (auto simp: gate_iff)

lemma open_reviewed:
  "allowed (gate cur facts False) \<Longrightarrow> \<exists>f \<in> set facts. is_bound_fact f"
  by (auto simp: gate_iff)

lemma gate_cong: "set facts = set facts' \<Longrightarrow> allowed (gate cur facts unrev) = allowed (gate cur facts' unrev)"
  by (simp add: gate_iff)

end

lemma fact_blocker_None: "fact_blocker h f = None \<longleftrightarrow> fact_holds h f"
  by (cases f) (auto simp: approval_satisfied_def)

lemma first_blocker_None: "first_blocker h fs = None \<longleftrightarrow> (\<forall>f \<in> set fs. fact_holds h f)"
  by (induction fs) (auto simp: fact_blocker_None [symmetric] split: option.splits)

lemma first_blocker_Some:
  "first_blocker h fs = Some b \<Longrightarrow>
     \<exists>pre f post. fs = pre @ f # post \<and> (\<forall>g \<in> set pre. fact_holds h g) \<and> fact_blocker h f = Some b"
proof (induction fs)
  case Nil
  then show ?case by simp
next
  case (Cons f fs)
  show ?case
  proof (cases "fact_blocker h f")
    case None
    with Cons.prems have "first_blocker h fs = Some b" by simp
    then obtain pre g post where fs: "fs = pre @ g # post" and pre: "\<forall>x \<in> set pre. fact_holds h x"
      and g: "fact_blocker h g = Some b"
      using Cons.IH by blast
    have "f # fs = (f # pre) @ g # post" using fs by simp
    moreover have "\<forall>x \<in> set (f # pre). fact_holds h x"
      using pre None by (simp add: fact_blocker_None)
    ultimately show ?thesis using g by blast
  next
    case (Some c)
    with Cons.prems have "fact_blocker h f = Some b" by simp
    then show ?thesis by (intro exI [of _ "[]"] exI [of _ f] exI [of _ fs]) simp
  qed
qed

interpretation gate: merge_policy evaluate
  by unfold_locales
    (auto simp: evaluate_def blocker_def first_blocker_None list_ex_iff split: option.splits)

text \<open>C23: an open gate means exactly that there is a head, that at least one check stage exists,
  that a head-bound approval stage exists unless the workflow allows unreviewed merges, that every
  check passed on exactly this head and that every approval stage is satisfied for this head.\<close>

theorem evaluate_allowed_iff:
  "allowed (evaluate cur facts unrev) \<longleftrightarrow>
     (\<exists>h. cur = Some h \<and> (\<exists>f \<in> set facts. is_check f)
        \<and> (unrev \<or> (\<exists>f \<in> set facts. is_bound_fact f)) \<and> (\<forall>f \<in> set facts. fact_holds h f))"
  by (rule gate.gate_iff)

theorem evaluate_allowed_iff_witness:
  "allowed (evaluate (Some ''h'')
     [Check ''checks'' [''h''], ApprovalFact ''review'' True [Some ''h'']] False)
   \<and> \<not> allowed (evaluate (Some ''h2'')
     [Check ''checks'' [''h2''], ApprovalFact ''review'' True [Some ''h'']] False)"
  by (simp add: evaluate_allowed_iff)

lemma approval_after_rebase_Keep:
  "approval_after_rebase o' = Keep h \<longleftrightarrow>
     \<not> ro_conflict o' \<and> ro_rebased_patch_id o' = Some (ro_previous_patch_id o')
       \<and> ro_rebased_head o' = Some h"
  by (auto simp: approval_after_rebase_def split: option.splits)

end
