(* ===== verification/Pipeline_State.thy ===== *)
theory Pipeline_State
  imports Workflow_Spec Merge_Gate
begin

text \<open>
  The workflow state machine of \<^verbatim>\<open>crates/agend-core/src/pipeline/state.rs\<close>: the state record, the
  events and actions, every helper and the function \<open>step\<close>. A helper that takes
  \<open>&mut PipelineState\<close> and \<open>&mut Vec<PipelineAction>\<close> becomes a function that returns the new
  state and the actions it pushes; its caller appends them in the same order.

  A rejected event is \<open>Rejected e\<close> with the source's \<open>TransitionError\<close>. \<open>Panic\<close> is an index out of
  bounds (\<open>state.attempts[index]\<close>), which aborts the call in Rust. Attempts are \<open>u32\<close> words: the
  increment wraps around, as it does in a release build.
\<close>

section \<open>Data\<close>

datatype PipelineStatus = Pending | Running | Done | Failed | Cancelled

fun is_terminal :: "PipelineStatus \<Rightarrow> bool" where
  "is_terminal PipelineStatus.Done = True"
| "is_terminal PipelineStatus.Failed = True"
| "is_terminal PipelineStatus.Cancelled = True"
| "is_terminal _ = False"

record PassedCheck =
  pc_stage_id :: string
  pc_head :: "string option"

record ApprovalRecord =
  ar_stage_id :: string
  ar_head :: "string option"
  ar_patch_id :: "string option"
  ar_reviewers :: "string list"

datatype WorkProduct =
    BranchProduct string string string
  | ResultProduct string "string option"
  | PlanProduct "string list"

datatype PendingHeadChange =
    CommitCreated string string
  | MainAdvanced string string bool

record PipelineState =
  task_id :: string
  pending_work_reason :: "string option"
  workflow :: Workflow
  stage_index :: nat
  status :: PipelineStatus
  branch :: "string option"
  current_head :: "string option"
  patch_id :: "string option"
  change_id :: "string option"
  work_product :: "WorkProduct option"
  approval_reviewers :: "string list"
  pending_pick :: "string option"
  attempts :: "u32 list"
  approvals :: "ApprovalRecord list"
  passed_checks :: "PassedCheck list"
  fanout_child_task_ids :: "string list"
  selected_fanout_child :: "string option"
  merge_commit :: "string option"
  pending_head_changes :: "PendingHeadChange list"
  notified_timeout :: "(nat \<times> u32) option"

datatype PipelineEvent =
    Start
  | WorkCompleted string u32 WorkProduct
  | Submitted string u32 "string option"
  | CommandFinished string u32 "string option" "int option"
  | ApprovalGranted string u32 string "string option" "string option"
  | ChangesRequested string u32 string "string option" string
  | CommitCreated string string
  | MainAdvanced string string bool
  | FanoutCompleted string u32 "string list" "string option"
  | StageFailed string u32 string
  | StageTimedOut string u32
  | Cancel string
  | MergeCompleted string u32 string string
  | MergeFailed string u32 string string

datatype PipelineAction =
    AssignWork string u32 string
  | ReturnToWork string u32 string string
  | Submit string u32 string
  | RunCommand string u32 string "string option" "string option" "string option" u64 TimeoutAction
  | RequestApproval string u32 bool "string option" "string list"
  | Merge string u32 string
  | Fanout string u32 FanoutSource FanoutJoin "WorkProduct option" "string option"
  | CancelFanoutSiblings string "string list"
  | ScheduleTimeout string u32 u64 TimeoutAction
  | NotifyTimeout string
  | ReassignStage string
  | TaskCancelled "string option" string
  | TaskFailed string string
  | TaskDone "string option"

datatype TransitionError =
    NotPending
  | NotRunning
  | WrongStage
  | MissingHead
  | MergeGateClosed
  | EmptyWorkflow
  | StaleResult
  | InvalidWorkProduct
  | InvalidStageIndex
  | InvalidFanoutChildren
  | FanoutSelectionRequired
  | InvalidFanoutSelection
  | UnexpectedFanoutSelection
  | MergeInFlight

datatype StepFailure = Rejected TransitionError | Panic

type_synonym step_result = "StepFailure + PipelineState \<times> PipelineAction list"

abbreviation reject :: "TransitionError \<Rightarrow> StepFailure + 'a" where
  "reject e \<equiv> Inl (Rejected e)"

abbreviation stages :: "PipelineState \<Rightarrow> WorkflowStage list" where
  "stages st \<equiv> wf_stages (workflow st)"

section \<open>Construction and reads\<close>

definition state_unchecked :: "string \<Rightarrow> Workflow \<Rightarrow> PipelineState" where
  "state_unchecked task wfl =
     \<lparr>task_id = task, pending_work_reason = None, workflow = wfl, stage_index = 0,
      status = PipelineStatus.Pending, branch = None, current_head = None, patch_id = None,
      change_id = None, work_product = None, approval_reviewers = [], pending_pick = None,
      attempts = replicate (length (wf_stages wfl)) 0, approvals = [], passed_checks = [],
      fanout_child_task_ids = [], selected_fanout_child = None, merge_commit = None,
      pending_head_changes = [], notified_timeout = None\<rparr>"

definition current_stage :: "PipelineState \<Rightarrow> WorkflowStage option" where
  "current_stage st = slice_get (stages st) (stage_index st)"

definition attempt :: "PipelineState \<Rightarrow> u32" where
  "attempt st = (case slice_get (attempts st) (stage_index st) of Some a \<Rightarrow> a | None \<Rightarrow> 0)"

definition without_pending_head_changes :: "PipelineState \<Rightarrow> PipelineState" where
  "without_pending_head_changes st = st\<lparr>pending_head_changes := []\<rparr>"

definition current_kind_is :: "PipelineState \<Rightarrow> StageKind \<Rightarrow> bool" where
  "current_kind_is st k = (case current_stage st of Some w \<Rightarrow> stage_kind w = k | None \<Rightarrow> False)"

definition merge_in_flight :: "PipelineState \<Rightarrow> bool" where
  "merge_in_flight st =
     (status st = PipelineStatus.Running \<and> current_kind_is st StageKind.Merge)"

definition approval_heads :: "PipelineState \<Rightarrow> string \<Rightarrow> string option list" where
  "approval_heads st sid = map ar_head (filter (\<lambda>a. ar_stage_id a = sid) (approvals st))"

definition passed_heads :: "PipelineState \<Rightarrow> string \<Rightarrow> string list" where
  "passed_heads st sid =
     List.map_filter pc_head (filter (\<lambda>c. pc_stage_id c = sid) (passed_checks st))"

fun gate_fact :: "PipelineState \<Rightarrow> string \<Rightarrow> Stage \<Rightarrow> GateFact option" where
  "gate_fact st sid (Stage.Command _) = Some (Check sid (passed_heads st sid))"
| "gate_fact st sid (Stage.Approval _ _ bind) = Some (ApprovalFact sid bind (approval_heads st sid))"
| "gate_fact st sid _ = None"

definition merge_gate :: "PipelineState \<Rightarrow> nat \<Rightarrow> MergeGateResult" where
  "merge_gate st merge_index =
     evaluate (current_head st)
       (List.map_filter (\<lambda>w. gate_fact st (ws_id w) (ws_stage w)) (take merge_index (stages st)))
       (wf_allow_unreviewed (workflow st))"

section \<open>Guards\<close>

definition ensure_running :: "PipelineState \<Rightarrow> StepFailure + unit" where
  "ensure_running st =
     (if status st \<noteq> PipelineStatus.Running then reject NotRunning
      else if current_stage st = None then reject InvalidStageIndex
      else Inr ())"

definition ensure_current_stage :: "PipelineState \<Rightarrow> StageKind \<Rightarrow> StepFailure + unit" where
  "ensure_current_stage st k =
     and_then (ensure_running st) (\<lambda>_. ensure (current_kind_is st k) (Rejected WrongStage))"

definition current_approval :: "PipelineState \<Rightarrow> StepFailure + bool \<times> u8" where
  "current_approval st =
     and_then (ensure_current_stage st StageKind.Approval) (\<lambda>_.
       case map_option ws_stage (current_stage st) of
         Some (Stage.Approval _ count bind) \<Rightarrow>
           if bind \<and> current_head st = None then reject MissingHead else Inr (bind, count)
       | _ \<Rightarrow> reject WrongStage)"

record Identity =
  id_stage_id :: string
  id_attempt :: u32
  id_head :: "string option option"

fun identity :: "PipelineEvent \<Rightarrow> Identity option" where
  "identity (WorkCompleted sid a _) = Some \<lparr>id_stage_id = sid, id_attempt = a, id_head = None\<rparr>"
| "identity (Submitted sid a _) = Some \<lparr>id_stage_id = sid, id_attempt = a, id_head = None\<rparr>"
| "identity (FanoutCompleted sid a _ _) = Some \<lparr>id_stage_id = sid, id_attempt = a, id_head = None\<rparr>"
| "identity (StageFailed sid a _) = Some \<lparr>id_stage_id = sid, id_attempt = a, id_head = None\<rparr>"
| "identity (StageTimedOut sid a) = Some \<lparr>id_stage_id = sid, id_attempt = a, id_head = None\<rparr>"
| "identity (CommandFinished sid a h _) = Some \<lparr>id_stage_id = sid, id_attempt = a, id_head = Some h\<rparr>"
| "identity (ApprovalGranted sid a _ h _) =
     Some \<lparr>id_stage_id = sid, id_attempt = a, id_head = Some h\<rparr>"
| "identity (ChangesRequested sid a _ h _) =
     Some \<lparr>id_stage_id = sid, id_attempt = a, id_head = Some h\<rparr>"
| "identity (MergeCompleted sid a h _) =
     Some \<lparr>id_stage_id = sid, id_attempt = a, id_head = Some (Some h)\<rparr>"
| "identity (MergeFailed sid a h _) =
     Some \<lparr>id_stage_id = sid, id_attempt = a, id_head = Some (Some h)\<rparr>"
| "identity PipelineEvent.Start = None"
| "identity (PipelineEvent.CommitCreated _ _) = None"
| "identity (PipelineEvent.MainAdvanced _ _ _) = None"
| "identity (PipelineEvent.Cancel _) = None"

text \<open>\<open>needs_head\<close> is the match of \<open>check_identity\<close>: command, merge, head-bound approval.\<close>

definition check_identity :: "PipelineState \<Rightarrow> Identity \<Rightarrow> StepFailure + unit" where
  "check_identity st i =
     and_then (ensure_running st) (\<lambda>_.
     and_then (ok_or (current_stage st) (Rejected InvalidStageIndex)) (\<lambda>w.
       if ws_id w \<noteq> id_stage_id i \<or> attempt st \<noteq> id_attempt i then reject StaleResult
       else if needs_head w
            \<and> (case id_head i of Some h \<Rightarrow> h \<noteq> current_head st | None \<Rightarrow> False)
       then reject StaleResult
       else Inr ()))"

section \<open>Helpers on positions\<close>

definition stage_position :: "Workflow \<Rightarrow> string \<Rightarrow> nat option" where
  "stage_position wfl sid = position (\<lambda>w. ws_id w = sid) (wf_stages wfl)"

definition pick_candidate :: "Workflow \<Rightarrow> nat \<Rightarrow> nat \<Rightarrow> nat option" where
  "pick_candidate wfl approval_index i =
     (case ws_stage (wf_stages wfl ! i) of
        Stage.Fanout _ Pick \<Rightarrow>
          (case position (\<lambda>w. stage_kind w = StageKind.Approval) (drop (i + 1) (wf_stages wfl)) of
             None \<Rightarrow> None
           | Some p \<Rightarrow> if p + i + 1 = approval_index then Some i else None)
      | _ \<Rightarrow> None)"

definition pick_fanout_index_for_approval :: "Workflow \<Rightarrow> nat \<Rightarrow> nat option" where
  "pick_fanout_index_for_approval wfl approval_index =
     (if approval_index \<le> length (wf_stages wfl)
      then find_map (pick_candidate wfl approval_index) (rev [0..<approval_index]) else None)"

definition previous_work :: "PipelineState \<Rightarrow> nat \<Rightarrow> nat option" where
  "previous_work st upto_index =
     (if upto_index \<le> length (stages st)
      then rposition (\<lambda>w. stage_kind w = StageKind.Work) (take upto_index (stages st)) else None)"

definition recheck_target :: "PipelineState \<Rightarrow> nat \<Rightarrow> nat option" where
  "recheck_target st current =
     (case slice_get (stages st) current of
        None \<Rightarrow> None
      | Some w \<Rightarrow>
          if stage_kind w = StageKind.Work then None
          else
            let start = (case rposition is_branch_work (take current (stages st)) of
                           Some work \<Rightarrow> work + 1 | None \<Rightarrow> 0)
            in List.find (\<lambda>i. case slice_get (stages st) i of Some v \<Rightarrow> is_head_bound v | None \<Rightarrow> False)
                 [start..<current + 1])"

definition fanout_at_or_after :: "PipelineState \<Rightarrow> nat \<Rightarrow> bool" where
  "fanout_at_or_after st index =
     (index \<le> length (stages st)
      \<and> list_ex (\<lambda>w. stage_kind w = StageKind.Fanout) (drop index (stages st)))"

definition approval_for_stage :: "PipelineState \<Rightarrow> WorkflowStage \<Rightarrow> bool" where
  "approval_for_stage st w =
     (case ws_stage w of
        Stage.Approval _ _ bind \<Rightarrow>
          approval_satisfied bind (approval_heads st (ws_id w)) (current_head st)
      | _ \<Rightarrow> False)"

section \<open>Helpers on records\<close>

definition clear_partial :: "PipelineState \<Rightarrow> PipelineState" where
  "clear_partial st = st\<lparr>approval_reviewers := [], pending_pick := None\<rparr>"

definition is_pick_record :: "Workflow \<Rightarrow> ApprovalRecord \<Rightarrow> bool" where
  "is_pick_record wfl a =
     (case stage_position wfl (ar_stage_id a) of
        Some i \<Rightarrow> pick_fanout_index_for_approval wfl i \<noteq> None
      | None \<Rightarrow> False)"

definition drop_approvals ::
    "(Workflow \<Rightarrow> ApprovalRecord \<Rightarrow> bool) \<Rightarrow> PipelineState \<Rightarrow> PipelineState" where
  "drop_approvals keep st =
     (let pick_dropped =
        list_ex (\<lambda>a. \<not> keep (workflow st) a \<and> is_pick_record (workflow st) a) (approvals st)
      in clear_partial
        (st\<lparr>approvals := filter (keep (workflow st)) (approvals st),
            selected_fanout_child := (if pick_dropped then None else selected_fanout_child st)\<rparr>))"

definition invalidate_head_bound :: "PipelineState \<Rightarrow> PipelineState" where
  "invalidate_head_bound st =
     (let st1 = drop_approvals (\<lambda>_ a. ar_head a = None \<or> ar_head a = current_head st) st
      in st1\<lparr>passed_checks := filter (\<lambda>c. pc_head c = current_head st) (passed_checks st1)\<rparr>)"

definition clear_fanout :: "PipelineState \<Rightarrow> PipelineState" where
  "clear_fanout st = st\<lparr>fanout_child_task_ids := [], selected_fanout_child := None\<rparr>"

definition recorded_before :: "Workflow \<Rightarrow> nat \<Rightarrow> string \<Rightarrow> bool" where
  "recorded_before wfl target sid =
     (case stage_position wfl sid of Some i \<Rightarrow> i < target | None \<Rightarrow> False)"

definition forget_from :: "nat \<Rightarrow> PipelineState \<Rightarrow> PipelineState" where
  "forget_from target st =
     drop_approvals (\<lambda>wfl a. recorded_before wfl target (ar_stage_id a))
       (st\<lparr>passed_checks :=
            filter (\<lambda>c. recorded_before (workflow st) target (pc_stage_id c)) (passed_checks st)\<rparr>)"

definition keep_only_winner :: "string \<Rightarrow> PipelineState \<Rightarrow> PipelineState \<times> PipelineAction list" where
  "keep_only_winner winner st =
     (let siblings = filter (\<lambda>t. t \<noteq> winner) (fanout_child_task_ids st) in
      (st\<lparr>fanout_child_task_ids := [winner], selected_fanout_child := Some winner\<rparr>,
       if siblings \<noteq> [] then [CancelFanoutSiblings winner siblings] else []))"

definition fail_task :: "string \<Rightarrow> string \<Rightarrow> PipelineState \<Rightarrow> PipelineState \<times> PipelineAction list" where
  "fail_task sid reason st =
     (clear_partial (st\<lparr>status := PipelineStatus.Failed\<rparr>), [TaskFailed sid reason])"

definition cancel ::
    "string option \<Rightarrow> string \<Rightarrow> PipelineState \<Rightarrow> PipelineState \<times> PipelineAction list" where
  "cancel sid reason st =
     (clear_partial (st\<lparr>status := PipelineStatus.Cancelled\<rparr>), [TaskCancelled sid reason])"

text \<open>\<open>state.attempts[index] += 1\<close>, with the new value.\<close>

definition bump_attempt :: "nat \<Rightarrow> PipelineState \<Rightarrow> StepFailure + PipelineState \<times> u32" where
  "bump_attempt index st =
     (case slice_get (attempts st) index of
        None \<Rightarrow> Inl Panic
      | Some a \<Rightarrow> Inr (st\<lparr>attempts := (attempts st)[index := a + 1]\<rparr>, a + 1))"

section \<open>Entering a stage\<close>

text \<open>A fanout that runs (again) makes new children: lines 2018--2032 of the loop.\<close>

definition reset_fanout_at :: "nat \<Rightarrow> PipelineState \<Rightarrow> PipelineState" where
  "reset_fanout_at index st =
     (case slice_get (stages st) index of
        Some w \<Rightarrow>
          if stage_kind w = StageKind.Fanout
          then (clear_fanout st)
            \<lparr>approvals := filter (\<lambda>a. recorded_before (workflow st) index (ar_stage_id a)) (approvals st)\<rparr>
          else st
      | None \<Rightarrow> st)"

definition prepare_stage :: "nat \<Rightarrow> PipelineState \<Rightarrow> PipelineState" where
  "prepare_stage index st =
     st\<lparr>stage_index := index, pending_work_reason := None, approval_reviewers := [],
        pending_pick := None\<rparr>"

definition schedule :: "WorkflowStage \<Rightarrow> u32 \<Rightarrow> PipelineAction" where
  "schedule w a = ScheduleTimeout (ws_id w) a (effective_timeout_ms w) (effective_timeout_action w)"

text \<open>
  The action of the stage at \<open>index\<close> with attempt \<open>a\<close>. \<open>Inl (Inl reason)\<close> is a command template
  that cannot be expanded, for which the task fails; \<open>Inl (Inr e)\<close> is a rejected event.
\<close>

definition stage_request ::
    "PipelineState \<Rightarrow> nat \<Rightarrow> WorkflowStage \<Rightarrow> u32 \<Rightarrow> (string + StepFailure) + PipelineAction" where
  "stage_request st index w a =
     (case ws_stage w of
        Stage.Work role _ _ \<Rightarrow> Inr (AssignWork (ws_id w) a role)
      | Stage.Submit forge \<Rightarrow> Inr (PipelineAction.Submit (ws_id w) a forge)
      | Stage.Command command \<Rightarrow>
          (case expand_command_placeholders command
                  \<lparr>ctx_pr = change_id st, ctx_head = current_head st, ctx_branch = branch st\<rparr> of
             Inr c \<Rightarrow>
               Inr (RunCommand (ws_id w) a c (current_head st) (branch st) (change_id st)
                      (effective_timeout_ms w) (effective_timeout_action w))
           | Inl e \<Rightarrow> Inl (Inl (CommandTemplateError_to_string e)))
      | Stage.Approval _ _ bind \<Rightarrow>
          Inr (RequestApproval (ws_id w) a bind (if bind then current_head st else None)
                 (if pick_fanout_index_for_approval (workflow st) index \<noteq> None
                  then fanout_child_task_ids st else []))
      | Stage.Merge \<Rightarrow>
          if \<not> allowed (merge_gate st index) then Inl (Inr (Rejected MergeGateClosed))
          else (case current_head st of
                  Some h \<Rightarrow> Inr (PipelineAction.Merge (ws_id w) a h)
                | None \<Rightarrow> Inl (Inr (Rejected MissingHead)))
      | Stage.Fanout source join \<Rightarrow>
          Inr (PipelineAction.Fanout (ws_id w) a source join (work_product st) (current_head st)))"

definition request_stage :: "nat \<Rightarrow> WorkflowStage \<Rightarrow> PipelineState \<Rightarrow> step_result" where
  "request_stage index w st =
     and_then (bump_attempt index st) (\<lambda>(st', a).
       case stage_request st' index w a of
         Inr act \<Rightarrow> Inr (st', [schedule w a, act])
       | Inl (Inl reason) \<Rightarrow> Inr (fail_task (ws_id w) reason st')
       | Inl (Inr e) \<Rightarrow> Inl e)"

lemma workflow_reset_fanout_at [simp]: "workflow (reset_fanout_at i st) = workflow st"
  by (simp add: reset_fanout_at_def clear_fanout_def split: option.splits)

function enter_stage :: "nat \<Rightarrow> PipelineState \<Rightarrow> step_result" where
  "enter_stage index st =
     (let st1 = reset_fanout_at index st in
      case slice_get (stages st1) index of
        None \<Rightarrow>
          Inr (st1\<lparr>stage_index := length (stages st1), status := PipelineStatus.Done\<rparr>,
               [TaskDone (merge_commit st1)])
      | Some w \<Rightarrow>
          let st2 = prepare_stage index st1 in
          if approval_for_stage st2 w then enter_stage (index + 1) st2
          else request_stage index w st2)"
  by pat_completeness auto
termination
  by (relation "measure (\<lambda>(index, st). length (stages st) - index)")
    (auto simp: prepare_stage_def slice_get_def split: if_splits)

declare enter_stage.simps [simp del]

section \<open>Rework and failure\<close>

definition return_to_work :: "nat \<Rightarrow> string \<Rightarrow> PipelineState \<Rightarrow> step_result" where
  "return_to_work target reason st =
     (let st1 = forget_from target st;
          st2 = (if fanout_at_or_after st1 target then clear_fanout st1 else st1);
          st3 = st2\<lparr>work_product := None, pending_work_reason := Some reason\<rparr>
      in and_then (ok_or (slice_get (stages st3) target) (Rejected InvalidStageIndex)) (\<lambda>w.
         case ws_stage w of
           Stage.Work role _ _ \<Rightarrow>
             and_then (bump_attempt target (st3\<lparr>stage_index := target\<rparr>)) (\<lambda>(st4, a).
               Inr (st4, [schedule w a, PipelineAction.ReturnToWork (ws_id w) a role reason]))
         | _ \<Rightarrow> reject WrongStage))"

definition explicit_target :: "PipelineState \<Rightarrow> nat \<Rightarrow> WorkflowStage \<Rightarrow> nat option" where
  "explicit_target st failed_index failed =
     (case ws_on_fail failed of
        None \<Rightarrow> None
      | Some target \<Rightarrow>
          position (\<lambda>w. ws_id w = target \<and> stage_kind w = StageKind.Work)
            (take failed_index (stages st)))"

definition default_target :: "PipelineState \<Rightarrow> nat \<Rightarrow> WorkflowStage \<Rightarrow> nat option" where
  "default_target st failed_index failed =
     (if stage_kind failed \<in> {StageKind.Command, StageKind.Approval}
      then previous_work st failed_index else None)"

definition fail_stage :: "nat \<Rightarrow> string \<Rightarrow> PipelineState \<Rightarrow> step_result" where
  "fail_stage failed_index reason st =
     and_then (ok_or (slice_get (stages st) failed_index) (Rejected InvalidStageIndex)) (\<lambda>failed.
       case or_else (explicit_target st failed_index failed) (default_target st failed_index failed) of
         Some target \<Rightarrow> return_to_work target reason st
       | None \<Rightarrow> Inr (fail_task (ws_id failed) reason st))"

section \<open>Head changes\<close>

definition record_new_head :: "string \<Rightarrow> string \<Rightarrow> PipelineState \<Rightarrow> PipelineState" where
  "record_new_head h p st =
     invalidate_head_bound
       (st\<lparr>work_product :=
            (case work_product st of
               Some (BranchProduct b _ _) \<Rightarrow> Some (BranchProduct b h p)
             | other \<Rightarrow> other),
           current_head := Some h, patch_id := Some p\<rparr>)"

definition restart_if_collected :: "PipelineState \<Rightarrow> step_result" where
  "restart_if_collected st =
     (if (current_kind_is st StageKind.Approval \<or> current_kind_is st StageKind.Fanout)
         \<and> \<not> merge_in_flight st
      then enter_stage (stage_index st) st else Inr (st, []))"

definition recheck_for_new_head :: "PipelineState \<Rightarrow> step_result" where
  "recheck_for_new_head st =
     (case recheck_target st (stage_index st) of
        Some target \<Rightarrow> enter_stage target st
      | None \<Rightarrow> restart_if_collected st)"

definition approved_patch_of :: "PipelineState \<Rightarrow> string \<Rightarrow> string option" where
  "approved_patch_of st old_head =
     or_else
       (case List.find (\<lambda>a. ar_head a = Some old_head) (approvals st) of
          Some a \<Rightarrow> ar_patch_id a | None \<Rightarrow> None)
       (patch_id st)"

text \<open>D14: a clean rebase with the same diff keeps the review and repeats the checks.\<close>

definition carry_approvals ::
    "string \<Rightarrow> string \<Rightarrow> string \<Rightarrow> PipelineState \<Rightarrow> PipelineState" where
  "carry_approvals old_head approved_patch new_head st =
     (clear_partial (st\<lparr>passed_checks := []\<rparr>))
       \<lparr>approvals :=
          map (\<lambda>a. if ar_head a = Some old_head \<and> ar_patch_id a = Some approved_patch
                   then a\<lparr>ar_head := Some new_head\<rparr> else a) (approvals st)\<rparr>"

definition rebase_reason :: "bool \<Rightarrow> string" where
  "rebase_reason conflict =
     (if conflict then ''main advanced and the rebase conflicted''
      else ''main advanced and the rebase changed the patch'')"

definition rebase_to_work :: "string \<Rightarrow> string \<Rightarrow> bool \<Rightarrow> PipelineState \<Rightarrow> step_result" where
  "rebase_to_work rebased_head p conflict st =
     (let current = stage_index st;
          st1 = (if \<not> conflict then record_new_head rebased_head p st else invalidate_head_bound st)
      in case previous_work st1 current of
           Some work \<Rightarrow> return_to_work work (rebase_reason conflict) st1
         | None \<Rightarrow>
             (case slice_get (stages st1) current of
                Some w \<Rightarrow> Inr (fail_task (ws_id w) (rebase_reason conflict) st1)
              | None \<Rightarrow> Inl Panic))"

definition main_advanced :: "string \<Rightarrow> string \<Rightarrow> bool \<Rightarrow> PipelineState \<Rightarrow> step_result" where
  "main_advanced rebased_head p conflict st =
     and_then (ok_or (current_stage st) (Rejected InvalidStageIndex)) (\<lambda>w.
       if branch st = None then Inr (st, [])
       else if \<not> conflict \<and> current_head st = Some rebased_head then Inr (st, [])
       else if stage_kind w \<in> {StageKind.Work, StageKind.Submit} then
         (if conflict then Inr (st, [])
          else recheck_for_new_head (record_new_head rebased_head p st))
       else
         and_then (ok_or (current_head st) (Rejected MissingHead)) (\<lambda>old_head.
         and_then (ok_or (approved_patch_of st old_head) (Rejected MissingHead)) (\<lambda>approved_patch.
           case approval_after_rebase
                  \<lparr>ro_conflict = conflict, ro_rebased_head = Some rebased_head,
                   ro_previous_patch_id = approved_patch,
                   ro_rebased_patch_id = (if \<not> conflict then Some p else None)\<rparr> of
             Keep new_head \<Rightarrow>
               recheck_for_new_head
                 (record_new_head new_head p (carry_approvals old_head approved_patch new_head st))
           | ApprovalAfterRebase.ReturnToWork \<Rightarrow> rebase_to_work rebased_head p conflict st)))"

fun apply_head_change :: "PendingHeadChange \<Rightarrow> PipelineState \<Rightarrow> step_result" where
  "apply_head_change (PendingHeadChange.CommitCreated h p) st =
     (if status st \<noteq> PipelineStatus.Running then Inr (st, [])
      else if current_head st = Some h then Inr (st, [])
      else recheck_for_new_head (record_new_head h p st))"
| "apply_head_change (PendingHeadChange.MainAdvanced h p conflict) st =
     (if status st \<noteq> PipelineStatus.Running then Inr (st, [])
      else main_advanced h p conflict st)"

text \<open>The loop of \<open>merge_failed\<close>: only the last change that did something speaks.\<close>

fun apply_pending ::
    "PendingHeadChange list \<Rightarrow> PipelineAction list \<Rightarrow> PipelineState \<Rightarrow> step_result" where
  "apply_pending [] last_actions st = Inr (st, last_actions)"
| "apply_pending (c # cs) last_actions st =
     and_then (apply_head_change c st) (\<lambda>(st', acts).
       apply_pending cs (if acts \<noteq> [] then acts else last_actions) st')"

definition merge_failed :: "PipelineState \<Rightarrow> step_result" where
  "merge_failed st =
     and_then (apply_pending (pending_head_changes st) [] (st\<lparr>pending_head_changes := []\<rparr>))
       (\<lambda>(st1, acts).
         if merge_in_flight st1 then
           and_then (ok_or (recheck_target st1 (stage_index st1)) (Rejected MergeGateClosed)) (\<lambda>target.
           and_then (enter_stage target st1) (\<lambda>(st2, acts2). Inr (st2, acts @ acts2)))
         else Inr (st1, acts))"

section \<open>The events\<close>

definition on_start :: "PipelineState \<Rightarrow> step_result" where
  "on_start st =
     (if status st \<noteq> PipelineStatus.Pending then reject NotPending
      else if stages st = [] then reject EmptyWorkflow
      else enter_stage 0 (st\<lparr>status := PipelineStatus.Running\<rparr>))"

fun product_fits :: "WorkOutput \<Rightarrow> WorkProduct \<Rightarrow> bool" where
  "product_fits Branch (BranchProduct _ _ _) = True"
| "product_fits Result (ResultProduct _ _) = True"
| "product_fits Plan (PlanProduct _) = True"
| "product_fits _ _ = False"

fun record_product :: "WorkProduct \<Rightarrow> PipelineState \<Rightarrow> PipelineState" where
  "record_product (BranchProduct b h p) st =
     (if current_head st \<noteq> Some h then invalidate_head_bound (st\<lparr>current_head := Some h\<rparr>) else st)
       \<lparr>branch := Some b, current_head := Some h, patch_id := Some p\<rparr>"
| "record_product (PlanProduct _) st =
     (if fanout_at_or_after st (stage_index st) then clear_fanout st else st)"
| "record_product _ st = st"

definition on_work_completed :: "WorkProduct \<Rightarrow> PipelineState \<Rightarrow> step_result" where
  "on_work_completed product st =
     (case map_option ws_stage (current_stage st) of
        Some (Stage.Work _ _ out) \<Rightarrow>
          if \<not> product_fits out product then reject InvalidWorkProduct
          else enter_stage (stage_index st + 1)
                 ((record_product product st)\<lparr>work_product := Some product\<rparr>)
      | _ \<Rightarrow> reject WrongStage)"

definition on_submitted :: "string option \<Rightarrow> PipelineState \<Rightarrow> step_result" where
  "on_submitted cid st =
     and_then (ensure_current_stage st StageKind.Submit) (\<lambda>_.
       enter_stage (stage_index st + 1) (st\<lparr>change_id := cid\<rparr>))"

definition command_failure_reason :: "string \<Rightarrow> int option \<Rightarrow> string" where
  "command_failure_reason sid exit_code =
     (case exit_code of
        Some code \<Rightarrow> ''command `'' @ sid @ ''` failed with exit code '' @ show_int code
      | None \<Rightarrow> ''command `'' @ sid @ ''` did not exit normally'')"

definition push_check :: "string \<Rightarrow> string option \<Rightarrow> PipelineState \<Rightarrow> PipelineState" where
  "push_check sid h st =
     (if list_ex (\<lambda>c. pc_stage_id c = sid \<and> pc_head c = h) (passed_checks st) then st
      else st\<lparr>passed_checks := passed_checks st @ [\<lparr>pc_stage_id = sid, pc_head = h\<rparr>]\<rparr>)"

definition on_command_finished ::
    "string \<Rightarrow> string option \<Rightarrow> int option \<Rightarrow> PipelineState \<Rightarrow> step_result" where
  "on_command_finished sid h exit_code st =
     and_then (ensure_current_stage st StageKind.Command) (\<lambda>_.
       if exit_code = Some 0 then enter_stage (stage_index st + 1) (push_check sid h st)
       else fail_stage (stage_index st) (command_failure_reason sid exit_code) st)"

text \<open>The choice of a pick approval: every reviewer so far chose the same live child.\<close>

definition tentative_pick :: "string option \<Rightarrow> PipelineState \<Rightarrow> StepFailure + PipelineState" where
  "tentative_pick selected st =
     (if pick_fanout_index_for_approval (workflow st) (stage_index st) \<noteq> None then
        and_then (ok_or (or_else selected (pending_pick st)) (Rejected FanoutSelectionRequired))
          (\<lambda>winner.
            if winner \<notin> set (fanout_child_task_ids st)
               \<or> (case pending_pick st of Some p \<Rightarrow> p \<noteq> winner | None \<Rightarrow> False)
            then reject InvalidFanoutSelection
            else Inr (st\<lparr>pending_pick := Some winner\<rparr>))
      else if selected \<noteq> None then reject UnexpectedFanoutSelection
      else Inr st)"

definition record_approval ::
    "string \<Rightarrow> bool \<Rightarrow> string option \<Rightarrow> PipelineState \<Rightarrow> PipelineState" where
  "record_approval sid bind h st =
     st\<lparr>approvals := filter (\<lambda>a. ar_stage_id a \<noteq> sid) (approvals st)
          @ [\<lparr>ar_stage_id = sid, ar_head = (if bind then h else None),
              ar_patch_id = (if bind then patch_id st else None),
              ar_reviewers = approval_reviewers st\<rparr>],
        approval_reviewers := []\<rparr>"

definition settle_pick :: "PipelineState \<Rightarrow> step_result" where
  "settle_pick st =
     (if pick_fanout_index_for_approval (workflow st) (stage_index st) \<noteq> None then
        and_then (ok_or (pending_pick st) (Rejected FanoutSelectionRequired)) (\<lambda>winner.
          Inr (keep_only_winner winner (st\<lparr>pending_pick := None\<rparr>)))
      else Inr (st, []))"

definition on_approval_granted ::
    "string \<Rightarrow> string \<Rightarrow> string option \<Rightarrow> string option \<Rightarrow> PipelineState \<Rightarrow> step_result" where
  "on_approval_granted sid reviewer h selected st =
     and_then (current_approval st) (\<lambda>(bind, count).
       if reviewer \<in> set (approval_reviewers st) then reject StaleResult
       else
         and_then (tentative_pick selected st) (\<lambda>st1.
           let st2 = st1\<lparr>approval_reviewers := approval_reviewers st1 @ [reviewer]\<rparr> in
           if length (approval_reviewers st2) < unat count then Inr (st2, [])
           else
             and_then (settle_pick (record_approval sid bind h st2)) (\<lambda>(st3, acts).
             and_then (enter_stage (stage_index st + 1) st3) (\<lambda>(st4, acts2).
               Inr (st4, acts @ acts2)))))"

definition on_changes_requested :: "string \<Rightarrow> string \<Rightarrow> PipelineState \<Rightarrow> step_result" where
  "on_changes_requested reviewer reason st =
     and_then (current_approval st) (\<lambda>_.
       fail_stage (stage_index st) (''changes requested by '' @ reviewer @ '': '' @ reason) st)"

definition on_commit_created :: "string \<Rightarrow> string \<Rightarrow> PipelineState \<Rightarrow> step_result" where
  "on_commit_created h p st =
     and_then (ensure_running st) (\<lambda>_.
       if \<not> list_ex is_branch_work (stages st) then reject WrongStage
       else if current_head st = Some h then
         Inr (if merge_in_flight st then st\<lparr>pending_head_changes := []\<rparr> else st, [])
       else if merge_in_flight st then
         Inr (st\<lparr>pending_head_changes :=
                  pending_head_changes st @ [PendingHeadChange.CommitCreated h p]\<rparr>, [])
       else apply_head_change (PendingHeadChange.CommitCreated h p) st)"

definition on_main_advanced :: "string \<Rightarrow> string \<Rightarrow> bool \<Rightarrow> PipelineState \<Rightarrow> step_result" where
  "on_main_advanced h p conflict st =
     and_then (ensure_running st) (\<lambda>_.
       if \<not> list_ex (\<lambda>w. stage_kind w = StageKind.Merge) (stages st) then reject WrongStage
       else if merge_in_flight st then
         Inr (st\<lparr>pending_head_changes :=
                  pending_head_changes st @ [PendingHeadChange.MainAdvanced h p conflict]\<rparr>, [])
       else apply_head_change (PendingHeadChange.MainAdvanced h p conflict) st)"

definition join_children ::
    "FanoutJoin \<Rightarrow> string option \<Rightarrow> PipelineState \<Rightarrow> step_result" where
  "join_children join selected st =
     (case join of
        First \<Rightarrow>
          and_then (ok_or selected (Rejected FanoutSelectionRequired)) (\<lambda>winner.
            if winner \<notin> set (fanout_child_task_ids st) then reject InvalidFanoutSelection
            else Inr (keep_only_winner winner st))
      | _ \<Rightarrow> if selected \<noteq> None then reject UnexpectedFanoutSelection else Inr (st, []))"

definition on_fanout_completed ::
    "string list \<Rightarrow> string option \<Rightarrow> PipelineState \<Rightarrow> step_result" where
  "on_fanout_completed children selected st =
     and_then (ensure_current_stage st StageKind.Fanout) (\<lambda>_.
       if children = [] \<or> [] \<in> set children \<or> has_duplicate children
       then reject InvalidFanoutChildren
       else case map_option ws_stage (current_stage st) of
         Some (Stage.Fanout _ join) \<Rightarrow>
           and_then (join_children join selected
                       (st\<lparr>selected_fanout_child := None, fanout_child_task_ids := children\<rparr>))
             (\<lambda>(st1, acts).
               and_then (enter_stage (stage_index st + 1) st1) (\<lambda>(st2, acts2).
                 Inr (st2, acts @ acts2)))
       | _ \<Rightarrow> reject WrongStage)"

definition on_stage_timed_out :: "string \<Rightarrow> PipelineState \<Rightarrow> step_result" where
  "on_stage_timed_out sid st =
     and_then (ok_or (current_stage st) (Rejected InvalidStageIndex)) (\<lambda>w.
       case effective_timeout_action w of
         Notify \<Rightarrow>
           (let this_attempt = (stage_index st, attempt st) in
            if notified_timeout st = Some this_attempt then reject StaleResult
            else Inr (st\<lparr>notified_timeout := Some this_attempt\<rparr>, [NotifyTimeout sid]))
       | Reassign \<Rightarrow>
           and_then (enter_stage (stage_index st) st) (\<lambda>(st1, acts).
             Inr (st1, ReassignStage sid # acts))
       | TimeoutAction.Cancel \<Rightarrow> Inr (cancel (Some sid) (''stage `'' @ sid @ ''` timed out'') st))"

definition on_cancel :: "string \<Rightarrow> PipelineState \<Rightarrow> step_result" where
  "on_cancel reason st =
     (case status st of
        PipelineStatus.Pending \<Rightarrow> Inr (cancel None reason st)
      | PipelineStatus.Running \<Rightarrow>
          and_then (ensure_running st) (\<lambda>_.
            Inr (cancel (map_option ws_id (current_stage st)) reason st))
      | _ \<Rightarrow> reject NotRunning)"

definition on_merge_failed :: "PipelineState \<Rightarrow> step_result" where
  "on_merge_failed st = and_then (ensure_current_stage st StageKind.Merge) (\<lambda>_. merge_failed st)"

definition on_merge_completed :: "string \<Rightarrow> PipelineState \<Rightarrow> step_result" where
  "on_merge_completed commit st =
     and_then (ensure_current_stage st StageKind.Merge) (\<lambda>_.
       if \<not> allowed (merge_gate st (stage_index st)) then reject MergeGateClosed
       else Inr (st\<lparr>merge_commit := Some commit, pending_head_changes := [],
                    status := PipelineStatus.Done\<rparr>, [TaskDone (Some commit)]))"

section \<open>The step function\<close>

fun allowed_in_flight :: "PipelineEvent \<Rightarrow> bool" where
  "allowed_in_flight (MergeCompleted _ _ _ _) = True"
| "allowed_in_flight (MergeFailed _ _ _ _) = True"
| "allowed_in_flight (PipelineEvent.CommitCreated _ _) = True"
| "allowed_in_flight (PipelineEvent.MainAdvanced _ _ _) = True"
| "allowed_in_flight _ = False"

fun handle_event :: "PipelineState \<Rightarrow> PipelineEvent \<Rightarrow> step_result" where
  "handle_event st PipelineEvent.Start = on_start st"
| "handle_event st (WorkCompleted _ _ product) = on_work_completed product st"
| "handle_event st (Submitted _ _ cid) = on_submitted cid st"
| "handle_event st (CommandFinished sid _ h exit_code) = on_command_finished sid h exit_code st"
| "handle_event st (ApprovalGranted sid _ reviewer h selected) =
     on_approval_granted sid reviewer h selected st"
| "handle_event st (ChangesRequested _ _ reviewer _ reason) = on_changes_requested reviewer reason st"
| "handle_event st (PipelineEvent.CommitCreated h p) = on_commit_created h p st"
| "handle_event st (PipelineEvent.MainAdvanced h p conflict) = on_main_advanced h p conflict st"
| "handle_event st (FanoutCompleted _ _ children selected) = on_fanout_completed children selected st"
| "handle_event st (StageFailed _ _ reason) = fail_stage (stage_index st) reason st"
| "handle_event st (StageTimedOut sid _) = on_stage_timed_out sid st"
| "handle_event st (PipelineEvent.Cancel reason) = on_cancel reason st"
| "handle_event st (MergeFailed _ _ _ _) = on_merge_failed st"
| "handle_event st (MergeCompleted _ _ _ commit) = on_merge_completed commit st"

definition step :: "PipelineState \<Rightarrow> PipelineEvent \<Rightarrow> step_result" where
  "step st ev =
     (if merge_in_flight st \<and> \<not> allowed_in_flight ev then reject MergeInFlight
      else and_then (case identity ev of Some i \<Rightarrow> check_identity st i | None \<Rightarrow> Inr ())
             (\<lambda>_. handle_event st ev))"

end
