(* ===== verification/Pipeline_Lemmas.thy ===== *)
theory Pipeline_Lemmas
  imports Pipeline_State
begin

text \<open>
  Facts about the helpers of the state machine that every invariant proof shares: the fields each
  helper leaves alone, what the changed fields become, where \<open>enter_stage\<close> stops, and the inversion
  rules of the operations that can fail.
\<close>

section \<open>Frame conditions\<close>

lemma clear_partial_frame [simp, frame]:
  "task_id (clear_partial st) = task_id st"
  "pending_work_reason (clear_partial st) = pending_work_reason st"
  "workflow (clear_partial st) = workflow st"
  "stage_index (clear_partial st) = stage_index st"
  "status (clear_partial st) = status st"
  "branch (clear_partial st) = branch st"
  "current_head (clear_partial st) = current_head st"
  "patch_id (clear_partial st) = patch_id st"
  "change_id (clear_partial st) = change_id st"
  "work_product (clear_partial st) = work_product st"
  "attempts (clear_partial st) = attempts st"
  "approvals (clear_partial st) = approvals st"
  "passed_checks (clear_partial st) = passed_checks st"
  "fanout_child_task_ids (clear_partial st) = fanout_child_task_ids st"
  "selected_fanout_child (clear_partial st) = selected_fanout_child st"
  "merge_commit (clear_partial st) = merge_commit st"
  "pending_head_changes (clear_partial st) = pending_head_changes st"
  "notified_timeout (clear_partial st) = notified_timeout st"
  by (simp_all add: clear_partial_def)

lemma drop_approvals_frame [simp, frame]:
  "task_id (drop_approvals keep st) = task_id st"
  "pending_work_reason (drop_approvals keep st) = pending_work_reason st"
  "workflow (drop_approvals keep st) = workflow st"
  "stage_index (drop_approvals keep st) = stage_index st"
  "status (drop_approvals keep st) = status st"
  "branch (drop_approvals keep st) = branch st"
  "current_head (drop_approvals keep st) = current_head st"
  "patch_id (drop_approvals keep st) = patch_id st"
  "change_id (drop_approvals keep st) = change_id st"
  "work_product (drop_approvals keep st) = work_product st"
  "attempts (drop_approvals keep st) = attempts st"
  "passed_checks (drop_approvals keep st) = passed_checks st"
  "fanout_child_task_ids (drop_approvals keep st) = fanout_child_task_ids st"
  "merge_commit (drop_approvals keep st) = merge_commit st"
  "pending_head_changes (drop_approvals keep st) = pending_head_changes st"
  "notified_timeout (drop_approvals keep st) = notified_timeout st"
  by (simp_all add: drop_approvals_def Let_def)

lemma invalidate_head_bound_frame [simp, frame]:
  "task_id (invalidate_head_bound st) = task_id st"
  "pending_work_reason (invalidate_head_bound st) = pending_work_reason st"
  "workflow (invalidate_head_bound st) = workflow st"
  "stage_index (invalidate_head_bound st) = stage_index st"
  "status (invalidate_head_bound st) = status st"
  "branch (invalidate_head_bound st) = branch st"
  "current_head (invalidate_head_bound st) = current_head st"
  "patch_id (invalidate_head_bound st) = patch_id st"
  "change_id (invalidate_head_bound st) = change_id st"
  "work_product (invalidate_head_bound st) = work_product st"
  "attempts (invalidate_head_bound st) = attempts st"
  "fanout_child_task_ids (invalidate_head_bound st) = fanout_child_task_ids st"
  "merge_commit (invalidate_head_bound st) = merge_commit st"
  "pending_head_changes (invalidate_head_bound st) = pending_head_changes st"
  "notified_timeout (invalidate_head_bound st) = notified_timeout st"
  by (simp_all add: invalidate_head_bound_def Let_def)

lemma clear_fanout_frame [simp, frame]:
  "task_id (clear_fanout st) = task_id st"
  "pending_work_reason (clear_fanout st) = pending_work_reason st"
  "workflow (clear_fanout st) = workflow st"
  "stage_index (clear_fanout st) = stage_index st"
  "status (clear_fanout st) = status st"
  "branch (clear_fanout st) = branch st"
  "current_head (clear_fanout st) = current_head st"
  "patch_id (clear_fanout st) = patch_id st"
  "change_id (clear_fanout st) = change_id st"
  "work_product (clear_fanout st) = work_product st"
  "approval_reviewers (clear_fanout st) = approval_reviewers st"
  "pending_pick (clear_fanout st) = pending_pick st"
  "attempts (clear_fanout st) = attempts st"
  "approvals (clear_fanout st) = approvals st"
  "passed_checks (clear_fanout st) = passed_checks st"
  "merge_commit (clear_fanout st) = merge_commit st"
  "pending_head_changes (clear_fanout st) = pending_head_changes st"
  "notified_timeout (clear_fanout st) = notified_timeout st"
  by (simp_all add: clear_fanout_def)

lemma forget_from_frame [simp, frame]:
  "task_id (forget_from t st) = task_id st"
  "pending_work_reason (forget_from t st) = pending_work_reason st"
  "workflow (forget_from t st) = workflow st"
  "stage_index (forget_from t st) = stage_index st"
  "status (forget_from t st) = status st"
  "branch (forget_from t st) = branch st"
  "current_head (forget_from t st) = current_head st"
  "patch_id (forget_from t st) = patch_id st"
  "change_id (forget_from t st) = change_id st"
  "work_product (forget_from t st) = work_product st"
  "attempts (forget_from t st) = attempts st"
  "fanout_child_task_ids (forget_from t st) = fanout_child_task_ids st"
  "merge_commit (forget_from t st) = merge_commit st"
  "pending_head_changes (forget_from t st) = pending_head_changes st"
  "notified_timeout (forget_from t st) = notified_timeout st"
  by (simp_all add: forget_from_def)

lemma reset_fanout_at_frame [simp, frame]:
  "task_id (reset_fanout_at i st) = task_id st"
  "pending_work_reason (reset_fanout_at i st) = pending_work_reason st"
  "stage_index (reset_fanout_at i st) = stage_index st"
  "status (reset_fanout_at i st) = status st"
  "branch (reset_fanout_at i st) = branch st"
  "current_head (reset_fanout_at i st) = current_head st"
  "patch_id (reset_fanout_at i st) = patch_id st"
  "change_id (reset_fanout_at i st) = change_id st"
  "work_product (reset_fanout_at i st) = work_product st"
  "approval_reviewers (reset_fanout_at i st) = approval_reviewers st"
  "pending_pick (reset_fanout_at i st) = pending_pick st"
  "attempts (reset_fanout_at i st) = attempts st"
  "passed_checks (reset_fanout_at i st) = passed_checks st"
  "merge_commit (reset_fanout_at i st) = merge_commit st"
  "pending_head_changes (reset_fanout_at i st) = pending_head_changes st"
  "notified_timeout (reset_fanout_at i st) = notified_timeout st"
  by (simp_all add: reset_fanout_at_def split: option.splits)

lemma prepare_stage_frame [simp, frame]:
  "task_id (prepare_stage i st) = task_id st"
  "workflow (prepare_stage i st) = workflow st"
  "status (prepare_stage i st) = status st"
  "branch (prepare_stage i st) = branch st"
  "current_head (prepare_stage i st) = current_head st"
  "patch_id (prepare_stage i st) = patch_id st"
  "change_id (prepare_stage i st) = change_id st"
  "work_product (prepare_stage i st) = work_product st"
  "attempts (prepare_stage i st) = attempts st"
  "approvals (prepare_stage i st) = approvals st"
  "passed_checks (prepare_stage i st) = passed_checks st"
  "fanout_child_task_ids (prepare_stage i st) = fanout_child_task_ids st"
  "selected_fanout_child (prepare_stage i st) = selected_fanout_child st"
  "merge_commit (prepare_stage i st) = merge_commit st"
  "pending_head_changes (prepare_stage i st) = pending_head_changes st"
  "notified_timeout (prepare_stage i st) = notified_timeout st"
  by (simp_all add: prepare_stage_def)

lemma record_new_head_frame [simp, frame]:
  "task_id (record_new_head h p st) = task_id st"
  "pending_work_reason (record_new_head h p st) = pending_work_reason st"
  "workflow (record_new_head h p st) = workflow st"
  "stage_index (record_new_head h p st) = stage_index st"
  "status (record_new_head h p st) = status st"
  "branch (record_new_head h p st) = branch st"
  "change_id (record_new_head h p st) = change_id st"
  "attempts (record_new_head h p st) = attempts st"
  "fanout_child_task_ids (record_new_head h p st) = fanout_child_task_ids st"
  "merge_commit (record_new_head h p st) = merge_commit st"
  "pending_head_changes (record_new_head h p st) = pending_head_changes st"
  "notified_timeout (record_new_head h p st) = notified_timeout st"
  by (simp_all add: record_new_head_def)

lemma carry_approvals_frame [simp, frame]:
  "task_id (carry_approvals old ap new st) = task_id st"
  "pending_work_reason (carry_approvals old ap new st) = pending_work_reason st"
  "workflow (carry_approvals old ap new st) = workflow st"
  "stage_index (carry_approvals old ap new st) = stage_index st"
  "status (carry_approvals old ap new st) = status st"
  "branch (carry_approvals old ap new st) = branch st"
  "current_head (carry_approvals old ap new st) = current_head st"
  "patch_id (carry_approvals old ap new st) = patch_id st"
  "change_id (carry_approvals old ap new st) = change_id st"
  "work_product (carry_approvals old ap new st) = work_product st"
  "attempts (carry_approvals old ap new st) = attempts st"
  "fanout_child_task_ids (carry_approvals old ap new st) = fanout_child_task_ids st"
  "selected_fanout_child (carry_approvals old ap new st) = selected_fanout_child st"
  "merge_commit (carry_approvals old ap new st) = merge_commit st"
  "pending_head_changes (carry_approvals old ap new st) = pending_head_changes st"
  "notified_timeout (carry_approvals old ap new st) = notified_timeout st"
  by (simp_all add: carry_approvals_def)

lemma push_check_frame [simp, frame]:
  "task_id (push_check sid h st) = task_id st"
  "pending_work_reason (push_check sid h st) = pending_work_reason st"
  "workflow (push_check sid h st) = workflow st"
  "stage_index (push_check sid h st) = stage_index st"
  "status (push_check sid h st) = status st"
  "branch (push_check sid h st) = branch st"
  "current_head (push_check sid h st) = current_head st"
  "patch_id (push_check sid h st) = patch_id st"
  "change_id (push_check sid h st) = change_id st"
  "work_product (push_check sid h st) = work_product st"
  "approval_reviewers (push_check sid h st) = approval_reviewers st"
  "pending_pick (push_check sid h st) = pending_pick st"
  "attempts (push_check sid h st) = attempts st"
  "approvals (push_check sid h st) = approvals st"
  "fanout_child_task_ids (push_check sid h st) = fanout_child_task_ids st"
  "selected_fanout_child (push_check sid h st) = selected_fanout_child st"
  "merge_commit (push_check sid h st) = merge_commit st"
  "pending_head_changes (push_check sid h st) = pending_head_changes st"
  "notified_timeout (push_check sid h st) = notified_timeout st"
  by (simp_all add: push_check_def)

lemma record_approval_frame [simp, frame]:
  "task_id (record_approval sid b h st) = task_id st"
  "pending_work_reason (record_approval sid b h st) = pending_work_reason st"
  "workflow (record_approval sid b h st) = workflow st"
  "stage_index (record_approval sid b h st) = stage_index st"
  "status (record_approval sid b h st) = status st"
  "branch (record_approval sid b h st) = branch st"
  "current_head (record_approval sid b h st) = current_head st"
  "patch_id (record_approval sid b h st) = patch_id st"
  "change_id (record_approval sid b h st) = change_id st"
  "work_product (record_approval sid b h st) = work_product st"
  "pending_pick (record_approval sid b h st) = pending_pick st"
  "attempts (record_approval sid b h st) = attempts st"
  "passed_checks (record_approval sid b h st) = passed_checks st"
  "fanout_child_task_ids (record_approval sid b h st) = fanout_child_task_ids st"
  "selected_fanout_child (record_approval sid b h st) = selected_fanout_child st"
  "merge_commit (record_approval sid b h st) = merge_commit st"
  "pending_head_changes (record_approval sid b h st) = pending_head_changes st"
  "notified_timeout (record_approval sid b h st) = notified_timeout st"
  by (simp_all add: record_approval_def)

section \<open>Changed fields\<close>

lemma clear_partial_changes [simp]:
  "approval_reviewers (clear_partial st) = []" "pending_pick (clear_partial st) = None"
  by (simp_all add: clear_partial_def)

lemma drop_approvals_changes [simp]:
  "approvals (drop_approvals keep st) = filter (keep (workflow st)) (approvals st)"
  "approval_reviewers (drop_approvals keep st) = []"
  "pending_pick (drop_approvals keep st) = None"
  by (simp_all add: drop_approvals_def Let_def)

lemma drop_approvals_selected:
  "selected_fanout_child (drop_approvals keep st) =
     (if \<exists>a \<in> set (approvals st). \<not> keep (workflow st) a \<and> is_pick_record (workflow st) a
      then None else selected_fanout_child st)"
  by (simp add: drop_approvals_def Let_def list_ex_iff)

lemma invalidate_head_bound_changes [simp]:
  "approvals (invalidate_head_bound st) =
     filter (\<lambda>a. ar_head a = None \<or> ar_head a = current_head st) (approvals st)"
  "passed_checks (invalidate_head_bound st) =
     filter (\<lambda>c. pc_head c = current_head st) (passed_checks st)"
  "approval_reviewers (invalidate_head_bound st) = []"
  "pending_pick (invalidate_head_bound st) = None"
  by (simp_all add: invalidate_head_bound_def Let_def)

lemma clear_fanout_changes [simp]:
  "fanout_child_task_ids (clear_fanout st) = []" "selected_fanout_child (clear_fanout st) = None"
  by (simp_all add: clear_fanout_def)

lemma forget_from_changes [simp]:
  "approvals (forget_from t st) =
     filter (\<lambda>a. recorded_before (workflow st) t (ar_stage_id a)) (approvals st)"
  "passed_checks (forget_from t st) =
     filter (\<lambda>c. recorded_before (workflow st) t (pc_stage_id c)) (passed_checks st)"
  "approval_reviewers (forget_from t st) = []"
  "pending_pick (forget_from t st) = None"
  by (simp_all add: forget_from_def)

lemma prepare_stage_changes [simp]:
  "stage_index (prepare_stage i st) = i" "pending_work_reason (prepare_stage i st) = None"
  "approval_reviewers (prepare_stage i st) = []" "pending_pick (prepare_stage i st) = None"
  by (simp_all add: prepare_stage_def)

lemma record_new_head_changes [simp]:
  "current_head (record_new_head h p st) = Some h"
  "patch_id (record_new_head h p st) = Some p"
  "approvals (record_new_head h p st) =
     filter (\<lambda>a. ar_head a = None \<or> ar_head a = Some h) (approvals st)"
  "passed_checks (record_new_head h p st) = filter (\<lambda>c. pc_head c = Some h) (passed_checks st)"
  "approval_reviewers (record_new_head h p st) = []"
  "pending_pick (record_new_head h p st) = None"
  by (simp_all add: record_new_head_def)

lemma carry_approvals_changes [simp]:
  "passed_checks (carry_approvals old ap new st) = []"
  "approval_reviewers (carry_approvals old ap new st) = []"
  "pending_pick (carry_approvals old ap new st) = None"
  "approvals (carry_approvals old ap new st) =
     map (\<lambda>a. if ar_head a = Some old \<and> ar_patch_id a = Some ap
              then a\<lparr>ar_head := Some new\<rparr> else a) (approvals st)"
  by (simp_all add: carry_approvals_def)

lemma reset_fanout_at_other [simp]:
  "i < length (stages st) \<Longrightarrow> stage_kind (stages st ! i) \<noteq> StageKind.Fanout \<Longrightarrow>
     reset_fanout_at i st = st"
  "length (stages st) \<le> i \<Longrightarrow> reset_fanout_at i st = st"
  by (simp_all add: reset_fanout_at_def)

lemma reset_fanout_at_fanout:
  "i < length (stages st) \<Longrightarrow> stage_kind (stages st ! i) = StageKind.Fanout \<Longrightarrow>
     reset_fanout_at i st = (clear_fanout st)
       \<lparr>approvals := filter (\<lambda>a. recorded_before (workflow st) i (ar_stage_id a)) (approvals st)\<rparr>"
  by (simp add: reset_fanout_at_def)

lemma reset_fanout_at_approvals:
  "approvals (reset_fanout_at i st) = approvals st
   \<or> approvals (reset_fanout_at i st) =
       filter (\<lambda>a. recorded_before (workflow st) i (ar_stage_id a)) (approvals st)"
  by (auto simp: reset_fanout_at_def split: option.splits)

section \<open>Reads\<close>

lemma current_stage_eq_Some:
  "current_stage st = Some w \<longleftrightarrow> stage_index st < length (stages st) \<and> stages st ! stage_index st = w"
  by (auto simp: current_stage_def slice_get_eq_Some)

lemma current_stage_eq_None: "current_stage st = None \<longleftrightarrow> length (stages st) \<le> stage_index st"
  by (simp add: current_stage_def slice_get_eq_None)

lemma current_stage_in [simp]:
  "stage_index st < length (stages st) \<Longrightarrow> current_stage st = Some (stages st ! stage_index st)"
  by (simp add: current_stage_def)

lemma current_kind_is_iff:
  "current_kind_is st k \<longleftrightarrow>
     stage_index st < length (stages st) \<and> stage_kind (stages st ! stage_index st) = k"
  by (auto simp: current_kind_is_def current_stage_def slice_get_def)

lemma merge_in_flight_iff:
  "merge_in_flight st \<longleftrightarrow> status st = PipelineStatus.Running \<and> stage_index st < length (stages st)
     \<and> stage_kind (stages st ! stage_index st) = StageKind.Merge"
  by (simp add: merge_in_flight_def current_kind_is_iff)

lemma attempt_in [simp]:
  "stage_index st < length (attempts st) \<Longrightarrow> attempt st = attempts st ! stage_index st"
  by (simp add: attempt_def)

lemma kind_simps:
  "kind s = StageKind.Work \<longleftrightarrow> (\<exists>r i out. s = Stage.Work r i out)"
  "kind s = StageKind.Command \<longleftrightarrow> (\<exists>c. s = Stage.Command c)"
  "kind s = StageKind.Approval \<longleftrightarrow> (\<exists>b c h. s = Stage.Approval b c h)"
  "kind s = StageKind.Submit \<longleftrightarrow> (\<exists>f. s = Stage.Submit f)"
  "kind s = StageKind.Merge \<longleftrightarrow> s = Stage.Merge"
  "kind s = StageKind.Fanout \<longleftrightarrow> (\<exists>x j. s = Stage.Fanout x j)"
  by (cases s; simp)+

lemma approval_for_stage_kind:
  "approval_for_stage st w \<Longrightarrow> stage_kind w = StageKind.Approval"
  by (simp add: approval_for_stage_def split: Stage.splits)

lemma approval_for_stage_cong:
  "approvals st = approvals st' \<Longrightarrow> current_head st = current_head st' \<Longrightarrow>
     approval_for_stage st w = approval_for_stage st' w"
  by (simp add: approval_for_stage_def approval_heads_def split: Stage.splits)

section \<open>Inversion of the operations that can fail\<close>

lemma ensure_running_Inr [result_split]:
  "ensure_running st = Inr u \<longleftrightarrow>
     status st = PipelineStatus.Running \<and> stage_index st < length (stages st)"
  by (auto simp: ensure_running_def current_stage_eq_None)

lemma ensure_current_stage_Inr [result_split]:
  "ensure_current_stage st k = Inr u \<longleftrightarrow>
     status st = PipelineStatus.Running \<and> stage_index st < length (stages st)
     \<and> stage_kind (stages st ! stage_index st) = k"
  by (auto simp: ensure_current_stage_def result_split current_kind_is_iff)

lemma current_approval_Inr [result_split]:
  "current_approval st = Inr (bd, count) \<longleftrightarrow>
     status st = PipelineStatus.Running \<and> stage_index st < length (stages st)
     \<and> (\<exists>by. ws_stage (stages st ! stage_index st) = Stage.Approval by count bd)
     \<and> (bd \<longrightarrow> current_head st \<noteq> None)"
  by (auto simp: current_approval_def result_split kind_simps split: Stage.splits if_splits)

lemma check_identity_Inr [result_split]:
  "check_identity st i = Inr u \<longleftrightarrow>
     status st = PipelineStatus.Running \<and> stage_index st < length (stages st)
     \<and> ws_id (stages st ! stage_index st) = id_stage_id i \<and> attempt st = id_attempt i
     \<and> (needs_head (stages st ! stage_index st) \<longrightarrow> id_head i = None \<or> id_head i = Some (current_head st))"
  by (auto simp: check_identity_def result_split current_stage_eq_Some split: option.splits if_splits)

lemma bump_attempt_Inr [result_split]:
  "bump_attempt i st = Inr (st', a) \<longleftrightarrow>
     i < length (attempts st) \<and> a = attempts st ! i + 1 \<and> st' = st\<lparr>attempts := (attempts st)[i := a]\<rparr>"
  by (auto simp: bump_attempt_def slice_get_def)

lemma step_InrE:
  assumes "step st ev = Inr r"
  obtains "handle_event st ev = Inr r"
    and "merge_in_flight st \<Longrightarrow> allowed_in_flight ev"
    and "\<And>i. identity ev = Some i \<Longrightarrow> check_identity st i = Inr ()"
  using assms by (auto simp: step_def result_split split: if_splits option.splits)

lemma request_stage_elim:
  assumes "request_stage i w st = Inr (st', acts)"
  obtains (requested) act where
      "i < length (attempts st)"
      "st' = st\<lparr>attempts := (attempts st)[i := attempts st ! i + 1]\<rparr>"
      "stage_request st' i w (attempts st ! i + 1) = Inr act"
      "acts = [schedule w (attempts st ! i + 1), act]"
  | (failed) reason where
      "i < length (attempts st)" "stage_kind w = StageKind.Command"
      "st' = clear_partial (st\<lparr>attempts := (attempts st)[i := attempts st ! i + 1],
               status := PipelineStatus.Failed\<rparr>)"
      "acts = [TaskFailed (ws_id w) reason]"
proof -
  from assms obtain st1 where b: "i < length (attempts st)"
    "st1 = st\<lparr>attempts := (attempts st)[i := attempts st ! i + 1]\<rparr>"
    and r: "(case stage_request st1 i w (attempts st ! i + 1) of
         Inr act \<Rightarrow> Inr (st1, [schedule w (attempts st ! i + 1), act])
       | Inl (Inl reason) \<Rightarrow> Inr (fail_task (ws_id w) reason st1)
       | Inl (Inr e) \<Rightarrow> Inl e) = Inr (st', acts)"
    by (auto simp: request_stage_def result_split)
  show thesis
  proof (cases "stage_request st1 i w (attempts st ! i + 1)")
    case (Inr act)
    with r b show thesis by (intro requested) auto
  next
    case (Inl e)
    with r obtain reason where e: "e = Inl reason" by (cases e) auto
    have "stage_kind w = StageKind.Command"
      using Inl e by (auto simp: stage_request_def split: Stage.splits sum.splits if_splits option.splits)
    with r Inl e b show thesis by (intro failed [of reason]) (auto simp: fail_task_def)
  qed
qed

lemma prepare_reset_prepare:
  "prepare_stage j (reset_fanout_at j (prepare_stage i st)) = prepare_stage j (reset_fanout_at j st)"
  by (auto simp: prepare_stage_def reset_fanout_at_def clear_fanout_def split: option.splits)

lemma prepare_then_done:
  "(if b then prepare_stage j (prepare_stage i st) else prepare_stage i st)
     \<lparr>stage_index := n, status := x\<rparr> = (prepare_stage i st)\<lparr>stage_index := n, status := x\<rparr>"
  by (simp add: prepare_stage_def)

lemma approval_for_stage_prepare [simp]:
  "approval_for_stage (prepare_stage i st) w = approval_for_stage st w"
  by (rule approval_for_stage_cong) simp_all

lemma approval_for_stage_entered:
  assumes "i < length (stages st)"
  shows "approval_for_stage (reset_fanout_at i st) (stages st ! i)
     = approval_for_stage st (stages st ! i)"
proof (cases "stage_kind (stages st ! i) = StageKind.Fanout")
  case True
  then show ?thesis by (auto dest: approval_for_stage_kind)
next
  case False
  then show ?thesis using assms by simp
qed

text \<open>\<open>enter_stage\<close> passes over approval stages whose record still holds and stops at the next one.\<close>

lemma enter_stage_cases:
  obtains (at_stage) j where
      "i \<le> j" "j < length (stages st)"
      "\<And>k. i \<le> k \<Longrightarrow> k < j \<Longrightarrow> approval_for_stage st (stages st ! k)"
      "\<not> approval_for_stage st (stages st ! j)"
      "enter_stage i st = request_stage j (stages st ! j) (prepare_stage j (reset_fanout_at j st))"
  | (at_end)
      "\<And>k. i \<le> k \<Longrightarrow> k < length (stages st) \<Longrightarrow> approval_for_stage st (stages st ! k)"
      "enter_stage i st =
         Inr ((if i < length (stages st) then prepare_stage i st else st)
               \<lparr>stage_index := length (stages st), status := PipelineStatus.Done\<rparr>,
              [TaskDone (merge_commit st)])"
proof (induction "length (stages st) - i" arbitrary: i st thesis)
  case 0
  then have "length (stages st) \<le> i" by simp
  then show ?case by (intro "0.prems"(2)) (auto simp: enter_stage.simps [of i st])
next
  case (Suc d)
  then have i: "i < length (stages st)" by simp
  show ?case
  proof (cases "approval_for_stage st (stages st ! i)")
    case False
    then show ?thesis
      using i by (intro Suc.prems(1) [of i])
        (auto simp: enter_stage.simps [of i st] Let_def approval_for_stage_entered)
  next
    case True
    then have r: "reset_fanout_at i st = st" using i by (simp add: approval_for_stage_kind)
    have rec: "enter_stage i st = enter_stage (i + 1) (prepare_stage i st)"
      using i True r by (simp add: enter_stage.simps [of i st] Let_def)
    have all: "approval_for_stage st (stages st ! k)"
      if "\<And>k. i + 1 \<le> k \<Longrightarrow> k < m \<Longrightarrow> approval_for_stage st (stages st ! k)" "i \<le> k" "k < m" for m k
      using that True by (cases "k = i") simp_all
    show ?thesis
    proof (rule Suc.hyps(1) [of "prepare_stage i st" "i + 1"], goal_cases)
      case 1
      then show ?case using Suc.hyps(2) by simp
    next
      case (2 j)
      then show ?case using all [of j] rec
        by (intro Suc.prems(1) [of j]) (simp_all add: prepare_reset_prepare)
    next
      case 3
      then show ?case using all [of "length (stages st)"] rec i
        by (intro Suc.prems(2)) (simp_all add: prepare_then_done)
    qed
  qed
qed

end
