(* ===== verification/Workflow_Rules.thy ===== *)
theory Workflow_Rules
  imports Workflow_Spec
begin

text \<open>
  What the static save-time rules of \<open>Workflow::validate\<close> guarantee about the order of the stages.
  \<open>well_formed\<close> states it on positions; the state machine's invariants rest on it alone.
\<close>

section \<open>Well-formed workflows\<close>

definition bound_after_work :: "WorkflowStage list \<Rightarrow> bool" where
  "bound_after_work S \<longleftrightarrow>
     (\<forall>j < length S. is_branch_work (S ! j) \<longrightarrow> (\<forall>i < j. \<not> is_head_bound (S ! i)))"

definition branch_work_first :: "WorkflowStage list \<Rightarrow> bool" where
  "branch_work_first S \<longleftrightarrow>
     (\<forall>i < length S. needs_head (S ! i) \<longrightarrow> (\<exists>j < i. is_branch_work (S ! j)))"

definition last_work_is_branch :: "WorkflowStage list \<Rightarrow> bool" where
  "last_work_is_branch S \<longleftrightarrow>
     (\<forall>i < length S. needs_head (S ! i) \<longrightarrow>
        (\<forall>j < length S. stage_kind (S ! j) = StageKind.Work \<longrightarrow>
           (\<exists>k < length S. j \<le> k \<and> is_branch_work (S ! k))))"

definition merge_placement :: "Workflow \<Rightarrow> bool" where
  "merge_placement wfl \<longleftrightarrow>
     (\<forall>i < length (wf_stages wfl). stage_kind (wf_stages wfl ! i) = StageKind.Merge \<longrightarrow>
        Suc i = length (wf_stages wfl)
        \<and> (\<exists>j < i. stage_kind (wf_stages wfl ! j) = StageKind.Command)
        \<and> (wf_allow_unreviewed wfl \<or> (\<exists>j < i. is_bound_approval (ws_stage (wf_stages wfl ! j)))))"

definition pick_placement :: "WorkflowStage list \<Rightarrow> bool" where
  "pick_placement S \<longleftrightarrow>
     (\<forall>i < length S. \<forall>src. ws_stage (S ! i) = Stage.Fanout src Pick \<longrightarrow>
        Suc i < length S \<and> stage_kind (S ! Suc i) = StageKind.Approval)"

definition counts_positive :: "WorkflowStage list \<Rightarrow> bool" where
  "counts_positive S \<longleftrightarrow>
     (\<forall>i < length S. \<forall>by count bd. ws_stage (S ! i) = Stage.Approval by count bd \<longrightarrow> count \<noteq> 0)"

definition rework_target :: "WorkflowStage list \<Rightarrow> bool" where
  "rework_target S \<longleftrightarrow>
     (\<forall>i < length S. stage_kind (S ! i) \<in> {StageKind.Command, StageKind.Approval} \<longrightarrow>
        (\<exists>j < i. stage_kind (S ! j) = StageKind.Work))"

definition well_formed :: "Workflow \<Rightarrow> bool" where
  "well_formed wfl \<longleftrightarrow>
     distinct (map ws_id (wf_stages wfl)) \<and> bound_after_work (wf_stages wfl)
     \<and> branch_work_first (wf_stages wfl) \<and> last_work_is_branch (wf_stages wfl)
     \<and> merge_placement wfl \<and> pick_placement (wf_stages wfl) \<and> counts_positive (wf_stages wfl)
     \<and> rework_target (wf_stages wfl)"

lemma well_formed_distinct: "well_formed wfl \<Longrightarrow> distinct (map ws_id (wf_stages wfl))"
  by (simp add: well_formed_def)

lemma well_formed_bound:
  "well_formed wfl \<Longrightarrow> j < length (wf_stages wfl) \<Longrightarrow> is_branch_work (wf_stages wfl ! j) \<Longrightarrow> i < j \<Longrightarrow>
     \<not> is_head_bound (wf_stages wfl ! i)"
  by (simp add: well_formed_def bound_after_work_def)

lemma well_formed_branch_first:
  "well_formed wfl \<Longrightarrow> i < length (wf_stages wfl) \<Longrightarrow> needs_head (wf_stages wfl ! i) \<Longrightarrow>
     \<exists>j < i. is_branch_work (wf_stages wfl ! j)"
  by (simp add: well_formed_def branch_work_first_def)

lemma well_formed_last_work:
  "well_formed wfl \<Longrightarrow> i < length (wf_stages wfl) \<Longrightarrow> needs_head (wf_stages wfl ! i) \<Longrightarrow>
     j < length (wf_stages wfl) \<Longrightarrow> stage_kind (wf_stages wfl ! j) = StageKind.Work \<Longrightarrow>
     \<exists>k < length (wf_stages wfl). j \<le> k \<and> is_branch_work (wf_stages wfl ! k)"
  by (simp add: well_formed_def last_work_is_branch_def)

lemma well_formed_merge:
  "well_formed wfl \<Longrightarrow> i < length (wf_stages wfl) \<Longrightarrow>
     stage_kind (wf_stages wfl ! i) = StageKind.Merge \<Longrightarrow>
     Suc i = length (wf_stages wfl)
     \<and> (\<exists>j < i. stage_kind (wf_stages wfl ! j) = StageKind.Command)
     \<and> (wf_allow_unreviewed wfl \<or> (\<exists>j < i. is_bound_approval (ws_stage (wf_stages wfl ! j))))"
  by (simp add: well_formed_def merge_placement_def)

lemma well_formed_pick:
  "well_formed wfl \<Longrightarrow> i < length (wf_stages wfl) \<Longrightarrow>
     ws_stage (wf_stages wfl ! i) = Stage.Fanout src Pick \<Longrightarrow>
     Suc i < length (wf_stages wfl) \<and> stage_kind (wf_stages wfl ! Suc i) = StageKind.Approval"
  by (simp add: well_formed_def pick_placement_def)

lemma well_formed_count:
  "well_formed wfl \<Longrightarrow> i < length (wf_stages wfl) \<Longrightarrow>
     ws_stage (wf_stages wfl ! i) = Stage.Approval by count bd \<Longrightarrow> count \<noteq> 0"
  unfolding well_formed_def counts_positive_def by blast

lemma well_formed_rework:
  "well_formed wfl \<Longrightarrow> i < length (wf_stages wfl) \<Longrightarrow>
     stage_kind (wf_stages wfl ! i) \<in> {StageKind.Command, StageKind.Approval} \<Longrightarrow>
     \<exists>j < i. stage_kind (wf_stages wfl ! j) = StageKind.Work"
  unfolding well_formed_def rework_target_def by blast

lemma static_errors_Nil:
  "static_errors wfl team_roles = ([] :: 'r WorkflowError list) \<longleftrightarrow>
     (\<forall>i < length (wf_stages wfl). stage_errors wfl team_roles i = ([] :: 'r WorkflowError list))
     \<and> (\<forall>i < length (wf_stages wfl). merge_errors wfl i = ([] :: 'r WorkflowError list))
     \<and> (\<forall>i < length (wf_stages wfl). fanout_errors wfl i = ([] :: 'r WorkflowError list))
     \<and> (\<forall>i < length (wf_stages wfl). earlier_work_errors wfl i = ([] :: 'r WorkflowError list))
     \<and> submit_errors wfl = ([] :: 'r WorkflowError list)
     \<and> repo_errors wfl = ([] :: 'r WorkflowError list)
     \<and> head_bound_before_work_errors wfl = ([] :: 'r WorkflowError list)
     \<and> work_after_branch_work_errors wfl = ([] :: 'r WorkflowError list)"
  by (auto simp: static_errors_def Let_def Ball_def)

lemma take_ex_nth: "list_ex P (take i xs) \<longleftrightarrow> (\<exists>j < i. j < length xs \<and> P (xs ! j))"
proof
  assume "list_ex P (take i xs)"
  then obtain j where "j < length (take i xs)" "P (take i xs ! j)"
    by (auto simp: list_ex_iff in_set_conv_nth)
  then show "\<exists>j < i. j < length xs \<and> P (xs ! j)" by auto
next
  assume "\<exists>j < i. j < length xs \<and> P (xs ! j)"
  then obtain j where "j < length (take i xs)" "P (take i xs ! j)" by auto
  then show "list_ex P (take i xs)" unfolding list_ex_iff by (meson nth_mem)
qed

lemma merge_errors_Nil:
  assumes "merge_errors wfl i = ([] :: 'r WorkflowError list)" and "i < length (wf_stages wfl)"
    and "stage_kind (wf_stages wfl ! i) = StageKind.Merge"
  shows "Suc i = length (wf_stages wfl)
    \<and> (\<exists>j < i. stage_kind (wf_stages wfl ! j) = StageKind.Command)
    \<and> (wf_allow_unreviewed wfl \<or> (\<exists>j < i. is_bound_approval (ws_stage (wf_stages wfl ! j))))"
  using assms by (auto simp: merge_errors_def Let_def take_ex_nth split: if_splits)

lemma earlier_work_errors_Nil:
  assumes "earlier_work_errors wfl i = ([] :: 'r WorkflowError list)" and "i < length (wf_stages wfl)"
  shows "stage_kind (wf_stages wfl ! i) \<in> {StageKind.Command, StageKind.Approval} \<Longrightarrow>
           \<exists>j < i. stage_kind (wf_stages wfl ! j) = StageKind.Work"
    and "needs_head (wf_stages wfl ! i) \<Longrightarrow> \<exists>j < i. is_branch_work (wf_stages wfl ! j)"
  using assms by (auto simp: earlier_work_errors_def Let_def take_ex_nth split: if_splits)

lemma fanout_errors_Nil:
  assumes "fanout_errors wfl i = ([] :: 'r WorkflowError list)" and "i < length (wf_stages wfl)"
    and "ws_stage (wf_stages wfl ! i) = Stage.Fanout src Pick"
  shows "Suc i < length (wf_stages wfl) \<and> stage_kind (wf_stages wfl ! Suc i) = StageKind.Approval"
  using assms by (auto simp: fanout_errors_def Let_def slice_get_def split: if_splits)

lemma stage_errors_count:
  assumes "stage_errors wfl team_roles i = ([] :: 'r WorkflowError list)"
    and "ws_stage (wf_stages wfl ! i) = Stage.Approval by count bd"
  shows "count \<noteq> 0"
  using assms by (cases "by") (auto simp: stage_errors_def Let_def split: if_splits)

lemma ids_distinct:
  assumes "\<And>i. i < length (wf_stages wfl) \<Longrightarrow>
     stage_errors wfl team_roles i = ([] :: 'r WorkflowError list)"
  shows "distinct (map ws_id (wf_stages wfl))"
proof -
  have "ws_id (wf_stages wfl ! i) \<noteq> ws_id (wf_stages wfl ! j)"
    if "j < i" "i < length (wf_stages wfl)" for i j
  proof -
    from assms [OF that(2)] have "ws_id (wf_stages wfl ! i) \<notin> ws_id ` set (take i (wf_stages wfl))"
      by (auto simp: stage_errors_def Let_def split: if_splits)
    moreover have "wf_stages wfl ! j \<in> set (take i (wf_stages wfl))"
      using that by (auto simp: in_set_conv_nth intro!: exI [of _ j])
    ultimately show ?thesis by (metis imageI)
  qed
  then show ?thesis by (auto simp: distinct_conv_nth) (metis nat_neq_iff)
qed

lemma bound_after_work_rule:
  assumes "head_bound_before_work_errors wfl = ([] :: 'r WorkflowError list)"
  shows "bound_after_work (wf_stages wfl)"
  unfolding bound_after_work_def
proof (intro allI impI)
  fix i j assume j: "j < length (wf_stages wfl)" "is_branch_work (wf_stages wfl ! j)" and i: "i < j"
  obtain l where l: "rposition is_branch_work (wf_stages wfl) = Some l"
    using j by (cases "rposition is_branch_work (wf_stages wfl)") (auto simp: rposition_None_nth)
  then have "j \<le> l" using j by (auto simp: rposition_eq_Some) (meson not_le)
  from assms l have "\<forall>w \<in> set (take l (wf_stages wfl)). \<not> is_head_bound w"
    by (auto simp: head_bound_before_work_errors_def filter_empty_conv)
  moreover have "wf_stages wfl ! i \<in> set (take l (wf_stages wfl))"
    using i j \<open>j \<le> l\<close> l by (auto simp: in_set_conv_nth rposition_eq_Some intro!: exI [of _ i])
  ultimately show "\<not> is_head_bound (wf_stages wfl ! i)" by blast
qed

lemma last_work_rule:
  assumes "work_after_branch_work_errors wfl = ([] :: 'r WorkflowError list)" and "branch_work_first (wf_stages wfl)"
  shows "last_work_is_branch (wf_stages wfl)"
  unfolding last_work_is_branch_def
proof (intro allI impI)
  let ?S = "wf_stages wfl"
  fix i j assume i: "i < length ?S" "needs_head (?S ! i)"
    and j: "j < length ?S" "stage_kind (?S ! j) = StageKind.Work"
  from i assms(2) obtain b where "b < length ?S" "is_branch_work (?S ! b)"
    by (auto simp: branch_work_first_def) (meson less_trans)
  then obtain l where l: "rposition is_branch_work ?S = Some l"
    by (cases "rposition is_branch_work ?S") (auto simp: rposition_None_nth)
  have "list_ex needs_head ?S" using i by (auto simp: list_ex_iff)
  with assms(1) l have none: "\<forall>w \<in> set (drop (l + 1) ?S). stage_kind w \<noteq> StageKind.Work"
    by (auto simp: work_after_branch_work_errors_def filter_empty_conv)
  have "j \<le> l"
  proof (rule ccontr)
    assume "\<not> j \<le> l"
    then have "?S ! j = drop (l + 1) ?S ! (j - (l + 1))" "j - (l + 1) < length (drop (l + 1) ?S)"
      using j by auto
    then have "?S ! j \<in> set (drop (l + 1) ?S)" by (metis nth_mem)
    with none j show False by blast
  qed
  with l show "\<exists>k < length ?S. j \<le> k \<and> is_branch_work (?S ! k)"
    by (auto simp: rposition_eq_Some)
qed

lemma static_errors_well_formed:
  assumes "static_errors wfl team_roles = ([] :: 'r WorkflowError list)"
  shows "well_formed wfl"
proof -
  let ?S = "wf_stages wfl"
  note e = assms [unfolded static_errors_Nil]
  have bwf: "branch_work_first ?S"
    unfolding branch_work_first_def using e earlier_work_errors_Nil(2) by blast
  moreover have "merge_placement wfl"
    unfolding merge_placement_def using e merge_errors_Nil by blast
  moreover have "pick_placement ?S"
    unfolding pick_placement_def using e fanout_errors_Nil by blast
  moreover have "counts_positive ?S"
    unfolding counts_positive_def using e stage_errors_count by blast
  moreover have "rework_target ?S"
    unfolding rework_target_def using e earlier_work_errors_Nil(1) by blast
  moreover have "distinct (map ws_id ?S)" using e ids_distinct by blast
  moreover have "bound_after_work ?S" using e bound_after_work_rule by blast
  moreover have "last_work_is_branch ?S" using e bwf last_work_rule by blast
  ultimately show ?thesis by (simp add: well_formed_def)
qed

end
