(* ===== verification/Pipeline_Invariant.thy ===== *)
theory Pipeline_Invariant
  imports Pipeline_Lemmas Workflow_Rules
begin

text \<open>
  The invariant of the state machine for well-formed workflows. \<open>base_inv\<close> says that the records
  belong to stages of the workflow and to the current head; \<open>cov k\<close> that every stage before position
  \<open>k\<close> has done its part for the current head (a branch work stage has a head, a command has passed
  on it, an approval covers it); \<open>pick_at\<close> that the winner of the last
  pick fanout is one of its live children; \<open>budget k\<close> that no attempt counter wraps within \<open>k\<close> more
  entries. \<open>state_inv\<close> puts them together, and every event keeps it.
\<close>

section \<open>Definitions\<close>

definition check_ok :: "PipelineState \<Rightarrow> PassedCheck \<Rightarrow> bool" where
  "check_ok st c \<longleftrightarrow> pc_head c = current_head st
     \<and> (\<exists>w \<in> set (stages st). ws_id w = pc_stage_id c \<and> stage_kind w = StageKind.Command)"

fun approval_fits :: "Stage \<Rightarrow> string option \<Rightarrow> ApprovalRecord \<Rightarrow> bool" where
  "approval_fits (Stage.Approval _ count bd) cur a \<longleftrightarrow>
     length (ar_reviewers a) = unat count \<and> distinct (ar_reviewers a) \<and> [] \<notin> set (ar_reviewers a)
     \<and> (if bd then ar_head a = cur \<and> cur \<noteq> None \<and> ar_patch_id a \<noteq> None
        else ar_head a = None \<and> ar_patch_id a = None)"
| "approval_fits _ _ _ \<longleftrightarrow> False"

definition approval_ok :: "PipelineState \<Rightarrow> ApprovalRecord \<Rightarrow> bool" where
  "approval_ok st a \<longleftrightarrow>
     (\<exists>w \<in> set (stages st). ws_id w = ar_stage_id a \<and> approval_fits (ws_stage w) (current_head st) a)"

definition timeout_ok :: "PipelineState \<Rightarrow> bool" where
  "timeout_ok st \<longleftrightarrow>
     (case notified_timeout st of
        None \<Rightarrow> True
      | Some (i, a) \<Rightarrow> i < length (attempts st) \<and> a \<noteq> 0 \<and> a \<le> attempts st ! i)"

definition base_inv :: "PipelineState \<Rightarrow> bool" where
  "base_inv st \<longleftrightarrow>
     length (attempts st) = length (stages st)
     \<and> (\<forall>c \<in> set (passed_checks st). check_ok st c) \<and> distinct (map pc_stage_id (passed_checks st))
     \<and> (\<forall>a \<in> set (approvals st). approval_ok st a) \<and> distinct (map ar_stage_id (approvals st))
     \<and> (current_head st = None \<longleftrightarrow> patch_id st = None)
     \<and> distinct (approval_reviewers st) \<and> [] \<notin> set (approval_reviewers st) \<and> timeout_ok st"

definition budget :: "nat \<Rightarrow> PipelineState \<Rightarrow> bool" where
  "budget k st \<longleftrightarrow> (\<forall>a \<in> set (attempts st). unat a + k < 2 ^ 32)"

definition stage_covered :: "PipelineState \<Rightarrow> WorkflowStage \<Rightarrow> bool" where
  "stage_covered st w \<longleftrightarrow>
     (case ws_stage w of
        Stage.Work _ _ out \<Rightarrow> out = Branch \<longrightarrow> current_head st \<noteq> None \<and> branch st \<noteq> None
      | Stage.Command _ \<Rightarrow>
          (\<exists>c \<in> set (passed_checks st). pc_stage_id c = ws_id w \<and> pc_head c = current_head st)
      | Stage.Approval _ _ _ \<Rightarrow> approval_for_stage st w
      | _ \<Rightarrow> True)"

definition cov :: "nat \<Rightarrow> PipelineState \<Rightarrow> bool" where
  "cov k st \<longleftrightarrow> (\<forall>j < k. j < length (stages st) \<longrightarrow> stage_covered st (stages st ! j))"

fun is_pick :: "Stage \<Rightarrow> bool" where
  "is_pick (Stage.Fanout _ Pick) = True"
| "is_pick _ = False"

definition last_pick :: "Workflow \<Rightarrow> nat option" where
  "last_pick wfl =
     (case rposition (\<lambda>w. stage_kind w = StageKind.Fanout) (wf_stages wfl) of
        Some f \<Rightarrow> if is_pick (ws_stage (wf_stages wfl ! f)) then Some f else None
      | None \<Rightarrow> None)"

definition pick_record :: "PipelineState \<Rightarrow> nat \<Rightarrow> bool" where
  "pick_record st f \<longleftrightarrow> (\<exists>a \<in> set (approvals st). ar_stage_id a = ws_id (stages st ! Suc f))"

definition winner_ok :: "PipelineState \<Rightarrow> bool" where
  "winner_ok st \<longleftrightarrow> (\<exists>x. selected_fanout_child st = Some x \<and> x \<in> set (fanout_child_task_ids st))"

definition pick_at :: "nat \<Rightarrow> PipelineState \<Rightarrow> bool" where
  "pick_at k st \<longleftrightarrow>
     (\<forall>f. last_pick (workflow st) = Some f \<longrightarrow> pick_record st f \<longrightarrow> k < f \<or> (f < k \<and> winner_ok st))"

definition pick_pre :: "nat \<Rightarrow> PipelineState \<Rightarrow> bool" where
  "pick_pre i st \<longleftrightarrow>
     (\<forall>f. last_pick (workflow st) = Some f \<longrightarrow> pick_record st f \<longrightarrow> i \<le> f \<or> winner_ok st)"

definition has_merge :: "PipelineState \<Rightarrow> bool" where
  "has_merge st \<longleftrightarrow> (\<exists>w \<in> set (stages st). stage_kind w = StageKind.Merge)"

definition running_inv :: "PipelineState \<Rightarrow> bool" where
  "running_inv st \<longleftrightarrow>
     stage_index st < length (stages st) \<and> attempts st ! stage_index st \<noteq> 0
     \<and> cov (stage_index st) st \<and> pick_at (stage_index st) st \<and> merge_commit st = None
     \<and> \<not> approval_for_stage st (stages st ! stage_index st)
     \<and> (stage_kind (stages st ! stage_index st) = StageKind.Merge \<longrightarrow>
          allowed (merge_gate st (stage_index st)))"

definition done_inv :: "PipelineState \<Rightarrow> bool" where
  "done_inv st \<longleftrightarrow>
     cov (length (stages st)) st \<and> pick_at (length (stages st)) st
     \<and> (has_merge st \<longrightarrow> merge_commit st \<noteq> None)"

definition partial_ok :: "PipelineState \<Rightarrow> bool" where
  "partial_ok st \<longleftrightarrow>
     (approval_reviewers st \<noteq> [] \<longrightarrow>
        status st = PipelineStatus.Running \<and> stage_index st < length (stages st)
        \<and> (\<exists>by count bd. ws_stage (stages st ! stage_index st) = Stage.Approval by count bd
             \<and> length (approval_reviewers st) < unat count))"

definition reason_ok :: "PipelineState \<Rightarrow> bool" where
  "reason_ok st \<longleftrightarrow>
     (pending_work_reason st \<noteq> None \<longrightarrow>
        Suc (stage_index st) < length (stages st)
        \<and> stage_kind (stages st ! stage_index st) = StageKind.Work)"

definition state_inv :: "PipelineState \<Rightarrow> bool" where
  "state_inv st \<longleftrightarrow>
     base_inv st \<and> partial_ok st \<and> reason_ok st
     \<and> stage_index st \<le> length (stages st)
     \<and> (stage_index st = length (stages st) \<longrightarrow> status st = PipelineStatus.Done)
     \<and> (status st = PipelineStatus.Pending \<longrightarrow> st = state_unchecked (task_id st) (workflow st))
     \<and> (status st = PipelineStatus.Running \<longrightarrow> running_inv st)
     \<and> (status st = PipelineStatus.Done \<longrightarrow> done_inv st)
     \<and> (pending_head_changes st \<noteq> [] \<longrightarrow> merge_in_flight st)"

section \<open>Positions in a well-formed workflow\<close>

lemma nth_in_stages: "i < length (stages st) \<Longrightarrow> stages st ! i \<in> set (stages st)"
  by simp

lemma stage_position_id:
  "well_formed wfl \<Longrightarrow> i < length (wf_stages wfl) \<Longrightarrow>
     stage_position wfl (ws_id (wf_stages wfl ! i)) = Some i"
  unfolding stage_position_def well_formed_def by (rule position_distinct) auto

lemma recorded_before_id:
  "well_formed wfl \<Longrightarrow> i < length (wf_stages wfl) \<Longrightarrow>
     recorded_before wfl t (ws_id (wf_stages wfl ! i)) \<longleftrightarrow> i < t"
  by (simp add: recorded_before_def stage_position_id)

lemma same_id:
  "well_formed wfl \<Longrightarrow> i < length (wf_stages wfl) \<Longrightarrow> j < length (wf_stages wfl) \<Longrightarrow>
     ws_id (wf_stages wfl ! i) = ws_id (wf_stages wfl ! j) \<longleftrightarrow> i = j"
  unfolding well_formed_def by (metis length_map nth_map distinct_conv_nth)

lemma no_bound_before_work:
  assumes "well_formed wfl" and "c < length (wf_stages wfl)"
    and "stage_kind (wf_stages wfl ! c) = StageKind.Work" and "j < c"
  shows "\<not> is_head_bound (wf_stages wfl ! j)"
proof
  let ?S = "wf_stages wfl"
  assume b: "is_head_bound (?S ! j)"
  then have "needs_head (?S ! j)" by (auto simp: is_head_bound_def needs_head_def)
  moreover have "j < length ?S" using assms by simp
  ultimately obtain k where "k < length ?S" "c \<le> k" "is_branch_work (?S ! k)"
    using well_formed_last_work [OF assms(1)] assms(2,3) by blast
  with assms(1,4) b well_formed_bound [of wfl k j] show False by simp
qed

lemma recheck_target_Some:
  assumes "well_formed (workflow st)" and "recheck_target st c = Some t"
  shows "t \<le> c" "c < length (stages st)" "is_head_bound (stages st ! t)"
    "\<And>j. j < t \<Longrightarrow> \<not> is_head_bound (stages st ! j)"
    "stage_kind (stages st ! c) \<noteq> StageKind.Work"
proof -
  let ?S = "stages st"
  define start where "start = (case rposition is_branch_work (take c ?S) of
    Some work \<Rightarrow> work + 1 | None \<Rightarrow> 0)"
  from assms(2) have c: "c < length ?S" and nw: "stage_kind (?S ! c) \<noteq> StageKind.Work"
    and f: "List.find (\<lambda>i. case slice_get ?S i of Some v \<Rightarrow> is_head_bound v | None \<Rightarrow> False)
       [start..<c + 1] = Some t"
    by (auto simp: recheck_target_def start_def Let_def slice_get_def split: if_splits)
  then have t: "t < c + 1" "is_head_bound (?S ! t)"
    and least: "\<And>j. start \<le> j \<Longrightarrow> j < t \<Longrightarrow> \<not> is_head_bound (?S ! j)"
    using c unfolding find_upt by (auto simp: slice_get_def split: if_splits)
  show "t \<le> c" "c < length ?S" "is_head_bound (?S ! t)" "stage_kind (?S ! c) \<noteq> StageKind.Work"
    using t c nw by auto
  fix j assume "j < t"
  show "\<not> is_head_bound (?S ! j)"
  proof (cases "start \<le> j")
    case True
    with least \<open>j < t\<close> show ?thesis by simp
  next
    case False
    then obtain w where "rposition is_branch_work (take c ?S) = Some w" "j < w + 1"
      by (auto simp: start_def split: option.splits)
    then have "w < length ?S" "is_branch_work (?S ! w)" "j \<le> w"
      by (auto simp: rposition_eq_Some)
    moreover have "\<not> is_head_bound (?S ! w)" if "is_branch_work (?S ! w)"
      using that by (cases "ws_stage (?S ! w)") (auto simp: is_branch_work_def is_head_bound_def)
    ultimately show ?thesis
      using well_formed_bound [OF assms(1), of w j] by (cases "j = w") auto
  qed
qed

lemma recheck_target_None:
  assumes "well_formed (workflow st)" and "recheck_target st c = None" and "c < length (stages st)"
    and "j < c \<or> (j = c \<and> stage_kind (stages st ! c) \<noteq> StageKind.Work)"
  shows "\<not> is_head_bound (stages st ! j)"
proof (cases "stage_kind (stages st ! c) = StageKind.Work")
  case True
  with assms no_bound_before_work show ?thesis by blast
next
  case False
  let ?S = "stages st"
  define start where "start = (case rposition is_branch_work (take c ?S) of
    Some work \<Rightarrow> work + 1 | None \<Rightarrow> 0)"
  have f: "List.find (\<lambda>i. case slice_get ?S i of Some v \<Rightarrow> is_head_bound v | None \<Rightarrow> False)
       [start..<c + 1] = None"
    using assms(2,3) False by (simp add: recheck_target_def start_def Let_def)
  show ?thesis
  proof (cases "start \<le> j")
    case True
    with f assms(3,4) show ?thesis unfolding find_upt_None by (auto simp: slice_get_def)
  next
    case False
    then obtain w where "rposition is_branch_work (take c ?S) = Some w" "j < w + 1"
      by (auto simp: start_def split: option.splits)
    then have "w < length ?S" "is_branch_work (?S ! w)" "j \<le> w"
      by (auto simp: rposition_eq_Some)
    moreover have "\<not> is_head_bound (?S ! w)" if "is_branch_work (?S ! w)"
      using that by (cases "ws_stage (?S ! w)") (auto simp: is_branch_work_def is_head_bound_def)
    ultimately show ?thesis
      using well_formed_bound [OF assms(1), of w j] by (cases "j = w") auto
  qed
qed

lemma last_pick_Some:
  assumes "last_pick wfl = Some f"
  shows "f < length (wf_stages wfl)" "\<exists>src. ws_stage (wf_stages wfl ! f) = Stage.Fanout src Pick"
    "\<And>k. f < k \<Longrightarrow> k < length (wf_stages wfl) \<Longrightarrow> stage_kind (wf_stages wfl ! k) \<noteq> StageKind.Fanout"
proof -
  have "is_pick s \<longleftrightarrow> (\<exists>src. s = Stage.Fanout src Pick)" for s
    by (cases s rule: is_pick.cases) auto
  then show "f < length (wf_stages wfl)" "\<exists>src. ws_stage (wf_stages wfl ! f) = Stage.Fanout src Pick"
    "\<And>k. f < k \<Longrightarrow> k < length (wf_stages wfl) \<Longrightarrow> stage_kind (wf_stages wfl ! k) \<noteq> StageKind.Fanout"
    using assms by (auto simp: last_pick_def rposition_eq_Some split: option.splits if_splits)
qed

lemma last_pick_approval:
  assumes "well_formed wfl" and "last_pick wfl = Some f"
  shows "Suc f < length (wf_stages wfl)" "stage_kind (wf_stages wfl ! Suc f) = StageKind.Approval"
  using last_pick_Some(1,2) [OF assms(2)] well_formed_pick [OF assms(1)] by blast+

section \<open>Records\<close>

lemma base_invD:
  assumes "base_inv st"
  shows "length (attempts st) = length (stages st)"
    and "c \<in> set (passed_checks st) \<Longrightarrow> check_ok st c"
    and "distinct (map pc_stage_id (passed_checks st))"
    and "a \<in> set (approvals st) \<Longrightarrow> approval_ok st a"
    and "distinct (map ar_stage_id (approvals st))"
    and "current_head st = None \<longleftrightarrow> patch_id st = None"
    and "distinct (approval_reviewers st)" and "[] \<notin> set (approval_reviewers st)"
    and "timeout_ok st"
  using assms by (auto simp: base_inv_def)

lemma base_invI:
  assumes "length (attempts st) = length (stages st)"
    and "\<And>c. c \<in> set (passed_checks st) \<Longrightarrow> check_ok st c"
    and "distinct (map pc_stage_id (passed_checks st))"
    and "\<And>a. a \<in> set (approvals st) \<Longrightarrow> approval_ok st a"
    and "distinct (map ar_stage_id (approvals st))"
    and "current_head st = None \<longleftrightarrow> patch_id st = None"
    and "distinct (approval_reviewers st)" and "[] \<notin> set (approval_reviewers st)"
    and "timeout_ok st"
  shows "base_inv st"
  using assms by (simp add: base_inv_def)

lemma check_ok_cong:
  "workflow st' = workflow st \<Longrightarrow> current_head st' = current_head st \<Longrightarrow> check_ok st' c = check_ok st c"
  by (simp add: check_ok_def)

lemma approval_ok_cong:
  "workflow st' = workflow st \<Longrightarrow> current_head st' = current_head st \<Longrightarrow>
     approval_ok st' a = approval_ok st a"
  by (simp add: approval_ok_def)

lemma timeout_ok_cong:
  "attempts st' = attempts st \<Longrightarrow> notified_timeout st' = notified_timeout st \<Longrightarrow>
     timeout_ok st' = timeout_ok st"
  by (simp add: timeout_ok_def split: option.split)

lemma base_inv_shrink:
  assumes inv: "base_inv st"
    and eqs: "workflow st' = workflow st" "attempts st' = attempts st"
      "notified_timeout st' = notified_timeout st" "current_head st' = current_head st"
      "patch_id st' = patch_id st"
    and recs: "approvals st' = filter P (approvals st)" "passed_checks st' = filter Q (passed_checks st)"
    and rev: "approval_reviewers st' = [] \<or> approval_reviewers st' = approval_reviewers st"
  shows "base_inv st'"
proof (rule base_invI)
  note d = base_invD [OF inv]
  show "check_ok st' c" if "c \<in> set (passed_checks st')" for c
    using that recs d(2) check_ok_cong [OF eqs(1,4)] by simp
  show "approval_ok st' a" if "a \<in> set (approvals st')" for a
    using that recs d(4) approval_ok_cong [OF eqs(1,4)] by simp
  show "timeout_ok st'" using d(9) timeout_ok_cong [OF eqs(2,3)] by simp
qed (use base_invD [OF inv] eqs recs rev in \<open>auto simp: distinct_map_filter\<close>)

lemma base_inv_same:
  assumes "base_inv st"
    and "workflow st' = workflow st" "attempts st' = attempts st" "notified_timeout st' = notified_timeout st"
    and "current_head st' = current_head st" "patch_id st' = patch_id st"
    and "approvals st' = approvals st" "passed_checks st' = passed_checks st"
    and "approval_reviewers st' = [] \<or> approval_reviewers st' = approval_reviewers st"
  shows "base_inv st'"
  by (rule base_inv_shrink [OF assms(1), where P = "\<lambda>_. True" and Q = "\<lambda>_. True"])
    (use assms in simp_all)

lemma approval_fits_new_head:
  "approval_fits s cur a \<Longrightarrow> ar_head a = None \<or> ar_head a = Some h \<Longrightarrow> approval_fits s (Some h) a"
  by (cases s) (auto split: if_splits)

lemma base_inv_new_head:
  assumes inv: "base_inv st"
    and eqs: "workflow st' = workflow st" "attempts st' = attempts st"
      "notified_timeout st' = notified_timeout st"
    and head: "current_head st' = Some h" "patch_id st' \<noteq> None"
    and recs: "approvals st' = filter (\<lambda>a. ar_head a = None \<or> ar_head a = Some h) (approvals st)"
      "passed_checks st' = filter (\<lambda>c. pc_head c = Some h) (passed_checks st)"
    and rev: "approval_reviewers st' = [] \<or> approval_reviewers st' = approval_reviewers st"
  shows "base_inv st'"
proof (rule base_invI)
  note d = base_invD [OF inv]
  show "check_ok st' c" if "c \<in> set (passed_checks st')" for c
    using that recs(2) d(2) [of c] eqs(1) head(1) by (simp add: check_ok_def)
  show "approval_ok st' a" if "a \<in> set (approvals st')" for a
  proof -
    from that recs(1) have a: "a \<in> set (approvals st)" "ar_head a = None \<or> ar_head a = Some h" by auto
    from d(4) [OF a(1)] obtain w where "w \<in> set (stages st)" "ws_id w = ar_stage_id a"
      "approval_fits (ws_stage w) (current_head st) a" unfolding approval_ok_def by blast
    then show ?thesis
      unfolding approval_ok_def eqs(1) head(1) using approval_fits_new_head [OF _ a(2)] by blast
  qed
  show "timeout_ok st'" using d(9) timeout_ok_cong [OF eqs(2,3)] by simp
qed (use base_invD [OF inv] eqs recs rev head in \<open>auto simp: distinct_map_filter\<close>)

lemma base_inv_record_new_head: "base_inv st \<Longrightarrow> base_inv (record_new_head h p st)"
  by (erule base_inv_new_head [where h = h]) simp_all

abbreviation carried :: "string \<Rightarrow> string \<Rightarrow> string \<Rightarrow> ApprovalRecord \<Rightarrow> ApprovalRecord" where
  "carried old ap new a \<equiv>
     (if ar_head a = Some old \<and> ar_patch_id a = Some ap then a\<lparr>ar_head := Some new\<rparr> else a)"

lemma approval_fits_carried:
  "approval_fits s (Some old) a \<Longrightarrow>
     ar_head (carried old ap new a) = None \<or> ar_head (carried old ap new a) = Some new \<Longrightarrow>
     approval_fits s (Some new) (carried old ap new a)"
  by (cases s) (auto split: if_splits)

lemma base_inv_carry:
  assumes inv: "base_inv st" and head: "current_head st = Some old"
  shows "base_inv (record_new_head new p (carry_approvals old ap new st))" (is "base_inv ?st'")
proof (rule base_invI)
  note d = base_invD [OF inv]
  show "approval_ok ?st' b" if b: "b \<in> set (approvals ?st')" for b
  proof -
    from b obtain a where a: "a \<in> set (approvals st)" "b = carried old ap new a"
      "ar_head b = None \<or> ar_head b = Some new" by auto
    from d(4) [OF a(1)] obtain w where w: "w \<in> set (stages st)" "ws_id w = ar_stage_id a"
      "approval_fits (ws_stage w) (Some old) a" unfolding approval_ok_def head by blast
    have "approval_fits (ws_stage w) (Some new) b"
      using approval_fits_carried [OF w(3), of ap new] a(2,3) by simp
    moreover have "ws_id w = ar_stage_id b" using w(2) a(2) by simp
    ultimately show ?thesis using w(1) by (auto simp: approval_ok_def)
  qed
  have ids: "map (\<lambda>x. ar_stage_id (carried old ap new x)) (approvals st) = map ar_stage_id (approvals st)"
    by (induction "approvals st") auto
  have "distinct (map ar_stage_id (map (carried old ap new) (approvals st)))"
    unfolding map_map comp_def ids by (rule d(5))
  then show "distinct (map ar_stage_id (approvals ?st'))"
    unfolding record_new_head_changes carry_approvals_changes by (rule distinct_map_filter)
  show "timeout_ok ?st'" using d(9) timeout_ok_cong [of ?st' st] by simp
qed (use base_invD [OF inv] in \<open>auto simp: check_ok_def\<close>)

lemma base_inv_heads:
  assumes "base_inv st" and "a \<in> set (approvals st)"
  shows "ar_head a = None \<or> ar_head a = current_head st"
proof -
  from base_invD(4) [OF assms] obtain w where "w \<in> set (stages st)" "ws_id w = ar_stage_id a"
    "approval_fits (ws_stage w) (current_head st) a"
    unfolding approval_ok_def by blast
  then show ?thesis by (cases "ws_stage w") (auto split: if_splits)
qed

lemma base_inv_check_head:
  "base_inv st \<Longrightarrow> c \<in> set (passed_checks st) \<Longrightarrow> pc_head c = current_head st"
  using base_invD(2) [of st c] by (simp add: check_ok_def)

lemma base_inv_record_product:
  assumes "base_inv st"
  shows "base_inv ((record_product product st)\<lparr>work_product := wp\<rparr>)"
proof (cases product)
  case (BranchProduct b h p)
  show ?thesis
  proof (cases "current_head st = Some h")
    case True
    have "filter (\<lambda>a. ar_head a = None \<or> ar_head a = Some h) (approvals st) = approvals st"
      using base_inv_heads [OF assms] True by (simp add: filter_id_conv)
    moreover have "filter (\<lambda>c. pc_head c = Some h) (passed_checks st) = passed_checks st"
      using base_inv_check_head [OF assms] True by (simp add: filter_id_conv)
    ultimately show ?thesis
      using BranchProduct True by (intro base_inv_new_head [OF assms, where h = h]) auto
  next
    case False
    then show ?thesis
      using BranchProduct by (intro base_inv_new_head [OF assms, where h = h]) auto
  qed
qed (auto intro: base_inv_same [OF assms])

subsection \<open>Attempt counters\<close>

lemma unat_plus_one: "unat (a :: u32) + 1 < 2 ^ 32 \<Longrightarrow> unat (a + 1) = unat a + 1"
  by (simp add: unat_word_ariths)

lemma budgetD: "budget k st \<Longrightarrow> i < length (attempts st) \<Longrightarrow> unat (attempts st ! i) + k < 2 ^ 32"
  by (simp add: budget_def)

lemma budget_room:
  "budget (Suc k) st \<Longrightarrow> i < length (attempts st) \<Longrightarrow> unat (attempts st ! i) + 1 < 2 ^ 32"
  using budgetD [of "Suc k" st i] by simp

lemma budget_mono: "budget k st \<Longrightarrow> j \<le> k \<Longrightarrow> budget j st"
  by (auto simp: budget_def)

lemma budget_cong: "attempts st' = attempts st \<Longrightarrow> budget k st' = budget k st"
  by (simp add: budget_def)

lemma budget_bump:
  assumes "budget (Suc k) st" and "i < length (attempts st)"
    and "attempts st' = (attempts st)[i := attempts st ! i + 1]"
  shows "budget k st'"
proof -
  have new: "unat (attempts st ! i + 1) + k < 2 ^ 32"
    using budgetD [OF assms(1,2)] unat_plus_one [OF budget_room [OF assms(1,2)]] by simp
  have old: "unat a + k < 2 ^ 32" if "a \<in> set (attempts st)" for a
    using assms(1) that by (auto simp: budget_def)
  show ?thesis
    unfolding budget_def assms(3)
    using new old set_update_subset_insert [of "attempts st" i "attempts st ! i + 1"] by blast
qed

lemma base_inv_bump:
  assumes inv: "base_inv st" and room: "unat (attempts st ! i) + 1 < 2 ^ 32"
  shows "base_inv (st\<lparr>attempts := (attempts st)[i := attempts st ! i + 1]\<rparr>)" (is "base_inv ?st'")
proof (rule base_invI)
  note d = base_invD [OF inv]
  have le: "attempts st ! i \<le> attempts st ! i + 1"
    using unat_plus_one [OF room] by (simp add: word_le_nat_alt)
  show "timeout_ok ?st'"
  proof (cases "notified_timeout st")
    case None
    then show ?thesis by (simp add: timeout_ok_def)
  next
    case (Some ja)
    obtain j a where ja: "ja = (j, a)" by (cases ja)
    with d(9) Some have "j < length (attempts st)" "a \<noteq> 0" "a \<le> attempts st ! j"
      by (auto simp: timeout_ok_def)
    then show ?thesis using Some ja le by (cases "i = j") (auto simp: timeout_ok_def intro: order_trans)
  qed
qed (use base_invD [OF inv] in \<open>simp_all add: check_ok_def approval_ok_def\<close>)

end
