(* ===== verification/Pipeline_Entry.thy ===== *)
theory Pipeline_Entry
  imports Pipeline_Invariant
begin

text \<open>
  Entering a stage. \<open>entry_ok i st\<close> is what a caller of \<open>enter_stage i\<close> establishes; then the call
  succeeds, which includes that the merge gate is open when the merge stage is reached, and the
  result satisfies \<open>state_inv\<close>.
\<close>

section \<open>Coverage under changes of the records\<close>

lemma approval_for_stage_iff:
  "ws_stage w = Stage.Approval by count bd \<Longrightarrow>
     approval_for_stage st w \<longleftrightarrow>
       (\<exists>a \<in> set (approvals st). ar_stage_id a = ws_id w
          \<and> (bd \<longrightarrow> current_head st \<noteq> None \<and> ar_head a = current_head st))"
  by (auto simp: approval_for_stage_def approval_satisfied_def approval_heads_def filter_empty_conv
      intro!: image_eqI)

lemma fanout_not_approved: "ws_stage w = Stage.Fanout src join \<Longrightarrow> \<not> approval_for_stage st w"
  by (simp add: approval_for_stage_def)

lemma is_bound_approval_Approval [simp]: "is_bound_approval (Stage.Approval by count bd) = bd"
  by (cases bd) simp_all

lemma stage_covered_mono:
  assumes "stage_covered st w" and "current_head st' = current_head st" and "branch st' = branch st"
    and "\<And>c. c \<in> set (passed_checks st) \<Longrightarrow> pc_stage_id c = ws_id w \<Longrightarrow> c \<in> set (passed_checks st')"
    and "\<And>a. a \<in> set (approvals st) \<Longrightarrow> ar_stage_id a = ws_id w \<Longrightarrow> a \<in> set (approvals st')"
  shows "stage_covered st' w"
proof (cases "ws_stage w")
  case (Approval "by" count bd)
  then show ?thesis
    using assms(1,2,5) unfolding stage_covered_def by (simp add: approval_for_stage_iff) blast
next
  case (Command c)
  then show ?thesis using assms(1,2,4) unfolding stage_covered_def by simp blast
qed (use assms(1-3) in \<open>auto simp: stage_covered_def\<close>)

lemma covD: "cov k st \<Longrightarrow> j < k \<Longrightarrow> j < length (stages st) \<Longrightarrow> stage_covered st (stages st ! j)"
  by (simp add: cov_def)

lemma cov_le: "cov k st \<Longrightarrow> j \<le> k \<Longrightarrow> cov j st"
  by (simp add: cov_def)

lemma cov_Suc:
  "cov k st \<Longrightarrow> (k < length (stages st) \<Longrightarrow> stage_covered st (stages st ! k)) \<Longrightarrow> cov (Suc k) st"
  by (auto simp: cov_def less_Suc_eq)

lemma cov_mono:
  assumes "cov k st" and "workflow st' = workflow st"
    and "current_head st' = current_head st" and "branch st' = branch st"
    and "\<And>j c. j < k \<Longrightarrow> j < length (stages st) \<Longrightarrow> c \<in> set (passed_checks st) \<Longrightarrow>
           pc_stage_id c = ws_id (stages st ! j) \<Longrightarrow> c \<in> set (passed_checks st')"
    and "\<And>j a. j < k \<Longrightarrow> j < length (stages st) \<Longrightarrow> a \<in> set (approvals st) \<Longrightarrow>
           ar_stage_id a = ws_id (stages st ! j) \<Longrightarrow> a \<in> set (approvals st')"
  shows "cov k st'"
  unfolding cov_def assms(2)
proof (intro allI impI)
  fix j assume j: "j < k" "j < length (stages st)"
  show "stage_covered st' (stages st ! j)"
    by (rule stage_covered_mono [OF covD [OF assms(1) j] assms(3,4)]) (use assms(5,6) j in blast)+
qed

lemma cov_same:
  assumes "cov k st" and "workflow st' = workflow st" "current_head st' = current_head st"
    "branch st' = branch st" "passed_checks st' = passed_checks st" "approvals st' = approvals st"
  shows "cov k st'"
  by (rule cov_mono [OF assms(1-4)]) (use assms(5,6) in simp_all)

lemma cov_forget:
  assumes "well_formed (workflow st)" and "cov k st" and "k \<le> t"
    and "workflow st' = workflow st" "current_head st' = current_head st" "branch st' = branch st"
    and "passed_checks st' = passed_checks st
         \<or> passed_checks st' =
             filter (\<lambda>c. recorded_before (workflow st) t (pc_stage_id c)) (passed_checks st)"
    and "approvals st' = approvals st
         \<or> approvals st' = filter (\<lambda>a. recorded_before (workflow st) t (ar_stage_id a)) (approvals st)"
  shows "cov k st'"
proof (rule cov_mono [OF assms(2,4-6)])
  fix j assume j: "j < k" "j < length (stages st)"
  then have r: "recorded_before (workflow st) t (ws_id (stages st ! j))"
    using assms(1,3) by (simp add: recorded_before_id)
  show "c \<in> set (passed_checks st')"
    if "c \<in> set (passed_checks st)" "pc_stage_id c = ws_id (stages st ! j)" for c
    using that r assms(7) by auto
  show "a \<in> set (approvals st')"
    if "a \<in> set (approvals st)" "ar_stage_id a = ws_id (stages st ! j)" for a
    using that r assms(8) by auto
qed

lemma record_stage:
  assumes "well_formed (workflow st)" and "base_inv st" and "a \<in> set (approvals st)"
    and "j < length (stages st)" and "ar_stage_id a = ws_id (stages st ! j)"
  shows "approval_fits (ws_stage (stages st ! j)) (current_head st) a"
proof -
  from base_invD(4) [OF assms(2,3)] obtain w where w: "w \<in> set (stages st)" "ws_id w = ar_stage_id a"
    "approval_fits (ws_stage w) (current_head st) a"
    unfolding approval_ok_def by blast
  then obtain i where "i < length (stages st)" "w = stages st ! i" by (auto simp: in_set_conv_nth)
  with w assms(4,5) same_id [OF assms(1)] have "w = stages st ! j" by simp
  with w show ?thesis by simp
qed

lemma unbound_record:
  assumes "well_formed (workflow st)" and "base_inv st" and "a \<in> set (approvals st)"
    and "j < length (stages st)" and "ar_stage_id a = ws_id (stages st ! j)"
    and "\<not> is_head_bound (stages st ! j)"
  shows "ar_head a = None"
  using record_stage [OF assms(1-5)] assms(6)
  by (cases "ws_stage (stages st ! j)") (auto simp: is_head_bound_def split: if_splits)

lemma cov_new_head:
  assumes "well_formed (workflow st)" and "base_inv st" and "cov k st"
    and free: "\<And>j. j < k \<Longrightarrow> j < length (stages st) \<Longrightarrow> \<not> is_head_bound (stages st ! j)"
    and "workflow st' = workflow st" and head: "current_head st \<noteq> None \<Longrightarrow> current_head st' \<noteq> None"
    and br: "branch st \<noteq> None \<Longrightarrow> branch st' \<noteq> None"
    and kept: "\<And>a. a \<in> set (approvals st) \<Longrightarrow> ar_head a = None \<Longrightarrow> a \<in> set (approvals st')"
  shows "cov k st'"
  unfolding cov_def assms(5)
proof (intro allI impI)
  fix j assume j: "j < k" "j < length (stages st)"
  let ?w = "stages st ! j"
  have c: "stage_covered st ?w" by (rule covD [OF assms(3) j])
  have nb: "\<not> is_head_bound ?w" by (rule free [OF j])
  show "stage_covered st' ?w"
  proof (cases "ws_stage ?w")
    case (Approval "by" count bd)
    with nb have bd: "\<not> bd" by (simp add: is_head_bound_def)
    from c Approval obtain a where a: "a \<in> set (approvals st)" "ar_stage_id a = ws_id ?w"
      by (auto simp: stage_covered_def approval_for_stage_iff)
    with kept unbound_record [OF assms(1,2) a(1) j(2) a(2) nb] have "a \<in> set (approvals st')" by blast
    with Approval bd a(2) show ?thesis by (auto simp: stage_covered_def approval_for_stage_iff)
  qed (use c nb head br in \<open>auto simp: stage_covered_def is_head_bound_def\<close>)
qed

section \<open>The merge gate\<close>

lemma set_map_filter_take:
  "f \<in> set (List.map_filter g (take i xs)) \<longleftrightarrow> (\<exists>j < i. j < length xs \<and> g (xs ! j) = Some f)"
proof -
  have "f \<in> set (List.map_filter g (take i xs)) \<longleftrightarrow> list_ex (\<lambda>x. g x = Some f) (take i xs)"
    by (auto simp: List.map_filter_def list_ex_iff image_iff)
  then show ?thesis by (simp only: take_ex_nth)
qed

lemma gate_fact_holds:
  assumes "stage_covered st w" and "current_head st = Some h" and "gate_fact st (ws_id w) (ws_stage w) = Some f"
  shows "fact_holds h f"
proof (cases "ws_stage w")
  case (Command c)
  with assms obtain k where k: "k \<in> set (passed_checks st)" "pc_stage_id k = ws_id w" "pc_head k = Some h"
    by (auto simp: stage_covered_def)
  then have "h \<in> set (passed_heads st (ws_id w))"
    by (auto simp: passed_heads_def List.map_filter_def image_iff intro!: bexI [of _ k])
  with assms(3) Command show ?thesis by auto
next
  case (Approval "by" count bd)
  with assms show ?thesis
    by (auto simp: stage_covered_def approval_for_stage_def approval_satisfied_def split: if_splits)
qed (use assms(3) in auto)

lemma gate_fact_check:
  "stage_kind w = StageKind.Command \<Longrightarrow> \<exists>f. gate_fact st (ws_id w) (ws_stage w) = Some f \<and> is_check f"
  by (auto simp: kind_simps)

lemma gate_fact_bound:
  "is_bound_approval (ws_stage w) \<Longrightarrow>
     \<exists>f. gate_fact st (ws_id w) (ws_stage w) = Some f \<and> is_bound_fact f"
  by (cases "ws_stage w") auto

lemma gate_open:
  assumes wf: "well_formed (workflow st)" and cov: "cov i st" and i: "i < length (stages st)"
    and merge: "stage_kind (stages st ! i) = StageKind.Merge"
  shows "allowed (merge_gate st i)" "current_head st \<noteq> None"
proof -
  have "needs_head (stages st ! i)" using merge by (simp add: needs_head_def)
  then obtain b where b: "b < i" "is_branch_work (stages st ! b)"
    using well_formed_branch_first [OF wf i] by blast
  with covD [OF cov, of b] i show head: "current_head st \<noteq> None"
    by (cases "ws_stage (stages st ! b)")
      (auto simp: is_branch_work_def stage_covered_def elim!: is_branch_work_stage.elims)
  then obtain h where h: "current_head st = Some h" by blast
  let ?facts = "List.map_filter (\<lambda>w. gate_fact st (ws_id w) (ws_stage w)) (take i (stages st))"
  have facts: "f \<in> set ?facts \<longleftrightarrow> (\<exists>j < i. gate_fact st (ws_id (stages st ! j)) (ws_stage (stages st ! j)) = Some f)" for f
    using i by (auto simp: set_map_filter_take)
  from well_formed_merge [OF wf i merge] obtain c
    where c: "c < i" "stage_kind (stages st ! c) = StageKind.Command"
      and rev: "wf_allow_unreviewed (workflow st) \<or> (\<exists>j < i. is_bound_approval (ws_stage (stages st ! j)))"
    by blast
  have "\<exists>f \<in> set ?facts. is_check f"
    using c gate_fact_check unfolding Bex_def facts by blast
  moreover have "wf_allow_unreviewed (workflow st) \<or> (\<exists>f \<in> set ?facts. is_bound_fact f)"
    using rev gate_fact_bound unfolding Bex_def facts by blast
  moreover have "\<forall>f \<in> set ?facts. fact_holds h f"
    unfolding Ball_def facts using gate_fact_holds [OF _ h] covD [OF cov] i by fastforce
  ultimately show "allowed (merge_gate st i)"
    unfolding merge_gate_def gate.gate_iff h by blast
qed

section \<open>Entering\<close>

definition entry_ok :: "nat \<Rightarrow> PipelineState \<Rightarrow> bool" where
  "entry_ok i st \<longleftrightarrow>
     well_formed (workflow st) \<and> base_inv st \<and> cov i st \<and> pick_pre i st \<and> i \<le> length (stages st)
     \<and> pending_head_changes st = [] \<and> merge_commit st = None \<and> status st = PipelineStatus.Running
     \<and> (i = length (stages st) \<longrightarrow>
          approval_reviewers st = [] \<and> pending_work_reason st = None \<and> \<not> has_merge st)"

lemma entry_okD:
  assumes "entry_ok i st"
  shows "well_formed (workflow st)" "base_inv st" "cov i st" "pick_pre i st"
    "i \<le> length (stages st)" "pending_head_changes st = []" "merge_commit st = None"
    "status st = PipelineStatus.Running"
  using assms by (simp_all add: entry_ok_def)

lemma pick_record_cong:
  "workflow st' = workflow st \<Longrightarrow> approvals st' = approvals st \<Longrightarrow> pick_record st' f = pick_record st f"
  by (simp add: pick_record_def)

lemma pick_record_dropped:
  assumes "well_formed (workflow st)" and "last_pick (workflow st) = Some f" and "t \<le> Suc f"
    and "workflow st' = workflow st"
    and "approvals st' = filter (\<lambda>a. recorded_before (workflow st) t (ar_stage_id a)) (approvals st)"
  shows "\<not> pick_record st' f"
  using recorded_before_id [OF assms(1) last_pick_approval(1) [OF assms(1,2)], of t] assms(3-5)
  by (auto simp: pick_record_def)

lemma pick_at_entered:
  assumes wf: "well_formed (workflow st)" and pre: "pick_pre i st" and ij: "i \<le> j" "j < length (stages st)"
    and skipped: "\<And>k. i \<le> k \<Longrightarrow> k < j \<Longrightarrow> approval_for_stage st (stages st ! k)"
    and st': "workflow st' = workflow st" "approvals st' = approvals (reset_fanout_at j st)"
      "selected_fanout_child st' = selected_fanout_child (reset_fanout_at j st)"
      "fanout_child_task_ids st' = fanout_child_task_ids (reset_fanout_at j st)"
  shows "pick_at j st'"
  unfolding pick_at_def st'(1)
proof (intro allI impI)
  fix f assume f: "last_pick (workflow st) = Some f" and rec: "pick_record st' f"
  obtain src where src: "ws_stage (stages st ! f) = Stage.Fanout src Pick"
    using last_pick_Some(2) [OF f] by blast
  show "j < f \<or> (f < j \<and> winner_ok st')"
  proof (cases "stage_kind (stages st ! j) = StageKind.Fanout")
    case True
    then have "j \<le> f" using last_pick_Some(3) [OF f] ij(2) by (meson not_le)
    moreover have "approvals st' = filter (\<lambda>a. recorded_before (workflow st) j (ar_stage_id a)) (approvals st)"
      using st'(2) True ij(2) by (simp add: reset_fanout_at_fanout)
    ultimately have "\<not> pick_record st' f"
      using st'(1) by (intro pick_record_dropped [OF wf f, of j st']) simp_all
    with rec show ?thesis by blast
  next
    case False
    then have same: "reset_fanout_at j st = st" using ij(2) by simp
    have "j \<noteq> f" using False src by auto
    moreover have "winner_ok st'" if "f < j"
    proof -
      have "\<not> i \<le> f" using skipped [of f] that src by (auto simp: fanout_not_approved)
      moreover have "pick_record st f"
        using rec pick_record_cong [of st' st f] st'(1,2) same by simp
      ultimately have "winner_ok st" using pre f by (auto simp: pick_pre_def)
      then show ?thesis using st'(3,4) same by (simp add: winner_ok_def)
    qed
    ultimately show ?thesis by (meson linorder_neqE_nat)
  qed
qed

lemma pick_at_end:
  assumes wf: "well_formed (workflow st)" and pre: "pick_pre i st"
    and skipped: "\<And>k. i \<le> k \<Longrightarrow> k < length (stages st) \<Longrightarrow> approval_for_stage st (stages st ! k)"
    and st': "workflow st' = workflow st" "approvals st' = approvals st"
      "selected_fanout_child st' = selected_fanout_child st"
      "fanout_child_task_ids st' = fanout_child_task_ids st"
  shows "pick_at (length (stages st)) st'"
  unfolding pick_at_def st'(1)
proof (intro allI impI)
  fix f assume f: "last_pick (workflow st) = Some f" and "pick_record st' f"
  then have rec: "pick_record st f" using pick_record_cong [OF st'(1,2)] by simp
  have "f < length (stages st)" by (rule last_pick_Some(1) [OF f])
  moreover have "\<not> i \<le> f"
    using skipped [of f] last_pick_Some(1,2) [OF f] by (auto simp: fanout_not_approved)
  ultimately show "length (stages st) < f \<or> (f < length (stages st) \<and> winner_ok st')"
    using pre f rec st'(3,4) by (auto simp: pick_pre_def winner_ok_def)
qed

definition entered :: "nat \<Rightarrow> PipelineState \<Rightarrow> PipelineState" where
  "entered j st = (let st1 = prepare_stage j (reset_fanout_at j st)
     in st1\<lparr>attempts := (attempts st1)[j := attempts st1 ! j + 1]\<rparr>)"

lemma entered_simps [simp]:
  "workflow (entered j st) = workflow st" "status (entered j st) = status st"
  "stage_index (entered j st) = j" "pending_work_reason (entered j st) = None"
  "approval_reviewers (entered j st) = []" "current_head (entered j st) = current_head st"
  "branch (entered j st) = branch st" "patch_id (entered j st) = patch_id st"
  "passed_checks (entered j st) = passed_checks st" "merge_commit (entered j st) = merge_commit st"
  "pending_head_changes (entered j st) = pending_head_changes st"
  "approvals (entered j st) = approvals (reset_fanout_at j st)"
  "selected_fanout_child (entered j st) = selected_fanout_child (reset_fanout_at j st)"
  "fanout_child_task_ids (entered j st) = fanout_child_task_ids (reset_fanout_at j st)"
  "attempts (entered j st) = (attempts st)[j := attempts st ! j + 1]"
  "task_id (entered j st) = task_id st"
  by (simp_all add: entered_def Let_def)

lemma base_inv_reset: "base_inv st \<Longrightarrow> base_inv (prepare_stage j (reset_fanout_at j st))"
  using reset_fanout_at_approvals [of j st]
  by (elim disjE) (rule base_inv_same base_inv_shrink [where Q = "\<lambda>_. True"]; simp)+

lemma entered_inv:
  assumes ok: "entry_ok i st" and room: "budget (Suc K) st" and ij: "i \<le> j" "j < length (stages st)"
    and skipped: "\<And>k. i \<le> k \<Longrightarrow> k < j \<Longrightarrow> approval_for_stage st (stages st ! k)"
    and stop: "\<not> approval_for_stage st (stages st ! j)"
  shows "base_inv (entered j st)" "running_inv (entered j st)" "budget K (entered j st)"
    "cov j (entered j st)"
proof -
  note d = entry_okD [OF ok]
  have len: "j < length (attempts st)" using base_invD(1) [OF d(2)] ij(2) by simp
  have room1: "unat (attempts st ! j) + 1 < 2 ^ 32" by (rule budget_room [OF room len])
  show "base_inv (entered j st)"
    unfolding entered_def Let_def using base_inv_reset [OF d(2)] room1 by (intro base_inv_bump) simp_all
  show "budget K (entered j st)" by (rule budget_bump [OF room len]) simp
  have cj: "cov j st"
  proof (unfold cov_def, intro allI impI)
    fix k assume k: "k < j" "k < length (stages st)"
    show "stage_covered st (stages st ! k)"
    proof (cases "k < i")
      case True
      then show ?thesis using covD [OF d(3)] k by blast
    next
      case False
      then have "approval_for_stage st (stages st ! k)" using skipped k by simp
      then show ?thesis by (auto simp: stage_covered_def approval_for_stage_def split: Stage.splits)
    qed
  qed
  show c: "cov j (entered j st)"
    by (rule cov_forget [OF d(1) cj order.refl]) (use reset_fanout_at_approvals [of j st] in simp_all)
  have nz: "attempts st ! j + 1 \<noteq> 0" using unat_plus_one [OF room1] by auto
  have "\<not> approval_for_stage (entered j st) (stages st ! j)"
    using stop approval_for_stage_entered [OF ij(2)]
      approval_for_stage_cong [of "entered j st" "reset_fanout_at j st"] by simp
  moreover have "pick_at j (entered j st)" by (rule pick_at_entered [OF d(1,4) ij skipped]) simp_all
  moreover have "allowed (merge_gate (entered j st) j)"
    if "stage_kind (stages st ! j) = StageKind.Merge"
    using gate_open(1) [of "entered j st" j] d(1) c ij that by simp
  ultimately show "running_inv (entered j st)"
    unfolding running_inv_def using ij(2) len c nz d(7) by simp
qed

lemma state_inv_stopped:
  assumes "base_inv st" and "status st \<in> {PipelineStatus.Failed, PipelineStatus.Cancelled}"
    and "approval_reviewers st = []" and "reason_ok st" and "stage_index st < length (stages st)"
    and "pending_head_changes st = []"
  shows "state_inv st"
  using assms by (auto simp: state_inv_def partial_ok_def)

lemma state_inv_running:
  assumes "base_inv st" and "status st = PipelineStatus.Running" and "running_inv st"
    and "partial_ok st" and "reason_ok st" and "pending_head_changes st \<noteq> [] \<Longrightarrow> merge_in_flight st"
  shows "state_inv st"
  using assms by (auto simp: state_inv_def running_inv_def)

lemma stage_request_accepts:
  assumes "stage_kind w = StageKind.Merge \<Longrightarrow> allowed (merge_gate st i) \<and> current_head st \<noteq> None"
  shows "stage_request st i w a \<noteq> Inl (Inr e)"
  using assms by (auto simp: stage_request_def split: Stage.splits sum.splits option.splits)

lemma request_entered:
  assumes "j < length (attempts st)"
  shows "request_stage j w (prepare_stage j (reset_fanout_at j st)) =
    (case stage_request (entered j st) j w (attempts st ! j + 1) of
       Inr act \<Rightarrow> Inr (entered j st, [schedule w (attempts st ! j + 1), act])
     | Inl (Inl reason) \<Rightarrow> Inr (fail_task (ws_id w) reason (entered j st))
     | Inl (Inr e) \<Rightarrow> Inl e)"
proof -
  have "bump_attempt j (prepare_stage j (reset_fanout_at j st)) = Inr (entered j st, attempts st ! j + 1)"
    using assms by (simp add: bump_attempt_def entered_def Let_def)
  then show ?thesis by (simp add: request_stage_def)
qed

definition good_entry :: "nat \<Rightarrow> Workflow \<Rightarrow> PipelineState \<Rightarrow> bool" where
  "good_entry K wfl st \<longleftrightarrow>
     state_inv st \<and> budget K st \<and> workflow st = wfl \<and> pending_head_changes st = []"

lemma entered_result:
  assumes ok: "entry_ok i st" and room: "budget (Suc K) st" and ij: "i \<le> j" "j < length (stages st)"
    and skipped: "\<And>k. i \<le> k \<Longrightarrow> k < j \<Longrightarrow> approval_for_stage st (stages st ! k)"
    and stop: "\<not> approval_for_stage st (stages st ! j)"
  shows "\<exists>st' acts. request_stage j (stages st ! j) (prepare_stage j (reset_fanout_at j st)) = Inr (st', acts)
     \<and> good_entry K (workflow st) st'"
proof -
  note d = entry_okD [OF ok] and e = entered_inv [OF assms]
  let ?w = "stages st ! j"
  have len: "j < length (attempts st)" using base_invD(1) [OF d(2)] ij(2) by simp
  have gate: "allowed (merge_gate (entered j st) j) \<and> current_head (entered j st) \<noteq> None"
    if "stage_kind ?w = StageKind.Merge"
    using gate_open [of "entered j st" j] d(1) e(4) ij that by simp
  have run: "state_inv (entered j st)"
    using e(1,2) d(6,8) by (intro state_inv_running) (simp_all add: partial_ok_def reason_ok_def)
  have failed: "state_inv (fst (fail_task sid reason (entered j st)))" for sid reason
    unfolding fail_task_def fst_conv
  proof (rule state_inv_stopped)
    show "base_inv (clear_partial (entered j st\<lparr>status := PipelineStatus.Failed\<rparr>))"
      by (rule base_inv_same [OF e(1)]) simp_all
  qed (use d(6) ij(2) in \<open>simp_all add: reason_ok_def\<close>)
  show ?thesis
  proof (cases "stage_request (entered j st) j ?w (attempts st ! j + 1)")
    case (Inr act)
    then show ?thesis
      using request_entered [OF len, of ?w] run e(3) d(6) by (simp add: good_entry_def)
  next
    case (Inl x)
    then obtain reason where x: "x = Inl reason"
      using stage_request_accepts [OF gate] by (cases x) auto
    have "request_stage j ?w (prepare_stage j (reset_fanout_at j st))
        = Inr (fail_task (ws_id ?w) reason (entered j st))"
      using request_entered [OF len, of ?w] Inl x by simp
    moreover have "good_entry K (workflow st) (fst (fail_task (ws_id ?w) reason (entered j st)))"
      using failed [of "ws_id ?w" reason] e(3) d(6)
      by (simp add: good_entry_def fail_task_def budget_def)
    ultimately show ?thesis by (metis prod.collapse)
  qed
qed

lemma enter_stage_ok:
  assumes ok: "entry_ok i st" and room: "budget (Suc K) st"
  shows "\<exists>st' acts. enter_stage i st = Inr (st', acts) \<and> good_entry K (workflow st) st'"
proof (cases rule: enter_stage_cases [of i st])
  case (at_stage j)
  then show ?thesis using entered_result [OF ok room] by simp
next
  case at_end
  note d = entry_okD [OF ok]
  let ?n = "length (stages st)"
  define base where "base = (if i < ?n then prepare_stage i st else st)"
  have base [simp]: "workflow base = workflow st" "attempts base = attempts st"
    "notified_timeout base = notified_timeout st" "current_head base = current_head st"
    "patch_id base = patch_id st" "approvals base = approvals st" "branch base = branch st"
    "passed_checks base = passed_checks st" "merge_commit base = merge_commit st"
    "selected_fanout_child base = selected_fanout_child st" "status base = status st"
    "fanout_child_task_ids base = fanout_child_task_ids st"
    "pending_head_changes base = pending_head_changes st"
    "approval_reviewers base = (if i < ?n then [] else approval_reviewers st)"
    "pending_work_reason base = (if i < ?n then None else pending_work_reason st)"
    by (simp_all add: base_def)
  let ?st' = "base\<lparr>stage_index := ?n, status := PipelineStatus.Done\<rparr>"
  have fin: "i = ?n \<longrightarrow> approval_reviewers st = [] \<and> pending_work_reason st = None \<and> \<not> has_merge st"
    using ok by (simp add: entry_ok_def)
  have inv: "base_inv ?st'" by (rule base_inv_same [OF d(2)]) simp_all
  have "cov ?n st"
  proof (unfold cov_def, intro allI impI)
    fix k assume k: "k < ?n"
    show "stage_covered st (stages st ! k)"
    proof (cases "k < i")
      case True
      then show ?thesis using covD [OF d(3)] k by blast
    next
      case False
      then have "approval_for_stage st (stages st ! k)" using at_end(1) k by simp
      then show ?thesis by (auto simp: stage_covered_def approval_for_stage_def split: Stage.splits)
    qed
  qed
  then have "cov ?n ?st'" by (rule cov_same) simp_all
  moreover have "pick_at ?n ?st'" by (rule pick_at_end [OF d(1,4) at_end(1)]) simp_all
  moreover have "\<not> has_merge st"
  proof
    assume "has_merge st"
    then obtain m where m: "m < ?n" "stage_kind (stages st ! m) = StageKind.Merge"
      by (auto simp: has_merge_def in_set_conv_nth)
    then have "Suc m = ?n" using well_formed_merge [OF d(1)] by blast
    then have "i = ?n" using at_end(1) [of m] m d(5) approval_for_stage_kind
      by (cases "i = ?n") fastforce+
    with fin \<open>has_merge st\<close> show False by blast
  qed
  ultimately have "done_inv ?st'" by (simp add: done_inv_def has_merge_def)
  then have "state_inv ?st'"
    using inv fin d(5,6) by (auto simp: state_inv_def partial_ok_def reason_ok_def)
  then show ?thesis
    using at_end(2) [folded base_def] budget_mono [OF room, of K] d(6)
    by (simp add: good_entry_def budget_def)
qed

end
