(* ===== verification/Pipeline_Heads.thy ===== *)
theory Pipeline_Heads
  imports Pipeline_Entry
begin

text \<open>
  Rework and head changes. Every helper that can move the machine is shown to end in a state that
  satisfies \<open>state_inv\<close>, or in a rejection that is not an internal one (\<open>outcome_ok\<close>): an index out
  of bounds, a stage index outside the workflow or a closed merge gate is never reached.
\<close>

section \<open>Outcomes\<close>

fun internal_failure :: "StepFailure \<Rightarrow> bool" where
  "internal_failure Panic = True"
| "internal_failure (Rejected e) = (e \<in> {MergeGateClosed, InvalidStageIndex, EmptyWorkflow})"

definition outcome_ok :: "nat \<Rightarrow> Workflow \<Rightarrow> step_result \<Rightarrow> bool" where
  "outcome_ok K wfl r \<longleftrightarrow>
     (case r of Inl e \<Rightarrow> \<not> internal_failure e | Inr (st, acts) \<Rightarrow> good_entry K wfl st)"

lemma outcome_ok_simps [simp]:
  "outcome_ok K wfl (Inl e) = (\<not> internal_failure e)"
  "outcome_ok K wfl (Inr (st, acts)) = good_entry K wfl st"
  by (simp_all add: outcome_ok_def)

lemma outcome_ok_then:
  assumes "outcome_ok J wfl r" and "\<And>st acts. good_entry J wfl st \<Longrightarrow> outcome_ok K wfl (f (st, acts))"
  shows "outcome_ok K wfl (and_then r f)"
  using assms by (cases r) auto

lemma outcome_ok_acts:
  "outcome_ok K wfl r \<Longrightarrow> outcome_ok K wfl (and_then r (\<lambda>(st, acts). Inr (st, g acts)))"
  by (auto simp: outcome_ok_def split: sum.splits)

lemma good_entry_mono: "good_entry K wfl st \<Longrightarrow> J \<le> K \<Longrightarrow> good_entry J wfl st"
  by (auto simp: good_entry_def intro: budget_mono)

lemma enter_outcome: "entry_ok i st \<Longrightarrow> budget (Suc K) st \<Longrightarrow> outcome_ok K (workflow st) (enter_stage i st)"
  using enter_stage_ok [of i st K] by auto

section \<open>Running states\<close>

definition live :: "PipelineState \<Rightarrow> bool" where
  "live st \<longleftrightarrow> well_formed (workflow st) \<and> state_inv st \<and> status st = PipelineStatus.Running
     \<and> pending_head_changes st = []"

lemma state_inv_runningD:
  assumes "state_inv st" and "status st = PipelineStatus.Running"
  shows "stage_index st < length (stages st)" "attempts st ! stage_index st \<noteq> 0"
    "cov (stage_index st) st" "pick_at (stage_index st) st" "merge_commit st = None"
    "\<not> approval_for_stage st (stages st ! stage_index st)"
    "stage_kind (stages st ! stage_index st) = StageKind.Merge \<Longrightarrow>
       allowed (merge_gate st (stage_index st))"
    "base_inv st" "partial_ok st" "reason_ok st"
  using assms by (auto simp: state_inv_def running_inv_def)

lemma liveD:
  assumes "live st"
  shows "well_formed (workflow st)" "state_inv st" "status st = PipelineStatus.Running"
    "pending_head_changes st = []"
  using assms by (auto simp: live_def)

lemma pick_pre_of_at: "pick_at k st \<Longrightarrow> t \<le> Suc k \<Longrightarrow> pick_pre t st"
  unfolding pick_at_def pick_pre_def by fastforce

lemma reviewers_none:
  "partial_ok st \<Longrightarrow> stage_kind (stages st ! stage_index st) \<noteq> StageKind.Approval \<Longrightarrow>
     approval_reviewers st = []"
  by (auto simp: partial_ok_def)

lemma reason_none:
  "reason_ok st \<Longrightarrow> stage_kind (stages st ! stage_index st) \<noteq> StageKind.Work \<Longrightarrow>
     pending_work_reason st = None"
  by (auto simp: reason_ok_def)

lemma reason_none_last:
  "reason_ok st \<Longrightarrow> Suc (stage_index st) = length (stages st) \<Longrightarrow> pending_work_reason st = None"
  by (auto simp: reason_ok_def)

lemma no_merge_when_last_is_other:
  assumes "well_formed (workflow st)" and "Suc i = length (stages st)"
    and "stage_kind (stages st ! i) \<noteq> StageKind.Merge"
  shows "\<not> has_merge st"
proof
  assume "has_merge st"
  then obtain m where m: "m < length (stages st)" "stage_kind (stages st ! m) = StageKind.Merge"
    by (auto simp: has_merge_def in_set_conv_nth)
  with well_formed_merge [OF assms(1)] assms(2) have "m = i" by (metis nat.inject)
  with m assms(3) show False by simp
qed

lemma gate_fact_cong:
  "approvals st' = approvals st \<Longrightarrow> passed_checks st' = passed_checks st \<Longrightarrow>
     gate_fact st' sid s = gate_fact st sid s"
  by (cases s) (simp_all add: passed_heads_def approval_heads_def)

lemma merge_gate_cong:
  assumes "workflow st' = workflow st" "current_head st' = current_head st"
    "approvals st' = approvals st" "passed_checks st' = passed_checks st"
  shows "merge_gate st' i = merge_gate st i"
  unfolding merge_gate_def assms(1,2) gate_fact_cong [OF assms(3,4)] ..

lemma running_inv_cong:
  assumes "running_inv st"
    and "workflow st' = workflow st" "stage_index st' = stage_index st" "attempts st' = attempts st"
      "current_head st' = current_head st" "branch st' = branch st" "merge_commit st' = merge_commit st"
      "approvals st' = approvals st" "passed_checks st' = passed_checks st"
      "selected_fanout_child st' = selected_fanout_child st"
      "fanout_child_task_ids st' = fanout_child_task_ids st"
  shows "running_inv st'"
proof -
  have "cov (stage_index st) st'" by (rule cov_same) (use assms in \<open>simp_all add: running_inv_def\<close>)
  moreover have "pick_at (stage_index st) st'"
    using assms by (simp add: running_inv_def pick_at_def pick_record_def winner_ok_def)
  moreover have "approval_for_stage st' w = approval_for_stage st w" for w
    by (rule approval_for_stage_cong) (use assms in simp_all)
  ultimately show ?thesis
    using assms merge_gate_cong [OF assms(2,5,8,9)] by (simp add: running_inv_def)
qed

section \<open>Return to work\<close>

lemma pick_index_sound:
  assumes wf: "well_formed wfl" and "i < length (wf_stages wfl)"
    and "pick_fanout_index_for_approval wfl i = Some g"
  shows "i = Suc g" "\<exists>src. ws_stage (wf_stages wfl ! g) = Stage.Fanout src Pick"
proof -
  from assms(2,3) obtain x where x: "x < i" "pick_candidate wfl i x = Some g"
    by (auto simp: pick_fanout_index_for_approval_def dest!: find_map_SomeD)
  then obtain src p where src: "ws_stage (wf_stages wfl ! x) = Stage.Fanout src Pick"
    and p: "position (\<lambda>w. stage_kind w = StageKind.Approval) (drop (x + 1) (wf_stages wfl)) = Some p"
      "p + x + 1 = i" and g: "g = x"
    by (auto simp: pick_candidate_def split: Stage.splits FanoutJoin.splits option.splits if_splits)
  have "Suc x < length (wf_stages wfl)" "stage_kind (wf_stages wfl ! Suc x) = StageKind.Approval"
    using well_formed_pick [OF wf _ src] x(1) assms(2) by auto
  then have "p = 0" using p(1) by (cases p) (auto simp: position_eq_Some)
  with p g src show "i = Suc g" "\<exists>src. ws_stage (wf_stages wfl ! g) = Stage.Fanout src Pick" by auto
qed

lemma pick_index_complete:
  assumes wf: "well_formed wfl" and "g < length (wf_stages wfl)"
    and src: "ws_stage (wf_stages wfl ! g) = Stage.Fanout src Pick"
  shows "pick_fanout_index_for_approval wfl (Suc g) \<noteq> None"
proof -
  have n: "Suc g < length (wf_stages wfl)" "stage_kind (wf_stages wfl ! Suc g) = StageKind.Approval"
    using well_formed_pick [OF wf assms(2) src] by auto
  then have "position (\<lambda>w. stage_kind w = StageKind.Approval) (drop (g + 1) (wf_stages wfl)) = Some 0"
    by (simp add: position_eq_Some)
  then have "pick_candidate wfl (Suc g) g = Some g" using src by (simp add: pick_candidate_def)
  then show ?thesis
    using n by (auto simp: pick_fanout_index_for_approval_def find_map_eq_None intro!: bexI [of _ g])
qed

lemma pick_record_stage:
  assumes "well_formed wfl" and "last_pick wfl = Some f" and "is_pick_record wfl a"
  obtains i where "i < length (wf_stages wfl)" "ar_stage_id a = ws_id (wf_stages wfl ! i)" "i \<le> Suc f"
proof -
  from assms(3) obtain i g where i: "stage_position wfl (ar_stage_id a) = Some i"
    "pick_fanout_index_for_approval wfl i = Some g"
    by (auto simp: is_pick_record_def split: option.splits)
  then have pos: "i < length (wf_stages wfl)" "ws_id (wf_stages wfl ! i) = ar_stage_id a"
    by (auto simp: stage_position_def position_eq_Some)
  from pick_index_sound [OF assms(1) pos(1) i(2)] obtain src
    where "i = Suc g" "ws_stage (wf_stages wfl ! g) = Stage.Fanout src Pick" by blast
  with last_pick_Some(3) [OF assms(2), of g] pos have "i \<le> Suc f" by (cases "f < g") auto
  with pos that show thesis by simp
qed

lemma forget_selected:
  assumes wf: "well_formed (workflow st)" and f: "last_pick (workflow st) = Some f" and t: "Suc f < t"
  shows "selected_fanout_child (forget_from t st) = selected_fanout_child st"
proof -
  have "recorded_before (workflow st) t (ar_stage_id a)" if "is_pick_record (workflow st) a" for a
    using pick_record_stage [OF wf f that] recorded_before_id [OF wf] t by (metis le_less_trans)
  then show ?thesis by (auto simp: forget_from_def drop_approvals_selected)
qed

definition reworked :: "nat \<Rightarrow> string \<Rightarrow> PipelineState \<Rightarrow> PipelineState" where
  "reworked t reason st =
     (let st1 = forget_from t st;
          st2 = (if fanout_at_or_after st1 t then clear_fanout st1 else st1)
      in st2\<lparr>work_product := None, pending_work_reason := Some reason, stage_index := t\<rparr>)"

lemma reworked_simps [simp]:
  "task_id (reworked t reason st) = task_id st"
  "workflow (reworked t reason st) = workflow st" "status (reworked t reason st) = status st"
  "stage_index (reworked t reason st) = t" "approval_reviewers (reworked t reason st) = []"
  "pending_work_reason (reworked t reason st) = Some reason"
  "current_head (reworked t reason st) = current_head st" "branch (reworked t reason st) = branch st"
  "patch_id (reworked t reason st) = patch_id st" "attempts (reworked t reason st) = attempts st"
  "merge_commit (reworked t reason st) = merge_commit st"
  "pending_head_changes (reworked t reason st) = pending_head_changes st"
  "notified_timeout (reworked t reason st) = notified_timeout st"
  "approvals (reworked t reason st) =
     filter (\<lambda>a. recorded_before (workflow st) t (ar_stage_id a)) (approvals st)"
  "passed_checks (reworked t reason st) =
     filter (\<lambda>c. recorded_before (workflow st) t (pc_stage_id c)) (passed_checks st)"
  by (simp_all add: reworked_def Let_def)

lemma return_to_work_eq:
  assumes "t < length (stages st)" and "ws_stage (stages st ! t) = Stage.Work role ins out"
  shows "return_to_work t reason st =
    and_then (bump_attempt t (reworked t reason st)) (\<lambda>(st', a).
      Inr (st', [schedule (stages st ! t) a,
                 PipelineAction.ReturnToWork (ws_id (stages st ! t)) a role reason]))"
  using assms by (simp add: return_to_work_def reworked_def Let_def)

lemma drop_ex_nth: "list_ex P (drop t xs) \<longleftrightarrow> (\<exists>k \<ge> t. k < length xs \<and> P (xs ! k))"
proof
  assume "list_ex P (drop t xs)"
  then obtain i where "i < length (drop t xs)" "P (drop t xs ! i)"
    by (auto simp: list_ex_iff in_set_conv_nth)
  then show "\<exists>k \<ge> t. k < length xs \<and> P (xs ! k)" by (intro exI [of _ "t + i"]) simp
next
  assume "\<exists>k \<ge> t. k < length xs \<and> P (xs ! k)"
  then obtain k where "t \<le> k" "k < length xs" "P (xs ! k)" by blast
  then have "k - t < length (drop t xs)" "P (drop t xs ! (k - t))" by simp_all
  then show "list_ex P (drop t xs)" unfolding list_ex_iff by (meson nth_mem)
qed

lemma fanout_at_or_after_iff:
  "fanout_at_or_after st t \<longleftrightarrow>
     t \<le> length (stages st)
     \<and> (\<exists>k \<ge> t. k < length (stages st) \<and> stage_kind (stages st ! k) = StageKind.Fanout)"
  by (auto simp: fanout_at_or_after_def drop_ex_nth)

lemma pick_at_reworked:
  assumes wf: "well_formed (workflow st)" and pre: "pick_pre t st" and t: "t < length (stages st)"
    and work: "stage_kind (stages st ! t) = StageKind.Work"
  shows "pick_at t (reworked t reason st)"
  unfolding pick_at_def reworked_simps(2)
proof (intro allI impI)
  fix f assume f: "last_pick (workflow st) = Some f" and rec: "pick_record (reworked t reason st) f"
  have "\<not> t \<le> Suc f" using rec pick_record_dropped [OF wf f, of t "reworked t reason st"] by auto
  then have ft: "Suc f < t" by simp
  have "pick_record st f" using rec by (auto simp: pick_record_def)
  with pre f ft have "winner_ok st" by (auto simp: pick_pre_def)
  moreover have "\<not> fanout_at_or_after (forget_from t st) t"
  proof
    assume "fanout_at_or_after (forget_from t st) t"
    then obtain k where "t \<le> k" "k < length (stages st)" "stage_kind (stages st ! k) = StageKind.Fanout"
      by (auto simp: fanout_at_or_after_iff)
    with last_pick_Some(3) [OF f, of k] ft show False by simp
  qed
  ultimately have "winner_ok (reworked t reason st)"
    using forget_selected [OF wf f ft] by (simp add: winner_ok_def reworked_def Let_def)
  with ft show "t < f \<or> (f < t \<and> winner_ok (reworked t reason st))" by simp
qed

lemma return_to_work_ok:
  assumes wf: "well_formed (workflow st)" and inv: "base_inv st" and cov: "cov t st"
    and pre: "pick_pre t st" and t: "Suc t < length (stages st)"
    and work: "stage_kind (stages st ! t) = StageKind.Work"
    and run: "status st = PipelineStatus.Running" "merge_commit st = None" "pending_head_changes st = []"
    and room: "budget (Suc K) st"
  shows "outcome_ok K (workflow st) (return_to_work t reason st)"
proof -
  let ?r = "reworked t reason st"
  let ?st' = "?r\<lparr>attempts := (attempts ?r)[t := attempts ?r ! t + 1]\<rparr>"
  obtain role ins out where w: "ws_stage (stages st ! t) = Stage.Work role ins out"
    using work by (auto simp: kind_simps)
  have len: "t < length (attempts st)" using base_invD(1) [OF inv] t by simp
  have room1: "unat (attempts st ! t) + 1 < 2 ^ 32" by (rule budget_room [OF room len])
  have "base_inv ?r" by (rule base_inv_shrink [OF inv]) simp_all
  then have b: "base_inv ?st'" by (rule base_inv_bump) (use room1 in simp)
  have "cov t ?st'" by (rule cov_forget [OF wf cov order.refl]) simp_all
  moreover have "pick_at t ?st'"
    using pick_at_reworked [OF wf pre _ work, of reason] t
    by (simp add: pick_at_def pick_record_def winner_ok_def)
  moreover have "attempts st ! t + 1 \<noteq> 0" using unat_plus_one [OF room1] by auto
  moreover have "\<not> approval_for_stage ?st' (stages st ! t)" using w by (simp add: approval_for_stage_def)
  ultimately have "running_inv ?st'" using t len run work by (simp add: running_inv_def)
  then have "state_inv ?st'"
    using b run t work by (intro state_inv_running) (simp_all add: partial_ok_def reason_ok_def)
  moreover have "budget K ?st'" by (rule budget_bump [OF room len]) simp
  ultimately have "good_entry K (workflow st) ?st'" using run by (simp add: good_entry_def)
  then show ?thesis using return_to_work_eq [OF _ w] t len by (simp add: bump_attempt_def)
qed

lemma stopped_ok:
  assumes inv: "base_inv st" and "reason_ok st" and "stage_index st < length (stages st)"
    and "pending_head_changes st = []" and "budget (Suc K) st"
    and x: "x \<in> {PipelineStatus.Failed, PipelineStatus.Cancelled}"
  shows "good_entry K (workflow st) (clear_partial (st\<lparr>status := x\<rparr>))"
proof -
  have "base_inv (clear_partial (st\<lparr>status := x\<rparr>))" by (rule base_inv_same [OF inv]) simp_all
  then have "state_inv (clear_partial (st\<lparr>status := x\<rparr>))"
    using assms by (intro state_inv_stopped) (simp_all add: reason_ok_def)
  then show ?thesis using assms(4) budget_mono [OF assms(5), of K] by (simp add: good_entry_def budget_def)
qed

lemma rework_target_sound:
  assumes "or_else (explicit_target st i w) (default_target st i w) = Some t" and "i < length (stages st)"
  shows "t < i" "stage_kind (stages st ! t) = StageKind.Work"
  using assms
  by (auto simp: or_else_def explicit_target_def default_target_def previous_work_def position_eq_Some
      rposition_eq_Some split: option.splits if_splits)

lemma fail_stage_ok:
  assumes live: "live st" and room: "budget (Suc K) st"
  shows "outcome_ok K (workflow st) (fail_stage (stage_index st) reason st)"
proof -
  note d = liveD [OF live] and r = state_inv_runningD [OF liveD(2,3) [OF live]]
  let ?i = "stage_index st" and ?w = "stages st ! stage_index st"
  show ?thesis
  proof (cases "or_else (explicit_target st ?i ?w) (default_target st ?i ?w)")
    case None
    then show ?thesis
      using r(1) stopped_ok [OF r(8,10,1) d(4) room, of PipelineStatus.Failed]
      by (simp add: fail_stage_def fail_task_def)
  next
    case (Some t)
    note t = rework_target_sound [OF Some r(1)]
    have "outcome_ok K (workflow st) (return_to_work t reason st)"
    proof (rule return_to_work_ok)
      show "cov t st" using cov_le [OF r(3)] t(1) by simp
      show "pick_pre t st" using pick_pre_of_at [OF r(4)] t(1) by simp
    qed (use d r t room in auto)
    then show ?thesis using r(1) Some by (simp add: fail_stage_def)
  qed
qed

section \<open>Head changes\<close>

text \<open>
  \<open>head_moved st st'\<close>: \<open>st'\<close> is \<open>st\<close> with a new head. Records that are not bound to a head stay, and the
  winner of a pick is only lost together with a head-bound record of a pick approval.
\<close>

abbreviation record_ids :: "PipelineState \<Rightarrow> string set" where
  "record_ids st \<equiv> ar_stage_id ` set (approvals st)"

lemma pick_record_ids: "pick_record st f \<longleftrightarrow> ws_id (stages st ! Suc f) \<in> record_ids st"
  unfolding pick_record_def image_iff by metis

definition winner_kept :: "PipelineState \<Rightarrow> PipelineState \<Rightarrow> bool" where
  "winner_kept st st' \<longleftrightarrow>
     selected_fanout_child st' = selected_fanout_child st
     \<or> (\<exists>a \<in> set (approvals st). ar_head a \<noteq> None \<and> is_pick_record (workflow st) a
          \<and> ar_stage_id a \<notin> record_ids st')"

definition head_moved :: "PipelineState \<Rightarrow> PipelineState \<Rightarrow> bool" where
  "head_moved st st' \<longleftrightarrow>
     workflow st' = workflow st \<and> stage_index st' = stage_index st \<and> status st' = status st
     \<and> attempts st' = attempts st \<and> merge_commit st' = merge_commit st
     \<and> pending_head_changes st' = pending_head_changes st
     \<and> pending_work_reason st' = pending_work_reason st
     \<and> fanout_child_task_ids st' = fanout_child_task_ids st
     \<and> approval_reviewers st' = [] \<and> base_inv st' \<and> current_head st' \<noteq> None
     \<and> (branch st \<noteq> None \<longrightarrow> branch st' \<noteq> None)
     \<and> (\<forall>a \<in> set (approvals st). ar_head a = None \<longrightarrow> a \<in> set (approvals st'))
     \<and> record_ids st' \<subseteq> record_ids st \<and> winner_kept st st'"

lemma head_movedD:
  assumes "head_moved st st'"
  shows "workflow st' = workflow st" "stage_index st' = stage_index st" "status st' = status st"
    "attempts st' = attempts st" "merge_commit st' = merge_commit st"
    "pending_head_changes st' = pending_head_changes st"
    "pending_work_reason st' = pending_work_reason st"
    "fanout_child_task_ids st' = fanout_child_task_ids st"
    "approval_reviewers st' = []" "base_inv st'" "current_head st' \<noteq> None"
    "branch st \<noteq> None \<Longrightarrow> branch st' \<noteq> None"
    "\<And>a. a \<in> set (approvals st) \<Longrightarrow> ar_head a = None \<Longrightarrow> a \<in> set (approvals st')"
    "record_ids st' \<subseteq> record_ids st" "winner_kept st st'"
  using assms by (simp_all add: head_moved_def)

lemma record_id_inj:
  assumes "base_inv st" and "a \<in> set (approvals st)" "b \<in> set (approvals st)"
    and "ar_stage_id a = ar_stage_id b"
  shows "a = b"
  using base_invD(5) [OF assms(1)] assms(2-4) by (auto simp: distinct_map dest: inj_onD)

lemma winner_kept_new_head:
  assumes "base_inv st" and "workflow st1 = workflow st" and "approvals st1 = approvals st"
    and "selected_fanout_child st1 = selected_fanout_child st"
    and "current_head st1 = Some h"
  shows "winner_kept st (invalidate_head_bound st1)"
proof (cases "\<exists>a \<in> set (approvals st). \<not> (ar_head a = None \<or> ar_head a = Some h) \<and> is_pick_record (workflow st) a")
  case True
  then obtain a where a: "a \<in> set (approvals st)" "ar_head a \<noteq> None" "ar_head a \<noteq> Some h"
    "is_pick_record (workflow st) a" by blast
  have "ar_stage_id a \<notin> record_ids (invalidate_head_bound st1)"
    using record_id_inj [OF assms(1) a(1)] a assms(3,5) by auto
  with a show ?thesis by (auto simp: winner_kept_def)
next
  case False
  then have "selected_fanout_child (invalidate_head_bound st1) = selected_fanout_child st"
    using assms by (auto simp: invalidate_head_bound_def Let_def drop_approvals_selected)
  then show ?thesis by (simp add: winner_kept_def)
qed

lemma head_moved_record_new_head:
  assumes "base_inv st"
  shows "head_moved st (record_new_head h p st)"
proof -
  have "winner_kept st (record_new_head h p st)"
    unfolding record_new_head_def by (rule winner_kept_new_head [OF assms]) simp_all
  then show ?thesis
    using base_inv_record_new_head [OF assms, of h p] by (auto simp: head_moved_def)
qed

lemma record_new_head_selected:
  "selected_fanout_child (record_new_head h p st) =
     (if \<exists>a \<in> set (approvals st).
           \<not> (ar_head a = None \<or> ar_head a = Some h) \<and> is_pick_record (workflow st) a
      then None else selected_fanout_child st)"
  by (auto simp: record_new_head_def invalidate_head_bound_def Let_def drop_approvals_selected)

lemma is_pick_record_id:
  "ar_stage_id a = ar_stage_id b \<Longrightarrow> is_pick_record wfl a = is_pick_record wfl b"
  by (simp add: is_pick_record_def)

lemma winner_kept_carry:
  assumes inv: "base_inv st"
  shows "winner_kept st (record_new_head new p (carry_approvals old ap new st))" (is "winner_kept st ?st'")
proof (cases "\<exists>b \<in> set (approvals (carry_approvals old ap new st)).
    \<not> (ar_head b = None \<or> ar_head b = Some new) \<and> is_pick_record (workflow st) b")
  case True
  then obtain a where a: "a \<in> set (approvals st)"
    "ar_head (carried old ap new a) \<noteq> None" "ar_head (carried old ap new a) \<noteq> Some new"
    "is_pick_record (workflow st) (carried old ap new a)" by auto
  have id: "ar_stage_id (carried old ap new a) = ar_stage_id a" by simp
  have pick: "ar_head a \<noteq> None" using a(2) by (auto split: if_splits)
  have "is_pick_record (workflow st) a" using a(4) is_pick_record_id [OF id] by blast
  note pick = pick this
  have "ar_stage_id a \<notin> record_ids ?st'"
  proof
    assume "ar_stage_id a \<in> record_ids ?st'"
    then obtain b where b: "b \<in> set (approvals st)" "ar_stage_id b = ar_stage_id a"
      "ar_head (carried old ap new b) = None \<or> ar_head (carried old ap new b) = Some new"
      by (auto split: if_splits)
    with record_id_inj [OF inv a(1) b(1)] a show False by auto
  qed
  with a pick show ?thesis by (auto simp: winner_kept_def)
next
  case False
  then have "selected_fanout_child ?st' = selected_fanout_child st"
    unfolding record_new_head_selected carry_approvals_frame by (simp only: if_False)
  then show ?thesis by (simp add: winner_kept_def)
qed

lemma head_moved_carry:
  assumes inv: "base_inv st" and head: "current_head st = Some old"
  shows "head_moved st (record_new_head new p (carry_approvals old ap new st))"
  using base_inv_carry [OF inv head, of new p ap] winner_kept_carry [OF inv, of new p old ap]
  by (auto simp: head_moved_def image_iff split: if_splits)

lemma record_bound_stage:
  assumes wf: "well_formed (workflow st)" and inv: "base_inv st" and a: "a \<in> set (approvals st)"
    and i: "i < length (stages st)" "ar_stage_id a = ws_id (stages st ! i)" and "ar_head a \<noteq> None"
  shows "is_head_bound (stages st ! i)"
  using unbound_record [OF wf inv a i] assms(6) by blast

lemma pick_lost:
  assumes wf: "well_formed (workflow st)" and inv: "base_inv st" and mv: "head_moved st st'"
    and f: "last_pick (workflow st) = Some f" and rec: "pick_record st' f"
    and ok: "winner_ok st" and lost: "\<not> winner_ok st'"
  obtains i where "i \<le> f" "is_head_bound (stages st ! i)"
proof -
  note m = head_movedD [OF mv]
  have "selected_fanout_child st' \<noteq> selected_fanout_child st"
    using ok lost m(8) by (auto simp: winner_ok_def)
  with m(15) obtain a where a: "a \<in> set (approvals st)" "ar_head a \<noteq> None"
    "is_pick_record (workflow st) a" "ar_stage_id a \<notin> record_ids st'"
    by (auto simp: winner_kept_def)
  from pick_record_stage [OF wf f a(3)] obtain i where
    i: "i < length (stages st)" "ar_stage_id a = ws_id (stages st ! i)" "i \<le> Suc f" .
  have "i \<noteq> Suc f" using rec a(4) i(2) m(1) by (auto simp: pick_record_ids)
  moreover have "is_head_bound (stages st ! i)" by (rule record_bound_stage [OF wf inv a(1) i(1,2) a(2)])
  ultimately show thesis using i(3) that [of i] by simp
qed

lemma pick_pre_moved:
  assumes wf: "well_formed (workflow st)" and inv: "base_inv st" and pick: "pick_at c st"
    and mv: "head_moved st st'" and t: "t \<le> Suc c"
    and first: "\<And>i. i < length (stages st) \<Longrightarrow> is_head_bound (stages st ! i) \<Longrightarrow> t \<le> i"
  shows "pick_pre t st'"
  unfolding pick_pre_def head_movedD(1) [OF mv]
proof (intro allI impI)
  fix f assume f: "last_pick (workflow st) = Some f" and rec: "pick_record st' f"
  have "pick_record st f"
    using rec head_movedD(1,14) [OF mv] unfolding pick_record_ids by auto
  then have "c < f \<or> winner_ok st" using pick f by (auto simp: pick_at_def)
  then show "t \<le> f \<or> winner_ok st'"
  proof (elim disjE)
    assume "c < f"
    with t show ?thesis by simp
  next
    assume "winner_ok st"
    show ?thesis
    proof (rule ccontr)
      assume n: "\<not> ?thesis"
      then obtain i where "i \<le> f" "is_head_bound (stages st ! i)"
        using pick_lost [OF wf inv mv f rec \<open>winner_ok st\<close>] by blast
      with first [of i] last_pick_Some(1) [OF f] n show False by simp
    qed
  qed
qed

lemma not_bound_work: "is_head_bound w \<Longrightarrow> stage_kind w \<in> {StageKind.Command, StageKind.Approval}"
  by (cases "ws_stage w") (auto simp: is_head_bound_def)

lemma moved_entry:
  assumes live: "live st" and mv: "head_moved st st'" and t: "t \<le> stage_index st"
    and first: "\<And>i. i < length (stages st) \<Longrightarrow> is_head_bound (stages st ! i) \<Longrightarrow> t \<le> i"
  shows "entry_ok t st'"
proof -
  note d = liveD [OF live] and r = state_inv_runningD [OF liveD(2,3) [OF live]]
    and m = head_movedD [OF mv]
  have "cov t st'"
  proof (rule cov_new_head [OF d(1) r(8)])
    show "cov t st" using cov_le [OF r(3) t] .
    show "\<not> is_head_bound (stages st ! j)" if "j < t" "j < length (stages st)" for j
      using first [of j] that by auto
  qed (use m in auto)
  moreover have "pick_pre t st'" using pick_pre_moved [OF d(1) r(8) r(4) mv _ first] t by simp
  ultimately show ?thesis using m d r t by (simp add: entry_ok_def)
qed

lemma recheck_target_cong:
  assumes "workflow st' = workflow st"
  shows "recheck_target st' c = recheck_target st c"
  unfolding recheck_target_def assms ..

text \<open>Without a target the current stage is a work or submit stage, or it starts again.\<close>

lemma moved_stays:
  assumes live: "live st" and mv: "head_moved st st'" and room: "budget (Suc K) st"
    and none: "recheck_target st (stage_index st) = None"
    and kind: "stage_kind (stages st ! stage_index st) \<notin> {StageKind.Approval, StageKind.Fanout}"
  shows "good_entry K (workflow st) st'"
proof -
  note d = liveD [OF live] and r = state_inv_runningD [OF liveD(2,3) [OF live]]
    and m = head_movedD [OF mv]
  let ?c = "stage_index st" and ?w = "stages st ! stage_index st"
  have free: "\<not> is_head_bound (stages st ! j)"
    if "j < ?c \<or> (j = ?c \<and> stage_kind ?w \<noteq> StageKind.Work)" for j
    using recheck_target_None [OF d(1) none r(1) that] .
  have nm: "stage_kind ?w \<noteq> StageKind.Merge"
  proof
    assume "stage_kind ?w = StageKind.Merge"
    then obtain j where "j < ?c" "stage_kind (stages st ! j) = StageKind.Command"
      using well_formed_merge [OF d(1) r(1)] by blast
    with free [of j] show False by (auto simp: is_head_bound_def kind_simps)
  qed
  have entry: "entry_ok ?c st'"
    using free by (intro moved_entry [OF live mv order.refl]) (meson not_le)
  note e = entry_okD [OF entry]
  have na: "\<not> approval_for_stage st' ?w" using kind approval_for_stage_kind by fastforce
  have "pick_at ?c st'"
  proof -
    have nf: "?c \<noteq> f" if "last_pick (workflow st) = Some f" for f
      using last_pick_Some(2) [OF that] kind by auto
    show ?thesis using e(4) nf unfolding pick_at_def pick_pre_def m(1) by (metis le_neq_implies_less nat_neq_iff)
  qed
  then have "running_inv st'"
    using e(3) m r na nm by (simp add: running_inv_def)
  then have "state_inv st'"
    using e r(10) m d
    by (intro state_inv_running) (simp_all add: partial_ok_def reason_ok_def)
  then show ?thesis
    using m d(4) budget_mono [OF room, of K] by (simp add: good_entry_def budget_def)
qed

lemma recheck_ok:
  assumes live: "live st" and mv: "head_moved st st'" and room: "budget (Suc K) st"
  shows "outcome_ok K (workflow st) (recheck_for_new_head st')"
proof -
  note d = liveD [OF live] and r = state_inv_runningD [OF liveD(2,3) [OF live]]
    and m = head_movedD [OF mv]
  let ?c = "stage_index st"
  have room': "budget (Suc K) st'" using room m(4) by (simp add: budget_def)
  have tgt: "recheck_target st' (stage_index st') = recheck_target st ?c"
    using recheck_target_cong [OF m(1)] m(2) by simp
  show ?thesis
  proof (cases "recheck_target st ?c")
    case (Some t)
    note t = recheck_target_Some [OF d(1) Some]
    have "entry_ok t st'" using t(4) by (intro moved_entry [OF live mv t(1)]) (meson not_le)
    then show ?thesis
      using enter_outcome [OF _ room', of t] m(1) Some tgt by (simp add: recheck_for_new_head_def)
  next
    case None
    have free: "\<not> is_head_bound (stages st ! j)" if "j < ?c" for j
      using recheck_target_None [OF d(1) None r(1)] that by blast
    have entry: "entry_ok ?c st'"
      using free by (intro moved_entry [OF live mv order.refl]) (meson not_le)
    show ?thesis
    proof (cases "stage_kind (stages st ! ?c) \<in> {StageKind.Approval, StageKind.Fanout}")
      case True
      then have "restart_if_collected st' = enter_stage ?c st'"
        using r(1) m(1,2) by (auto simp: restart_if_collected_def current_kind_is_iff merge_in_flight_iff)
      then show ?thesis
        using None tgt enter_outcome [OF entry room'] m(1) by (simp add: recheck_for_new_head_def)
    next
      case False
      then have "restart_if_collected st' = Inr (st', [])"
        using m(1,2) by (auto simp: restart_if_collected_def current_kind_is_iff)
      then show ?thesis
        using None tgt moved_stays [OF live mv room None False] by (simp add: recheck_for_new_head_def)
    qed
  qed
qed

lemma invalidate_same:
  assumes inv: "base_inv st"
  shows "invalidate_head_bound st = clear_partial st"
proof -
  have a: "filter (\<lambda>a. ar_head a = None \<or> ar_head a = current_head st) (approvals st) = approvals st"
    using base_inv_heads [OF inv] by (simp add: filter_id_conv)
  have c: "filter (\<lambda>c. pc_head c = current_head st) (passed_checks st) = passed_checks st"
    using base_inv_check_head [OF inv] by (simp add: filter_id_conv)
  have "\<not> list_ex (\<lambda>a. \<not> (ar_head a = None \<or> ar_head a = current_head st)
      \<and> is_pick_record (workflow st) a) (approvals st)"
    unfolding list_ex_iff using base_inv_heads [OF inv] by blast
  then have "drop_approvals (\<lambda>_ a. ar_head a = None \<or> ar_head a = current_head st) st = clear_partial st"
    unfolding drop_approvals_def Let_def a by (simp add: clear_partial_def)
  then show ?thesis by (simp add: invalidate_head_bound_def c clear_partial_def)
qed

lemma previous_work_sound:
  assumes "previous_work st c = Some t" and "c < length (stages st)"
  shows "t < c" "stage_kind (stages st ! t) = StageKind.Work"
  using assms by (auto simp: previous_work_def rposition_eq_Some)

text \<open>The head moves while a rebase sends the task back, or the head stays and only partial
  approvals are forgotten.\<close>

lemma rebase_to_work_ok:
  assumes live: "live st" and room: "budget (Suc K) st"
  shows "outcome_ok K (workflow st) (rebase_to_work h p conflict st)"
proof -
  note d = liveD [OF live] and r = state_inv_runningD [OF liveD(2,3) [OF live]]
  let ?c = "stage_index st"
  define st1 where "st1 = (if \<not> conflict then record_new_head h p st else invalidate_head_bound st)"
  have st1: "workflow st1 = workflow st" "stage_index st1 = ?c" "status st1 = status st"
    "attempts st1 = attempts st" "merge_commit st1 = merge_commit st"
    "pending_head_changes st1 = pending_head_changes st"
    "pending_work_reason st1 = pending_work_reason st"
    by (simp_all add: st1_def)
  have inv1: "base_inv st1"
    unfolding st1_def using base_inv_record_new_head [OF r(8)] invalidate_same [OF r(8)]
      base_inv_same [OF r(8), of "clear_partial st"] by simp
  have room1: "budget (Suc K) st1" using room st1(4) by (simp add: budget_def)
  show ?thesis
  proof (cases "previous_work st1 ?c")
    case None
    have "good_entry K (workflow st1) (clear_partial (st1\<lparr>status := PipelineStatus.Failed\<rparr>))"
      using st1 d r(1,10) by (intro stopped_ok [OF inv1 _ _ _ room1]) (simp_all add: reason_ok_def)
    then show ?thesis
      using None r(1) st1(1) by (simp add: rebase_to_work_def st1_def [symmetric] fail_task_def Let_def)
  next
    case (Some t)
    have t: "t < ?c" "stage_kind (stages st ! t) = StageKind.Work"
      using previous_work_sound [OF Some] r(1) st1(1) by simp_all
    have "cov t st1 \<and> pick_pre t st1"
    proof (cases conflict)
      case True
      then have eq: "st1 = clear_partial st" by (simp add: st1_def invalidate_same [OF r(8)])
      have "cov t st1" unfolding eq by (rule cov_same [OF cov_le [OF r(3)]]) (use t in simp_all)
      moreover have "pick_pre t st" using pick_pre_of_at [OF r(4)] t(1) by simp
      then have "pick_pre t st1" unfolding eq pick_pre_def pick_record_def winner_ok_def by simp
      ultimately show ?thesis by simp
    next
      case False
      then have mv: "head_moved st st1" by (simp add: st1_def head_moved_record_new_head [OF r(8)])
      have "t < length (stages st)" using t(1) r(1) by simp
      then have "entry_ok t st1"
        using no_bound_before_work [OF d(1) _ t(2)] t(1)
        by (intro moved_entry [OF live mv]) (auto simp: not_le [symmetric])
      then show ?thesis by (simp add: entry_okD)
    qed
    then have "outcome_ok K (workflow st1) (return_to_work t (rebase_reason conflict) st1)"
      using st1 d r(1,5) t inv1 room1 by (intro return_to_work_ok) simp_all
    then show ?thesis using Some st1(1) by (simp add: rebase_to_work_def st1_def [symmetric] Let_def)
  qed
qed

lemma live_good: "live st \<Longrightarrow> budget (Suc K) st \<Longrightarrow> good_entry K (workflow st) st"
  using budget_mono [of "Suc K" st K] by (simp add: live_def good_entry_def)

lemma main_advanced_ok:
  assumes live: "live st" and room: "budget (Suc K) st"
  shows "outcome_ok K (workflow st) (main_advanced h p conflict st)"
proof -
  note d = liveD [OF live] and r = state_inv_runningD [OF liveD(2,3) [OF live]]
  let ?w = "stages st ! stage_index st"
  have stay: "outcome_ok K (workflow st) (Inr (st, []))" using live_good [OF live room] by simp
  have moved: "outcome_ok K (workflow st) (recheck_for_new_head (record_new_head h p st))"
    by (rule recheck_ok [OF live head_moved_record_new_head [OF r(8)] room])
  have kept: "outcome_ok K (workflow st)
      (recheck_for_new_head (record_new_head n p (carry_approvals old ap n st)))"
    if "current_head st = Some old" for n old ap
    by (rule recheck_ok [OF live head_moved_carry [OF r(8) that] room])
  show ?thesis
  proof (cases "branch st = None \<or> (\<not> conflict \<and> current_head st = Some h)
      \<or> stage_kind ?w \<in> {StageKind.Work, StageKind.Submit}")
    case True
    then show ?thesis using r(1) stay moved by (auto simp: main_advanced_def)
  next
    case False
    show ?thesis
    proof (cases "current_head st")
      case None
      then show ?thesis using r(1) False by (auto simp: main_advanced_def)
    next
      case (Some old)
      show ?thesis
      proof (cases "approved_patch_of st old")
        case None
        then show ?thesis using r(1) False Some by (auto simp: main_advanced_def)
      next
        case (Some ap)
        then show ?thesis
          using r(1) False \<open>current_head st = Some old\<close> kept [OF \<open>current_head st = Some old\<close>]
            rebase_to_work_ok [OF live room]
          by (auto simp: main_advanced_def split: ApprovalAfterRebase.split)
      qed
    qed
  qed
qed

lemma good_entry_live:
  "good_entry K wfl st \<Longrightarrow> well_formed wfl \<Longrightarrow> status st = PipelineStatus.Running \<Longrightarrow> live st"
  by (simp add: good_entry_def live_def)

lemma apply_head_change_ok:
  assumes good: "good_entry (Suc K) wfl st" and wf: "well_formed wfl"
  shows "outcome_ok K wfl (apply_head_change c st)"
proof (cases "status st = PipelineStatus.Running")
  case False
  then show ?thesis using good_entry_mono [OF good, of K] by (cases c) simp_all
next
  case True
  have live: "live st" by (rule good_entry_live [OF good wf True])
  have room: "budget (Suc K) st" and w: "workflow st = wfl" using good by (simp_all add: good_entry_def)
  note r = state_inv_runningD [OF liveD(2,3) [OF live]]
  show ?thesis
  proof (cases c)
    case (CommitCreated h p)
    then show ?thesis
      using True live_good [OF live room] recheck_ok [OF live head_moved_record_new_head [OF r(8)] room] w
      by simp
  next
    case (MainAdvanced h p conflict)
    then show ?thesis using True main_advanced_ok [OF live room] w by simp
  qed
qed

lemma apply_pending_ok:
  assumes "good_entry (length cs + K) wfl st" and "well_formed wfl"
  shows "outcome_ok K wfl (apply_pending cs acts st)"
  using assms
proof (induction cs arbitrary: acts st)
  case Nil
  then show ?case by simp
next
  case (Cons c cs)
  have "outcome_ok (length cs + K) wfl (apply_head_change c st)"
    using Cons.prems by (intro apply_head_change_ok) simp_all
  then show ?case
    using Cons.IH Cons.prems(2) by (auto intro!: outcome_ok_then [where J = "length cs + K"])
qed

lemma merge_recheck:
  assumes live: "live st" and merge: "merge_in_flight st"
  obtains t where "recheck_target st (stage_index st) = Some t" "entry_ok t st"
proof -
  note d = liveD [OF live] and r = state_inv_runningD [OF liveD(2,3) [OF live]]
  let ?c = "stage_index st"
  from merge obtain j where j: "j < ?c" "stage_kind (stages st ! j) = StageKind.Command"
    using well_formed_merge [OF d(1) r(1)] by (auto simp: merge_in_flight_iff)
  then have "is_head_bound (stages st ! j)" by (auto simp: is_head_bound_def kind_simps)
  then obtain t where t: "recheck_target st ?c = Some t"
    using recheck_target_None [OF d(1) _ r(1), of j] j(1) by (cases "recheck_target st ?c") auto
  have tc: "t \<le> ?c" by (rule recheck_target_Some(1) [OF d(1) t])
  have "t \<noteq> length (stages st)" using tc r(1) by simp
  then have "entry_ok t st"
    using d r(1,5,8) tc cov_le [OF r(3) tc] pick_pre_of_at [OF r(4)] by (simp add: entry_ok_def)
  with t that show thesis by blast
qed

lemma pending_cleared:
  assumes inv: "state_inv st" and run: "status st = PipelineStatus.Running"
  shows "state_inv (st\<lparr>pending_head_changes := []\<rparr>)" (is "state_inv ?st0")
proof -
  note r = state_inv_runningD [OF inv run]
  have "base_inv ?st0" by (rule base_inv_same [OF r(8)]) simp_all
  moreover have "running_inv ?st0"
    by (rule running_inv_cong [of st]) (use inv run in \<open>simp_all add: state_inv_def\<close>)
  ultimately show ?thesis
    using run r(9,10) by (intro state_inv_running) (simp_all add: partial_ok_def reason_ok_def)
qed

lemma merge_failed_ok:
  assumes wf: "well_formed (workflow st)" and inv: "state_inv st"
    and run: "status st = PipelineStatus.Running"
    and room: "budget (Suc K + length (pending_head_changes st)) st"
  shows "outcome_ok K (workflow st) (merge_failed st)"
  unfolding merge_failed_def
proof (rule outcome_ok_then)
  note r = state_inv_runningD [OF inv run]
  let ?st0 = "st\<lparr>pending_head_changes := []\<rparr>"
  let ?cs = "pending_head_changes st"
  have "state_inv ?st0" by (rule pending_cleared [OF inv run])
  then have "good_entry (length ?cs + Suc K) (workflow st) ?st0"
    using room by (simp add: good_entry_def budget_def add.commute)
  then show "outcome_ok (Suc K) (workflow st) (apply_pending ?cs [] ?st0)"
    using wf by (rule apply_pending_ok)
next
  fix st1 acts assume good: "good_entry (Suc K) (workflow st) st1"
  show "outcome_ok K (workflow st) (case (st1, acts) of (st1, acts) \<Rightarrow>
         if merge_in_flight st1 then
           and_then (ok_or (recheck_target st1 (stage_index st1)) (Rejected MergeGateClosed)) (\<lambda>target.
           and_then (enter_stage target st1) (\<lambda>(st2, acts2). Inr (st2, acts @ acts2)))
         else Inr (st1, acts))"
  proof (cases "merge_in_flight st1")
    case False
    then show ?thesis using good_entry_mono [OF good, of K] by simp
  next
    case True
    then have live: "live st1" using good wf by (auto simp: merge_in_flight_iff intro: good_entry_live)
    have room1: "budget (Suc K) st1" and w1: "workflow st1 = workflow st"
      using good by (simp_all add: good_entry_def)
    obtain t where t: "recheck_target st1 (stage_index st1) = Some t" "entry_ok t st1"
      using merge_recheck [OF live True] by blast
    then show ?thesis
      using True enter_outcome [OF t(2) room1] w1 outcome_ok_acts by simp
  qed
qed

end
