(* ===== verification/Pipeline_Steps.thy ===== *)
theory Pipeline_Steps
  imports Pipeline_Heads
begin

text \<open>
  Every event keeps the invariant. One lemma per handler of \<open>step\<close>, then the step function and its
  runs: from a well-formed workflow the machine never panics, never reports an internal error, and
  reaches only states that satisfy \<open>state_inv\<close>, as long as fewer than \<open>2 ^ 32\<close> events are accepted.
\<close>

section \<open>Handlers\<close>

lemma live_next:
  assumes live: "live st" and inv: "base_inv st'" and cov: "cov (Suc (stage_index st)) st'"
    and pick: "pick_pre (Suc (stage_index st)) st'"
    and eqs: "workflow st' = workflow st" "status st' = status st" "merge_commit st' = merge_commit st"
      "pending_head_changes st' = []" "pending_work_reason st' = pending_work_reason st"
    and rev: "approval_reviewers st' = []"
    and kind: "stage_kind (stages st ! stage_index st) \<noteq> StageKind.Merge"
  shows "entry_ok (Suc (stage_index st)) st'"
proof -
  note d = liveD [OF live] and r = state_inv_runningD [OF liveD(2,3) [OF live]]
  have "\<not> has_merge st'" if "Suc (stage_index st) = length (stages st)"
    using no_merge_when_last_is_other [OF d(1) that kind] eqs(1) by (simp add: has_merge_def)
  moreover have "pending_work_reason st' = None" if "Suc (stage_index st) = length (stages st)"
    using reason_none_last [OF r(10) that] eqs(5) by simp
  ultimately show ?thesis
    using d r(1,5) inv cov pick eqs rev by (simp add: entry_ok_def)
qed

lemma base_inv_state_unchecked: "base_inv (state_unchecked task wfl)"
  by (rule base_invI) (simp_all add: state_unchecked_def timeout_ok_def)

lemma start_entry:
  assumes wf: "well_formed (workflow st)" and inv: "state_inv st" and "status st = PipelineStatus.Pending"
  shows "entry_ok 0 (st\<lparr>status := PipelineStatus.Running\<rparr>)" "stages st \<noteq> []"
proof -
  let ?st = "st\<lparr>status := PipelineStatus.Running\<rparr>"
  have st: "st = state_unchecked (task_id st) (workflow st)"
    using assms by (auto simp: state_inv_def)
  show ne: "stages st \<noteq> []" using assms by (auto simp: state_inv_def)
  have "base_inv st" by (subst st) (rule base_inv_state_unchecked)
  then have "base_inv ?st" by (rule base_inv_same) simp_all
  moreover have "pending_head_changes st = []" "merge_commit st = None" "approvals st = []"
    by (subst st, simp add: state_unchecked_def)+
  ultimately show "entry_ok 0 ?st"
    using wf ne by (simp add: entry_ok_def cov_def pick_pre_def pick_record_def)
qed

lemma on_start_ok:
  assumes wf: "well_formed (workflow st)" and inv: "state_inv st" and room: "budget (Suc K) st"
  shows "outcome_ok K (workflow st) (on_start st)"
proof (cases "status st = PipelineStatus.Pending")
  case True
  have "budget (Suc K) (st\<lparr>status := PipelineStatus.Running\<rparr>)" using room by (simp add: budget_def)
  from enter_outcome [OF start_entry(1) [OF wf inv True] this] start_entry(2) [OF wf inv True] True
  show ?thesis by (simp add: on_start_def)
qed (simp add: on_start_def)

lemma submitted_entry:
  assumes live: "live st" and True: "stage_kind (stages st ! stage_index st) = StageKind.Submit"
  shows "entry_ok (Suc (stage_index st)) (st\<lparr>change_id := cid\<rparr>)"
proof -
  note d = liveD [OF live] and r = state_inv_runningD [OF liveD(2,3) [OF live]]
  let ?st = "st\<lparr>change_id := cid\<rparr>"
  have "cov (Suc (stage_index st)) st"
    using r(3) by (rule cov_Suc) (use True in \<open>auto simp: stage_covered_def kind_simps\<close>)
  then have "cov (Suc (stage_index st)) ?st" by (rule cov_same) simp_all
  moreover have "base_inv ?st" by (rule base_inv_same [OF r(8)]) simp_all
  moreover have "pick_pre (Suc (stage_index st)) ?st"
    using pick_pre_of_at [OF r(4), of "Suc (stage_index st)"]
    by (simp add: pick_pre_def pick_record_def winner_ok_def)
  ultimately show ?thesis
    using True d(4) reviewers_none [OF r(9)] by (intro live_next [OF live]) simp_all
qed

lemma on_submitted_ok:
  assumes live: "live st" and room: "budget (Suc K) st"
  shows "outcome_ok K (workflow st) (on_submitted cid st)"
proof (cases "stage_kind (stages st ! stage_index st) = StageKind.Submit")
  case True
  have "budget (Suc K) (st\<lparr>change_id := cid\<rparr>)" using room by (simp add: budget_def)
  from enter_outcome [OF submitted_entry [OF live True, of cid] this] True show ?thesis
    using liveD(3) [OF live] state_inv_runningD(1) [OF liveD(2,3) [OF live]]
    by (simp add: on_submitted_def ensure_current_stage_def ensure_running_def current_kind_is_iff)
next
  case False
  then show ?thesis
    using liveD(3) [OF live] state_inv_runningD(1) [OF liveD(2,3) [OF live]]
    by (simp add: on_submitted_def ensure_current_stage_def ensure_running_def current_kind_is_iff)
qed

lemma ensure_current_stage_live:
  "live st \<Longrightarrow> ensure_current_stage st k =
     (if stage_kind (stages st ! stage_index st) = k then Inr () else reject WrongStage)"
  using state_inv_runningD(1) [of st]
  by (simp add: live_def ensure_current_stage_def ensure_running_def current_kind_is_iff)

lemma push_check_base:
  assumes inv: "base_inv st" and w: "w \<in> set (stages st)" "ws_id w = sid"
    "stage_kind w = StageKind.Command"
  shows "base_inv (push_check sid (current_head st) st)"
proof (cases "\<exists>c \<in> set (passed_checks st). pc_stage_id c = sid")
  case True
  then have "push_check sid (current_head st) st = st"
    using base_inv_check_head [OF inv] by (auto simp: push_check_def list_ex_iff)
  with inv show ?thesis by simp
next
  case False
  let ?c = "\<lparr>pc_stage_id = sid, pc_head = current_head st\<rparr>"
  have eq: "push_check sid (current_head st) st = st\<lparr>passed_checks := passed_checks st @ [?c]\<rparr>"
    using False by (auto simp: push_check_def list_ex_iff)
  note d = base_invD [OF inv]
  show ?thesis
    unfolding eq
  proof (rule base_invI)
    show "check_ok (st\<lparr>passed_checks := passed_checks st @ [?c]\<rparr>) c"
      if "c \<in> set (passed_checks (st\<lparr>passed_checks := passed_checks st @ [?c]\<rparr>))" for c
      using that d(2) [of c] w by (auto simp: check_ok_def)
    show "timeout_ok (st\<lparr>passed_checks := passed_checks st @ [?c]\<rparr>)"
      using d(9) timeout_ok_cong [of "st\<lparr>passed_checks := passed_checks st @ [?c]\<rparr>" st] by simp
  qed (use base_invD [OF inv] False in \<open>auto simp: approval_ok_def\<close>)
qed

lemma command_entry:
  assumes live: "live st" and k: "stage_kind (stages st ! stage_index st) = StageKind.Command"
    and sid: "sid = ws_id (stages st ! stage_index st)" and h: "h = current_head st"
  shows "entry_ok (Suc (stage_index st)) (push_check sid h st)"
proof -
  note d = liveD [OF live] and r = state_inv_runningD [OF liveD(2,3) [OF live]]
  let ?i = "stage_index st" and ?w = "stages st ! stage_index st"
  let ?st = "push_check sid h st"
  have "cov ?i ?st" by (rule cov_mono [OF r(3)]) (auto simp: push_check_def)
  moreover have "stage_covered ?st ?w"
    using k sid h by (auto simp: stage_covered_def kind_simps push_check_def list_ex_iff)
  ultimately have "cov (Suc ?i) ?st" by (intro cov_Suc) simp_all
  moreover have "base_inv ?st"
    unfolding h by (rule push_check_base [OF r(8)]) (use k sid r(1) in auto)
  moreover have "pick_pre (Suc ?i) ?st"
    using pick_pre_of_at [OF r(4), of "Suc ?i"] by (simp add: pick_pre_def pick_record_def winner_ok_def)
  ultimately show ?thesis
    using k d(4) reviewers_none [OF r(9)] by (intro live_next [OF live]) simp_all
qed

lemma on_command_finished_ok:
  assumes live: "live st" and room: "budget (Suc K) st"
    and sid: "sid = ws_id (stages st ! stage_index st)" and h: "h = current_head st"
  shows "outcome_ok K (workflow st) (on_command_finished sid h code st)"
proof -
  have "budget (Suc K) (push_check sid h st)" using room by (simp add: budget_def)
  then have "outcome_ok K (workflow st) (enter_stage (Suc (stage_index st)) (push_check sid h st))"
    if "stage_kind (stages st ! stage_index st) = StageKind.Command"
    using enter_outcome [OF command_entry [OF live that sid h]] by simp
  then show ?thesis
    using fail_stage_ok [OF live room]
    by (simp add: on_command_finished_def ensure_current_stage_live [OF live])
qed

text \<open>A branch product is a head change that no head-bound stage precedes.\<close>

definition with_product :: "WorkProduct \<Rightarrow> PipelineState \<Rightarrow> PipelineState" where
  "with_product product st = (record_product product st)\<lparr>work_product := Some product\<rparr>"

lemma with_product_frame [simp]:
  "workflow (with_product product st) = workflow st" "status (with_product product st) = status st"
  "merge_commit (with_product product st) = merge_commit st"
  "pending_head_changes (with_product product st) = pending_head_changes st"
  "pending_work_reason (with_product product st) = pending_work_reason st"
  "attempts (with_product product st) = attempts st"
  "stage_index (with_product product st) = stage_index st"
  "task_id (with_product product st) = task_id st"
  by (cases product; simp add: with_product_def)+

lemma branch_product_moved:
  assumes inv: "base_inv st" and rev: "approval_reviewers st = []"
  shows "head_moved st (with_product (BranchProduct b h p) st)"
proof -
  let ?st' = "with_product (BranchProduct b h p) st"
  have "base_inv ?st'" unfolding with_product_def by (rule base_inv_record_product [OF inv])
  moreover have "winner_kept st ?st'"
  proof (cases "current_head st = Some h")
    case True
    then show ?thesis by (simp add: winner_kept_def with_product_def)
  next
    case False
    have "winner_kept st (invalidate_head_bound (st\<lparr>current_head := Some h\<rparr>))"
      by (rule winner_kept_new_head [OF inv]) simp_all
    then show ?thesis using False by (simp add: winner_kept_def with_product_def)
  qed
  ultimately show ?thesis using rev by (auto simp: head_moved_def with_product_def)
qed

lemma work_product_kept:
  assumes "\<And>b h p. product \<noteq> BranchProduct b h p"
  shows "approvals (with_product product st) = approvals st"
    "passed_checks (with_product product st) = passed_checks st"
    "current_head (with_product product st) = current_head st"
    "branch (with_product product st) = branch st"
    "approval_reviewers (with_product product st) = approval_reviewers st"
  using assms by (cases product; simp add: with_product_def)+

lemma plan_pick_pre:
  assumes pick: "pick_at i st" and i: "i = stage_index st" "i < length (stages st)"
    and work: "stage_kind (stages st ! i) = StageKind.Work"
    and product: "\<And>b h p. product \<noteq> BranchProduct b h p"
  shows "pick_pre (Suc i) (with_product product st)"
  unfolding pick_pre_def with_product_frame
proof (intro allI impI)
  fix f assume f: "last_pick (workflow st) = Some f" and "pick_record (with_product product st) f"
  then have "pick_record st f" by (simp add: pick_record_def work_product_kept [OF product])
  then have w: "i < f \<or> winner_ok st" using pick f by (auto simp: pick_at_def)
  have ne: "i \<noteq> f" using last_pick_Some(2) [OF f] work by auto
  show "Suc i \<le> f \<or> winner_ok (with_product product st)"
  proof (cases "fanout_at_or_after st i")
    case True
    then obtain k where "i \<le> k" "k < length (stages st)" "stage_kind (stages st ! k) = StageKind.Fanout"
      by (auto simp: fanout_at_or_after_iff)
    with last_pick_Some(3) [OF f, of k] ne show ?thesis by (cases "f < k") auto
  next
    case False
    then have "selected_fanout_child (with_product product st) = selected_fanout_child st
        \<and> fanout_child_task_ids (with_product product st) = fanout_child_task_ids st"
      using i by (cases product) (simp_all add: with_product_def product)
    then have "winner_ok (with_product product st) = winner_ok st" by (simp add: winner_ok_def)
    with w show ?thesis by auto
  qed
qed

lemma work_entry:
  assumes live: "live st" and w: "ws_stage (stages st ! stage_index st) = Stage.Work role ins out"
    and fits: "product_fits out product"
  shows "entry_ok (Suc (stage_index st)) (with_product product st)"
proof -
  note d = liveD [OF live] and r = state_inv_runningD [OF liveD(2,3) [OF live]]
  let ?i = "stage_index st" and ?w = "stages st ! stage_index st" and ?st = "with_product product st"
  have work: "stage_kind ?w = StageKind.Work" using w by simp
  have rev: "approval_reviewers st = []" using reviewers_none [OF r(9)] work by simp
  have "base_inv ?st" unfolding with_product_def by (rule base_inv_record_product [OF r(8)])
  moreover have "cov (Suc ?i) ?st \<and> pick_pre (Suc ?i) ?st \<and> approval_reviewers ?st = []"
  proof (cases "\<exists>b h p. product = BranchProduct b h p")
    case True
    then obtain b h p where p: "product = BranchProduct b h p" by blast
    have mv: "head_moved st ?st" unfolding p by (rule branch_product_moved [OF r(8) rev])
    note m = head_movedD [OF mv]
    have free: "\<not> is_head_bound (stages st ! j)" if "j < Suc ?i" for j
      using no_bound_before_work [OF d(1) r(1) work] not_bound_work [of ?w] work that
      by (cases "j = ?i") auto
    have "cov (Suc ?i) ?st"
    proof (rule cov_Suc)
      show "cov ?i ?st"
        by (rule cov_new_head [OF d(1) r(8) r(3)]) (use free m in auto)
      show "stage_covered ?st (stages ?st ! ?i)"
        using w p by (simp add: stage_covered_def with_product_def)
    qed
    moreover have "pick_pre (Suc ?i) ?st"
      using free by (intro pick_pre_moved [OF d(1) r(8) r(4) mv]) (auto simp: not_less_eq_eq [symmetric])
    ultimately show ?thesis using m(9) by simp
  next
    case False
    then have np: "product \<noteq> BranchProduct b h p" for b h p by blast
    note k = work_product_kept [OF np]
    have "out \<noteq> Branch" using fits np by (cases out; cases product) auto
    then have "cov (Suc ?i) st" using r(3) w by (intro cov_Suc) (simp_all add: stage_covered_def)
    then have "cov (Suc ?i) ?st" by (rule cov_same) (simp_all add: k)
    then show ?thesis using plan_pick_pre [OF r(4) refl r(1) work np] k(5) rev by simp
  qed
  ultimately show ?thesis using work d(4) by (intro live_next [OF live]) simp_all
qed

lemma on_work_completed_ok:
  assumes live: "live st" and room: "budget (Suc K) st"
  shows "outcome_ok K (workflow st) (on_work_completed product st)"
proof -
  have "budget (Suc K) (with_product product st)" using room by (simp add: budget_def)
  then have "outcome_ok K (workflow st) (enter_stage (Suc (stage_index st)) (with_product product st))"
    if "ws_stage (stages st ! stage_index st) = Stage.Work role ins out" "product_fits out product"
    for role ins out
    using enter_outcome [OF work_entry [OF live that]] by simp
  then show ?thesis
    using state_inv_runningD(1) [OF liveD(2,3) [OF live]]
    by (auto simp: on_work_completed_def with_product_def split: Stage.splits)
qed

lemma ensure_approval_live:
  assumes live: "live st"
  shows "current_approval st =
    (case ws_stage (stages st ! stage_index st) of
       Stage.Approval _ count bd \<Rightarrow> Inr (bd, count) | _ \<Rightarrow> reject WrongStage)"
proof -
  note d = liveD [OF live] and r = state_inv_runningD [OF liveD(2,3) [OF live]]
  let ?w = "stages st ! stage_index st"
  have "current_head st \<noteq> None" if "ws_stage ?w = Stage.Approval by count True" for "by" count
  proof -
    have "needs_head ?w" using that by (simp add: needs_head_def)
    then obtain b where b: "b < stage_index st" "is_branch_work (stages st ! b)"
      using well_formed_branch_first [OF d(1) r(1)] by blast
    with covD [OF r(3), of b] r(1) show ?thesis
      by (cases "ws_stage (stages st ! b)")
        (auto simp: is_branch_work_def stage_covered_def elim!: is_branch_work_stage.elims)
  qed
  then show ?thesis
    using r(1) by (auto simp: current_approval_def ensure_current_stage_live [OF live] split: Stage.splits)
qed

lemma approval_complete:
  assumes wf: "well_formed (workflow st)" and inv: "base_inv st" and part: "partial_ok st"
    and i: "stage_index st < length (stages st)"
    and w: "ws_stage (stages st ! stage_index st) = Stage.Approval by count bd"
    and full: "\<not> length (approval_reviewers st) + 1 < unat count"
  shows "length (approval_reviewers st) + 1 = unat count"
proof -
  have "0 < unat count" using well_formed_count [OF wf i w] by (simp add: unat_gt_0)
  moreover have "length (approval_reviewers st) < unat count" if "approval_reviewers st \<noteq> []"
    using part w that by (auto simp: partial_ok_def)
  ultimately have "length (approval_reviewers st) < unat count" by (cases "approval_reviewers st = []") auto
  with full show ?thesis by simp
qed

lemma record_approval_base:
  assumes inv: "base_inv st" and w: "w \<in> set (stages st)" "ws_id w = sid"
    "ws_stage w = Stage.Approval by count bd"
    and h: "bd \<Longrightarrow> h = current_head st" "bd \<Longrightarrow> current_head st \<noteq> None"
    and n: "length (approval_reviewers st) = unat count"
  shows "base_inv (record_approval sid bd h st)" (is "base_inv ?st'")
proof (rule base_invI)
  note d = base_invD [OF inv]
  let ?new = "\<lparr>ar_stage_id = sid, ar_head = (if bd then h else None),
     ar_patch_id = (if bd then patch_id st else None), ar_reviewers = approval_reviewers st\<rparr>"
  have new: "approval_ok ?st' ?new"
    unfolding approval_ok_def
  proof (rule bexI [OF _ _])
    show "w \<in> set (stages ?st')" using w(1) by simp
    show "ws_id w = ar_stage_id ?new \<and> approval_fits (ws_stage w) (current_head ?st') ?new"
      using w(2,3) h n d(6-8) by auto
  qed
  have as: "approvals ?st' = filter (\<lambda>a. ar_stage_id a \<noteq> sid) (approvals st) @ [?new]"
    by (simp add: record_approval_def)
  show "approval_ok ?st' a" if "a \<in> set (approvals ?st')" for a
    using that new d(4) [of a] approval_ok_cong [of ?st' st] unfolding as by auto
  show "check_ok ?st' c" if "c \<in> set (passed_checks ?st')" for c
    using that d(2) [of c] check_ok_cong [of ?st' st] by simp
  show "distinct (map ar_stage_id (approvals ?st'))"
    unfolding as using d(5) by (auto simp: distinct_map_filter)
  show "timeout_ok ?st'" using d(9) timeout_ok_cong [of ?st' st] by simp
qed (use base_invD [OF inv] in \<open>simp_all add: record_approval_def\<close>)

lemma settle_pick_Inr:
  assumes "settle_pick st = Inr (st', acts)"
  shows "workflow st' = workflow st" "stage_index st' = stage_index st" "status st' = status st"
    "attempts st' = attempts st" "current_head st' = current_head st" "branch st' = branch st"
    "patch_id st' = patch_id st" "approvals st' = approvals st" "passed_checks st' = passed_checks st"
    "merge_commit st' = merge_commit st" "pending_head_changes st' = pending_head_changes st"
    "pending_work_reason st' = pending_work_reason st" "approval_reviewers st' = approval_reviewers st"
    "notified_timeout st' = notified_timeout st"
    "pick_fanout_index_for_approval (workflow st) (stage_index st) \<noteq> None \<Longrightarrow> winner_ok st'"
    "pick_fanout_index_for_approval (workflow st) (stage_index st) = None \<Longrightarrow> st' = st"
    "task_id st' = task_id st"
  using assms
  by (auto simp: settle_pick_def result_split keep_only_winner_def Let_def winner_ok_def split: if_splits)

lemma tentative_pick_Inr:
  assumes "tentative_pick selected st = Inr st'"
  obtains pick where "st' = st\<lparr>pending_pick := pick\<rparr>"
proof (cases "pick_fanout_index_for_approval (workflow st) (stage_index st) = None")
  case True
  then have "st' = st" using assms by (auto simp: tentative_pick_def split: if_splits)
  then show thesis using that [of "pending_pick st"] by simp
next
  case False
  then show thesis using assms that by (auto simp: tentative_pick_def result_split split: if_splits)
qed

lemma internal_free:
  "\<not> internal_failure e \<Longrightarrow> outcome_ok K wfl (Inl e)"
  by simp

lemma tentative_pick_Inl: "tentative_pick selected st = Inl e \<Longrightarrow> \<not> internal_failure e"
  by (auto simp: tentative_pick_def and_then_eq_Inl ok_or_eq_Inl split: if_splits)

lemma settle_pick_Inl: "settle_pick st = Inl e \<Longrightarrow> \<not> internal_failure e"
  by (auto simp: settle_pick_def and_then_eq_Inl ok_or_eq_Inl split: if_splits)

lemma base_inv_reviewers:
  assumes inv: "base_inv st"
    and eqs: "workflow st' = workflow st" "attempts st' = attempts st"
      "notified_timeout st' = notified_timeout st" "current_head st' = current_head st"
      "patch_id st' = patch_id st" "approvals st' = approvals st" "passed_checks st' = passed_checks st"
    and rev: "distinct (approval_reviewers st')" "[] \<notin> set (approval_reviewers st')"
  shows "base_inv st'"
proof (rule base_invI)
  note d = base_invD [OF inv]
  show "check_ok st' c" if "c \<in> set (passed_checks st')" for c
    using that eqs(7) d(2) check_ok_cong [OF eqs(1,4)] by simp
  show "approval_ok st' a" if "a \<in> set (approvals st')" for a
    using that eqs(6) d(4) approval_ok_cong [OF eqs(1,4)] by simp
  show "timeout_ok st'" using d(9) timeout_ok_cong [OF eqs(2,3)] by simp
qed (use base_invD(1,3,5,6) [OF inv] eqs rev in simp_all)

text \<open>The last approval of a stage: the record, the winner of a pick, the next stage.\<close>

lemma approval_entry:
  assumes live: "live st"
    and w: "ws_stage (stages st ! stage_index st) = Stage.Approval by count bd"
    and sid: "sid = ws_id (stages st ! stage_index st)" and h: "bd \<Longrightarrow> h = current_head st"
    and head: "bd \<Longrightarrow> current_head st \<noteq> None"
    and rv: "reviewer \<notin> set (approval_reviewers st)" "reviewer \<noteq> []"
    and full: "\<not> length (approval_reviewers st) + 1 < unat count"
    and st2: "st2 = st\<lparr>pending_pick := pick, approval_reviewers := approval_reviewers st @ [reviewer]\<rparr>"
    and st3: "settle_pick (record_approval sid bd h st2) = Inr (st3, acts)"
  shows "entry_ok (Suc (stage_index st)) st3" "attempts st3 = attempts st" "workflow st3 = workflow st"
proof -
  note d = liveD [OF live] and r = state_inv_runningD [OF liveD(2,3) [OF live]]
    and s = settle_pick_Inr [OF st3]
  let ?i = "stage_index st" and ?w = "stages st ! stage_index st"
  let ?rec = "record_approval sid bd h st2"
  have inv2: "base_inv st2"
    by (rule base_inv_reviewers [OF r(8)]) (use base_invD(7,8) [OF r(8)] rv st2 in simp_all)
  have n: "length (approval_reviewers st2) = unat count"
    using approval_complete [OF d(1) r(8,9,1) w full] by (simp add: st2)
  have invr: "base_inv ?rec"
    by (rule record_approval_base [OF inv2 _ _ _ _ _ n, of ?w])
      (use r(1) sid w h head in \<open>simp_all add: st2\<close>)
  have inv3: "base_inv st3" by (rule base_inv_same [OF invr]) (use s in simp_all)
  have "cov ?i st3"
  proof (rule cov_mono [OF r(3)])
    fix j a assume j: "j < ?i" "j < length (stages st)" and a: "a \<in> set (approvals st)"
      "ar_stage_id a = ws_id (stages st ! j)"
    then have "ar_stage_id a \<noteq> sid" using same_id [OF d(1) j(2) r(1)] sid by simp
    with a s(8) show "a \<in> set (approvals st3)" by (simp add: record_approval_def st2)
  qed (use s in \<open>simp_all add: st2\<close>)
  moreover have "stage_covered st3 ?w"
    using w sid h head s(5,8)
    by (auto simp: stage_covered_def approval_for_stage_iff record_approval_def st2)
  ultimately have cov: "cov (Suc ?i) st3" using s(1) by (intro cov_Suc) (simp_all add: st2)
  have "pick_pre (Suc ?i) st3"
    unfolding pick_pre_def s(1)
  proof (intro allI impI)
    fix f assume f: "last_pick (workflow ?rec) = Some f" and rec: "pick_record st3 f"
    have f': "last_pick (workflow st) = Some f" using f by (simp add: st2)
    show "Suc ?i \<le> f \<or> winner_ok st3"
    proof (cases "pick_fanout_index_for_approval (workflow st) ?i")
      case (Some g)
      then show ?thesis using s(15) by (simp add: st2)
    next
      case None
      then have eq: "st3 = ?rec" using s(16) by (simp add: st2)
      have "?i \<noteq> Suc f"
        using pick_index_complete [OF d(1) last_pick_Some(1) [OF f']] last_pick_Some(2) [OF f'] None by auto
      then have "ws_id (stages st ! Suc f) \<noteq> sid"
        using same_id [OF d(1) last_pick_approval(1) [OF d(1) f'] r(1)] sid by simp
      then have "pick_record st f" using rec by (auto simp: pick_record_def eq record_approval_def st2)
      then show ?thesis using r(4) f' by (auto simp: pick_at_def winner_ok_def eq st2)
    qed
  qed
  then show "entry_ok (Suc ?i) st3"
    using inv3 cov s w d(4) by (intro live_next [OF live]) (simp_all add: st2 record_approval_def)
  show "attempts st3 = attempts st" "workflow st3 = workflow st" using s(1,4) by (simp_all add: st2)
qed

lemma approval_counted_ok:
  assumes live: "live st" and room: "budget (Suc K) st"
    and w: "ws_stage (stages st ! stage_index st) = Stage.Approval by count bd"
    and rv: "reviewer \<notin> set (approval_reviewers st)" "reviewer \<noteq> []"
    and more: "length (approval_reviewers st) + 1 < unat count"
  shows "good_entry K (workflow st)
    (st\<lparr>pending_pick := pick, approval_reviewers := approval_reviewers st @ [reviewer]\<rparr>)"
    (is "good_entry K _ ?st")
proof -
  note d = liveD [OF live] and r = state_inv_runningD [OF liveD(2,3) [OF live]]
  have "base_inv ?st"
    by (rule base_inv_reviewers [OF r(8)]) (use base_invD(7,8) [OF r(8)] rv in simp_all)
  moreover have "running_inv st" using d(2,3) by (simp add: state_inv_def)
  then have "running_inv ?st" by (rule running_inv_cong) simp_all
  moreover have "partial_ok ?st" using d(3) r(1) w more by (simp add: partial_ok_def)
  ultimately have "state_inv ?st"
    using d(3,4) r(10) by (intro state_inv_running) (simp_all add: reason_ok_def)
  then show ?thesis using d(4) budget_mono [OF room, of K] by (simp add: good_entry_def budget_def)
qed

lemma approval_picked_ok:
  assumes live: "live st" and room: "budget (Suc K) st"
    and w: "ws_stage (stages st ! stage_index st) = Stage.Approval by count bd"
    and ca: "current_approval st = Inr (bd, count)"
    and sid: "sid = ws_id (stages st ! stage_index st)" and hd: "bd \<Longrightarrow> h = current_head st"
    and new: "reviewer \<notin> set (approval_reviewers st)" and rv: "reviewer \<noteq> []"
    and st1: "tentative_pick selected st = Inr st1"
  shows "outcome_ok K (workflow st) (on_approval_granted sid reviewer h selected st)"
proof -
  have head: "bd \<Longrightarrow> current_head st \<noteq> None" using ca by (auto simp: result_split)
  obtain pick where pick: "st1 = st\<lparr>pending_pick := pick\<rparr>" using st1 by (rule tentative_pick_Inr)
  define st2 where "st2 = st\<lparr>pending_pick := pick, approval_reviewers := approval_reviewers st @ [reviewer]\<rparr>"
  have eq: "on_approval_granted sid reviewer h selected st =
      (if length (approval_reviewers st) + 1 < unat count then Inr (st2, [])
       else and_then (settle_pick (record_approval sid bd h st2)) (\<lambda>(st3, acts).
         and_then (enter_stage (Suc (stage_index st)) st3) (\<lambda>(st4, acts2). Inr (st4, acts @ acts2))))"
    using new st1 by (simp add: on_approval_granted_def ca Let_def pick st2_def)
  show ?thesis
  proof (cases "length (approval_reviewers st) + 1 < unat count")
    case True
    then show ?thesis
      using eq approval_counted_ok [OF live room w new rv True, of pick] by (simp add: st2_def)
  next
    case False
    show ?thesis
    proof (cases "settle_pick (record_approval sid bd h st2)")
      case (Inl e)
      then show ?thesis using settle_pick_Inl [OF Inl] False by (simp add: eq)
    next
      case s: (Inr r)
      obtain st3 acts where r: "r = (st3, acts)" by (cases r)
      then have "settle_pick (record_approval sid bd h st2) = Inr (st3, acts)" using s by simp
      note e = approval_entry [OF live w sid hd head new rv False st2_def this]
      have "budget (Suc K) st3" using room e(2) by (simp add: budget_def)
      from enter_outcome [OF e(1) this] show ?thesis
        using s r False e(3) by (simp add: eq outcome_ok_acts)
    qed
  qed
qed

lemma on_approval_granted_ok:
  assumes live: "live st" and room: "budget (Suc K) st"
    and sid: "sid = ws_id (stages st ! stage_index st)"
    and h: "needs_head (stages st ! stage_index st) \<Longrightarrow> h = current_head st"
    and rv: "reviewer \<noteq> []"
  shows "outcome_ok K (workflow st) (on_approval_granted sid reviewer h selected st)"
proof (cases "ws_stage (stages st ! stage_index st)")
  case (Approval "by" count bd)
  have ca: "current_approval st = Inr (bd, count)" using ensure_approval_live [OF live] Approval by simp
  have hd: "bd \<Longrightarrow> h = current_head st" using h Approval by (simp add: needs_head_def)
  show ?thesis
  proof (cases "reviewer \<in> set (approval_reviewers st)")
    case True
    then show ?thesis by (simp add: on_approval_granted_def ca)
  next
    case new: False
    show ?thesis
    proof (cases "tentative_pick selected st")
      case (Inl e)
      then show ?thesis
        using new tentative_pick_Inl [OF Inl] by (simp add: on_approval_granted_def ca)
    next
      case (Inr st1)
      show ?thesis using approval_picked_ok [OF live room Approval ca sid _ new rv Inr] hd by blast
    qed
  qed
qed (simp_all add: on_approval_granted_def ensure_approval_live [OF live])

lemma on_changes_requested_ok:
  assumes live: "live st" and room: "budget (Suc K) st"
  shows "outcome_ok K (workflow st) (on_changes_requested reviewer reason st)"
  using fail_stage_ok [OF assms] ensure_approval_live [OF live]
  by (auto simp: on_changes_requested_def split: Stage.splits)

lemma join_children_Inr:
  assumes "join_children join selected st = Inr (st', acts)"
  shows "workflow st' = workflow st" "stage_index st' = stage_index st" "status st' = status st"
    "attempts st' = attempts st" "current_head st' = current_head st" "branch st' = branch st"
    "patch_id st' = patch_id st" "approvals st' = approvals st" "passed_checks st' = passed_checks st"
    "merge_commit st' = merge_commit st" "pending_head_changes st' = pending_head_changes st"
    "pending_work_reason st' = pending_work_reason st" "approval_reviewers st' = approval_reviewers st"
    "notified_timeout st' = notified_timeout st" "task_id st' = task_id st"
  using assms
  by (auto simp: join_children_def result_split keep_only_winner_def Let_def
      split: if_splits FanoutJoin.splits)

lemma join_children_Inl: "join_children join selected st = Inl e \<Longrightarrow> \<not> internal_failure e"
  by (auto simp: join_children_def and_then_eq_Inl ok_or_eq_Inl split: if_splits FanoutJoin.splits)

lemma joined_entry:
  assumes live: "live st"
    and w: "ws_stage (stages st ! stage_index st) = Stage.Fanout src join"
    and j: "join_children join selected
       (st\<lparr>selected_fanout_child := None, fanout_child_task_ids := children\<rparr>) = Inr (st1, acts)"
  shows "entry_ok (Suc (stage_index st)) st1"
proof -
  note d = liveD [OF live] and r = state_inv_runningD [OF liveD(2,3) [OF live]]
    and s = join_children_Inr [OF j]
  let ?i = "stage_index st"
  have inv: "base_inv st1" by (rule base_inv_same [OF r(8)]) (use s in simp_all)
  have "cov (Suc ?i) st" using r(3) by (rule cov_Suc) (simp add: stage_covered_def w)
  then have cov: "cov (Suc ?i) st1" by (rule cov_same) (use s in simp_all)
  have "pick_pre (Suc ?i) st1"
    unfolding pick_pre_def
  proof (intro allI impI)
    fix f assume f: "last_pick (workflow st1) = Some f" and rec: "pick_record st1 f"
    have f': "last_pick (workflow st) = Some f" using f s(1) by simp
    have "pick_record st f" using rec s(1,8) by (simp add: pick_record_def)
    then have "?i < f \<or> f < ?i" using r(4) f' by (auto simp: pick_at_def)
    then show "Suc ?i \<le> f \<or> winner_ok st1" using last_pick_Some(3) [OF f' _ r(1)] w by auto
  qed
  then show ?thesis
    using inv cov s d(4) w reviewers_none [OF r(9)] by (intro live_next [OF live]) simp_all
qed

lemma on_fanout_completed_ok:
  assumes live: "live st" and room: "budget (Suc K) st"
  shows "outcome_ok K (workflow st) (on_fanout_completed children selected st)"
proof (cases "ws_stage (stages st ! stage_index st)")
  case (Fanout src join)
  let ?st = "st\<lparr>selected_fanout_child := None, fanout_child_task_ids := children\<rparr>"
  have i: "stage_index st < length (stages st)" by (rule state_inv_runningD(1) [OF liveD(2,3) [OF live]])
  show ?thesis
  proof (cases "join_children join selected ?st")
    case (Inl e)
    then show ?thesis
      using i Fanout join_children_Inl [OF Inl]
      by (simp add: on_fanout_completed_def ensure_current_stage_live [OF live])
  next
    case (Inr r)
    obtain st1 acts where r: "r = (st1, acts)" by (cases r)
    then have j: "join_children join selected ?st = Inr (st1, acts)" using Inr by simp
    have "budget (Suc K) st1" using room join_children_Inr(4) [OF j] by (simp add: budget_def)
    from enter_outcome [OF joined_entry [OF live Fanout j] this] show ?thesis
      using i Fanout j join_children_Inr(1) [OF j]
      by (simp add: on_fanout_completed_def ensure_current_stage_live [OF live] outcome_ok_acts)
  qed
qed (simp_all add: on_fanout_completed_def ensure_current_stage_live [OF live])

lemma reassign_entry:
  assumes live: "live st"
  shows "entry_ok (stage_index st) st"
  using liveD [OF live] state_inv_runningD(1,3,5,8) [OF liveD(2,3) [OF live]]
    pick_pre_of_at [OF state_inv_runningD(4) [OF liveD(2,3) [OF live]], of "stage_index st"]
  by (simp add: entry_ok_def)

lemma notified_ok:
  assumes live: "live st" and room: "budget (Suc K) st"
  shows "good_entry K (workflow st) (st\<lparr>notified_timeout := Some (stage_index st, attempt st)\<rparr>)"
    (is "good_entry K _ ?st")
proof -
  note d = liveD [OF live] and r = state_inv_runningD [OF liveD(2,3) [OF live]]
  have len: "stage_index st < length (attempts st)" using base_invD(1) [OF r(8)] r(1) by simp
  have "base_inv ?st"
  proof (rule base_invI)
    show "timeout_ok ?st" using len r(2) by (simp add: timeout_ok_def)
  qed (use base_invD [OF r(8)] in \<open>simp_all add: check_ok_def approval_ok_def\<close>)
  moreover have "running_inv st" using d(2,3) by (simp add: state_inv_def)
  then have "running_inv ?st" by (rule running_inv_cong) simp_all
  ultimately have "state_inv ?st"
    using d(3,4) r(9,10) by (intro state_inv_running) (simp_all add: reason_ok_def partial_ok_def)
  then show ?thesis using d(4) budget_mono [OF room, of K] by (simp add: good_entry_def budget_def)
qed

lemma on_stage_timed_out_ok:
  assumes live: "live st" and room: "budget (Suc K) st"
  shows "outcome_ok K (workflow st) (on_stage_timed_out sid st)"
proof -
  note d = liveD [OF live] and r = state_inv_runningD [OF liveD(2,3) [OF live]]
  have stop: "good_entry K (workflow st) (clear_partial (st\<lparr>status := PipelineStatus.Cancelled\<rparr>))"
    using stopped_ok [OF r(8,10,1) d(4) room] by simp
  show ?thesis
    using r(1) notified_ok [OF live room] stop
      outcome_ok_acts [OF enter_outcome [OF reassign_entry [OF live] room], of "\<lambda>acts. ReassignStage sid # acts"]
    by (simp add: on_stage_timed_out_def cancel_def Let_def split: TimeoutAction.split)
qed

section \<open>The step function\<close>

definition step_ok :: "nat \<Rightarrow> Workflow \<Rightarrow> step_result \<Rightarrow> bool" where
  "step_ok K wfl r \<longleftrightarrow>
     (case r of
        Inl e \<Rightarrow> \<not> internal_failure e
      | Inr (st, acts) \<Rightarrow>
          state_inv st \<and> workflow st = wfl \<and> budget (K + length (pending_head_changes st)) st)"

lemma step_ok_simps [simp]:
  "step_ok K wfl (Inl e) = (\<not> internal_failure e)"
  "step_ok K wfl (Inr (st, acts)) =
     (state_inv st \<and> workflow st = wfl \<and> budget (K + length (pending_head_changes st)) st)"
  by (simp_all add: step_ok_def)

lemma outcome_step: "outcome_ok K wfl r \<Longrightarrow> step_ok K wfl r"
  by (auto simp: outcome_ok_def step_ok_def good_entry_def split: sum.splits)

text \<open>While a merge is in flight a head change is only written down.\<close>

lemma pending_changed_ok:
  assumes inv: "state_inv st" and flight: "merge_in_flight st"
    and room: "budget (Suc K + length (pending_head_changes st)) st"
    and len: "length cs \<le> Suc (length (pending_head_changes st))"
  shows "step_ok K (workflow st) (Inr (st\<lparr>pending_head_changes := cs\<rparr>, []))"
proof -
  have run: "status st = PipelineStatus.Running" using flight by (simp add: merge_in_flight_iff)
  note r = state_inv_runningD [OF inv run]
  let ?st = "st\<lparr>pending_head_changes := cs\<rparr>"
  have "base_inv ?st" by (rule base_inv_same [OF r(8)]) simp_all
  moreover have "running_inv st" using inv run by (simp add: state_inv_def)
  then have "running_inv ?st" by (rule running_inv_cong) simp_all
  moreover have "merge_in_flight ?st" using flight by (simp add: merge_in_flight_iff)
  ultimately have "state_inv ?st"
    using run r(9,10) by (intro state_inv_running) (simp_all add: reason_ok_def partial_ok_def)
  moreover have "budget (K + length cs) ?st"
    using budget_mono [OF room, of "K + length cs"] len by (simp add: budget_def)
  ultimately show ?thesis by simp
qed

lemma live_of_running:
  assumes "well_formed (workflow st)" and "state_inv st" and "status st = PipelineStatus.Running"
    and "\<not> merge_in_flight st"
  shows "live st"
  using assms by (auto simp: live_def state_inv_def)

lemma head_change_ok:
  assumes wf: "well_formed (workflow st)" and inv: "state_inv st"
    and run: "status st = PipelineStatus.Running" and nf: "\<not> merge_in_flight st"
    and room: "budget (Suc K + length (pending_head_changes st)) st"
  shows "step_ok K (workflow st) (apply_head_change c st)"
proof -
  have live: "live st" by (rule live_of_running [OF wf inv run nf])
  then have "good_entry (Suc K) (workflow st) st" using room by (simp add: live_def good_entry_def)
  then show ?thesis using wf by (intro outcome_step apply_head_change_ok)
qed

lemma on_commit_created_ok:
  assumes wf: "well_formed (workflow st)" and inv: "state_inv st"
    and room: "budget (Suc K + length (pending_head_changes st)) st"
  shows "step_ok K (workflow st) (on_commit_created h p st)"
proof (cases "status st = PipelineStatus.Running")
  case False
  then show ?thesis by (simp add: on_commit_created_def ensure_running_def)
next
  case run: True
  note r = state_inv_runningD [OF inv run]
  have same: "step_ok K (workflow st) (Inr (st, []))"
    using inv budget_mono [OF room, of "K + length (pending_head_changes st)"] by simp
  show ?thesis
    using run r(1) same pending_changed_ok [OF inv _ room] head_change_ok [OF wf inv run _ room]
    by (simp add: on_commit_created_def ensure_running_def del: step_ok_simps(2) apply_head_change.simps)
qed

lemma on_main_advanced_ok:
  assumes wf: "well_formed (workflow st)" and inv: "state_inv st"
    and room: "budget (Suc K + length (pending_head_changes st)) st"
  shows "step_ok K (workflow st) (on_main_advanced h p conflict st)"
proof (cases "status st = PipelineStatus.Running")
  case False
  then show ?thesis by (simp add: on_main_advanced_def ensure_running_def)
next
  case run: True
  note r = state_inv_runningD [OF inv run]
  show ?thesis
    using run r(1) pending_changed_ok [OF inv _ room] head_change_ok [OF wf inv run _ room]
    by (simp add: on_main_advanced_def ensure_running_def del: step_ok_simps(2) apply_head_change.simps)
qed

lemma on_cancel_ok:
  assumes inv: "state_inv st" and pend: "pending_head_changes st = []" and room: "budget (Suc K) st"
  shows "outcome_ok K (workflow st) (on_cancel reason st)"
proof -
  have "good_entry K (workflow st) (clear_partial (st\<lparr>status := PipelineStatus.Cancelled\<rparr>))"
    and "stage_index st < length (stages st)"
    if "status st \<in> {PipelineStatus.Pending, PipelineStatus.Running}"
  proof -
    show i: "stage_index st < length (stages st)" using inv that by (auto simp: state_inv_def)
    show "good_entry K (workflow st) (clear_partial (st\<lparr>status := PipelineStatus.Cancelled\<rparr>))"
      using inv i pend room by (intro stopped_ok) (simp_all add: state_inv_def)
  qed
  then show ?thesis
    by (auto simp: on_cancel_def cancel_def ensure_running_def split: PipelineStatus.split)
qed

lemma merge_done:
  assumes wf: "well_formed (workflow st)" and inv: "state_inv st" and flight: "merge_in_flight st"
  shows "state_inv (st\<lparr>merge_commit := Some commit, pending_head_changes := [],
     status := PipelineStatus.Done\<rparr>)" (is "state_inv ?st")
proof -
  have run: "status st = PipelineStatus.Running"
    and k: "stage_kind (stages st ! stage_index st) = StageKind.Merge"
    using flight by (simp_all add: merge_in_flight_iff)
  note r = state_inv_runningD [OF inv run]
  have last: "Suc (stage_index st) = length (stages st)" using well_formed_merge [OF wf r(1) k] by simp
  have "base_inv ?st" by (rule base_inv_same [OF r(8)]) simp_all
  moreover have "cov (Suc (stage_index st)) st"
    using r(3) by (rule cov_Suc) (use k in \<open>auto simp: stage_covered_def kind_simps\<close>)
  then have "cov (length (stages st)) ?st" unfolding last by (rule cov_same) simp_all
  moreover have "pick_at (length (stages st)) ?st"
  proof (unfold pick_at_def, intro allI impI)
    fix f assume f: "last_pick (workflow ?st) = Some f" and rec: "pick_record ?st f"
    have f': "last_pick (workflow st) = Some f" using f by simp
    have "\<not> stage_index st < f" using last_pick_Some(1) [OF f'] last by simp
    with r(4) f' rec have "winner_ok ?st"
      by (auto simp: pick_at_def pick_record_def winner_ok_def)
    then show "length (stages st) < f \<or> (f < length (stages st) \<and> winner_ok ?st)"
      using last_pick_Some(1) [OF f'] by simp
  qed
  ultimately show ?thesis
    using last reviewers_none [OF r(9)] reason_none [OF r(10)] k
    by (simp add: state_inv_def done_inv_def partial_ok_def reason_ok_def has_merge_def)
qed

text \<open>The events of the callers: a reviewer has a name.\<close>

fun event_ok :: "PipelineEvent \<Rightarrow> bool" where
  "event_ok (ApprovalGranted _ _ reviewer _ _) \<longleftrightarrow> reviewer \<noteq> []"
| "event_ok _ \<longleftrightarrow> True"

lemma check_identity_Inl:
  assumes "state_inv st" and "check_identity st i = Inl e"
  shows "\<not> internal_failure e"
  using assms state_inv_runningD(1) [of st]
  by (auto simp: check_identity_def ensure_running_def current_stage_eq_None split: if_splits option.splits)

lemma on_merge_completed_ok:
  assumes wf: "well_formed (workflow st)" and inv: "state_inv st" and run: "status st = PipelineStatus.Running"
    and room: "budget (Suc K + length (pending_head_changes st)) st"
  shows "step_ok K (workflow st) (on_merge_completed commit st)"
proof (cases "stage_kind (stages st ! stage_index st) = StageKind.Merge")
  case True
  note r = state_inv_runningD [OF inv run]
  have "merge_in_flight st" using True run r(1) by (simp add: merge_in_flight_iff)
  then show ?thesis
    using merge_done [OF wf inv] r(1,7) True run budget_mono [OF room, of K]
    by (simp add: on_merge_completed_def ensure_current_stage_def ensure_running_def current_kind_is_iff
        budget_def)
next
  case False
  then show ?thesis
    using run state_inv_runningD(1) [OF inv run]
    by (simp add: on_merge_completed_def ensure_current_stage_def ensure_running_def current_kind_is_iff)
qed

lemma on_merge_failed_ok:
  assumes wf: "well_formed (workflow st)" and inv: "state_inv st" and run: "status st = PipelineStatus.Running"
    and room: "budget (Suc K + length (pending_head_changes st)) st"
  shows "step_ok K (workflow st) (on_merge_failed st)"
  using outcome_step [OF merge_failed_ok [OF assms]] run state_inv_runningD(1) [OF inv run]
  by (simp add: on_merge_failed_def ensure_current_stage_def ensure_running_def current_kind_is_iff
      ensure_def)

lemma identified_event_ok:
  assumes wf: "well_formed (workflow st)" and inv: "state_inv st" and ev: "event_ok ev"
    and room: "budget (Suc K + length (pending_head_changes st)) st"
    and id: "identity ev = Some i" and chk: "check_identity st i = Inr ()"
    and flight: "merge_in_flight st \<Longrightarrow> allowed_in_flight ev"
  shows "step_ok K (workflow st) (handle_event st ev)"
proof -
  let ?w = "stages st ! stage_index st"
  from chk have run: "status st = PipelineStatus.Running" and sid: "ws_id ?w = id_stage_id i"
    and h: "needs_head ?w \<Longrightarrow> id_head i = None \<or> id_head i = Some (current_head st)"
    by (auto simp: result_split)
  show ?thesis
  proof (cases "allowed_in_flight ev")
    case True
    then show ?thesis
      using id on_merge_completed_ok [OF wf inv run room] on_merge_failed_ok [OF wf inv run room]
      by (cases ev) auto
  next
    case False
    then have nf: "\<not> merge_in_flight st" using flight by blast
    have live: "live st" by (rule live_of_running [OF wf inv run nf])
    have room1: "budget (Suc K) st" using room liveD(4) [OF live] by simp
    have cmd: "step_ok K (workflow st) (on_command_finished sid h code st)"
      if "ev = CommandFinished sid a h code" for sid a h code
    proof (cases "stage_kind ?w = StageKind.Command")
      case True
      then have "needs_head ?w" by (simp add: needs_head_def)
      then show ?thesis
        using that id sid h by (intro outcome_step on_command_finished_ok [OF live room1]) auto
    next
      case False
      then show ?thesis by (simp add: on_command_finished_def ensure_current_stage_live [OF live])
    qed
    have app: "step_ok K (workflow st) (on_approval_granted sid reviewer h selected st)"
      if "ev = ApprovalGranted sid a reviewer h selected" for sid a reviewer h selected
      using that id sid h ev by (intro outcome_step on_approval_granted_ok [OF live room1]) auto
    show ?thesis
      using id cmd app False
        outcome_step [OF on_work_completed_ok [OF live room1]]
        outcome_step [OF on_submitted_ok [OF live room1]]
        outcome_step [OF on_changes_requested_ok [OF live room1]]
        outcome_step [OF on_fanout_completed_ok [OF live room1]]
        outcome_step [OF on_stage_timed_out_ok [OF live room1]]
        outcome_step [OF fail_stage_ok [OF live room1]]
      by (cases ev) simp_all
  qed
qed

lemma step_inv:
  assumes wf: "well_formed (workflow st)" and inv: "state_inv st" and ev: "event_ok ev"
    and room: "budget (Suc K + length (pending_head_changes st)) st"
  shows "step_ok K (workflow st) (step st ev)"
proof (cases "merge_in_flight st \<and> \<not> allowed_in_flight ev")
  case True
  then show ?thesis by (simp add: step_def)
next
  case flight: False
  show ?thesis
  proof (cases "identity ev")
    case (Some i)
    show ?thesis
    proof (cases "check_identity st i")
      case (Inl e)
      then show ?thesis using flight Some check_identity_Inl [OF inv Inl] by (auto simp: step_def)
    next
      case (Inr u)
      then have "step st ev = handle_event st ev" using flight Some by (auto simp: step_def)
      then show ?thesis
        using identified_event_ok [OF wf inv ev room Some] Inr flight by auto
    qed
  next
    case None
    then have eq: "step st ev = handle_event st ev" using flight by (auto simp: step_def)
    have pend: "pending_head_changes st = []" if "\<not> merge_in_flight st"
      using inv that by (auto simp: state_inv_def)
    have nfs: "status st = PipelineStatus.Pending \<Longrightarrow> \<not> merge_in_flight st"
      by (simp add: merge_in_flight_iff)
    have start: "step_ok K (workflow st) (on_start st)"
      using on_start_ok [OF wf inv, of K] room pend nfs
      by (cases "status st = PipelineStatus.Pending") (auto intro: outcome_step simp: on_start_def)
    have cancel: "step_ok K (workflow st) (on_cancel reason st)" if "\<not> merge_in_flight st" for reason
      using on_cancel_ok [OF inv pend [OF that], of K] room pend [OF that] by (auto intro: outcome_step)
    show ?thesis
      unfolding eq using None flight start cancel on_commit_created_ok [OF wf inv room]
        on_main_advanced_ok [OF wf inv room]
      by (cases ev) auto
  qed
qed

section \<open>Runs\<close>

definition machine_inv :: "nat \<Rightarrow> PipelineState \<Rightarrow> bool" where
  "machine_inv k st \<longleftrightarrow>
     well_formed (workflow st) \<and> state_inv st \<and> budget (k + length (pending_head_changes st)) st"

lemma machine_inv_initial:
  assumes "well_formed wfl" and "wf_stages wfl \<noteq> []" and "k < 2 ^ 32"
  shows "machine_inv k (state_unchecked task wfl)"
proof -
  have "base_inv (state_unchecked task wfl)" by (rule base_inv_state_unchecked)
  then have "state_inv (state_unchecked task wfl)"
    using assms(2) by (simp add: state_inv_def partial_ok_def reason_ok_def) (simp add: state_unchecked_def)
  then show ?thesis using assms by (simp add: machine_inv_def) (simp add: state_unchecked_def budget_def)
qed

interpretation machine: counted_transition step machine_inv event_ok
proof
  fix k s i t os
  assume "machine_inv (Suc k) s" and "event_ok i" and "step s i = Inr (t, os)"
  then show "machine_inv k t"
    using step_inv [of s i k] by (auto simp: machine_inv_def)
qed

interpretation machine: terminal_transition step "\<lambda>st :: PipelineState. is_terminal (status st)"
proof
  fix s :: PipelineState and i assume t: "is_terminal (status s)"
  then have nr: "status s \<noteq> PipelineStatus.Running" "status s \<noteq> PipelineStatus.Pending" by auto
  have id: "check_identity s x = reject NotRunning" for x
    using nr by (simp add: check_identity_def ensure_running_def)
  have nf: "\<not> merge_in_flight s" using nr by (simp add: merge_in_flight_iff)
  show "\<exists>e. step s i = Inl e"
    using nr nf id
    by (cases i) (auto simp: step_def on_start_def on_cancel_def on_commit_created_def on_main_advanced_def
        ensure_running_def split: PipelineStatus.split)
qed

end
