(* ===== verification/Workflow_Validation.thy ===== *)
theory Workflow_Validation
  imports Pipeline_Steps
begin

text \<open>
  \<open>Workflow::validate\<close> as a whole: the static rules of \<open>Workflow_Spec\<close> and the completability
  witness of \<^verbatim>\<open>state.rs\<close>, which drives \<open>step\<close> with a canonical script. The bound of the loop is the
  source's, eight rounds per stage and sixteen more; the model recurses on it.

  Texts built with \<open>format!\<close> are kept as data: the scenario, the stage and a \<open>StuckReason\<close>. A panic
  of \<open>step\<close> would show up as \<open>StepError Panic\<close>.
\<close>

section \<open>What holds when a task is done\<close>

datatype DoneViolation =
    NeverPassed string "string option"
  | NotCovered string "string option"
  | NoPick string

definition stage_violation :: "PipelineState \<Rightarrow> WorkflowStage \<Rightarrow> DoneViolation option" where
  "stage_violation st w =
     (case ws_stage w of
        Stage.Command _ \<Rightarrow>
          if list_ex (\<lambda>c. pc_stage_id c = ws_id w \<and> pc_head c = current_head st) (passed_checks st)
          then None else Some (NeverPassed (ws_id w) (current_head st))
      | Stage.Approval _ _ bind \<Rightarrow>
          if bind \<and> \<not> list_ex (\<lambda>a. ar_stage_id a = ws_id w \<and> ar_head a = current_head st) (approvals st)
          then Some (NotCovered (ws_id w) (current_head st)) else None
      | _ \<Rightarrow> None)"

definition pick_violation :: "PipelineState \<Rightarrow> DoneViolation option" where
  "pick_violation st =
     (case List.find (\<lambda>w. stage_kind w = StageKind.Fanout) (rev (stages st)) of
        Some w \<Rightarrow>
          (case ws_stage w of
             Stage.Fanout _ Pick \<Rightarrow>
               (if case selected_fanout_child st of
                     Some winner \<Rightarrow> winner \<in> set (fanout_child_task_ids st)
                   | None \<Rightarrow> False
                then None else Some (NoPick (ws_id w)))
           | _ \<Rightarrow> None)
      | None \<Rightarrow> None)"

definition done_invariants :: "PipelineState \<Rightarrow> DoneViolation + unit" where
  "done_invariants st =
     (case find_map (stage_violation st) (stages st) of
        Some v \<Rightarrow> Inl v
      | None \<Rightarrow> (case pick_violation st of Some v \<Rightarrow> Inl v | None \<Rightarrow> Inr ()))"

section \<open>The scripted events\<close>

definition witness_head :: "u32 \<Rightarrow> u32 \<times> string \<times> string" where
  "witness_head counter =
     (let c = counter + 1
      in (c, ''witness-head-'' @ show_nat (unat c), ''witness-patch-'' @ show_nat (unat c)))"

definition witness_product :: "WorkOutput \<Rightarrow> u32 \<Rightarrow> u32 \<times> WorkProduct" where
  "witness_product out counter =
     (case out of
        Branch \<Rightarrow>
          (let (c, h, p) = witness_head counter in (c, BranchProduct ''witness-branch'' h p))
      | Result \<Rightarrow> (counter, ResultProduct ''witness'' None)
      | Plan \<Rightarrow> (counter, PlanProduct [''witness-item'']))"

definition witness_children :: "FanoutSource \<Rightarrow> string list" where
  "witness_children source =
     (case source of
        Listed children \<Rightarrow> children
      | WorkOutput \<Rightarrow> [''witness-child-1'', ''witness-child-2''])"

definition first_of :: "'a list \<Rightarrow> 'a option" where
  "first_of xs = (case xs of [] \<Rightarrow> None | x # _ \<Rightarrow> Some x)"

definition witness_reviewers :: "nat \<Rightarrow> string list \<Rightarrow> string list" where
  "witness_reviewers count counted =
     take (count - length counted)
       (filter (\<lambda>r. r \<notin> set counted)
          (map (\<lambda>i. ''witness-reviewer-'' @ show_nat i) [0..<count * 2]))"

definition stage_success ::
    "PipelineState \<Rightarrow> WorkflowStage \<Rightarrow> u32 \<Rightarrow> u32 \<times> PipelineEvent list" where
  "stage_success st w counter =
     (let sid = ws_id w; a = attempt st; h = current_head st in
      case ws_stage w of
        Stage.Work _ _ out \<Rightarrow>
          (let (c, product) = witness_product out counter in (c, [WorkCompleted sid a product]))
      | Stage.Submit forge \<Rightarrow>
          (counter, [Submitted sid a (if forge \<noteq> ''local'' then Some ''witness-change'' else None)])
      | Stage.Command _ \<Rightarrow> (counter, [CommandFinished sid a h (Some 0)])
      | Stage.Approval _ count _ \<Rightarrow>
          (let selected =
             (if pick_fanout_index_for_approval (workflow st) (stage_index st) \<noteq> None
              then or_else (selected_fanout_child st) (first_of (fanout_child_task_ids st)) else None)
           in (counter, map (\<lambda>r. ApprovalGranted sid a r h selected)
                          (witness_reviewers (unat count) (approval_reviewers st))))
      | Stage.Fanout source join \<Rightarrow>
          (let children = witness_children source
           in (counter, [FanoutCompleted sid a children (if join = First then first_of children else None)]))
      | Stage.Merge \<Rightarrow>
          (counter, [MergeCompleted sid a (case h of Some x \<Rightarrow> x | None \<Rightarrow> []) ''witness-merge'']))"

definition success_events :: "PipelineState \<Rightarrow> u32 \<Rightarrow> u32 \<times> PipelineEvent list" where
  "success_events st counter =
     (if status st = PipelineStatus.Pending then (counter, [PipelineEvent.Start])
      else case current_stage st of
        None \<Rightarrow> (counter, [])
      | Some w \<Rightarrow> stage_success st w counter)"

datatype Disturbance = Fail | NewCommit

definition disturbance_events :: "PipelineState \<Rightarrow> Disturbance \<Rightarrow> u32 \<Rightarrow> u32 \<times> PipelineEvent list" where
  "disturbance_events st d counter =
     (case current_stage st of
        None \<Rightarrow> (counter, [])
      | Some w \<Rightarrow>
          (let sid = ws_id w; a = attempt st; h = current_head st in
           case d of
             Fail \<Rightarrow>
               (counter,
                [if stage_kind w = StageKind.Command then CommandFinished sid a h (Some 1)
                 else ChangesRequested sid a ''witness-reviewer'' h ''witness''])
           | NewCommit \<Rightarrow>
               (let (c, new_head, p) = witness_head counter in
                (c, if stage_kind w = StageKind.Merge
                    then [PipelineEvent.CommitCreated new_head p,
                          MergeFailed sid a (case h of Some x \<Rightarrow> x | None \<Rightarrow> []) ''witness'']
                    else [PipelineEvent.CommitCreated new_head p]))))"

section \<open>The witness run\<close>

datatype Scenario = SuccessScript | ReworkAfter string | NewCommitAt string

datatype StuckReason =
    NotDoneYet DoneViolation
  | EndedAs PipelineStatus
  | StepError StepFailure
  | InvalidatedWithoutAttempt
  | DuplicateAccepted PipelineEvent
  | NoProgress

type_synonym Stuck = "string \<times> StuckReason"

definition stuck :: "PipelineState \<Rightarrow> StuckReason \<Rightarrow> Stuck" where
  "stuck st reason =
     (case current_stage st of Some w \<Rightarrow> ws_id w | None \<Rightarrow> ''<end>'', reason)"

primrec apply_events :: "PipelineEvent list \<Rightarrow> PipelineState \<Rightarrow> Stuck + PipelineState" where
  "apply_events [] st = Inr st"
| "apply_events (ev # evs) st =
     (case step st ev of
        Inl e \<Rightarrow> Inl (stuck st (StepError e))
      | Inr (st', _) \<Rightarrow> apply_events evs st')"

definition invalidated_in_place :: "PipelineState \<Rightarrow> PipelineState \<Rightarrow> bool" where
  "invalidated_in_place old new =
     (status new = PipelineStatus.Running \<and> stage_index new = stage_index old
      \<and> \<not> merge_in_flight old
      \<and> (((current_kind_is old StageKind.Approval \<or> current_kind_is old StageKind.Fanout)
            \<and> current_head new \<noteq> current_head old)
         \<or> ((approval_reviewers old \<noteq> [] \<or> pending_pick old \<noteq> None)
            \<and> approval_reviewers new = [] \<and> pending_pick new = None))
      \<and> attempt new \<le> attempt old)"

definition duplicate_accepted ::
    "PipelineState \<Rightarrow> PipelineState \<Rightarrow> PipelineEvent list \<Rightarrow> PipelineEvent option" where
  "duplicate_accepted old new evs =
     (if (stage_index new, attempt new, status new) \<noteq> (stage_index old, attempt old, status old)
      then List.find (\<lambda>ev. case step new ev of Inr _ \<Rightarrow> True | Inl _ \<Rightarrow> False)
             (filter (\<lambda>ev. identity ev \<noteq> None) evs)
      else None)"

definition round_events ::
    "(nat \<times> Disturbance) option \<Rightarrow> PipelineState \<Rightarrow> u32 \<Rightarrow> bool
       \<Rightarrow> (u32 \<times> PipelineEvent list) \<times> bool" where
  "round_events disturbance st counter disturbed =
     (case disturbance of
        Some (index, d) \<Rightarrow>
          if \<not> disturbed \<and> status st = PipelineStatus.Running \<and> stage_index st = index
          then (disturbance_events st d counter, True)
          else (success_events st counter, disturbed)
      | None \<Rightarrow> (success_events st counter, disturbed))"

primrec witness_rounds ::
    "nat \<Rightarrow> (nat \<times> Disturbance) option \<Rightarrow> PipelineState \<Rightarrow> u32 \<Rightarrow> bool \<Rightarrow> Stuck + unit" where
  "witness_rounds 0 disturbance st counter disturbed = Inl (stuck st NoProgress)"
| "witness_rounds (Suc n) disturbance st counter disturbed =
     (case status st of
        PipelineStatus.Done \<Rightarrow>
          (case done_invariants st of
             Inl v \<Rightarrow> Inl (stuck st (NotDoneYet v))
           | Inr _ \<Rightarrow> Inr ())
      | PipelineStatus.Failed \<Rightarrow> Inl (stuck st (EndedAs (status st)))
      | PipelineStatus.Cancelled \<Rightarrow> Inl (stuck st (EndedAs (status st)))
      | _ \<Rightarrow>
          (let ((counter', evs), disturbed') = round_events disturbance st counter disturbed in
           and_then (apply_events evs st) (\<lambda>st'.
             if invalidated_in_place st st' then Inl (stuck st' InvalidatedWithoutAttempt)
             else case duplicate_accepted st st' evs of
               Some ev \<Rightarrow> Inl (stuck st' (DuplicateAccepted ev))
             | None \<Rightarrow> witness_rounds n disturbance st' counter' disturbed')))"

definition witness_run ::
    "Workflow \<Rightarrow> (nat \<times> Disturbance) option \<Rightarrow> Scenario \<Rightarrow> (Scenario \<times> Stuck) + unit" where
  "witness_run wfl disturbance scenario =
     (case witness_rounds (length (wf_stages wfl) * 8 + 16) disturbance
             (state_unchecked ''witness'' wfl) 0 False of
        Inl s \<Rightarrow> Inl (scenario, s)
      | Inr _ \<Rightarrow> Inr ())"

definition failure_scenarios :: "Workflow \<Rightarrow> ((nat \<times> Disturbance) option \<times> Scenario) list" where
  "failure_scenarios wfl =
     List.map_filter (\<lambda>i. let w = wf_stages wfl ! i in
        if stage_kind w \<in> {StageKind.Command, StageKind.Approval}
        then Some (Some (i, Fail), ReworkAfter (ws_id w)) else None)
       [0..<length (wf_stages wfl)]"

definition commit_scenarios :: "Workflow \<Rightarrow> ((nat \<times> Disturbance) option \<times> Scenario) list" where
  "commit_scenarios wfl =
     List.map_filter (\<lambda>i.
        if list_ex is_branch_work (take i (wf_stages wfl))
        then Some (Some (i, NewCommit), NewCommitAt (ws_id (wf_stages wfl ! i))) else None)
       [0..<length (wf_stages wfl)]"

primrec witness_runs ::
    "Workflow \<Rightarrow> ((nat \<times> Disturbance) option \<times> Scenario) list \<Rightarrow> (Scenario \<times> Stuck) + unit" where
  "witness_runs wfl [] = Inr ()"
| "witness_runs wfl (s # ss) =
     and_then (witness_run wfl (fst s) (snd s)) (\<lambda>_. witness_runs wfl ss)"

definition completability_witness :: "Workflow \<Rightarrow> (Scenario \<times> Stuck) + unit" where
  "completability_witness wfl =
     witness_runs wfl ((None, SuccessScript) # failure_scenarios wfl @ commit_scenarios wfl)"

definition validate :: "Workflow \<Rightarrow> string list \<Rightarrow> (Scenario \<times> Stuck) WorkflowError list" where
  "validate wfl team_roles =
     (let errors = static_errors wfl team_roles in
      if errors \<noteq> [] then errors
      else case completability_witness wfl of
        Inl text \<Rightarrow> [NotCompletable text]
      | Inr _ \<Rightarrow> [])"

text \<open>\<open>validated\<close> wraps the workflow: the sum of the errors and the workflow itself.\<close>

definition validated ::
    "Workflow \<Rightarrow> string list \<Rightarrow> (Scenario \<times> Stuck) WorkflowError list + Workflow" where
  "validated wfl team_roles =
     (let errors = validate wfl team_roles in if errors = [] then Inr wfl else Inl errors)"

section \<open>What a successful validation means\<close>

lemma apply_events_accepts:
  "apply_events evs st = Inr st' \<Longrightarrow> accepts step st evs st'"
proof (induction evs arbitrary: st)
  case Nil
  then show ?case by (auto intro: accepts_nil)
next
  case (Cons ev evs)
  from Cons.prems obtain st1 os where "step st ev = Inr (st1, os)" "apply_events evs st1 = Inr st'"
    by (auto split: sum.splits)
  then show ?case using Cons.IH by (blast intro: accepts_Cons)
qed

lemma witness_rounds_done:
  "witness_rounds n d st counter disturbed = Inr u \<Longrightarrow>
     \<exists>evs st'. accepts step st evs st' \<and> status st' = PipelineStatus.Done \<and> done_invariants st' = Inr ()"
proof (induction n arbitrary: st counter disturbed)
  case 0
  then show ?case by simp
next
  case (Suc n)
  show ?case
  proof (cases "status st = PipelineStatus.Done")
    case True
    with Suc.prems have "done_invariants st = Inr ()" by (auto split: sum.splits)
    with True accepts_nil [of step st] show ?thesis by blast
  next
    case False
    obtain counter' evs disturbed' where
      re: "round_events d st counter disturbed = ((counter', evs), disturbed')" by (metis prod.collapse)
    have run: "status st = PipelineStatus.Pending \<or> status st = PipelineStatus.Running"
      using False Suc.prems by (cases "status st") auto
    with Suc.prems re obtain st1 where st1: "apply_events evs st = Inr st1"
      "witness_rounds n d st1 counter' disturbed' = Inr u"
      by (auto simp: result_split split: if_splits option.splits)
    from Suc.IH [OF st1(2)] accepts_append [OF apply_events_accepts [OF st1(1)]] show ?thesis by blast
  qed
qed

lemma witness_runs_all:
  "witness_runs wfl ss = Inr u \<Longrightarrow> (d, sc) \<in> set ss \<Longrightarrow> witness_run wfl d sc = Inr ()"
  by (induction ss) (auto simp: result_split)

lemma witness_run_done:
  assumes "witness_run wfl d sc = Inr u"
  shows "\<exists>evs st. accepts step (state_unchecked ''witness'' wfl) evs st
    \<and> status st = PipelineStatus.Done \<and> done_invariants st = Inr ()"
  using assms witness_rounds_done by (auto simp: witness_run_def split: sum.splits)

lemma witness_nonempty:
  assumes "witness_run wfl d sc = Inr u"
  shows "wf_stages wfl \<noteq> []"
proof
  assume e: "wf_stages wfl = []"
  let ?s = "state_unchecked ''witness'' wfl"
  have st: "status ?s = PipelineStatus.Pending" "stages ?s = []" using e by (simp_all add: state_unchecked_def)
  then have "round_events d ?s 0 False = ((0, [PipelineEvent.Start]), False)"
    by (auto simp: round_events_def success_events_def split: option.splits)
  moreover have "step ?s PipelineEvent.Start = reject EmptyWorkflow"
    using st by (simp add: step_def on_start_def merge_in_flight_iff)
  ultimately have "\<exists>x. witness_rounds (Suc n) d ?s 0 False = Inl x" for n using st(1) by simp
  from this [of 15] obtain x where "witness_rounds (length (wf_stages wfl) * 8 + 16) d ?s 0 False = Inl x"
    using e by auto
  then show False using assms by (simp add: witness_run_def)
qed

lemma validate_Nil:
  assumes "validate wfl team_roles = []"
  shows "well_formed wfl" and "wf_stages wfl \<noteq> []" and "completability_witness wfl = Inr ()"
proof -
  from assms have s: "static_errors wfl team_roles = ([] :: (Scenario \<times> Stuck) WorkflowError list)"
    and w: "completability_witness wfl = Inr ()"
    by (auto simp: validate_def Let_def split: if_splits sum.splits)
  show "well_formed wfl" using s by (rule static_errors_well_formed)
  show "completability_witness wfl = Inr ()" by (rule w)
  then have "witness_run wfl None SuccessScript = Inr ()"
    unfolding completability_witness_def by (rule witness_runs_all) simp
  then show "wf_stages wfl \<noteq> []" by (rule witness_nonempty)
qed

lemma find_rev_rposition:
  "List.find P (rev xs) = map_option (nth xs) (rposition P xs)"
proof (cases "rposition P xs")
  case None
  then have "List.find P (rev xs) = None" by (simp add: rposition_eq_None find_None_iff)
  with None show ?thesis by simp
next
  case (Some i)
  then have i: "i < length xs" "P (xs ! i)" "\<And>j. i < j \<Longrightarrow> j < length xs \<Longrightarrow> \<not> P (xs ! j)"
    by (auto simp: rposition_eq_Some)
  let ?k = "length xs - Suc i"
  have "rev xs ! ?k = xs ! i" "?k < length (rev xs)" using i(1) by (simp_all add: rev_nth)
  moreover have "\<not> P (rev xs ! j)" if "j < ?k" for j
    using that i(3) [of "length xs - Suc j"] by (simp add: rev_nth)
  ultimately show ?thesis using Some i(2) by (auto simp: find_Some_iff intro!: exI [of _ ?k])
qed

lemma done_pick:
  assumes wf: "well_formed (workflow st)" and d: "done_inv st"
  shows "pick_violation st = None"
proof (cases "last_pick (workflow st)")
  case None
  then show ?thesis
    by (auto simp: pick_violation_def find_rev_rposition last_pick_def split: option.splits if_splits
        Stage.splits FanoutJoin.splits)
next
  case (Some f)
  note f = last_pick_Some [OF Some] and a = last_pick_approval [OF wf Some]
  have "stage_covered st (stages st ! Suc f)" using d a(1) by (auto simp: done_inv_def intro: covD)
  then have "pick_record st f"
    using a(2) by (auto simp: stage_covered_def kind_simps approval_for_stage_iff pick_record_def)
  then have "winner_ok st" using d Some f(1) by (auto simp: done_inv_def pick_at_def)
  then show ?thesis
    by (auto simp: pick_violation_def winner_ok_def split: option.splits Stage.splits FanoutJoin.splits)
qed

lemma done_invariants_hold:
  assumes wf: "well_formed (workflow st)" and inv: "state_inv st" and "status st = PipelineStatus.Done"
  shows "done_invariants st = Inr ()"
proof -
  have d: "done_inv st" using inv assms(3) by (simp add: state_inv_def)
  have "stage_violation st w = None" if "w \<in> set (stages st)" for w
  proof -
    from that obtain j where j: "j < length (stages st)" "w = stages st ! j" by (auto simp: in_set_conv_nth)
    have "stage_covered st w" using d j by (auto simp: done_inv_def intro: covD)
    then show ?thesis
      by (cases "ws_stage w") (auto simp: stage_violation_def stage_covered_def list_ex_iff approval_for_stage_iff)
  qed
  then have "find_map (stage_violation st) (stages st) = None" by (simp add: find_map_eq_None)
  then show ?thesis using done_pick [OF wf d] by (simp add: done_invariants_def)
qed

end
