(* ===== verification/Pipeline_Snapshot.thy ===== *)
theory Pipeline_Snapshot
  imports Workflow_Validation
begin

text \<open>
  Snapshots of a pipeline: \<open>snapshot\<close>, the checks of \<open>restore\<close> in the order of the source, and
  \<open>outstanding_actions\<close>, which rebuilds the unanswered requests of a restored state. The text of a
  violated done invariant is kept as data.
\<close>

section \<open>Definitions\<close>

record PipelineSnapshot =
  snap_task_id :: string
  snap_pending_work_reason :: "string option"
  snap_stage_index :: nat
  snap_status :: PipelineStatus
  snap_branch :: "string option"
  snap_current_head :: "string option"
  snap_patch_id :: "string option"
  snap_change_id :: "string option"
  snap_work_product :: "WorkProduct option"
  snap_approval_reviewers :: "string list"
  snap_pending_pick :: "string option"
  snap_attempts :: "u32 list"
  snap_approvals :: "ApprovalRecord list"
  snap_passed_checks :: "PassedCheck list"
  snap_fanout_child_task_ids :: "string list"
  snap_selected_fanout_child :: "string option"
  snap_merge_commit :: "string option"
  snap_pending_head_changes :: "PendingHeadChange list"
  snap_notified_timeout :: "(nat \<times> u32) option"

definition snapshot :: "PipelineState \<Rightarrow> PipelineSnapshot" where
  "snapshot st =
     \<lparr>snap_task_id = task_id st, snap_pending_work_reason = pending_work_reason st,
      snap_stage_index = stage_index st, snap_status = status st, snap_branch = branch st,
      snap_current_head = current_head st, snap_patch_id = patch_id st, snap_change_id = change_id st,
      snap_work_product = work_product st, snap_approval_reviewers = approval_reviewers st,
      snap_pending_pick = pending_pick st, snap_attempts = attempts st, snap_approvals = approvals st,
      snap_passed_checks = passed_checks st, snap_fanout_child_task_ids = fanout_child_task_ids st,
      snap_selected_fanout_child = selected_fanout_child st, snap_merge_commit = merge_commit st,
      snap_pending_head_changes = pending_head_changes st,
      snap_notified_timeout = notified_timeout st\<rparr>"

definition state_of_snapshot :: "PipelineSnapshot \<Rightarrow> Workflow \<Rightarrow> PipelineState" where
  "state_of_snapshot s wfl =
     \<lparr>task_id = snap_task_id s, pending_work_reason = snap_pending_work_reason s, workflow = wfl,
      stage_index = snap_stage_index s, status = snap_status s, branch = snap_branch s,
      current_head = snap_current_head s, patch_id = snap_patch_id s, change_id = snap_change_id s,
      work_product = snap_work_product s, approval_reviewers = snap_approval_reviewers s,
      pending_pick = snap_pending_pick s, attempts = snap_attempts s, approvals = snap_approvals s,
      passed_checks = snap_passed_checks s, fanout_child_task_ids = snap_fanout_child_task_ids s,
      selected_fanout_child = snap_selected_fanout_child s, merge_commit = snap_merge_commit s,
      pending_head_changes = snap_pending_head_changes s,
      notified_timeout = snap_notified_timeout s\<rparr>"

datatype RestoreError = Invalid string | NotDone DoneViolation

definition valid_task_id :: "string \<Rightarrow> bool" where
  "valid_task_id task \<longleftrightarrow> task \<noteq> [] \<and> CHR ''/'' \<notin> set task \<and> CHR 0x00 \<notin> set task"

definition position_invalid :: "PipelineState \<Rightarrow> bool" where
  "position_invalid st \<longleftrightarrow>
     length (attempts st) \<noteq> length (stages st)
     \<or> - 1 \<in> set (attempts st)
     \<or> stage_index st > length (stages st)
     \<or> (stage_index st = length (stages st) \<and> status st \<noteq> PipelineStatus.Done)
     \<or> (status st = PipelineStatus.Running \<and> attempt st = 0)
     \<or> (status st = PipelineStatus.Pending
        \<and> (stage_index st \<noteq> 0 \<or> list_ex (\<lambda>a. a \<noteq> 0) (attempts st)))"

definition check_unknown :: "PipelineState \<Rightarrow> PassedCheck \<Rightarrow> bool" where
  "check_unknown st c \<longleftrightarrow>
     \<not> list_ex (\<lambda>w. ws_id w = pc_stage_id c \<and> stage_kind w = StageKind.Command) (stages st)"

definition approval_error :: "PipelineState \<Rightarrow> ApprovalRecord \<Rightarrow> RestoreError option" where
  "approval_error st a =
     (case List.find (\<lambda>w. ws_id w = ar_stage_id a) (stages st) of
        None \<Rightarrow> Some (Invalid ''unknown approval stage in snapshot'')
      | Some w \<Rightarrow>
          (case ws_stage w of
             Stage.Approval _ count bind \<Rightarrow>
               if length (ar_reviewers a) \<noteq> unat count
                  \<or> [] \<in> set (ar_reviewers a) \<or> has_duplicate (ar_reviewers a)
                  \<or> (bind \<and> (ar_head a = None \<or> ar_patch_id a = None))
                  \<or> (\<not> bind \<and> (ar_head a \<noteq> None \<or> ar_patch_id a \<noteq> None))
               then Some (Invalid ''invalid approval record in snapshot'') else None
           | _ \<Rightarrow> Some (Invalid ''approval recorded for a non-approval stage'')))"

definition records_inconsistent :: "PipelineState \<Rightarrow> bool" where
  "records_inconsistent st \<longleftrightarrow>
     [] \<in> set (approval_reviewers st) \<or> has_duplicate (approval_reviewers st)
     \<or> (current_head st \<noteq> None) \<noteq> (patch_id st \<noteq> None)
     \<or> (pending_head_changes st \<noteq> [] \<and> \<not> merge_in_flight st)"

definition partial_elsewhere :: "PipelineState \<Rightarrow> bool" where
  "partial_elsewhere st \<longleftrightarrow>
     status st = PipelineStatus.Running \<and> approval_reviewers st \<noteq> []
     \<and> \<not> (case map_option ws_stage (current_stage st) of
             Some (Stage.Approval _ count _) \<Rightarrow> length (approval_reviewers st) < unat count
           | _ \<Rightarrow> False)"

definition reason_elsewhere :: "PipelineState \<Rightarrow> bool" where
  "reason_elsewhere st \<longleftrightarrow> pending_work_reason st \<noteq> None \<and> \<not> current_kind_is st StageKind.Work"

definition pending_with_records :: "PipelineState \<Rightarrow> bool" where
  "pending_with_records st \<longleftrightarrow>
     status st = PipelineStatus.Pending
     \<and> (branch st \<noteq> None \<or> current_head st \<noteq> None \<or> pending_work_reason st \<noteq> None
        \<or> selected_fanout_child st \<noteq> None \<or> work_product st \<noteq> None \<or> approvals st \<noteq> []
        \<or> passed_checks st \<noteq> [] \<or> approval_reviewers st \<noteq> [] \<or> change_id st \<noteq> None
        \<or> merge_commit st \<noteq> None \<or> pending_pick st \<noteq> None \<or> fanout_child_task_ids st \<noteq> [])"

definition timeout_invalid :: "PipelineState \<Rightarrow> bool" where
  "timeout_invalid st \<longleftrightarrow>
     (case notified_timeout st of
        None \<Rightarrow> False
      | Some (index, a) \<Rightarrow> index \<ge> length (stages st) \<or> a = 0 \<or> attempts st ! index < a)"

definition done_error :: "PipelineState \<Rightarrow> RestoreError option" where
  "done_error st =
     (if status st \<noteq> PipelineStatus.Done then None
      else case done_invariants st of
        Inl v \<Rightarrow> Some (NotDone v)
      | Inr _ \<Rightarrow>
          if list_ex (\<lambda>w. stage_kind w = StageKind.Merge) (stages st) \<and> merge_commit st = None
          then Some (Invalid ''done snapshot has no merge record'') else None)"

definition restore :: "PipelineSnapshot \<Rightarrow> Workflow \<Rightarrow> RestoreError + PipelineState" where
  "restore s wfl =
     (let st = state_of_snapshot s wfl in
      if \<not> valid_task_id (task_id st) then Inl (Invalid ''invalid task id in snapshot'')
      else if position_invalid st
      then Inl (Invalid ''invalid stage position or attempts in snapshot'')
      else if list_ex (check_unknown st) (passed_checks st)
      then Inl (Invalid ''unknown check stage in snapshot'')
      else if has_duplicate (map pc_stage_id (passed_checks st))
              \<or> has_duplicate (map ar_stage_id (approvals st))
      then Inl (Invalid ''duplicate execution record in snapshot'')
      else case find_map (approval_error st) (approvals st) of
        Some e \<Rightarrow> Inl e
      | None \<Rightarrow>
          if records_inconsistent st
          then Inl (Invalid ''inconsistent execution records in snapshot'')
          else if partial_elsewhere st
          then Inl (Invalid ''partial reviewers do not belong to the current approval'')
          else if reason_elsewhere st then Inl (Invalid ''rework reason outside a work stage'')
          else if pending_with_records st
          then Inl (Invalid ''pending snapshot contains execution records'')
          else if timeout_invalid st then Inl (Invalid ''invalid timeout identity in snapshot'')
          else if merge_in_flight st \<and> \<not> allowed (merge_gate st (stage_index st))
          then Inl (Invalid ''restored merge gate is closed'')
          else (case done_error st of Some e \<Rightarrow> Inl e | None \<Rightarrow> Inr st))"

text \<open>
  \<open>copy.attempts[index] -= 1\<close> wraps at zero as in a release build; a missing entry is a panic.
\<close>

fun as_return_to_work :: "string \<Rightarrow> PipelineAction \<Rightarrow> PipelineAction" where
  "as_return_to_work reason (AssignWork sid a role) = PipelineAction.ReturnToWork sid a role reason"
| "as_return_to_work reason act = act"

fun is_schedule :: "PipelineAction \<Rightarrow> bool" where
  "is_schedule (ScheduleTimeout _ _ _ _) = True"
| "is_schedule _ = False"

definition reentry_copy :: "PipelineState \<Rightarrow> WorkflowStage \<Rightarrow> PipelineState" where
  "reentry_copy st w =
     st\<lparr>attempts := (attempts st)[stage_index st := attempts st ! stage_index st - 1],
        approvals := filter (\<lambda>a. ar_stage_id a \<noteq> ws_id w) (approvals st)\<rparr>"

definition outstanding_actions :: "PipelineState \<Rightarrow> StepFailure + PipelineAction list" where
  "outstanding_actions st =
     (if status st \<noteq> PipelineStatus.Running then Inr []
      else case current_stage st of
        None \<Rightarrow> Inr []
      | Some w \<Rightarrow>
          if stage_index st \<ge> length (attempts st) then Inl Panic
          else case enter_stage (stage_index st) (reentry_copy st w) of
            Inl Panic \<Rightarrow> Inl Panic
          | Inl (Rejected _) \<Rightarrow> Inr []
          | Inr (_, acts) \<Rightarrow>
              let acts1 = (if notified_timeout st = Some (stage_index st, attempt st)
                           then filter (\<lambda>a. \<not> is_schedule a) acts else acts)
              in Inr (case pending_work_reason st of
                        Some reason \<Rightarrow> map (as_return_to_work reason) acts1
                      | None \<Rightarrow> acts1))"

section \<open>Round trip\<close>

lemma state_of_snapshot_snapshot [simp]: "state_of_snapshot (snapshot st) (workflow st) = st"
  by (simp add: state_of_snapshot_def snapshot_def)

lemma snapshot_state_of_snapshot [simp]: "snapshot (state_of_snapshot s wfl) = s"
  by (simp add: state_of_snapshot_def snapshot_def)

lemma workflow_state_of_snapshot [simp]: "workflow (state_of_snapshot s wfl) = wfl"
  by (simp add: state_of_snapshot_def)

lemma position_ok:
  assumes inv: "state_inv st" and room: "budget 1 st"
  shows "\<not> position_invalid st"
proof -
  have b: "base_inv st" using inv by (simp add: state_inv_def)
  have "- 1 \<notin> set (attempts st)"
  proof
    assume "- 1 \<in> set (attempts st)"
    then have "unat (- 1 :: u32) + 1 < 2 ^ 32" using room by (auto simp: budget_def)
    then show False by (simp add: unsigned_minus_1_eq_mask mask_eq_exp_minus_1)
  qed
  moreover have "attempt st \<noteq> 0" if "status st = PipelineStatus.Running"
    using state_inv_runningD(1,2) [OF inv that] base_invD(1) [OF b] by simp
  moreover have "stage_index st = 0 \<and> (\<forall>a \<in> set (attempts st). a = 0)"
    if "status st = PipelineStatus.Pending"
  proof -
    have eq: "st = state_unchecked (task_id st) (workflow st)" using inv that by (simp add: state_inv_def)
    show ?thesis by (subst (1 2) eq) (simp add: state_unchecked_def)
  qed
  ultimately show ?thesis
    using inv base_invD(1) [OF b] by (auto simp: position_invalid_def state_inv_def list_ex_iff)
qed

lemma find_by_id:
  assumes "well_formed wfl" and "w \<in> set (wf_stages wfl)"
  shows "List.find (\<lambda>v. ws_id v = ws_id w) (wf_stages wfl) = Some w"
proof -
  from assms(2) obtain i where i: "i < length (wf_stages wfl)" "w = wf_stages wfl ! i"
    by (auto simp: in_set_conv_nth)
  moreover have "ws_id (wf_stages wfl ! j) \<noteq> ws_id w" if "j < i" for j
    using same_id [OF assms(1), of j i] i that by simp
  ultimately show ?thesis by (auto simp: find_Some_iff intro!: exI [of _ i])
qed

lemma approval_error_None:
  assumes "well_formed (workflow st)" and "approval_ok st a"
  shows "approval_error st a = None"
proof -
  from assms(2) obtain w where w: "w \<in> set (stages st)" "ws_id w = ar_stage_id a"
    "approval_fits (ws_stage w) (current_head st) a" unfolding approval_ok_def by blast
  have f: "List.find (\<lambda>v. ws_id v = ar_stage_id a) (stages st) = Some w"
    using find_by_id [OF assms(1) w(1)] w(2) by simp
  from w(3) show ?thesis
    by (cases "ws_stage w") (auto simp: approval_error_def f split: if_splits)
qed

lemma pending_clean:
  assumes "state_inv st"
  shows "\<not> pending_with_records st"
proof
  assume p: "pending_with_records st"
  then have "st = state_unchecked (task_id st) (workflow st)"
    using assms by (simp add: state_inv_def pending_with_records_def)
  then have "pending_with_records (state_unchecked (task_id st) (workflow st))" using p by simp
  then show False by (simp add: pending_with_records_def state_unchecked_def)
qed

lemma restore_snapshot:
  assumes wf: "well_formed (workflow st)" and inv: "state_inv st" and room: "budget 1 st"
    and task: "valid_task_id (task_id st)"
  shows "restore (snapshot st) (workflow st) = Inr st"
proof -
  have b: "base_inv st" using inv by (simp add: state_inv_def)
  note d = base_invD [OF b]
  have "\<not> list_ex (check_unknown st) (passed_checks st)"
    using d(2) by (fastforce simp: list_ex_iff check_unknown_def check_ok_def)
  moreover have "find_map (approval_error st) (approvals st) = None"
    using approval_error_None [OF wf d(4)] by (simp add: find_map_eq_None)
  moreover have "\<not> records_inconsistent st"
    using d(6-8) inv by (auto simp: records_inconsistent_def state_inv_def)
  moreover have "\<not> partial_elsewhere st"
    using inv by (auto simp: partial_elsewhere_def state_inv_def partial_ok_def)
  moreover have "\<not> reason_elsewhere st"
    using inv by (auto simp: reason_elsewhere_def state_inv_def reason_ok_def current_kind_is_iff)
  moreover have "\<not> timeout_invalid st"
    using d(1,9) by (auto simp: timeout_invalid_def timeout_ok_def split: option.splits)
  moreover have "\<not> (merge_in_flight st \<and> \<not> allowed (merge_gate st (stage_index st)))"
    using inv by (auto simp: merge_in_flight_iff state_inv_def running_inv_def)
  moreover have "done_error st = None"
    using done_invariants_hold [OF wf inv] inv
    by (auto simp: done_error_def state_inv_def done_inv_def has_merge_def list_ex_iff)
  ultimately show ?thesis
    using position_ok [OF inv room] pending_clean [OF inv] task d(3,5) by (simp add: restore_def Let_def)
qed

lemma restore_Inr:
  assumes "restore s wfl = Inr st"
  shows "st = state_of_snapshot s wfl" "valid_task_id (task_id st)" "\<not> position_invalid st"
    "merge_in_flight st \<Longrightarrow> allowed (merge_gate st (stage_index st))" "done_error st = None"
    "find_map (approval_error st) (approvals st) = None"
  using assms by (auto simp: restore_def Let_def split: if_splits option.splits)

section \<open>Outstanding requests\<close>

definition requests :: "PipelineState \<Rightarrow> PipelineAction \<Rightarrow> PipelineAction list" where
  "requests st act =
     (if notified_timeout st = Some (stage_index st, attempt st) then []
      else [schedule (stages st ! stage_index st) (attempt st)])
     @ [case pending_work_reason st of Some reason \<Rightarrow> as_return_to_work reason act | None \<Rightarrow> act]"

lemma map_filter_cong:
  "(\<And>x. x \<in> set xs \<Longrightarrow> f x = g x) \<Longrightarrow> List.map_filter f xs = List.map_filter g xs"
  by (induction xs) (simp_all add: List.map_filter_simps split: option.split)

lemma stage_request_not_schedule:
  "stage_request st i w a = Inr act \<Longrightarrow> \<not> is_schedule act"
  by (auto simp: stage_request_def split: Stage.splits sum.splits if_splits option.splits)

lemma reentry_request:
  assumes wf: "well_formed (workflow st)" and i: "i = stage_index st" "i < length (stages st)"
    and len: "length (attempts st) = length (stages st)"
  shows "stage_request (entered i (reentry_copy st (stages st ! i))) i (stages st ! i) a
    = stage_request st i (stages st ! i) a"
proof -
  let ?c = "reentry_copy st (stages st ! i)" and ?w = "stages st ! i"
  have fields [simp]: "workflow ?c = workflow st" "current_head ?c = current_head st"
    "branch ?c = branch st" "passed_checks ?c = passed_checks st"
    "fanout_child_task_ids ?c = fanout_child_task_ids st" "change_id ?c = change_id st"
    "work_product ?c = work_product st"
    "approvals ?c = filter (\<lambda>a. ar_stage_id a \<noteq> ws_id ?w) (approvals st)"
    by (simp_all add: reentry_copy_def)
  have more [simp]: "change_id (entered i ?c) = change_id st" "work_product (entered i ?c) = work_product st"
    by (simp_all add: entered_def Let_def)
  show ?thesis
  proof (cases "stage_kind ?w = StageKind.Fanout")
    case True
    then show ?thesis by (auto simp: stage_request_def kind_simps)
  next
    case False
    then have r: "reset_fanout_at i ?c = ?c" using i(2) by simp
    have "gate_fact (entered i ?c) (ws_id v) (ws_stage v) = gate_fact st (ws_id v) (ws_stage v)"
      if "v \<in> set (take i (stages st))" for v
    proof -
      from that i obtain j where j: "j < i" "v = stages st ! j" by (auto simp: in_set_conv_nth)
      then have "ws_id v \<noteq> ws_id ?w" using same_id [OF wf, of j i] i by simp
      then have "filter (\<lambda>a. ar_stage_id a = ws_id v) (approvals ?c)
          = filter (\<lambda>a. ar_stage_id a = ws_id v) (approvals st)"
        by (auto intro: filter_cong)
      then show ?thesis by (cases "ws_stage v") (simp_all add: passed_heads_def approval_heads_def r)
    qed
    then have "List.map_filter (\<lambda>v. gate_fact (entered i ?c) (ws_id v) (ws_stage v)) (take i (stages st))
        = List.map_filter (\<lambda>v. gate_fact st (ws_id v) (ws_stage v)) (take i (stages st))"
      by (rule map_filter_cong)
    then have "merge_gate (entered i ?c) i = merge_gate st i" by (simp add: merge_gate_def)
    then show ?thesis
      using r by (cases "ws_stage ?w") (simp_all add: stage_request_def split: sum.split)
  qed
qed

lemma reentry_stops:
  assumes inv: "state_inv st" and run: "status st = PipelineStatus.Running"
  shows "enter_stage (stage_index st) (reentry_copy st (stages st ! stage_index st))
    = request_stage (stage_index st) (stages st ! stage_index st)
        (prepare_stage (stage_index st) (reset_fanout_at (stage_index st) (reentry_copy st (stages st ! stage_index st))))"
proof -
  let ?i = "stage_index st" and ?w = "stages st ! stage_index st"
  let ?c = "reentry_copy st ?w"
  have c: "workflow ?c = workflow st" by (simp add: reentry_copy_def)
  have na: "\<not> approval_for_stage ?c ?w"
    by (cases "ws_stage ?w")
      (auto simp: approval_for_stage_def approval_satisfied_def approval_heads_def reentry_copy_def)
  show ?thesis
  proof (cases rule: enter_stage_cases [of ?i ?c])
    case (at_stage j)
    have "j = ?i" using at_stage(1) at_stage(3) [of ?i] na c by (cases "?i < j") auto
    then show ?thesis using at_stage(5) c by simp
  next
    case at_end
    then show ?thesis using at_end(1) [of ?i] na state_inv_runningD(1) [OF inv run] c by auto
  qed
qed

lemma reentry_result:
  assumes wf: "well_formed (workflow st)" and inv: "state_inv st" and run: "status st = PipelineStatus.Running"
  shows "enter_stage (stage_index st) (reentry_copy st (stages st ! stage_index st)) =
    (case stage_request st (stage_index st) (stages st ! stage_index st) (attempt st) of
       Inr act \<Rightarrow> Inr (entered (stage_index st) (reentry_copy st (stages st ! stage_index st)),
         [schedule (stages st ! stage_index st) (attempt st), act])
     | Inl (Inl reason) \<Rightarrow> Inr (fail_task (ws_id (stages st ! stage_index st)) reason
         (entered (stage_index st) (reentry_copy st (stages st ! stage_index st))))
     | Inl (Inr e) \<Rightarrow> Inl e)"
proof -
  note r = state_inv_runningD [OF inv run]
  let ?i = "stage_index st" and ?w = "stages st ! stage_index st"
  let ?c = "reentry_copy st ?w"
  have len: "length (attempts st) = length (stages st)" by (rule base_invD(1) [OF r(8)])
  have c: "attempts ?c = (attempts st)[?i := attempts st ! ?i - 1]" by (simp add: reentry_copy_def)
  then have att: "attempts ?c ! ?i + 1 = attempt st" using r(1) len by simp
  have "?i < length (attempts ?c)" using c r(1) len by simp
  from request_entered [OF this] show ?thesis
    unfolding reentry_stops [OF inv run] by (simp only: att reentry_request [OF wf refl r(1) len])
qed

lemma reentry_enters:
  assumes wf: "well_formed (workflow st)" and inv: "state_inv st" and run: "status st = PipelineStatus.Running"
    and req: "stage_request st (stage_index st) (stages st ! stage_index st) (attempt st) = Inr act"
  shows "\<exists>st'. enter_stage (stage_index st) (reentry_copy st (stages st ! stage_index st))
    = Inr (st', [schedule (stages st ! stage_index st) (attempt st), act])"
  using reentry_result [OF wf inv run] req by simp

lemma outstanding_requests:
  assumes wf: "well_formed (workflow st)" and inv: "state_inv st" and run: "status st = PipelineStatus.Running"
    and req: "stage_request st (stage_index st) (stages st ! stage_index st) (attempt st) = Inr act"
  shows "outstanding_actions st = Inr (requests st act)"
proof -
  note r = state_inv_runningD [OF inv run]
  have len: "length (attempts st) = length (stages st)" by (rule base_invD(1) [OF r(8)])
  obtain st' where e: "enter_stage (stage_index st) (reentry_copy st (stages st ! stage_index st))
    = Inr (st', [schedule (stages st ! stage_index st) (attempt st), act])"
    using reentry_enters [OF assms] by blast
  show ?thesis
    using run r(1) len e stage_request_not_schedule [OF req]
    by (simp add: outstanding_actions_def requests_def schedule_def Let_def split: option.split)
qed

end
