(* ===== verification/Pipeline_History.thy ===== *)
theory Pipeline_History
  imports Pipeline_Snapshot
begin

text \<open>
  What a state remembers of the events that led to it. \<open>stems\<close> says where the records of a state
  come from, \<open>ticks\<close> that a stage is only asked again with a higher attempt number. Both are
  transitive; one lemma per helper of the state machine gives them for every event.
\<close>

section \<open>Records\<close>

text \<open>\<open>E\<close> holds the new heads and patch ids of the clean rebases of the main branch.\<close>

definition record_from :: "(string \<times> string) set \<Rightarrow> ApprovalRecord \<Rightarrow> ApprovalRecord \<Rightarrow> bool" where
  "record_from E a b \<longleftrightarrow>
     ar_stage_id b = ar_stage_id a \<and> ar_reviewers b = ar_reviewers a \<and> ar_patch_id b = ar_patch_id a
     \<and> (ar_head b = ar_head a
        \<or> (\<exists>h p. ar_head a \<noteq> None \<and> ar_head b = Some h \<and> ar_patch_id a = Some p \<and> (h, p) \<in> E))"

definition stems :: "(string \<times> string) set \<Rightarrow> PipelineState \<Rightarrow> PipelineState \<Rightarrow> bool" where
  "stems E st st' \<longleftrightarrow>
     workflow st' = workflow st \<and> task_id st' = task_id st
     \<and> set (passed_checks st') \<subseteq> set (passed_checks st)
     \<and> (\<forall>b \<in> set (approvals st'). \<exists>a \<in> set (approvals st). record_from E a b)
     \<and> (approval_reviewers st' = []
        \<or> (approval_reviewers st' = approval_reviewers st \<and> stage_index st' = stage_index st
           \<and> current_head st' = current_head st))
     \<and> set (pending_head_changes st') \<subseteq> set (pending_head_changes st)"

lemma record_from_refl [simp]: "record_from E a a"
  by (simp add: record_from_def)

lemma record_from_trans: "record_from E a b \<Longrightarrow> record_from E b c \<Longrightarrow> record_from E a c"
  by (cases "ar_head a") (auto simp: record_from_def)

lemma stemsI:
  assumes "workflow st' = workflow st" "task_id st' = task_id st"
    "set (passed_checks st') \<subseteq> set (passed_checks st)"
    "set (approvals st') \<subseteq> set (approvals st)" "set (pending_head_changes st') \<subseteq> set (pending_head_changes st)"
    "approval_reviewers st' = [] \<or> approval_reviewers st' = approval_reviewers st
       \<and> stage_index st' = stage_index st \<and> current_head st' = current_head st"
  shows "stems E st st'"
  unfolding stems_def using assms record_from_refl by blast

lemma stems_trans:
  assumes "stems E st st1" and "stems E st1 st2"
  shows "stems E st st2"
proof -
  have "\<exists>a \<in> set (approvals st). record_from E a c" if "c \<in> set (approvals st2)" for c
    using assms that record_from_trans unfolding stems_def by blast
  then show ?thesis using assms unfolding stems_def by auto
qed

lemma stems_mono: "stems E st st' \<Longrightarrow> E \<subseteq> F \<Longrightarrow> stems F st st'"
  unfolding stems_def record_from_def by blast

section \<open>Tickets\<close>

text \<open>\<open>same_at st st'\<close>: \<open>st'\<close> waits for an answer that carries an attempt number \<open>st\<close> already had.\<close>

definition same_at :: "PipelineState \<Rightarrow> PipelineState \<Rightarrow> bool" where
  "same_at st st' \<longleftrightarrow>
     status st' = PipelineStatus.Running \<and> stage_index st' < length (attempts st)
     \<and> attempts st' ! stage_index st' = attempts st ! stage_index st'"

definition ticks :: "PipelineState \<Rightarrow> PipelineState \<Rightarrow> bool" where
  "ticks st st' \<longleftrightarrow>
     length (attempts st') = length (attempts st)
     \<and> (\<forall>k < length (attempts st). attempts st ! k \<le> attempts st' ! k)
     \<and> (same_at st st' \<longrightarrow>
          status st = PipelineStatus.Running \<and> stage_index st = stage_index st'
          \<and> set (approval_reviewers st) \<subseteq> set (approval_reviewers st')
          \<and> (notified_timeout st = Some (stage_index st, attempts st ! stage_index st) \<longrightarrow>
               notified_timeout st' = notified_timeout st))"

definition fresh :: "PipelineState \<Rightarrow> PipelineState \<Rightarrow> bool" where
  "fresh st st' \<longleftrightarrow> ticks st st' \<and> \<not> same_at st st'"

lemma ticks_mono: "ticks st st' \<Longrightarrow> k < length (attempts st) \<Longrightarrow> attempts st ! k \<le> attempts st' ! k"
  by (simp add: ticks_def)

lemma ticks_len: "ticks st st' \<Longrightarrow> length (attempts st') = length (attempts st)"
  by (simp add: ticks_def)

lemma same_at_split:
  assumes "ticks st st1" and "ticks st1 st2" and "same_at st st2"
  shows "same_at st1 st2" and "same_at st st1" and "stage_index st1 = stage_index st2"
proof -
  let ?k = "stage_index st2"
  have k: "?k < length (attempts st)" "attempts st2 ! ?k = attempts st ! ?k"
    using assms(3) by (simp_all add: same_at_def)
  then have "attempts st1 ! ?k = attempts st ! ?k" "attempts st2 ! ?k = attempts st1 ! ?k"
    using ticks_mono [OF assms(1), of ?k] ticks_mono [OF assms(2), of ?k] ticks_len [OF assms(1)] by simp_all
  then show s1: "same_at st1 st2"
    using assms(3) ticks_len [OF assms(1)] by (simp add: same_at_def)
  then have "status st1 = PipelineStatus.Running" "stage_index st1 = ?k"
    using assms(2) by (simp_all add: ticks_def)
  then show "same_at st st1" "stage_index st1 = stage_index st2"
    using k \<open>attempts st1 ! ?k = attempts st ! ?k\<close> by (simp_all add: same_at_def)
qed

lemma ticks_trans:
  assumes "ticks st st1" and "ticks st1 st2"
  shows "ticks st st2"
proof -
  have mono: "attempts st ! k \<le> attempts st2 ! k" if "k < length (attempts st)" for k
    using ticks_mono [OF assms(1) that] ticks_mono [OF assms(2), of k] ticks_len [OF assms(1)] that
    by (simp add: order_trans)
  moreover have "status st = PipelineStatus.Running \<and> stage_index st = stage_index st2
      \<and> set (approval_reviewers st) \<subseteq> set (approval_reviewers st2)
      \<and> (notified_timeout st = Some (stage_index st, attempts st ! stage_index st) \<longrightarrow>
               notified_timeout st2 = notified_timeout st)"
    if s: "same_at st st2"
  proof -
    note sp = same_at_split [OF assms s]
    have a: "status st = PipelineStatus.Running" "stage_index st = stage_index st1"
      "set (approval_reviewers st) \<subseteq> set (approval_reviewers st1)"
      "notified_timeout st = Some (stage_index st, attempts st ! stage_index st) \<Longrightarrow>
         notified_timeout st1 = notified_timeout st"
      using assms(1) sp(2) by (simp_all add: ticks_def)
    have b: "set (approval_reviewers st1) \<subseteq> set (approval_reviewers st2)"
      "notified_timeout st1 = Some (stage_index st1, attempts st1 ! stage_index st1) \<Longrightarrow>
         notified_timeout st2 = notified_timeout st1"
      using assms(2) sp(1) by (simp_all add: ticks_def)
    have "attempts st1 ! stage_index st1 = attempts st ! stage_index st1"
      using sp(2) by (simp add: same_at_def)
    with a b sp(3) show ?thesis by auto
  qed
  ultimately show ?thesis using ticks_len [OF assms(1)] ticks_len [OF assms(2)] by (simp add: ticks_def)
qed

lemma fresh_left: "fresh st st1 \<Longrightarrow> ticks st1 st2 \<Longrightarrow> fresh st st2"
  unfolding fresh_def using ticks_trans same_at_split(2) by blast

lemma fresh_right: "ticks st st1 \<Longrightarrow> fresh st1 st2 \<Longrightarrow> fresh st st2"
  unfolding fresh_def using ticks_trans same_at_split(1) by blast

lemma ticks_quiet:
  assumes "attempts st' = attempts st"
    and "status st' = PipelineStatus.Running \<Longrightarrow>
       status st = PipelineStatus.Running \<and> stage_index st' = stage_index st
       \<and> set (approval_reviewers st) \<subseteq> set (approval_reviewers st')
       \<and> notified_timeout st' = notified_timeout st"
  shows "ticks st st'"
  using assms by (auto simp: ticks_def same_at_def)

lemma fresh_stopped:
  assumes "attempts st' = attempts st" and "status st' \<noteq> PipelineStatus.Running"
  shows "fresh st st'"
  using assms by (auto simp: fresh_def ticks_def same_at_def)

lemma fresh_bumped:
  assumes "attempts st' = (attempts st)[j := attempts st ! j + 1]" and "unat (attempts st ! j) + 1 < 2 ^ 32"
    and "status st' = PipelineStatus.Running \<Longrightarrow> stage_index st' = j" and "j < length (attempts st)"
  shows "fresh st st'"
proof -
  have lt: "attempts st ! j < attempts st ! j + 1"
    using unat_plus_one [OF assms(2)] by (simp add: word_less_nat_alt)
  then have "\<not> same_at st st'" using assms by (auto simp: same_at_def)
  moreover have "attempts st ! k \<le> attempts st' ! k" if "k < length (attempts st)" for k
    using assms(1) lt that by (cases "k = j") auto
  ultimately show ?thesis using assms(1) by (simp add: fresh_def ticks_def)
qed

section \<open>Helpers\<close>

definition restarts :: "PipelineState \<Rightarrow> PipelineState \<Rightarrow> bool" where
  "restarts st st' \<longleftrightarrow> stems {} st st' \<and> fresh st st'"

lemma entered_restarts:
  assumes "j < length (attempts st)" and "unat (attempts st ! j) + 1 < 2 ^ 32"
    and "st' = entered j st \<or> st' = clear_partial (entered j st\<lparr>status := PipelineStatus.Failed\<rparr>)"
  shows "restarts st st'"
proof -
  have "set (approvals (reset_fanout_at j st)) \<subseteq> set (approvals st)"
    using reset_fanout_at_approvals [of j st] by auto
  then have "stems {} st st'" using assms(3) by (intro stemsI) auto
  moreover have "fresh st st'" using assms by (intro fresh_bumped [of st' st j]) auto
  ultimately show ?thesis by (simp add: restarts_def)
qed

lemma enter_restarts:
  assumes "enter_stage i st = Inr (st', acts)" and "budget (Suc K) st"
    and "length (attempts st) = length (stages st)" and "approval_reviewers st = [] \<or> i < length (stages st)"
  shows "restarts st st'"
proof (cases rule: enter_stage_cases [of i st])
  case (at_stage j)
  have len: "j < length (attempts st)" using at_stage(2) assms(3) by simp
  have "st' = entered j st \<or> st' = clear_partial (entered j st\<lparr>status := PipelineStatus.Failed\<rparr>)"
    using assms(1) at_stage(5) request_entered [OF len]
    by (auto simp: fail_task_def split: sum.splits)
  then show ?thesis using len budget_room [OF assms(2) len] by (intro entered_restarts) auto
next
  case at_end
  have st': "st' = (if i < length (stages st) then prepare_stage i st else st)
      \<lparr>stage_index := length (stages st), status := PipelineStatus.Done\<rparr>"
    using assms(1) at_end(2) by simp
  have "stems {} st st'" using assms(4) unfolding st' by (intro stemsI) auto
  moreover have "fresh st st'" unfolding st' by (rule fresh_stopped) simp_all
  ultimately show ?thesis by (simp add: restarts_def)
qed

lemma return_to_work_Inr:
  assumes "return_to_work t reason st = Inr r"
  obtains role ins out where "t < length (stages st)" "ws_stage (stages st ! t) = Stage.Work role ins out"
proof (cases "t < length (stages st)")
  case True
  then show thesis
    using assms that
    by (cases "ws_stage (stages st ! t)") (auto simp: return_to_work_def Let_def split: if_splits)
next
  case False
  then show thesis using assms by (simp add: return_to_work_def Let_def)
qed

lemma fresh_shift: "fresh st1 st' \<Longrightarrow> attempts st1 = attempts st \<Longrightarrow> fresh st st'"
  by (auto simp: fresh_def ticks_def same_at_def)

lemma restarts_after:
  assumes "stems E st st1" and "attempts st1 = attempts st" and "restarts st1 st'"
  shows "stems E st st'" "fresh st st'"
  using assms stems_trans stems_mono fresh_shift unfolding restarts_def by blast+

lemma return_to_work_restarts:
  assumes "return_to_work t reason st = Inr (st', acts)" and "budget (Suc K) st"
    and "length (attempts st) = length (stages st)"
  shows "restarts st st'"
proof -
  from assms(1) obtain role ins out where w: "t < length (stages st)"
    "ws_stage (stages st ! t) = Stage.Work role ins out"
    by (rule return_to_work_Inr)
  let ?r = "reworked t reason st"
  have st': "st' = ?r\<lparr>attempts := (attempts ?r)[t := attempts ?r ! t + 1]\<rparr>"
    using assms(1) return_to_work_eq [OF w] by (auto simp: result_split)
  have len: "t < length (attempts st)" using w(1) assms(3) by simp
  have "stems {} st st'" unfolding st' by (rule stemsI) auto
  moreover have "fresh st st'"
    using budget_room [OF assms(2) len] len unfolding st' by (intro fresh_bumped [of _ st t]) simp_all
  ultimately show ?thesis by (simp add: restarts_def)
qed

lemma stopped_restarts:
  assumes "x \<noteq> PipelineStatus.Running"
  shows "restarts st (clear_partial (st\<lparr>status := x\<rparr>))"
  unfolding restarts_def by (intro conjI stemsI fresh_stopped) (use assms in auto)

lemma fail_stage_restarts:
  assumes "fail_stage i reason st = Inr (st', acts)" and "budget (Suc K) st"
    and "length (attempts st) = length (stages st)"
  shows "restarts st st'"
proof -
  obtain w where w: "slice_get (stages st) i = Some w"
    using assms(1) by (cases "slice_get (stages st) i") (simp_all add: fail_stage_def)
  show ?thesis
  proof (cases "or_else (explicit_target st i w) (default_target st i w)")
    case None
    then have "st' = clear_partial (st\<lparr>status := PipelineStatus.Failed\<rparr>)"
      using assms(1) w by (simp add: fail_stage_def fail_task_def)
    then show ?thesis by (simp add: stopped_restarts)
  next
    case (Some t)
    then have "return_to_work t reason st = Inr (st', acts)" using assms(1) w by (simp add: fail_stage_def)
    then show ?thesis using assms(2,3) by (rule return_to_work_restarts)
  qed
qed

section \<open>Head changes\<close>

definition follows_on :: "(string \<times> string) set \<Rightarrow> PipelineState \<Rightarrow> PipelineState \<Rightarrow> bool" where
  "follows_on E st st' \<longleftrightarrow> stems E st st' \<and> ticks st st'"

lemma follows_on_trans: "follows_on E st st1 \<Longrightarrow> follows_on E st1 st2 \<Longrightarrow> follows_on E st st2"
  unfolding follows_on_def using stems_trans ticks_trans by blast

lemma follows_on_refl [simp]: "follows_on E st st"
  unfolding follows_on_def by (auto intro: stemsI ticks_quiet)

lemma restarts_follows: "restarts st st' \<Longrightarrow> follows_on E st st'"
  unfolding restarts_def follows_on_def fresh_def using stems_mono by blast

text \<open>A new head without a new attempt is only taken when nobody is collecting answers.\<close>

lemma moved_follows:
  assumes mv: "head_moved st st'" and st: "stems E st st'"
    and nt: "notified_timeout st' = notified_timeout st"
    and go: "restarts st' st'' \<or> (st'' = st' \<and> approval_reviewers st = [])"
  shows "follows_on E st st''"
proof -
  note m = head_movedD [OF mv]
  from go show ?thesis
  proof
    assume r: "restarts st' st''"
    show ?thesis
      using restarts_after [OF st m(4) r] by (simp add: follows_on_def fresh_def)
  next
    assume "st'' = st' \<and> approval_reviewers st = []"
    then show ?thesis
      using st m nt unfolding follows_on_def by (auto intro!: ticks_quiet)
  qed
qed

lemma recheck_follows:
  assumes live: "live st" and mv: "head_moved st st'" and st: "stems E st st'"
    and nt: "notified_timeout st' = notified_timeout st" and room: "budget (Suc K) st"
    and r: "recheck_for_new_head st' = Inr (st'', acts)"
  shows "follows_on E st st''"
proof (rule moved_follows [OF mv st nt])
  note m = head_movedD [OF mv] and d = liveD [OF live] and rr = state_inv_runningD [OF liveD(2,3) [OF live]]
  have room': "budget (Suc K) st'" using room m(4) by (simp add: budget_def)
  have len: "length (attempts st') = length (stages st')" using base_invD(1) [OF m(10)] .
  have enter: "restarts st' st''" if "enter_stage i st' = Inr (st'', acts)" for i
    using enter_restarts [OF that room' len] m(9) by simp
  show "restarts st' st'' \<or> (st'' = st' \<and> approval_reviewers st = [])"
  proof (cases "recheck_target st' (stage_index st')")
    case (Some t)
    then show ?thesis using r enter by (simp add: recheck_for_new_head_def)
  next
    case None
    then have r': "restart_if_collected st' = Inr (st'', acts)" using r by (simp add: recheck_for_new_head_def)
    show ?thesis
    proof (cases "current_kind_is st' StageKind.Approval")
      case True
      moreover from True have "\<not> merge_in_flight st'" by (auto simp: current_kind_is_iff merge_in_flight_iff)
      ultimately show ?thesis using r' enter by (auto simp: restart_if_collected_def)
    next
      case False
      then have "approval_reviewers st = []"
        using reviewers_none [OF rr(9)] rr(1) m(1,2) by (auto simp: current_kind_is_iff)
      then show ?thesis using r' enter by (auto simp: restart_if_collected_def split: if_splits)
    qed
  qed
qed

lemma stems_record_new_head: "stems E st (record_new_head h p st)"
  by (rule stemsI) auto

lemma stems_carry:
  "stems {(new, ap)} st (record_new_head new p (carry_approvals old ap new st))"
  unfolding stems_def by (auto simp: record_from_def)

text \<open>A clean rebase of the main branch with the patch that was approved.\<close>

fun clean_rebase :: "PendingHeadChange \<Rightarrow> (string \<times> string) set" where
  "clean_rebase (PendingHeadChange.MainAdvanced h p False) = {(h, p)}"
| "clean_rebase _ = {}"

lemma rebase_to_work_follows:
  assumes live: "live st" and room: "budget (Suc K) st"
    and r: "rebase_to_work h p conflict st = Inr (st', acts)"
  shows "follows_on E st st'"
proof -
  note d = liveD [OF live] and rr = state_inv_runningD [OF liveD(2,3) [OF live]]
  define st1 where "st1 = (if \<not> conflict then record_new_head h p st else invalidate_head_bound st)"
  have st1: "workflow st1 = workflow st" "attempts st1 = attempts st" "stage_index st1 = stage_index st"
    by (simp_all add: st1_def)
  have s: "stems E st st1" by (rule stemsI) (auto simp: st1_def)
  have room1: "budget (Suc K) st1" using room st1(2) by (simp add: budget_def)
  have len: "length (attempts st1) = length (stages st1)" using base_invD(1) [OF rr(8)] st1 by simp
  have "restarts st1 st'"
  proof (cases "previous_work st1 (stage_index st)")
    case None
    then have "st' = clear_partial (st1\<lparr>status := PipelineStatus.Failed\<rparr>)"
      using r rr(1) st1(1) by (simp add: rebase_to_work_def Let_def st1_def [symmetric] fail_task_def)
    then show ?thesis by (simp add: stopped_restarts)
  next
    case (Some t)
    then have "return_to_work t (rebase_reason conflict) st1 = Inr (st', acts)"
      using r by (simp add: rebase_to_work_def Let_def st1_def [symmetric])
    then show ?thesis using room1 len by (rule return_to_work_restarts)
  qed
  then show ?thesis using restarts_after [OF s st1(2)] by (simp add: follows_on_def fresh_def)
qed

lemma main_advanced_cases:
  assumes "main_advanced h p conflict st = Inr (st', acts)" and i: "stage_index st < length (stages st)"
  obtains (stay) "st' = st" "acts = []"
    | (moved) "recheck_for_new_head (record_new_head h p st) = Inr (st', acts)"
    | (kept) old where "current_head st = Some old" "\<not> conflict"
        "recheck_for_new_head (record_new_head h p (carry_approvals old p h st)) = Inr (st', acts)"
    | (work) "rebase_to_work h p conflict st = Inr (st', acts)"
proof -
  let ?w = "stages st ! stage_index st"
  consider (idle) "branch st = None \<or> (\<not> conflict \<and> current_head st = Some h)
      \<or> stage_kind ?w \<in> {StageKind.Work, StageKind.Submit}"
    | (no_head) "current_head st = None" | (no_patch) old where "current_head st = Some old" "approved_patch_of st old = None"
    | (patch) old ap where "current_head st = Some old" "approved_patch_of st old = Some ap"
      "branch st \<noteq> None" "\<not> (\<not> conflict \<and> current_head st = Some h)"
      "stage_kind ?w \<notin> {StageKind.Work, StageKind.Submit}"
    by (cases "current_head st") blast+
  then show thesis
  proof cases
    case idle
    then have "st' = st \<and> acts = [] \<or> recheck_for_new_head (record_new_head h p st) = Inr (st', acts)"
      using assms by (auto simp: main_advanced_def split: if_splits)
    then show ?thesis using that(1,2) by blast
  next
    case no_head
    then have "st' = st \<and> acts = [] \<or> recheck_for_new_head (record_new_head h p st) = Inr (st', acts)"
      using assms by (auto simp: main_advanced_def split: if_splits)
    then show ?thesis using that(1,2) by blast
  next
    case (no_patch old)
    then have "st' = st \<and> acts = [] \<or> recheck_for_new_head (record_new_head h p st) = Inr (st', acts)"
      using assms by (auto simp: main_advanced_def split: if_splits)
    then show ?thesis using that(1,2) by blast
  next
    case (patch old ap)
    let ?o = "\<lparr>ro_conflict = conflict, ro_rebased_head = Some h, ro_previous_patch_id = ap,
                ro_rebased_patch_id = (if \<not> conflict then Some p else None)\<rparr>"
    show ?thesis
    proof (cases "approval_after_rebase ?o")
      case (Keep n)
      then have "\<not> conflict" "p = ap" "n = h" by (auto simp: approval_after_rebase_Keep split: if_splits)
      then show ?thesis using assms patch Keep that(3) by (simp add: main_advanced_def)
    next
      case ReturnToWork
      then show ?thesis using assms patch that(4) by (cases conflict) (auto simp: main_advanced_def)
    qed
  qed
qed

lemma main_advanced_follows:
  assumes live: "live st" and room: "budget (Suc K) st"
    and r: "main_advanced h p conflict st = Inr (st', acts)"
  shows "follows_on (clean_rebase (PendingHeadChange.MainAdvanced h p conflict)) st st'"
proof -
  note rr = state_inv_runningD [OF liveD(2,3) [OF live]]
  from r rr(1) show ?thesis
  proof (cases rule: main_advanced_cases)
    case stay
    then show ?thesis by simp
  next
    case moved
    show ?thesis
      by (rule recheck_follows [OF live head_moved_record_new_head [OF rr(8)] stems_record_new_head _ room moved]) simp
  next
    case (kept old)
    show ?thesis
      by (rule recheck_follows [OF live head_moved_carry [OF rr(8) kept(1)] _ _ room kept(3)])
        (use stems_carry kept(2) in auto)
  next
    case work
    then show ?thesis by (rule rebase_to_work_follows [OF live room])
  qed
qed

lemma apply_head_change_follows:
  assumes good: "good_entry (Suc K) wfl st" and wf: "well_formed wfl"
    and r: "apply_head_change c st = Inr (st', acts)"
  shows "follows_on (clean_rebase c) st st'"
proof (cases "status st = PipelineStatus.Running")
  case False
  then show ?thesis using r by (cases c) auto
next
  case True
  have live: "live st" by (rule good_entry_live [OF good wf True])
  have room: "budget (Suc K) st" using good by (simp add: good_entry_def)
  note rr = state_inv_runningD [OF liveD(2,3) [OF live]]
  show ?thesis
  proof (cases c)
    case (CommitCreated h p)
    show ?thesis
    proof (cases "current_head st = Some h")
      case True
      then show ?thesis using r CommitCreated \<open>status st = _\<close> by auto
    next
      case False
      then have e: "recheck_for_new_head (record_new_head h p st) = Inr (st', acts)"
        using r CommitCreated True by simp
      show ?thesis
        by (rule recheck_follows [OF live head_moved_record_new_head [OF rr(8)] stems_record_new_head _ room e])
          simp
    qed
  next
    case (MainAdvanced h p conflict)
    then show ?thesis using r True main_advanced_follows [OF live room] by simp
  qed
qed

lemma apply_pending_follows:
  assumes "good_entry (length cs + K) wfl st" and "well_formed wfl"
    and "apply_pending cs acts0 st = Inr (st', acts)"
  shows "follows_on (\<Union>c \<in> set cs. clean_rebase c) st st'"
  using assms
proof (induction cs arbitrary: acts0 st)
  case Nil
  then show ?case by simp
next
  case (Cons c cs)
  from Cons.prems(3) obtain st1 acts1 where st1: "apply_head_change c st = Inr (st1, acts1)"
    and rest: "apply_pending cs (if acts1 \<noteq> [] then acts1 else acts0) st1 = Inr (st', acts)"
    by (auto simp: result_split)
  have good: "good_entry (Suc (length cs + K)) wfl st" using Cons.prems(1) by simp
  have "good_entry (length cs + K) wfl st1"
    using apply_head_change_ok [OF good Cons.prems(2), of c] st1 by simp
  from Cons.IH [OF this Cons.prems(2) rest] apply_head_change_follows [OF good Cons.prems(2) st1]
  have "follows_on (\<Union>c \<in> set cs. clean_rebase c) st1 st'" "follows_on (clean_rebase c) st st1" by simp_all
  then have "follows_on (\<Union>c \<in> set (c # cs). clean_rebase c) st1 st'"
    "follows_on (\<Union>c \<in> set (c # cs). clean_rebase c) st st1"
    unfolding follows_on_def using stems_mono by auto
  then show ?case using follows_on_trans by blast
qed

lemma merge_failed_follows:
  assumes wf: "well_formed (workflow st)" and inv: "state_inv st" and flight: "merge_in_flight st"
    and room: "budget (Suc K + length (pending_head_changes st)) st"
    and r: "merge_failed st = Inr (st', acts)"
  shows "stems (\<Union>c \<in> set (pending_head_changes st). clean_rebase c) st st'" "fresh st st'"
proof -
  let ?cs = "pending_head_changes st"
  let ?E = "\<Union>c \<in> set ?cs. clean_rebase c"
  let ?st0 = "st\<lparr>pending_head_changes := []\<rparr>"
  have run: "status st = PipelineStatus.Running" using flight by (simp add: merge_in_flight_iff)
  have good: "good_entry (length ?cs + Suc K) (workflow st) ?st0"
    using pending_cleared [OF inv run] room by (simp add: good_entry_def budget_def add.commute)
  from r obtain st1 acts1 where st1: "apply_pending ?cs [] ?st0 = Inr (st1, acts1)"
    and rest: "(if merge_in_flight st1 then
           and_then (ok_or (recheck_target st1 (stage_index st1)) (Rejected MergeGateClosed)) (\<lambda>target.
           and_then (enter_stage target st1) (\<lambda>(st2, acts2). Inr (st2, acts1 @ acts2)))
         else Inr (st1, acts1)) = Inr (st', acts)"
    by (auto simp: merge_failed_def result_split)
  have good1: "good_entry (Suc K) (workflow st) st1"
    using apply_pending_ok [OF good wf, of "[]"] st1 by simp
  have f: "follows_on ?E ?st0 st1" by (rule apply_pending_follows [OF good wf st1])
  have "follows_on ?E st ?st0" unfolding follows_on_def by (intro conjI stemsI ticks_quiet) (use run in auto)
  with f have f1: "follows_on ?E st st1" using follows_on_trans by blast
  show "stems ?E st st'" "fresh st st'"
  proof -
    have "stems ?E st st' \<and> fresh st st'"
    proof (cases "merge_in_flight st1")
      case True
      then obtain t acts2 where e: "enter_stage t st1 = Inr (st', acts2)" and t: "recheck_target st1 (stage_index st1) = Some t"
        using rest by (auto simp: result_split)
      have live: "live st1" using True good1 wf by (auto simp: merge_in_flight_iff intro: good_entry_live)
      note rr = state_inv_runningD [OF liveD(2,3) [OF live]]
      have "t < length (stages st1)" using recheck_target_Some(1) [OF liveD(1) [OF live] t] rr(1) by simp
      then have "restarts st1 st'"
        using good1 base_invD(1) [OF rr(8)] by (intro enter_restarts [OF e, of K]) (simp_all add: good_entry_def)
      then show ?thesis
        using f1 fresh_right stems_trans stems_mono unfolding follows_on_def restarts_def by blast
    next
      case False
      then have eq: "st' = st1" using rest by simp
      have "\<not> same_at st st'"
      proof
        assume s: "same_at st st'"
        then have "stage_index st = stage_index st1" "status st1 = PipelineStatus.Running"
          using f1 eq by (auto simp: follows_on_def ticks_def same_at_def)
        then show False using flight False f1 by (simp add: merge_in_flight_iff follows_on_def stems_def)
      qed
      then show ?thesis using f1 eq by (simp add: follows_on_def fresh_def)
    qed
    then show "stems ?E st st'" "fresh st st'" by simp_all
  qed
qed

section \<open>Events\<close>

text \<open>\<open>answered st mid st'\<close>: the event records its result in \<open>mid\<close>, then the machine goes on.\<close>

definition answered :: "PipelineState \<Rightarrow> PipelineState \<Rightarrow> PipelineState \<Rightarrow> bool" where
  "answered st mid st' \<longleftrightarrow> stems {} mid st' \<and> fresh st st'"

lemma answered_enter:
  assumes "enter_stage i mid = Inr (st', acts)" and "attempts mid = attempts st"
    and "workflow mid = workflow st" and "approval_reviewers mid = []"
    and "budget (Suc K) st" and "length (attempts st) = length (stages st)"
  shows "answered st mid st'"
proof -
  have "restarts mid st'"
    by (rule enter_restarts [OF assms(1)]) (use assms in \<open>auto simp: budget_def\<close>)
  then show ?thesis
    using fresh_shift [of mid st' st] assms(2) by (simp add: restarts_def answered_def)
qed

lemma answered_stems: "answered st mid st' \<Longrightarrow> stems {} st mid \<Longrightarrow> answered st st st'"
  unfolding answered_def using stems_trans by blast

lemma restarts_answered: "restarts st st' \<Longrightarrow> answered st st st'"
  by (simp add: restarts_def answered_def)

lemma live_len: "live st \<Longrightarrow> length (attempts st) = length (stages st)"
  using base_invD(1) state_inv_runningD(8) liveD(2,3) by blast

lemma live_reviewers:
  "live st \<Longrightarrow> stage_kind (stages st ! stage_index st) \<noteq> StageKind.Approval \<Longrightarrow> approval_reviewers st = []"
  using reviewers_none state_inv_runningD(9) liveD(2,3) by blast

lemma work_answered:
  assumes live: "live st" and room: "budget (Suc K) st" and r: "on_work_completed product st = Inr (st', acts)"
  shows "answered st st st'"
proof -
  have i: "stage_index st < length (stages st)" by (rule state_inv_runningD(1) [OF liveD(2,3) [OF live]])
  from r i obtain role ins out where w: "ws_stage (stages st ! stage_index st) = Stage.Work role ins out"
    and e: "enter_stage (Suc (stage_index st)) (with_product product st) = Inr (st', acts)"
    by (cases "ws_stage (stages st ! stage_index st)")
      (auto simp: on_work_completed_def with_product_def split: if_splits)
  have rev: "approval_reviewers st = []" using live_reviewers [OF live] w by simp
  have "approval_reviewers (with_product product st) = []"
    and "stems {} st (with_product product st)"
    using rev by (cases product; auto simp: with_product_def intro!: stemsI)+
  with e room live_len [OF live] show ?thesis
    by (intro answered_stems [OF answered_enter [OF e]]) simp_all
qed

lemma submitted_answered:
  assumes live: "live st" and room: "budget (Suc K) st" and r: "on_submitted cid st = Inr (st', acts)"
  shows "answered st st st'"
proof -
  from r have k: "stage_kind (stages st ! stage_index st) = StageKind.Submit"
    and e: "enter_stage (Suc (stage_index st)) (st\<lparr>change_id := cid\<rparr>) = Inr (st', acts)"
    by (auto simp: on_submitted_def ensure_current_stage_live [OF live] split: if_splits)
  have "answered st (st\<lparr>change_id := cid\<rparr>) st'"
    using live_reviewers [OF live] k room live_len [OF live] by (intro answered_enter [OF e]) simp_all
  then show ?thesis by (rule answered_stems) (auto intro!: stemsI)
qed

lemma command_answered:
  assumes live: "live st" and room: "budget (Suc K) st"
    and r: "on_command_finished sid h code st = Inr (st', acts)"
  shows "answered st (if code = Some 0 then push_check sid h st else st) st'"
proof (cases "code = Some 0")
  case True
  with r have k: "stage_kind (stages st ! stage_index st) = StageKind.Command"
    and e: "enter_stage (Suc (stage_index st)) (push_check sid h st) = Inr (st', acts)"
    by (auto simp: on_command_finished_def ensure_current_stage_live [OF live] split: if_splits)
  have "answered st (push_check sid h st) st'"
    using live_reviewers [OF live] k room live_len [OF live] by (intro answered_enter [OF e]) simp_all
  with True show ?thesis by simp
next
  case False
  with r have "fail_stage (stage_index st) (command_failure_reason sid code) st = Inr (st', acts)"
    by (auto simp: on_command_finished_def ensure_current_stage_live [OF live] split: if_splits)
  from fail_stage_restarts [OF this room live_len [OF live]] False show ?thesis
    by (simp add: restarts_answered)
qed

text \<open>The state after one more approval, before a complete stage is recorded.\<close>

definition counted :: "string option \<Rightarrow> string \<Rightarrow> PipelineState \<Rightarrow> PipelineState" where
  "counted pick reviewer st =
     st\<lparr>pending_pick := pick, approval_reviewers := approval_reviewers st @ [reviewer]\<rparr>"

lemma approval_answered:
  assumes live: "live st" and room: "budget (Suc K) st"
    and r: "on_approval_granted sid reviewer h selected st = Inr (st', acts)"
  obtains (partial) pick "by" count bd where
      "ws_stage (stages st ! stage_index st) = Stage.Approval by count bd"
      "reviewer \<notin> set (approval_reviewers st)" "st' = counted pick reviewer st"
  | (complete) pick "by" count bd where
      "ws_stage (stages st ! stage_index st) = Stage.Approval by count bd"
      "reviewer \<notin> set (approval_reviewers st)"
      "answered st (record_approval sid bd h (counted pick reviewer st)) st'"
proof -
  from r obtain "by" count bd where w: "ws_stage (stages st ! stage_index st) = Stage.Approval by count bd"
    by (cases "ws_stage (stages st ! stage_index st)")
      (auto simp: on_approval_granted_def ensure_approval_live [OF live])
  have ca: "current_approval st = Inr (bd, count)" using ensure_approval_live [OF live] w by simp
  from r have new: "reviewer \<notin> set (approval_reviewers st)"
    by (auto simp: on_approval_granted_def ca split: if_splits)
  from r new obtain st1 where st1: "tentative_pick selected st = Inr st1"
    by (cases "tentative_pick selected st") (auto simp: on_approval_granted_def ca)
  obtain pick where pick: "st1 = st\<lparr>pending_pick := pick\<rparr>" using st1 by (rule tentative_pick_Inr)
  let ?c = "counted pick reviewer st"
  have "on_approval_granted sid reviewer h selected st =
      (if length (approval_reviewers st) + 1 < unat count then Inr (?c, [])
       else and_then (settle_pick (record_approval sid bd h ?c)) (\<lambda>(st3, acts).
         and_then (enter_stage (Suc (stage_index st)) st3) (\<lambda>(st4, acts2). Inr (st4, acts @ acts2))))"
    using new st1 by (simp add: on_approval_granted_def ca Let_def pick counted_def)
  note eq = this [symmetric, unfolded r]
  show thesis
  proof (cases "length (approval_reviewers st) + 1 < unat count")
    case True
    then show thesis using partial [OF w new, of pick] eq by simp
  next
    case False
    with eq obtain st3 a3 a4 where s: "settle_pick (record_approval sid bd h ?c) = Inr (st3, a3)"
      and e: "enter_stage (Suc (stage_index st)) st3 = Inr (st', a4)"
      by (auto simp: result_split)
    note f = settle_pick_Inr [OF s]
    have rec: "attempts st3 = attempts st" "workflow st3 = workflow st" "approval_reviewers st3 = []"
      using f by (simp_all add: counted_def record_approval_def)
    have "answered st st3 st'" using rec room live_len [OF live] by (intro answered_enter [OF e]) simp_all
    moreover have "stems {} (record_approval sid bd h ?c) st3" using f by (intro stemsI) simp_all
    ultimately have "answered st (record_approval sid bd h ?c) st'"
      unfolding answered_def using stems_trans by blast
    then show thesis by (rule complete [OF w new])
  qed
qed

lemma fanout_answered:
  assumes live: "live st" and room: "budget (Suc K) st"
    and r: "on_fanout_completed children selected st = Inr (st', acts)"
  shows "answered st st st'"
proof -
  have i: "stage_index st < length (stages st)" by (rule state_inv_runningD(1) [OF liveD(2,3) [OF live]])
  let ?st = "st\<lparr>selected_fanout_child := None, fanout_child_task_ids := children\<rparr>"
  from r i obtain src join st1 a1 a2 where w: "ws_stage (stages st ! stage_index st) = Stage.Fanout src join"
    and j: "join_children join selected ?st = Inr (st1, a1)"
    and e: "enter_stage (Suc (stage_index st)) st1 = Inr (st', a2)"
    by (cases "ws_stage (stages st ! stage_index st)")
      (auto simp: on_fanout_completed_def ensure_current_stage_live [OF live] result_split split: if_splits)
  note f = join_children_Inr [OF j]
  have "answered st st1 st'"
    using f room live_len [OF live] live_reviewers [OF live] w by (intro answered_enter [OF e]) simp_all
  then show ?thesis by (rule answered_stems) (use f in \<open>auto intro!: stemsI\<close>)
qed

lemma timeout_answered:
  assumes live: "live st" and room: "budget (Suc K) st" and r: "on_stage_timed_out sid st = Inr (st', acts)"
  shows "answered st st st'
    \<or> (st' = st\<lparr>notified_timeout := Some (stage_index st, attempt st)\<rparr>
        \<and> effective_timeout_action (stages st ! stage_index st) = Notify)"
proof -
  have i: "stage_index st < length (stages st)" by (rule state_inv_runningD(1) [OF liveD(2,3) [OF live]])
  show ?thesis
  proof (cases "effective_timeout_action (stages st ! stage_index st)")
    case Notify
    then show ?thesis using r i by (auto simp: on_stage_timed_out_def Let_def split: if_splits)
  next
    case Reassign
    then obtain a where "enter_stage (stage_index st) st = Inr (st', a)"
      using r i by (auto simp: on_stage_timed_out_def result_split)
    from enter_restarts [OF this room live_len [OF live]] i show ?thesis by (simp add: restarts_answered)
  next
    case Cancel
    then have "st' = clear_partial (st\<lparr>status := PipelineStatus.Cancelled\<rparr>)"
      using r i by (simp add: on_stage_timed_out_def cancel_def)
    then show ?thesis using stopped_restarts [of PipelineStatus.Cancelled st] by (simp add: restarts_answered)
  qed
qed

fun event_of :: "PendingHeadChange \<Rightarrow> PipelineEvent" where
  "event_of (PendingHeadChange.CommitCreated h p) = PipelineEvent.CommitCreated h p"
| "event_of (PendingHeadChange.MainAdvanced h p conflict) = PipelineEvent.MainAdvanced h p conflict"

lemma commit_accepted:
  assumes wf: "well_formed (workflow st)" and inv: "state_inv st"
    and room: "budget (Suc K + length (pending_head_changes st)) st"
    and r: "on_commit_created h p st = Inr (st', acts)"
  shows "follows_on {} st st'
    \<or> (merge_in_flight st \<and> (\<exists>cs. st' = st\<lparr>pending_head_changes := cs\<rparr>
         \<and> set cs \<subseteq> insert (PendingHeadChange.CommitCreated h p) (set (pending_head_changes st))))"
proof -
  from r have run: "status st = PipelineStatus.Running"
    by (auto simp: on_commit_created_def result_split)
  show ?thesis
  proof (cases "merge_in_flight st")
    case True
    then show ?thesis
      using r by (auto simp: on_commit_created_def result_split split: if_splits)
  next
    case False
    have live: "live st" by (rule live_of_running [OF wf inv run False])
    have good: "good_entry (Suc K) (workflow st) st" using live room by (simp add: live_def good_entry_def)
    from r False have "st' = st \<or> apply_head_change (PendingHeadChange.CommitCreated h p) st = Inr (st', acts)"
      by (auto simp: on_commit_created_def result_split simp del: apply_head_change.simps split: if_splits)
    then show ?thesis using apply_head_change_follows [OF good wf] by fastforce
  qed
qed

lemma main_accepted:
  assumes wf: "well_formed (workflow st)" and inv: "state_inv st"
    and room: "budget (Suc K + length (pending_head_changes st)) st"
    and r: "on_main_advanced h p conflict st = Inr (st', acts)"
  shows "follows_on (clean_rebase (PendingHeadChange.MainAdvanced h p conflict)) st st'
    \<or> (merge_in_flight st \<and> (\<exists>cs. st' = st\<lparr>pending_head_changes := cs\<rparr>
         \<and> set cs \<subseteq> insert (PendingHeadChange.MainAdvanced h p conflict) (set (pending_head_changes st))))"
proof -
  from r have run: "status st = PipelineStatus.Running"
    by (auto simp: on_main_advanced_def result_split)
  show ?thesis
  proof (cases "merge_in_flight st")
    case True
    then show ?thesis using r by (auto simp: on_main_advanced_def result_split split: if_splits)
  next
    case False
    have live: "live st" by (rule live_of_running [OF wf inv run False])
    have good: "good_entry (Suc K) (workflow st) st" using live room by (simp add: live_def good_entry_def)
    from r False have "apply_head_change (PendingHeadChange.MainAdvanced h p conflict) st = Inr (st', acts)"
      by (auto simp: on_main_advanced_def result_split simp del: apply_head_change.simps split: if_splits)
    then show ?thesis using apply_head_change_follows [OF good wf] by blast
  qed
qed

text \<open>What an accepted event does to the records and to the tickets.\<close>

lemma accepted_cases:
  assumes wf: "well_formed (workflow st)" and inv: "state_inv st" and ev: "event_ok ev"
    and room: "budget (Suc K + length (pending_head_changes st)) st"
    and r: "step st ev = Inr (st', acts)"
  obtains (restart) "answered st st st'"
  | (check) sid a h where "ev = CommandFinished sid a h (Some 0)" "answered st (push_check sid h st) st'"
  | (counted) sid a reviewer h selected pick "by" count bd where
      "ev = ApprovalGranted sid a reviewer h selected"
      "ws_stage (stages st ! stage_index st) = Stage.Approval by count bd"
      "live st" "st' = counted pick reviewer st"
  | (approved) sid a reviewer h selected pick "by" count bd where
      "ev = ApprovalGranted sid a reviewer h selected"
      "ws_stage (stages st ! stage_index st) = Stage.Approval by count bd"
      "answered st (record_approval sid bd h (counted pick reviewer st)) st'"
  | (notified) sid a where "ev = StageTimedOut sid a" "live st"
      "st' = st\<lparr>notified_timeout := Some (stage_index st, attempt st)\<rparr>"
      "effective_timeout_action (stages st ! stage_index st) = Notify"
  | (head) c where "ev = event_of c" "follows_on (clean_rebase c) st st'"
  | (pending) c cs where "ev = event_of c" "merge_in_flight st"
      "st' = st\<lparr>pending_head_changes := cs\<rparr>" "set cs \<subseteq> insert c (set (pending_head_changes st))"
  | (reported) "stems (\<Union>c \<in> set (pending_head_changes st). clean_rebase c) st st'" "fresh st st'"
proof -
  from r have h: "handle_event st ev = Inr (st', acts)"
    and fl: "merge_in_flight st \<Longrightarrow> allowed_in_flight ev"
    and id: "\<And>i. identity ev = Some i \<Longrightarrow> check_identity st i = Inr ()"
    by (auto elim: step_InrE)
  have run: "status st = PipelineStatus.Running" if "identity ev \<noteq> None"
    using id that by (auto simp: result_split)
  have live: "live st" if "identity ev \<noteq> None" "\<not> allowed_in_flight ev"
    using live_of_running [OF wf inv run [OF that(1)]] fl that(2) by blast
  have room1: "budget (Suc K) st" using budget_mono [OF room, of "Suc K"] by simp
  have len: "length (attempts st) = length (stages st)"
    using inv by (auto simp: state_inv_def dest: base_invD(1))
  show thesis
  proof (cases ev)
    case Start
    let ?s = "st\<lparr>status := PipelineStatus.Running\<rparr>"
    from h Start have p: "status st = PipelineStatus.Pending" and e: "enter_stage 0 ?s = Inr (st', acts)"
      by (auto simp: on_start_def split: if_splits)
    have "approval_reviewers st = []" using inv p by (auto simp: state_inv_def partial_ok_def)
    then have "answered st ?s st'" using room1 len by (intro answered_enter [OF e]) simp_all
    then show ?thesis by (intro restart answered_stems [of st ?s]) (auto intro!: stemsI)
  next
    case (WorkCompleted sid a product)
    then show ?thesis using h live room1 by (intro restart work_answered) auto
  next
    case (Submitted sid a cid)
    then show ?thesis using h live room1 by (intro restart submitted_answered) auto
  next
    case (CommandFinished sid a hd code)
    then have "answered st (if code = Some 0 then push_check sid hd st else st) st'"
      using h live room1 by (intro command_answered) auto
    then show ?thesis using restart check CommandFinished by (cases "code = Some 0") auto
  next
    case (ApprovalGranted sid a reviewer hd selected)
    then have l: "live st" and g: "on_approval_granted sid reviewer hd selected st = Inr (st', acts)"
      using h live by auto
    from l room1 g show ?thesis
    proof (cases rule: approval_answered)
      case partial
      then show ?thesis using counted [OF ApprovalGranted _ l] by blast
    next
      case complete
      then show ?thesis using approved [OF ApprovalGranted] by blast
    qed
  next
    case (ChangesRequested sid a reviewer hd reason)
    then have l: "live st" and g: "on_changes_requested reviewer reason st = Inr (st', acts)"
      using h live by auto
    from g obtain x where "fail_stage (stage_index st) x st = Inr (st', acts)"
      by (auto simp: on_changes_requested_def result_split)
    from fail_stage_restarts [OF this room1 len] show ?thesis by (intro restart restarts_answered)
  next
    case (CommitCreated hd p)
    then have "on_commit_created hd p st = Inr (st', acts)" using h by simp
    from commit_accepted [OF wf inv room this] show ?thesis
      using head [of "PendingHeadChange.CommitCreated hd p"] pending [of "PendingHeadChange.CommitCreated hd p"]
        CommitCreated by auto
  next
    case (MainAdvanced hd p conflict)
    then have "on_main_advanced hd p conflict st = Inr (st', acts)" using h by simp
    from main_accepted [OF wf inv room this] show ?thesis
      using head [of "PendingHeadChange.MainAdvanced hd p conflict"]
        pending [of "PendingHeadChange.MainAdvanced hd p conflict"] MainAdvanced by auto
  next
    case (FanoutCompleted sid a children selected)
    then show ?thesis using h live room1 by (intro restart fanout_answered) auto
  next
    case (StageFailed sid a reason)
    then have "fail_stage (stage_index st) reason st = Inr (st', acts)" using h by simp
    from fail_stage_restarts [OF this room1 len] show ?thesis by (intro restart restarts_answered)
  next
    case (StageTimedOut sid a)
    then have l: "live st" and g: "on_stage_timed_out sid st = Inr (st', acts)" using h live by auto
    from timeout_answered [OF l room1 g] show ?thesis using restart notified [OF StageTimedOut l] by blast
  next
    case (Cancel reason)
    then have "st' = clear_partial (st\<lparr>status := PipelineStatus.Cancelled\<rparr>)"
      using h by (auto simp: on_cancel_def cancel_def result_split split: PipelineStatus.splits)
    then show ?thesis
      using stopped_restarts [of PipelineStatus.Cancelled st] by (intro restart restarts_answered) simp
  next
    case (MergeCompleted sid a hd commit)
    then have "st' = st\<lparr>merge_commit := Some commit, pending_head_changes := [], status := PipelineStatus.Done\<rparr>"
      using h by (auto simp: on_merge_completed_def result_split split: if_splits)
    then have "answered st st st'"
      unfolding answered_def by (intro conjI stemsI fresh_stopped) auto
    then show ?thesis by (rule restart)
  next
    case (MergeFailed sid a hd reason)
    then have g: "merge_failed st = Inr (st', acts)" and flight: "merge_in_flight st"
      using h by (auto simp: on_merge_failed_def result_split merge_in_flight_iff)
    show ?thesis using merge_failed_follows [OF wf inv flight room g] by (rule reported)
  qed
qed

section \<open>History of the records\<close>

definition rebases :: "PipelineEvent list \<Rightarrow> (string \<times> string) set" where
  "rebases evs = {(h, p). PipelineEvent.MainAdvanced h p False \<in> set evs}"

definition granted :: "PipelineEvent list \<Rightarrow> ApprovalRecord \<Rightarrow> string \<Rightarrow> bool" where
  "granted evs a r \<longleftrightarrow>
     (\<exists>att h selected. ApprovalGranted (ar_stage_id a) att r h selected \<in> set evs
        \<and> (ar_head a \<noteq> None \<longrightarrow>
             h = ar_head a \<or> (\<exists>x p. ar_head a = Some x \<and> ar_patch_id a = Some p \<and> (x, p) \<in> rebases evs)))"

definition partial_granted :: "PipelineEvent list \<Rightarrow> PipelineState \<Rightarrow> string \<Rightarrow> bool" where
  "partial_granted evs st r \<longleftrightarrow>
     (\<exists>att h selected. ApprovalGranted (ws_id (stages st ! stage_index st)) att r h selected \<in> set evs
        \<and> (needs_head (stages st ! stage_index st) \<longrightarrow> h = current_head st))"

definition hist_inv :: "PipelineEvent list \<Rightarrow> PipelineState \<Rightarrow> bool" where
  "hist_inv evs st \<longleftrightarrow>
     (\<forall>c \<in> set (passed_checks st). \<exists>a. CommandFinished (pc_stage_id c) a (pc_head c) (Some 0) \<in> set evs)
     \<and> (\<forall>a \<in> set (approvals st). \<forall>r \<in> set (ar_reviewers a). granted evs a r)
     \<and> (\<forall>r \<in> set (approval_reviewers st). partial_granted evs st r)
     \<and> (\<forall>c \<in> set (pending_head_changes st). event_of c \<in> set evs)"

lemma granted_from:
  assumes "granted evs a r" and "record_from E a b" and "E \<subseteq> rebases evs'" and "set evs \<subseteq> set evs'"
  shows "granted evs' b r"
proof -
  from assms(1) obtain att h sel where g: "ApprovalGranted (ar_stage_id a) att r h sel \<in> set evs"
    "ar_head a \<noteq> None \<longrightarrow>
       h = ar_head a \<or> (\<exists>x p. ar_head a = Some x \<and> ar_patch_id a = Some p \<and> (x, p) \<in> rebases evs)"
    unfolding granted_def by blast
  have sub: "rebases evs \<subseteq> rebases evs'" using assms(4) by (auto simp: rebases_def)
  have b: "ar_stage_id b = ar_stage_id a" "ar_patch_id b = ar_patch_id a"
    using assms(2) by (simp_all add: record_from_def)
  have "ar_head b \<noteq> None \<longrightarrow>
      h = ar_head b \<or> (\<exists>x p. ar_head b = Some x \<and> ar_patch_id b = Some p \<and> (x, p) \<in> rebases evs')"
  proof (cases "ar_head b = ar_head a")
    case True
    then show ?thesis using g(2) sub b(2) by auto
  next
    case False
    then show ?thesis using assms(2,3) b(2) unfolding record_from_def by auto
  qed
  then show ?thesis unfolding granted_def using g(1) assms(4) b(1) by auto
qed

lemma hist_stems:
  assumes h: "hist_inv evs st" and s: "stems E st st'" and E: "E \<subseteq> rebases evs'"
    and sub: "set evs \<subseteq> set evs'"
  shows "hist_inv evs' st'"
proof -
  have "\<exists>a. CommandFinished (pc_stage_id c) a (pc_head c) (Some 0) \<in> set evs'"
    if "c \<in> set (passed_checks st')" for c
    using h s sub that unfolding hist_inv_def stems_def by blast
  moreover have "granted evs' b r" if "b \<in> set (approvals st')" "r \<in> set (ar_reviewers b)" for b r
  proof -
    from s that(1) obtain a where a: "a \<in> set (approvals st)" "record_from E a b"
      unfolding stems_def by blast
    have "granted evs a r" using h a that(2) by (auto simp: hist_inv_def record_from_def)
    then show ?thesis by (rule granted_from [OF _ a(2) E sub])
  qed
  moreover have "partial_granted evs' st' r" if "r \<in> set (approval_reviewers st')" for r
  proof -
    have eq: "approval_reviewers st' = approval_reviewers st" "stage_index st' = stage_index st"
      "current_head st' = current_head st" "workflow st' = workflow st"
      using s that unfolding stems_def by auto
    have "partial_granted evs st r" using h that eq(1) by (simp add: hist_inv_def)
    then show ?thesis unfolding partial_granted_def eq(2-4) using sub by blast
  qed
  moreover have "event_of c \<in> set evs'" if "c \<in> set (pending_head_changes st')" for c
    using h s sub that unfolding hist_inv_def stems_def by blast
  ultimately show ?thesis unfolding hist_inv_def by blast
qed

lemma rebases_snoc: "set evs \<subseteq> set (evs @ [ev])"
  by auto

lemma clean_rebase_rebases: "event_of c \<in> set evs \<Longrightarrow> clean_rebase c \<subseteq> rebases evs"
  by (cases c rule: clean_rebase.cases) (auto simp: rebases_def)

lemma hist_check:
  assumes "hist_inv evs st" and "CommandFinished sid a h (Some 0) \<in> set evs"
  shows "hist_inv evs (push_check sid h st)"
  using assms by (auto simp: hist_inv_def push_check_def partial_granted_def)

lemma hist_counted:
  assumes "hist_inv evs st" and "ApprovalGranted (ws_id (stages st ! stage_index st)) a reviewer h selected \<in> set evs"
    and "needs_head (stages st ! stage_index st) \<Longrightarrow> h = current_head st"
  shows "hist_inv evs (counted pick reviewer st)"
  using assms by (auto simp: hist_inv_def counted_def partial_granted_def)

lemma hist_recorded:
  assumes h: "hist_inv evs st" and sid: "sid = ws_id (stages st ! stage_index st)"
    and w: "ws_stage (stages st ! stage_index st) = Stage.Approval by count bd"
    and head: "bd \<Longrightarrow> hh = current_head st"
  shows "hist_inv evs (record_approval sid bd hh st)"
proof -
  let ?new = "\<lparr>ar_stage_id = sid, ar_head = (if bd then hh else None),
    ar_patch_id = (if bd then patch_id st else None), ar_reviewers = approval_reviewers st\<rparr>"
  have "granted evs ?new r" if "r \<in> set (approval_reviewers st)" for r
  proof -
    have "partial_granted evs st r" using h that by (simp add: hist_inv_def)
    then show ?thesis
      using sid w head by (auto simp: partial_granted_def granted_def needs_head_def)
  qed
  then show ?thesis using h by (auto simp: hist_inv_def record_approval_def)
qed

lemma step_hist:
  assumes wf: "well_formed (workflow st)" and inv: "state_inv st" and ev: "event_ok ev"
    and room: "budget (Suc K + length (pending_head_changes st)) st"
    and r: "step st ev = Inr (st', acts)" and h: "hist_inv evs st"
  shows "hist_inv (evs @ [ev]) st'"
proof -
  let ?evs = "evs @ [ev]"
  have h': "hist_inv ?evs st" by (rule hist_stems [OF h, of "{}"]) (auto intro!: stemsI)
  have later: "hist_inv ?evs st'" if "hist_inv ?evs mid" "answered st mid st'" for mid
    using that by (auto simp: answered_def intro: hist_stems [OF that(1), of "{}"])
  have ticket: "sid = ws_id (stages st ! stage_index st)"
    "needs_head (stages st ! stage_index st) \<Longrightarrow> hh = current_head st"
    if "ev = ApprovalGranted sid a reviewer hh selected" for sid a reviewer hh selected
    using r that by (auto elim!: step_InrE simp: result_split)
  from wf inv ev room r show ?thesis
  proof (cases rule: accepted_cases)
    case restart
    then show ?thesis by (rule later [OF h'])
  next
    case (check sid a hh)
    have "hist_inv ?evs (push_check sid hh st)" by (rule hist_check [OF h', of _ a]) (simp add: check(1))
    then show ?thesis using check(2) by (rule later)
  next
    case (counted sid a reviewer hh selected pick)
    have "hist_inv ?evs (Pipeline_History.counted pick reviewer st)"
      by (rule hist_counted [OF h', of a reviewer hh selected]) (use ticket [OF counted(1)] counted(1) in auto)
    then show ?thesis using counted by simp
  next
    case (approved sid a reviewer hh selected pick "by" count bd)
    have c: "hist_inv ?evs (Pipeline_History.counted pick reviewer st)"
      by (rule hist_counted [OF h', of a reviewer hh selected]) (use ticket [OF approved(1)] approved(1) in auto)
    have "bd \<Longrightarrow> hh = current_head st"
      using ticket(2) [OF approved(1)] approved(2) by (simp add: needs_head_def)
    then have "hist_inv ?evs (record_approval sid bd hh (Pipeline_History.counted pick reviewer st))"
      using approved(2) ticket(1) [OF approved(1)]
      by (intro hist_recorded [OF c]) (simp_all add: counted_def)
    then show ?thesis using approved(3) by (rule later)
  next
    case notified
    then show ?thesis using h' by (simp add: hist_inv_def partial_granted_def)
  next
    case (head c)
    have "clean_rebase c \<subseteq> rebases ?evs" by (rule clean_rebase_rebases) (simp add: head(1))
    then show ?thesis using head(2) by (auto simp: follows_on_def intro: hist_stems [OF h'])
  next
    case (pending c cs)
    then show ?thesis using h' by (auto simp: hist_inv_def partial_granted_def)
  next
    case reported
    have "clean_rebase c \<subseteq> rebases ?evs" if "c \<in> set (pending_head_changes st)" for c
      using h' that by (intro clean_rebase_rebases) (auto simp: hist_inv_def)
    then show ?thesis using reported(1) by (intro hist_stems [OF h' reported(1)]) auto
  qed
qed

section \<open>Tickets are used once\<close>

text \<open>The answer \<open>ev\<close> can no longer be accepted.\<close>

fun noted :: "PipelineState \<Rightarrow> PipelineEvent \<Rightarrow> bool" where
  "noted st (ApprovalGranted _ _ r _ _) \<longleftrightarrow> r \<in> set (approval_reviewers st)"
| "noted st (StageTimedOut _ a) \<longleftrightarrow>
     notified_timeout st = Some (stage_index st, a)
     \<and> effective_timeout_action (stages st ! stage_index st) = Notify"
| "noted st _ \<longleftrightarrow> False"

definition used :: "nat \<Rightarrow> u32 \<Rightarrow> PipelineEvent \<Rightarrow> PipelineState \<Rightarrow> bool" where
  "used k a ev st \<longleftrightarrow>
     k < length (attempts st) \<and> a \<le> attempts st ! k
     \<and> (status st = PipelineStatus.Running \<and> stage_index st = k \<and> attempts st ! k = a \<longrightarrow> noted st ev)"

lemma noted_keeps:
  assumes "noted st ev" and "set (approval_reviewers st) \<subseteq> set (approval_reviewers st')"
    and "stage_index st' = stage_index st" and "workflow st' = workflow st"
    and "notified_timeout st = Some (stage_index st, a) \<Longrightarrow> notified_timeout st' = notified_timeout st"
    and "\<And>sid b. ev = StageTimedOut sid b \<Longrightarrow> b = a"
  shows "noted st' ev"
  using assms by (cases ev) auto

lemma used_ticks:
  assumes u: "used k a ev st" and t: "ticks st st'" and wfl: "workflow st' = workflow st"
    and to: "\<And>sid b. ev = StageTimedOut sid b \<Longrightarrow> b = a"
  shows "used k a ev st'"
proof -
  have k: "k < length (attempts st)" "a \<le> attempts st ! k" using u by (simp_all add: used_def)
  have "noted st' ev"
    if run: "status st' = PipelineStatus.Running" "stage_index st' = k" "attempts st' ! k = a"
  proof -
    have eq: "attempts st ! k = a" using ticks_mono [OF t k(1)] k(2) run(3) by simp
    then have s: "same_at st st'" using run k(1) by (simp add: same_at_def)
    with t have x: "status st = PipelineStatus.Running" "stage_index st = stage_index st'"
      "set (approval_reviewers st) \<subseteq> set (approval_reviewers st')"
      "notified_timeout st = Some (stage_index st, attempts st ! stage_index st) \<Longrightarrow>
        notified_timeout st' = notified_timeout st"
      by (auto simp: ticks_def)
    have "noted st ev" using u x run eq by (simp add: used_def)
    then show ?thesis using x run(2) eq to wfl by (intro noted_keeps [of st ev st' a]) auto
  qed
  then show ?thesis
    using k ticks_mono [OF t k(1)] ticks_len [OF t] by (auto simp: used_def)
qed

lemma used_rejected:
  assumes u: "used k a ev st" and id: "identity ev = Some i" "id_attempt i = a"
    and wf: "well_formed (workflow st)" and k: "k < length (stages st)" "id_stage_id i = ws_id (stages st ! k)"
    and len: "length (attempts st) = length (stages st)"
  shows "\<exists>e. step st ev = Inl e"
proof (rule ccontr)
  assume "\<not> ?thesis"
  then obtain rs where r: "step st ev = Inr rs" by (cases "step st ev") auto
  then have hd: "handle_event st ev = Inr rs" and c: "check_identity st i = Inr ()"
    using id(1) by (auto elim: step_InrE)
  from c have run: "status st = PipelineStatus.Running" and idx: "stage_index st < length (stages st)"
    and sid: "ws_id (stages st ! stage_index st) = ws_id (stages st ! k)" and att: "attempt st = a"
    using id(2) k(2) by (auto simp: result_split)
  have "stage_index st = k" using same_id [OF wf idx k(1)] sid by simp
  then have "noted st ev" using u run att idx len by (simp add: used_def)
  with hd idx id \<open>stage_index st = k\<close> att show False
    by (cases ev) (auto simp: on_approval_granted_def on_stage_timed_out_def result_split Let_def
        split: if_splits TimeoutAction.splits)
qed

lemma step_ticks:
  assumes wf: "well_formed (workflow st)" and inv: "state_inv st" and ev: "event_ok ev"
    and room: "budget (Suc K + length (pending_head_changes st)) st"
    and r: "step st ev = Inr (st', acts)"
  shows "ticks st st'"
  using wf inv ev room r
proof (cases rule: accepted_cases)
  case (counted sid a reviewer hh selected pick)
  then show ?thesis using liveD(3) by (auto simp: counted_def intro!: ticks_quiet)
next
  case (notified sid a)
  then have run: "status st = PipelineStatus.Running" by (simp add: liveD)
  have "stage_index st < length (attempts st)"
    using state_inv_runningD(1) [OF inv run] live_len [OF notified(2)] by simp
  with notified run show ?thesis by (auto simp: ticks_def same_at_def)
next
  case pending
  then show ?thesis by (auto simp: merge_in_flight_iff intro!: ticks_quiet)
qed (auto simp: answered_def fresh_def follows_on_def)

lemma step_uses:
  assumes wf: "well_formed (workflow st)" and inv: "state_inv st" and ev: "event_ok ev"
    and room: "budget (Suc K + length (pending_head_changes st)) st"
    and r: "step st ev = Inr (st', acts)" and id: "identity ev = Some i"
  shows "used (stage_index st) (id_attempt i) ev st'"
proof -
  from r id have c: "check_identity st i = Inr ()" by (auto elim: step_InrE)
  then have run: "status st = PipelineStatus.Running" and idx: "stage_index st < length (stages st)"
    and att: "attempt st = id_attempt i" by (auto simp: result_split)
  have len: "stage_index st < length (attempts st)"
    using base_invD(1) state_inv_runningD(8) [OF inv run] idx by fastforce
  have t: "ticks st st'" by (rule step_ticks [OF wf inv ev room r])
  have basic: "stage_index st < length (attempts st')" "id_attempt i \<le> attempts st' ! stage_index st"
    using ticks_len [OF t] ticks_mono [OF t len] len att by simp_all
  have fresh: "used (stage_index st) (id_attempt i) ev st'" if "fresh st st'"
    using that basic len att by (auto simp: used_def fresh_def same_at_def)
  from wf inv ev room r show ?thesis
  proof (cases rule: accepted_cases)
    case (counted sid a reviewer hh selected pick)
    then show ?thesis using basic by (simp add: used_def counted_def)
  next
    case (notified sid a)
    then show ?thesis using notified basic att id by (auto simp: used_def)
  next
    case (head c)
    then show ?thesis using id by (cases c) auto
  next
    case (pending c cs)
    then show ?thesis using id by (cases c) auto
  qed (use fresh in \<open>auto simp: answered_def\<close>)
qed

lemma step_task:
  assumes wf: "well_formed (workflow st)" and inv: "state_inv st" and ev: "event_ok ev"
    and room: "budget (Suc K + length (pending_head_changes st)) st"
    and r: "step st ev = Inr (st', acts)"
  shows "task_id st' = task_id st" "workflow st' = workflow st"
proof -
  have "task_id st' = task_id st \<and> workflow st' = workflow st"
    using wf inv ev room r
    by (cases rule: accepted_cases)
      (auto simp: answered_def follows_on_def stems_def counted_def)
  then show "task_id st' = task_id st" "workflow st' = workflow st" by simp_all
qed

end
