(* ===== verification/Pipeline_Safety.thy ===== *)
theory Pipeline_Safety
  imports Pipeline_History
begin

text \<open>
  The properties of the workflow engine, stated over runs: sequences of accepted events from the
  initial state of a workflow that passed \<open>validate\<close>. A rejected event leaves the state alone, so
  these are all the behaviours of the engine. The bound on the length keeps the \<open>u32\<close> attempt
  counters from wrapping around.
\<close>

section \<open>Runs of a validated workflow\<close>

definition run_of :: "string \<Rightarrow> Workflow \<Rightarrow> PipelineEvent list \<Rightarrow> PipelineState \<Rightarrow> bool" where
  "run_of task wfl evs st \<longleftrightarrow>
     accepts step (state_unchecked task wfl) evs st \<and> list_all event_ok evs \<and> length evs < 2 ^ 32 - 2"

lemma run_ofD:
  assumes "run_of task wfl evs st"
  shows "accepts step (state_unchecked task wfl) evs st" "\<forall>e \<in> set evs. event_ok e"
    "length evs < 2 ^ 32 - 2"
  using assms unfolding run_of_def list_all_iff by blast+

lemma run_start:
  assumes "validate wfl team_roles = []" and "run_of task wfl evs st"
  shows "machine_inv (length evs + 1) (state_unchecked task wfl)"
  using run_ofD(3) [OF assms(2)] validate_Nil(1,2) [OF assms(1)] by (intro machine_inv_initial) simp_all

lemma accepts_machine:
  assumes "accepts step s evs st" and "machine_inv (length evs + k) s" and "\<forall>e \<in> set evs. event_ok e"
  shows "machine_inv k st \<and> workflow st = workflow s \<and> task_id st = task_id s"
  using assms
proof (induction arbitrary: k rule: accepts.induct)
  case (accepts_nil s)
  then show ?case by simp
next
  case (accepts_snoc s ins t i u os)
  then have t: "machine_inv (Suc k) t \<and> workflow t = workflow s \<and> task_id t = task_id s"
    using accepts_snoc.IH [of "Suc k"] by simp
  then show ?case
    using step_task [of t i k u os] step_inv [of t i k] accepts_snoc.hyps(2) accepts_snoc.prems(2)
    by (auto simp: machine_inv_def)
qed

lemma run_state:
  assumes "validate wfl team_roles = []" and "run_of task wfl evs st"
  shows "machine_inv 1 st" "workflow st = wfl" "task_id st = task" "well_formed wfl" "state_inv st"
    "budget (1 + length (pending_head_changes st)) st"
proof -
  let ?s = "state_unchecked task wfl"
  have "machine_inv 1 st \<and> workflow st = workflow ?s \<and> task_id st = task_id ?s"
    by (rule accepts_machine [OF run_ofD(1) [OF assms(2)] run_start [OF assms] run_ofD(2) [OF assms(2)]])
  then show "machine_inv 1 st" "workflow st = wfl" "task_id st = task" "state_inv st"
    "budget (1 + length (pending_head_changes st)) st"
    using validate_Nil(1) [OF assms(1)] by (simp_all add: state_unchecked_def machine_inv_def)
  show "well_formed wfl" by (rule validate_Nil(1) [OF assms(1)])
qed

lemma run_hist:
  assumes "accepts step s evs st" and "machine_inv (length evs + k) s" and "\<forall>e \<in> set evs. event_ok e"
    and "hist_inv [] s"
  shows "hist_inv evs st"
  using assms
proof (induction arbitrary: k rule: accepts.induct)
  case (accepts_nil s)
  then show ?case by simp
next
  case (accepts_snoc s ins t i u os)
  have t: "machine_inv (Suc k) t"
    using machine.run_counted [OF accepts_snoc.hyps(1), of "Suc k"] accepts_snoc.prems by simp
  have "hist_inv ins t" using accepts_snoc.IH [of "Suc k"] accepts_snoc.prems by simp
  then show ?case
    using step_hist [of t i k u os ins] t accepts_snoc.hyps(2) accepts_snoc.prems(2)
    by (simp add: machine_inv_def)
qed

lemma run_history:
  assumes "validate wfl team_roles = []" and "run_of task wfl evs st"
  shows "hist_inv evs st"
proof -
  have "hist_inv [] (state_unchecked task wfl)" by (simp add: hist_inv_def state_unchecked_def)
  then show ?thesis
    by (rule run_hist [OF run_ofD(1) [OF assms(2)] run_start [OF assms] run_ofD(2) [OF assms(2)]])
qed

lemma run_snoc:
  assumes "run_of task wfl evs st" and "step st ev = Inr (st', acts)" and "event_ok ev"
    and "Suc (length evs) < 2 ^ 32 - 2"
  shows "run_of task wfl (evs @ [ev]) st'"
  unfolding run_of_def
  using assms(3,4) run_ofD(2) [OF assms(1)] accepts_snoc [OF run_ofD(1) [OF assms(1)] assms(2)]
  by (simp add: list_all_iff)

section \<open>Where a merge request comes from\<close>

definition merge_free :: "PipelineAction list \<Rightarrow> bool" where
  "merge_free acts \<longleftrightarrow> (\<forall>sid a h. PipelineAction.Merge sid a h \<notin> set acts)"

lemma merge_free_simps [simp]:
  "merge_free []" "merge_free (xs @ ys) \<longleftrightarrow> merge_free xs \<and> merge_free ys"
  "merge_free (x # xs) \<longleftrightarrow> (\<forall>sid a h. x \<noteq> PipelineAction.Merge sid a h) \<and> merge_free xs"
  by (auto simp: merge_free_def)

lemma schedule_no_merge [simp]:
  "schedule w a \<noteq> PipelineAction.Merge sid b h" "PipelineAction.Merge sid b h \<noteq> schedule w a"
  by (simp_all add: schedule_def)

lemma stage_request_merge:
  "stage_request st i w a = Inr (PipelineAction.Merge sid b h) \<Longrightarrow>
     ws_stage w = Stage.Merge \<and> sid = ws_id w \<and> b = a \<and> current_head st = Some h"
  by (cases "ws_stage w") (auto simp: stage_request_def split: if_splits sum.splits option.splits)

definition merge_requested :: "PipelineState \<Rightarrow> PipelineAction list \<Rightarrow> bool" where
  "merge_requested st acts \<longleftrightarrow>
     (\<forall>sid a h. PipelineAction.Merge sid a h \<in> set acts \<longrightarrow>
        merge_in_flight st \<and> current_head st = Some h
        \<and> sid = ws_id (stages st ! stage_index st) \<and> a = attempt st)"

lemma merge_free_requested: "merge_free acts \<Longrightarrow> merge_requested st acts"
  by (auto simp: merge_free_def merge_requested_def)

lemma enter_requested:
  assumes "enter_stage i st = Inr (st', acts)" and run: "status st = PipelineStatus.Running"
    and len: "length (attempts st) = length (stages st)"
  shows "merge_requested st' acts"
proof (cases rule: enter_stage_cases [of i st])
  case (at_stage j)
  have j: "j < length (attempts st)" using at_stage(2) len by simp
  note eq = assms(1) [unfolded at_stage(5) request_entered [OF j]]
  show ?thesis
  proof (cases "stage_request (entered j st) j (stages st ! j) (attempts st ! j + 1)")
    case (Inr act)
    with eq have r: "st' = entered j st" "acts = [schedule (stages st ! j) (attempts st ! j + 1), act]" by auto
    show ?thesis
      using stage_request_merge [of "entered j st" j "stages st ! j" "attempts st ! j + 1"] Inr run j at_stage(2)
      by (auto simp: merge_requested_def r merge_in_flight_iff)
  next
    case (Inl x)
    with eq have "merge_free acts" by (cases x) (auto simp: fail_task_def)
    then show ?thesis by (rule merge_free_requested)
  qed
next
  case at_end
  with assms(1) have "merge_free acts" by auto
  then show ?thesis by (rule merge_free_requested)
qed

lemma enter_before_command:
  assumes "enter_stage i st = Inr (st', acts)" and wf: "well_formed (workflow st)"
    and len: "length (attempts st) = length (stages st)"
    and cmd: "\<And>m. m < length (stages st) \<Longrightarrow> stage_kind (stages st ! m) = StageKind.Merge \<Longrightarrow>
       \<exists>k < m. i \<le> k \<and> stage_kind (stages st ! k) = StageKind.Command"
  shows "merge_free acts"
proof (cases rule: enter_stage_cases [of i st])
  case (at_stage j)
  have j: "j < length (attempts st)" using at_stage(2) len by simp
  note eq = assms(1) [unfolded at_stage(5) request_entered [OF j]]
  have nm: "stage_kind (stages st ! j) \<noteq> StageKind.Merge"
  proof
    assume "stage_kind (stages st ! j) = StageKind.Merge"
    then obtain k where "k < j" "i \<le> k" "stage_kind (stages st ! k) = StageKind.Command"
      using cmd [OF at_stage(2)] by blast
    with at_stage(3) [of k] approval_for_stage_kind show False by fastforce
  qed
  show ?thesis
  proof (cases "stage_request (entered j st) j (stages st ! j) (attempts st ! j + 1)")
    case (Inr act)
    with eq nm stage_request_merge [of "entered j st" j "stages st ! j" "attempts st ! j + 1"]
    show ?thesis by auto
  next
    case (Inl x)
    with eq show ?thesis by (cases x) (auto simp: fail_task_def)
  qed
next
  case at_end
  with assms(1) show ?thesis by auto
qed

lemma return_to_work_merge_free:
  assumes "return_to_work t reason st = Inr (st', acts)"
  shows "merge_free acts"
proof -
  from assms obtain role ins out where w: "t < length (stages st)"
    "ws_stage (stages st ! t) = Stage.Work role ins out" by (rule return_to_work_Inr)
  show ?thesis using assms return_to_work_eq [OF w, of reason] by (auto simp: result_split)
qed

lemma fail_stage_merge_free:
  assumes "fail_stage i reason st = Inr (st', acts)"
  shows "merge_free acts"
proof -
  obtain w where w: "slice_get (stages st) i = Some w"
    using assms by (cases "slice_get (stages st) i") (simp_all add: fail_stage_def)
  show ?thesis
  proof (cases "or_else (explicit_target st i w) (default_target st i w)")
    case None
    then show ?thesis using assms w by (auto simp: fail_stage_def fail_task_def)
  next
    case (Some t)
    then have "return_to_work t reason st = Inr (st', acts)" using assms w by (simp add: fail_stage_def)
    then show ?thesis by (rule return_to_work_merge_free)
  qed
qed

text \<open>A head change stops at a check before it can reach the merge stage.\<close>

lemma command_from:
  assumes wf: "well_formed wfl" and m: "m < length (wf_stages wfl)" "stage_kind (wf_stages wfl ! m) = StageKind.Merge"
    and free: "\<And>j. j < t \<Longrightarrow> \<not> is_head_bound (wf_stages wfl ! j)"
  shows "\<exists>k < m. t \<le> k \<and> stage_kind (wf_stages wfl ! k) = StageKind.Command"
proof -
  obtain k where k: "k < m" "stage_kind (wf_stages wfl ! k) = StageKind.Command"
    using well_formed_merge [OF wf m] by blast
  then have "is_head_bound (wf_stages wfl ! k)" by (auto simp: is_head_bound_def kind_simps)
  with free [of k] have "t \<le> k" by (meson not_le)
  with k show ?thesis by blast
qed

lemma recheck_merge_free:
  assumes live: "live st" and mv: "head_moved st st'" and r: "recheck_for_new_head st' = Inr (st'', acts)"
  shows "merge_free acts"
proof -
  note m = head_movedD [OF mv] and d = liveD [OF live] and rr = state_inv_runningD [OF liveD(2,3) [OF live]]
  have len: "length (attempts st') = length (stages st')" using base_invD(1) [OF m(10)] .
  have wf: "well_formed (workflow st')" using d(1) m(1) by simp
  have tgt: "recheck_target st' (stage_index st') = recheck_target st (stage_index st)"
    using recheck_target_cong [OF m(1)] m(2) by simp
  show ?thesis
  proof (cases "recheck_target st (stage_index st)")
    case (Some t)
    then have e: "enter_stage t st' = Inr (st'', acts)" using r tgt by (simp add: recheck_for_new_head_def)
    show ?thesis
      using command_from [OF wf] recheck_target_Some(4) [OF d(1) Some] m(1)
      by (intro enter_before_command [OF e wf len]) simp
  next
    case None
    then have r': "restart_if_collected st' = Inr (st'', acts)" using r tgt by (simp add: recheck_for_new_head_def)
    show ?thesis
    proof (cases "acts = []")
      case False
      then have e: "enter_stage (stage_index st) st' = Inr (st'', acts)"
        using r' m(2) by (auto simp: restart_if_collected_def split: if_splits)
      have "\<not> is_head_bound (stages st ! j)" if "j < stage_index st" for j
        using recheck_target_None [OF d(1) None rr(1)] that by blast
      then show ?thesis
        using command_from [OF wf] m(1) by (intro enter_before_command [OF e wf len]) simp
    qed simp
  qed
qed

lemma rebase_to_work_merge_free:
  assumes "rebase_to_work h p conflict st = Inr (st', acts)"
  shows "merge_free acts"
proof -
  define st1 where "st1 = (if \<not> conflict then record_new_head h p st else invalidate_head_bound st)"
  show ?thesis
  proof (cases "previous_work st1 (stage_index st)")
    case None
    then show ?thesis
      using assms by (cases "slice_get (stages st1) (stage_index st)")
        (auto simp: rebase_to_work_def Let_def st1_def [symmetric] fail_task_def)
  next
    case (Some t)
    then have "return_to_work t (rebase_reason conflict) st1 = Inr (st', acts)"
      using assms by (simp add: rebase_to_work_def Let_def st1_def [symmetric])
    then show ?thesis by (rule return_to_work_merge_free)
  qed
qed

lemma main_advanced_merge_free:
  assumes live: "live st" and r: "main_advanced h p conflict st = Inr (st', acts)"
  shows "merge_free acts"
proof -
  note rr = state_inv_runningD [OF liveD(2,3) [OF live]]
  from r rr(1) show ?thesis
  proof (cases rule: main_advanced_cases)
    case stay
    then show ?thesis by simp
  next
    case moved
    then show ?thesis by (rule recheck_merge_free [OF live head_moved_record_new_head [OF rr(8)]])
  next
    case (kept old)
    from kept(3) show ?thesis by (rule recheck_merge_free [OF live head_moved_carry [OF rr(8) kept(1)]])
  next
    case work
    then show ?thesis by (rule rebase_to_work_merge_free)
  qed
qed

lemma apply_head_change_merge_free:
  assumes good: "good_entry K wfl st" and wf: "well_formed wfl"
    and r: "apply_head_change c st = Inr (st', acts)"
  shows "merge_free acts"
proof (cases "status st = PipelineStatus.Running")
  case False
  then show ?thesis using r by (cases c) auto
next
  case True
  have live: "live st" by (rule good_entry_live [OF good wf True])
  note rr = state_inv_runningD [OF liveD(2,3) [OF live]]
  show ?thesis
  proof (cases c)
    case (CommitCreated h p)
    then have "acts = [] \<or> recheck_for_new_head (record_new_head h p st) = Inr (st', acts)"
      using r True by (auto split: if_splits)
    then show ?thesis
      using recheck_merge_free [OF live head_moved_record_new_head [OF rr(8)]] by auto
  next
    case (MainAdvanced h p conflict)
    then show ?thesis using r True main_advanced_merge_free [OF live] by simp
  qed
qed

lemma apply_pending_merge_free:
  assumes "good_entry (length cs + K) wfl st" and "well_formed wfl"
    and "apply_pending cs acts0 st = Inr (st', acts)" and "merge_free acts0"
  shows "merge_free acts"
  using assms
proof (induction cs arbitrary: acts0 st)
  case Nil
  then show ?case by simp
next
  case (Cons c cs)
  from Cons.prems(3) obtain st1 acts1 where st1: "apply_head_change c st = Inr (st1, acts1)"
    and rest: "apply_pending cs (if acts1 \<noteq> [] then acts1 else acts0) st1 = Inr (st', acts)"
    by (auto simp: result_split)
  have good: "good_entry (Suc (length cs + K)) wfl st" using Cons.prems(1) by simp
  have "good_entry (length cs + K) wfl st1"
    using apply_head_change_ok [OF good Cons.prems(2), of c] st1 by simp
  moreover have "merge_free (if acts1 \<noteq> [] then acts1 else acts0)"
    using apply_head_change_merge_free [OF good Cons.prems(2) st1] Cons.prems(4) by simp
  ultimately show ?case using Cons.IH [OF _ Cons.prems(2) rest] by blast
qed

lemma merge_failed_merge_free:
  assumes wf: "well_formed (workflow st)" and inv: "state_inv st" and flight: "merge_in_flight st"
    and room: "budget (Suc K + length (pending_head_changes st)) st"
    and r: "merge_failed st = Inr (st', acts)"
  shows "merge_free acts"
proof -
  let ?cs = "pending_head_changes st"
  let ?st0 = "st\<lparr>pending_head_changes := []\<rparr>"
  have run: "status st = PipelineStatus.Running" using flight by (simp add: merge_in_flight_iff)
  have good: "good_entry (length ?cs + Suc K) (workflow st) ?st0"
    using pending_cleared [OF inv run] room by (simp add: good_entry_def budget_def add.commute)
  from r obtain st1 acts1 where st1: "apply_pending ?cs [] ?st0 = Inr (st1, acts1)"
    and rest: "(if merge_in_flight st1 then
           and_then (ok_or (recheck_target st1 (stage_index st1)) (Rejected MergeGateClosed)) (\<lambda>target.
           and_then (enter_stage target st1) (\<lambda>(st2, acts2). Inr (st2, acts1 @ acts2)))
         else Inr (st1, acts1)) = Inr (st', acts)"
    by (auto simp: merge_failed_def result_split)
  have good1: "good_entry (Suc K) (workflow st) st1"
    using apply_pending_ok [OF good wf, of "[]"] st1 by simp
  have free: "merge_free acts1" by (rule apply_pending_merge_free [OF good wf st1]) simp
  show ?thesis
  proof (cases "merge_in_flight st1")
    case False
    then show ?thesis using rest free by simp
  next
    case True
    then obtain t acts2 where e: "enter_stage t st1 = Inr (st', acts2)" "acts = acts1 @ acts2"
      and t: "recheck_target st1 (stage_index st1) = Some t"
      using rest by (auto simp: result_split)
    have live: "live st1" using True good1 wf by (auto simp: merge_in_flight_iff intro: good_entry_live)
    have "merge_free acts2"
      using command_from [OF liveD(1) [OF live]] recheck_target_Some(4) [OF liveD(1) [OF live] t]
      by (intro enter_before_command [OF e(1) liveD(1) [OF live] live_len [OF live]]) blast
    then show ?thesis using free e(2) by simp
  qed
qed

lemma merge_requested_prefix:
  "merge_requested st acts \<Longrightarrow> merge_free pre \<Longrightarrow> merge_requested st (pre @ acts)"
  by (auto simp: merge_requested_def merge_free_def)

lemma keep_only_winner_merge_free: "merge_free (snd (keep_only_winner winner st))"
  by (simp add: keep_only_winner_def Let_def)

lemma settle_pick_merge_free: "settle_pick st = Inr (st', acts) \<Longrightarrow> merge_free acts"
  by (auto simp: settle_pick_def result_split keep_only_winner_def Let_def split: if_splits)

lemma join_children_merge_free: "join_children join selected st = Inr (st', acts) \<Longrightarrow> merge_free acts"
  by (cases join) (auto simp: join_children_def result_split keep_only_winner_def Let_def split: if_splits)

lemma approval_requested:
  assumes live: "live st" and r: "on_approval_granted sid reviewer h selected st = Inr (st', acts)"
  shows "merge_requested st' acts"
proof -
  note d = liveD [OF live]
  from r obtain bd count where ca: "current_approval st = Inr (bd, count)"
    by (auto simp: on_approval_granted_def result_split)
  from r have new: "reviewer \<notin> set (approval_reviewers st)"
    by (auto simp: on_approval_granted_def ca split: if_splits)
  from r new obtain st1 where st1: "tentative_pick selected st = Inr st1"
    by (cases "tentative_pick selected st") (auto simp: on_approval_granted_def ca)
  obtain pick where pick: "st1 = st\<lparr>pending_pick := pick\<rparr>" using st1 by (rule tentative_pick_Inr)
  let ?rec = "record_approval sid bd h (counted pick reviewer st)"
  have "acts = [] \<or> (\<exists>st3 a3 a4. settle_pick ?rec = Inr (st3, a3)
      \<and> enter_stage (Suc (stage_index st)) st3 = Inr (st', a4) \<and> acts = a3 @ a4)"
    using r new st1
    by (auto simp: on_approval_granted_def ca Let_def pick counted_def result_split split: if_splits)
  then show ?thesis
  proof (elim disjE exE conjE)
    fix st3 a3 a4 assume s: "settle_pick ?rec = Inr (st3, a3)"
      and e: "enter_stage (Suc (stage_index st)) st3 = Inr (st', a4)" and acts: "acts = a3 @ a4"
    note f = settle_pick_Inr [OF s]
    have "merge_requested st' a4"
      using f d(3) live_len [OF live] by (intro enter_requested [OF e]) (simp_all add: counted_def)
    then show ?thesis unfolding acts using settle_pick_merge_free [OF s] by (rule merge_requested_prefix)
  qed (simp add: merge_free_requested)
qed

lemma step_requested:
  assumes wf: "well_formed (workflow st)" and inv: "state_inv st"
    and room: "budget (Suc K + length (pending_head_changes st)) st"
    and r: "step st ev = Inr (st', acts)"
  shows "merge_requested st' acts"
proof -
  from r have h: "handle_event st ev = Inr (st', acts)"
    and fl: "merge_in_flight st \<Longrightarrow> allowed_in_flight ev"
    and id: "\<And>i. identity ev = Some i \<Longrightarrow> check_identity st i = Inr ()"
    by (auto elim: step_InrE)
  have run: "status st = PipelineStatus.Running" if "identity ev \<noteq> None"
    using id that by (auto simp: result_split)
  have live: "live st" if "identity ev \<noteq> None" "\<not> allowed_in_flight ev"
    using live_of_running [OF wf inv run [OF that(1)]] fl that(2) by blast
  have len: "length (attempts st) = length (stages st)"
    using inv by (auto simp: state_inv_def dest: base_invD(1))
  have change: "merge_free acts"
    if "status st = PipelineStatus.Running" "\<not> merge_in_flight st" "apply_head_change c st = Inr (st', acts)" for c
  proof -
    have "good_entry 0 (workflow st) st"
      using live_of_running [OF wf inv that(1,2)] budget_mono [OF room, of 0] by (simp add: live_def good_entry_def)
    then show ?thesis using apply_head_change_merge_free [OF _ wf that(3)] by blast
  qed
  show ?thesis
  proof (cases ev)
    case Start
    with h obtain st1 where "enter_stage 0 st1 = Inr (st', acts)" "status st1 = PipelineStatus.Running"
      "length (attempts st1) = length (stages st1)"
      using len by (auto simp: on_start_def split: if_splits)
    then show ?thesis by (rule enter_requested)
  next
    case (WorkCompleted sid a product)
    then have l: "live st" using live by simp
    from h WorkCompleted have e: "enter_stage (Suc (stage_index st)) (with_product product st) = Inr (st', acts)"
      using state_inv_runningD(1) [OF liveD(2,3) [OF l]]
      by (cases "ws_stage (stages st ! stage_index st)")
        (auto simp: on_work_completed_def with_product_def split: if_splits)
    then show ?thesis by (rule enter_requested) (use liveD(3) [OF l] len in simp_all)
  next
    case (Submitted sid a cid)
    with h have "enter_stage (Suc (stage_index st)) (st\<lparr>change_id := cid\<rparr>) = Inr (st', acts)"
      by (auto simp: on_submitted_def result_split)
    then show ?thesis by (rule enter_requested) (use run Submitted len in simp_all)
  next
    case (CommandFinished sid a hh code)
    with h consider "enter_stage (Suc (stage_index st)) (push_check sid hh st) = Inr (st', acts)"
      | reason where "fail_stage (stage_index st) reason st = Inr (st', acts)"
      by (auto simp: on_command_finished_def result_split split: if_splits)
    then show ?thesis
    proof cases
      case 1
      then show ?thesis by (rule enter_requested) (use run CommandFinished len in simp_all)
    next
      case 2
      then show ?thesis by (intro merge_free_requested fail_stage_merge_free)
    qed
  next
    case (ApprovalGranted sid a reviewer hh selected)
    then show ?thesis using h live by (intro approval_requested) auto
  next
    case (ChangesRequested sid a reviewer hh reason)
    with h obtain x where "fail_stage (stage_index st) x st = Inr (st', acts)"
      by (auto simp: on_changes_requested_def result_split)
    then show ?thesis by (intro merge_free_requested fail_stage_merge_free)
  next
    case (CommitCreated hh p)
    with h have "acts = [] \<or> (status st = PipelineStatus.Running \<and> \<not> merge_in_flight st
        \<and> apply_head_change (PendingHeadChange.CommitCreated hh p) st = Inr (st', acts))"
      by (auto simp: on_commit_created_def result_split simp del: apply_head_change.simps split: if_splits)
    then show ?thesis using change merge_free_requested merge_free_simps(1) by blast
  next
    case (MainAdvanced hh p conflict)
    with h have "acts = [] \<or> (status st = PipelineStatus.Running \<and> \<not> merge_in_flight st
        \<and> apply_head_change (PendingHeadChange.MainAdvanced hh p conflict) st = Inr (st', acts))"
      by (auto simp: on_main_advanced_def result_split simp del: apply_head_change.simps split: if_splits)
    then show ?thesis using change merge_free_requested merge_free_simps(1) by blast
  next
    case (FanoutCompleted sid a children selected)
    then have l: "live st" using live by simp
    from h FanoutCompleted obtain join st1 a1 a2 where
      j: "join_children join selected (st\<lparr>selected_fanout_child := None, fanout_child_task_ids := children\<rparr>) = Inr (st1, a1)"
      and e: "enter_stage (Suc (stage_index st)) st1 = Inr (st', a2)" and acts: "acts = a1 @ a2"
      using state_inv_runningD(1) [OF liveD(2,3) [OF l]]
      by (cases "ws_stage (stages st ! stage_index st)")
        (auto simp: on_fanout_completed_def result_split split: if_splits)
    note f = join_children_Inr [OF j]
    have "merge_requested st' a2" by (rule enter_requested [OF e]) (use f liveD(3) [OF l] len in simp_all)
    then show ?thesis unfolding acts using join_children_merge_free [OF j] by (rule merge_requested_prefix)
  next
    case (StageFailed sid a reason)
    then show ?thesis using h by (intro merge_free_requested fail_stage_merge_free) simp
  next
    case (StageTimedOut sid a)
    then have l: "live st" using live by simp
    note i = state_inv_runningD(1) [OF liveD(2,3) [OF l]]
    from h StageTimedOut i have "merge_free acts
        \<or> (\<exists>a1. enter_stage (stage_index st) st = Inr (st', a1) \<and> acts = [ReassignStage sid] @ a1)"
      by (cases "effective_timeout_action (stages st ! stage_index st)")
        (auto simp: on_stage_timed_out_def result_split Let_def cancel_def split: if_splits)
    then show ?thesis
      using enter_requested [OF _ liveD(3) [OF l] len] merge_requested_prefix
      by (auto intro: merge_free_requested simp del: append_Cons)
  next
    case (Cancel reason)
    then have "merge_free acts"
      using h by (cases "status st") (auto simp: on_cancel_def cancel_def result_split)
    then show ?thesis by (rule merge_free_requested)
  next
    case (MergeCompleted sid a hh commit)
    then have "merge_free acts" using h by (auto simp: on_merge_completed_def result_split split: if_splits)
    then show ?thesis by (rule merge_free_requested)
  next
    case (MergeFailed sid a hh reason)
    then have g: "merge_failed st = Inr (st', acts)" and flight: "merge_in_flight st"
      using h by (auto simp: on_merge_failed_def result_split merge_in_flight_iff)
    show ?thesis by (rule merge_free_requested [OF merge_failed_merge_free [OF wf inv flight room g]])
  qed
qed

section \<open>Later states\<close>

lemma run_machine:
  assumes "validate wfl team_roles = []" and "accepts step (state_unchecked task wfl) evs st"
    and "\<forall>e \<in> set evs. event_ok e" and "length evs + k < 2 ^ 32"
  shows "machine_inv k st" "workflow st = wfl"
proof -
  have "machine_inv (length evs + k) (state_unchecked task wfl)"
    using validate_Nil(1,2) [OF assms(1)] assms(4) by (intro machine_inv_initial) simp_all
  from accepts_machine [OF assms(2) this assms(3)] show "machine_inv k st" "workflow st = wfl"
    by (simp_all add: state_unchecked_def)
qed

lemma run_used:
  assumes "accepts step s evs t" and "machine_inv (length evs + n) s" and "\<forall>e \<in> set evs. event_ok e"
    and "used k a ev s" and to: "\<And>sid b. ev = StageTimedOut sid b \<Longrightarrow> b = a"
  shows "used k a ev t"
  using assms(1-4)
proof (induction arbitrary: n rule: accepts.induct)
  case (accepts_nil s)
  then show ?case by simp
next
  case (accepts_snoc s ins t i u os)
  have t: "machine_inv (Suc n) t"
    using machine.run_counted [OF accepts_snoc.hyps(1), of "Suc n"] accepts_snoc.prems by simp
  then have m: "well_formed (workflow t)" "state_inv t" "budget (Suc n + length (pending_head_changes t)) t"
    by (simp_all add: machine_inv_def)
  have ev: "event_ok i" using accepts_snoc.prems(2) by simp
  have "used k a ev t" using accepts_snoc.IH [of "Suc n"] accepts_snoc.prems by simp
  then show ?case
    using step_ticks [OF m(1,2) ev m(3) accepts_snoc.hyps(2)] step_task(2) [OF m(1,2) ev m(3) accepts_snoc.hyps(2)]
    by (rule used_ticks) (rule to)
qed

section \<open>What a merge request rests on\<close>

lemma in_flight_earned:
  assumes wf: "well_formed (workflow st)" and inv: "state_inv st" and hist: "hist_inv evs st"
    and m: "merge_in_flight st" "current_head st = Some h" and w: "w \<in> set (stages st)"
  shows "stage_kind w = StageKind.Command \<Longrightarrow>
      \<exists>att. CommandFinished (ws_id w) att (Some h) (Some 0) \<in> set evs"
    and "ws_stage w = Stage.Approval by count bd \<Longrightarrow>
      \<exists>rec. ar_stage_id rec = ws_id w \<and> (bd \<longrightarrow> ar_head rec = Some h)
        \<and> distinct (ar_reviewers rec) \<and> length (ar_reviewers rec) = unat count
        \<and> (\<forall>r \<in> set (ar_reviewers rec). granted evs rec r)"
proof -
  have running: "status st = PipelineStatus.Running"
    and k: "stage_kind (stages st ! stage_index st) = StageKind.Merge"
    using m(1) by (simp_all add: merge_in_flight_iff)
  note r = state_inv_runningD [OF inv running]
  obtain j where j: "j < length (stages st)" "w = stages st ! j"
    using w by (auto simp: in_set_conv_nth)
  have covered: "stage_covered st w" if "stage_kind w \<noteq> StageKind.Merge"
  proof -
    have "j \<noteq> stage_index st" using that k j(2) by auto
    then have "j < stage_index st" using well_formed_merge [OF wf r(1) k] j(1) by simp
    then show ?thesis using covD [OF r(3)] j by simp
  qed
  show "\<exists>att. CommandFinished (ws_id w) att (Some h) (Some 0) \<in> set evs"
    if "stage_kind w = StageKind.Command"
  proof -
    from covered that obtain c where "c \<in> set (passed_checks st)" "pc_stage_id c = ws_id w" "pc_head c = Some h"
      using m(2) by (auto simp: stage_covered_def kind_simps)
    then show ?thesis using hist unfolding hist_inv_def by metis
  qed
  show "\<exists>rec. ar_stage_id rec = ws_id w \<and> (bd \<longrightarrow> ar_head rec = Some h)
        \<and> distinct (ar_reviewers rec) \<and> length (ar_reviewers rec) = unat count
        \<and> (\<forall>r \<in> set (ar_reviewers rec). granted evs rec r)"
    if wa: "ws_stage w = Stage.Approval by count bd"
  proof -
    have "approval_for_stage st w" using covered wa by (simp add: stage_covered_def)
    then obtain rec where rec: "rec \<in> set (approvals st)" "ar_stage_id rec = ws_id w"
      "bd \<longrightarrow> ar_head rec = Some h" using wa m(2) by (auto simp: approval_for_stage_iff)
    have "approval_fits (ws_stage w) (current_head st) rec"
      using record_stage [OF wf r(8) rec(1) j(1)] rec(2) j(2) by simp
    then have "distinct (ar_reviewers rec)" "length (ar_reviewers rec) = unat count" using wa by simp_all
    moreover have "\<forall>r \<in> set (ar_reviewers rec). granted evs rec r"
      using hist rec(1) by (simp add: hist_inv_def)
    ultimately show ?thesis using rec(2,3) by blast
  qed
qed

lemma merge_earned_stage:
  assumes valid: "validate wfl team_roles = []" and run: "run_of task wfl evs st" and ev: "event_ok ev"
    and step: "step st ev = Inr (st', acts)" and merge: "PipelineAction.Merge sid a h \<in> set acts"
    and w: "w \<in> set (wf_stages wfl)"
  shows "stage_kind w = StageKind.Command \<Longrightarrow>
      \<exists>att. CommandFinished (ws_id w) att (Some h) (Some 0) \<in> set (evs @ [ev])"
    and "ws_stage w = Stage.Approval by count bd \<Longrightarrow>
      \<exists>rec. ar_stage_id rec = ws_id w \<and> (bd \<longrightarrow> ar_head rec = Some h)
        \<and> distinct (ar_reviewers rec) \<and> length (ar_reviewers rec) = unat count
        \<and> (\<forall>r \<in> set (ar_reviewers rec). granted (evs @ [ev]) rec r)"
proof -
  note s = run_state [OF valid run]
  have wf: "well_formed (workflow st)" using s(2,4) by simp
  have room: "budget (Suc 0 + length (pending_head_changes st)) st" using s(6) by simp
  have st': "state_inv st'" "workflow st' = wfl"
    using step_inv [OF wf s(5) ev room] step s(2) by simp_all
  have hist: "hist_inv (evs @ [ev]) st'"
    by (rule step_hist [OF wf s(5) ev room step run_history [OF valid run]])
  have m: "merge_in_flight st'" "current_head st' = Some h"
    using step_requested [OF wf s(5) room step] merge by (auto simp: merge_requested_def)
  have wf': "well_formed (workflow st')" "w \<in> set (stages st')" using s(4) st'(2) w by simp_all
  note e = in_flight_earned [OF wf'(1) st'(1) hist m wf'(2)]
  show "\<exists>att. CommandFinished (ws_id w) att (Some h) (Some 0) \<in> set (evs @ [ev])"
    if "stage_kind w = StageKind.Command" by (rule e(1) [OF that])
  show "\<exists>rec. ar_stage_id rec = ws_id w \<and> (bd \<longrightarrow> ar_head rec = Some h)
        \<and> distinct (ar_reviewers rec) \<and> length (ar_reviewers rec) = unat count
        \<and> (\<forall>r \<in> set (ar_reviewers rec). granted (evs @ [ev]) rec r)"
    if "ws_stage w = Stage.Approval by count bd" by (rule e(2) [OF that])
qed

section \<open>Head changes never move a task forward\<close>

lemma enter_stage_upto:
  assumes "enter_stage i st = Inr (st', acts)" and "i \<le> c" "c < length (stages st)"
    and "\<not> approval_for_stage st (stages st ! c)" and "length (attempts st) = length (stages st)"
  shows "stage_index st' \<le> c" "workflow st' = workflow st"
proof -
  have "stage_index st' \<le> c \<and> workflow st' = workflow st"
  proof (cases rule: enter_stage_cases [of i st])
    case (at_stage j)
    have "j \<le> c" using at_stage(3) [of c] assms(2,4) by (meson not_le)
    moreover have "j < length (attempts st)" using at_stage(2) assms(5) by simp
    ultimately show ?thesis
      using assms(1) at_stage(5) request_entered [of j st "stages st ! j"]
      by (auto simp: fail_task_def split: sum.splits)
  next
    case at_end
    then show ?thesis using assms(2-4) by blast
  qed
  then show "stage_index st' \<le> c" "workflow st' = workflow st" by simp_all
qed

lemma current_without_record:
  assumes live: "live st" and mv: "head_moved st st'"
  shows "\<not> approval_for_stage st' (stages st ! stage_index st)"
proof
  note rr = state_inv_runningD [OF liveD(2,3) [OF live]] and m = head_movedD [OF mv]
  let ?w = "stages st ! stage_index st"
  assume a: "approval_for_stage st' ?w"
  then obtain "by" count bd where w: "ws_stage ?w = Stage.Approval by count bd"
    using approval_for_stage_kind [OF a] by (auto simp: kind_simps)
  with a obtain rec where "rec \<in> set (approvals st')" "ar_stage_id rec = ws_id ?w"
    by (auto simp: approval_for_stage_iff)
  then have "ws_id ?w \<in> record_ids st" using m(14) by (metis image_eqI subsetD)
  then obtain old where old: "old \<in> set (approvals st)" "ar_stage_id old = ws_id ?w" by auto
  have "approval_fits (ws_stage ?w) (current_head st) old"
    by (rule record_stage [OF liveD(1) [OF live] rr(8) old(1) rr(1) old(2)])
  then have "approval_for_stage st ?w" using w old by (auto simp: approval_for_stage_iff split: if_splits)
  then show False using rr(6) by simp
qed

lemma recheck_not_forward:
  assumes live: "live st" and mv: "head_moved st st'" and r: "recheck_for_new_head st' = Inr (st'', acts)"
  shows "stage_index st'' \<le> stage_index st"
proof -
  note rr = state_inv_runningD [OF liveD(2,3) [OF live]] and m = head_movedD [OF mv]
  have len: "length (attempts st') = length (stages st')" using base_invD(1) [OF m(10)] .
  have wf: "well_formed (workflow st')" using liveD(1) [OF live] m(1) by simp
  have up: "stage_index st'' \<le> stage_index st" if "enter_stage i st' = Inr (st'', acts)" "i \<le> stage_index st" for i
    using enter_stage_upto(1) [OF that] current_without_record [OF live mv] rr(1) m(1) len by simp
  show ?thesis
  proof (cases "recheck_target st' (stage_index st')")
    case (Some t)
    then show ?thesis
      using r up recheck_target_Some(1) [OF wf Some] m(2) by (simp add: recheck_for_new_head_def)
  next
    case None
    then have "st'' = st' \<or> enter_stage (stage_index st) st' = Inr (st'', acts)"
      using r m(2) by (auto simp: recheck_for_new_head_def restart_if_collected_def split: if_splits)
    then show ?thesis using up m(2) by auto
  qed
qed

lemma return_to_work_at:
  assumes "return_to_work t reason st = Inr (st', acts)"
  shows "stage_index st' = t" "pending_work_reason st' = Some reason" "workflow st' = workflow st"
    "stage_kind (stages st ! t) = StageKind.Work" "status st' = status st"
proof -
  from assms obtain role ins out where w: "t < length (stages st)"
    "ws_stage (stages st ! t) = Stage.Work role ins out" by (rule return_to_work_Inr)
  show "stage_index st' = t" "pending_work_reason st' = Some reason" "workflow st' = workflow st"
    "stage_kind (stages st ! t) = StageKind.Work" "status st' = status st"
    using assms return_to_work_eq [OF w, of reason] w by (auto simp: result_split)
qed

lemma rebase_to_work_not_forward:
  assumes r: "rebase_to_work h p conflict st = Inr (st', acts)" and i: "stage_index st < length (stages st)"
  shows "stage_index st' \<le> stage_index st"
proof -
  define st1 where "st1 = (if \<not> conflict then record_new_head h p st else invalidate_head_bound st)"
  have st1: "stage_index st1 = stage_index st" "workflow st1 = workflow st" by (simp_all add: st1_def)
  show ?thesis
  proof (cases "previous_work st1 (stage_index st)")
    case None
    then show ?thesis
      using r i st1 by (auto simp: rebase_to_work_def Let_def st1_def [symmetric] fail_task_def)
  next
    case (Some t)
    then have "return_to_work t (rebase_reason conflict) st1 = Inr (st', acts)"
      using r by (simp add: rebase_to_work_def Let_def st1_def [symmetric])
    then show ?thesis
      using return_to_work_at(1) previous_work_sound(1) [OF Some] i st1 by fastforce
  qed
qed

lemma apply_head_change_not_forward:
  assumes live: "live st" and r: "apply_head_change c st = Inr (st', acts)"
  shows "stage_index st' \<le> stage_index st"
proof -
  note rr = state_inv_runningD [OF liveD(2,3) [OF live]] and run = liveD(3) [OF live]
  show ?thesis
  proof (cases c)
    case (CommitCreated h p)
    then have "st' = st \<or> recheck_for_new_head (record_new_head h p st) = Inr (st', acts)"
      using r run by (auto split: if_splits)
    then show ?thesis
      using recheck_not_forward [OF live head_moved_record_new_head [OF rr(8)]] by auto
  next
    case (MainAdvanced h p conflict)
    then have "main_advanced h p conflict st = Inr (st', acts)" using r run by simp
    from this rr(1) show ?thesis
    proof (cases rule: main_advanced_cases)
      case stay
      then show ?thesis by simp
    next
      case moved
      then show ?thesis by (rule recheck_not_forward [OF live head_moved_record_new_head [OF rr(8)]])
    next
      case (kept old)
      from kept(3) show ?thesis by (rule recheck_not_forward [OF live head_moved_carry [OF rr(8) kept(1)]])
    next
      case work
      then show ?thesis using rr(1) by (rule rebase_to_work_not_forward)
    qed
  qed
qed

section \<open>A sample run\<close>

text \<open>The built-in code workflow up to the checks after a failed merge and a rebase of the main branch; \<open>sample_answer\<close> passes them.\<close>

definition sample_events :: "PipelineEvent list" where
  "sample_events =
     [PipelineEvent.Start,
      WorkCompleted ''work'' 1 (BranchProduct ''agend/t-1/fix'' ''h1'' ''p1''),
      Submitted ''submit'' 1 None,
      CommandFinished ''checks'' 1 (Some ''h1'') (Some 0),
      ApprovalGranted ''review'' 1 ''alice'' (Some ''h1'') None,
      MergeFailed ''merge'' 1 ''h1'' ''main moved'',
      PipelineEvent.MainAdvanced ''h2'' ''p1'' False]"

definition sample_answer :: PipelineEvent where
  "sample_answer = CommandFinished ''checks'' 3 (Some ''h2'') (Some 0)"

definition sample_state :: PipelineState where
  "sample_state =
     (case apply_events sample_events (state_unchecked ''t-1'' builtin_code) of
        Inr st \<Rightarrow> st | Inl _ \<Rightarrow> state_unchecked ''t-1'' builtin_code)"

lemma sample_valid: "validate builtin_code [''dev'', ''reviewer''] = []"
  by code_simp

lemma sample_accepted:
  "apply_events sample_events (state_unchecked ''t-1'' builtin_code) = Inr sample_state"
proof -
  have "(case apply_events sample_events (state_unchecked ''t-1'' builtin_code) of
     Inr st \<Rightarrow> True | Inl _ \<Rightarrow> False)" by code_simp
  then show ?thesis by (simp add: sample_state_def split: sum.splits)
qed

lemma apply_events_run:
  assumes "apply_events evs (state_unchecked task wfl) = Inr st" and "list_all event_ok evs"
    and "length evs < 2 ^ 32 - 2"
  shows "run_of task wfl evs st"
  using assms apply_events_accepts unfolding run_of_def by blast

lemma sample_run: "run_of ''t-1'' builtin_code sample_events sample_state"
  by (rule apply_events_run [OF sample_accepted]) (simp_all add: sample_events_def)

section \<open>Properties\<close>



end
