(* ===== verification/Pipeline_Properties.thy ===== *)
theory Pipeline_Properties
  imports Pipeline_Safety
begin

text \<open>
  The remaining properties of the engine over runs of validated workflows: results are used once,
  a finished task satisfies the done invariants, internal errors do not occur, terminal states are
  final, a merge in flight is left alone, head changes never move a task forward, snapshots round
  trip, outstanding requests are rebuilt, and the successful answer of the current stage is always
  accepted.
\<close>

section \<open>Results\<close>

lemma sample_step:
  assumes "(case step sample_state ev of Inr _ \<Rightarrow> True | Inl _ \<Rightarrow> False)"
  obtains st acts where "step sample_state ev = Inr (st, acts)"
  using assms by (auto split: sum.splits)

text \<open>C2: an answer counts once. After an event that carries a stage id and an attempt was accepted,
  the same event is rejected in every later state of the run, whatever happened in between.\<close>

theorem answers_count_once:
  assumes "validate wfl team_roles = []" and "run_of task wfl evs st" and "event_ok ev"
    and "identity ev = Some i" and "step st ev = Inr (st', acts)"
    and "accepts step st' later t" and "list_all event_ok later"
    and "length evs + length later < 2 ^ 32 - 3"
  shows "\<exists>e. step t ev = Inl e"
proof -
  note r = run_ofD [OF assms(2)]
  have m0: "machine_inv (length later + 2) st" "workflow st = wfl"
    using run_machine [OF assms(1) r(1,2), of "length later + 2"] assms(8) by simp_all
  then have s: "well_formed (workflow st)" "state_inv st"
    "budget (Suc (length later + 1) + length (pending_head_changes st)) st"
    by (simp_all add: machine_inv_def)
  have m1: "machine_inv (length later + 1) st'"
    using machine.step_counted [of "length later + 1" st ev st' acts] m0(1) assms(3,5) by simp
  have ok: "\<forall>e \<in> set later. event_ok e" using assms(7) by (simp add: list_all_iff)
  have to: "b = id_attempt i" if "ev = StageTimedOut sid b" for sid b using assms(4) that by auto
  have "used (stage_index st) (id_attempt i) ev st'"
    by (rule step_uses [OF s(1,2) assms(3) s(3) assms(5,4)])
  then have u: "used (stage_index st) (id_attempt i) ev t"
    using run_used [OF assms(6) m1 ok] to by blast
  have t: "machine_inv 1 t" "workflow t = workflow st'"
    using accepts_machine [OF assms(6) m1 ok] by simp_all
  have w: "workflow t = workflow st"
    using t(2) step_task(2) [OF s(1,2) assms(3) s(3) assms(5)] by simp
  have c: "check_identity st i = Inr ()" using assms(4,5) by (auto elim: step_InrE)
  then have k: "stage_index st < length (stages t)" "id_stage_id i = ws_id (stages t ! stage_index st)"
    using w by (auto simp: result_split)
  have "length (attempts t) = length (stages t)"
    using t(1) by (auto simp: machine_inv_def state_inv_def dest: base_invD(1))
  then show ?thesis
    using t(1) by (intro used_rejected [OF u assms(4) refl _ k]) (simp_all add: machine_inv_def)
qed

theorem answers_count_once_witness:
  "\<exists>st acts e. step sample_state sample_answer = Inr (st, acts) \<and> step st sample_answer = Inl e"
proof -
  have "(case step sample_state sample_answer of Inr _ \<Rightarrow> True | Inl _ \<Rightarrow> False)" by code_simp
  then obtain st acts where s: "step sample_state sample_answer = Inr (st, acts)" by (rule sample_step)
  have "\<exists>e. step st sample_answer = Inl e"
    by (rule answers_count_once [OF sample_valid sample_run _ _ s accepts_nil])
      (simp_all add: sample_answer_def sample_events_def)
  with s show ?thesis by blast
qed

text \<open>C10: a task that ended as done satisfies the done invariants: every command passed on the final
  head, every head-bound approval covers it, the winner of a final pick is one of its live children;
  and a workflow with a merge stage has a recorded merge commit.\<close>

theorem done_is_covered:
  assumes "validate wfl team_roles = []" and "run_of task wfl evs st"
    and "status st = PipelineStatus.Done"
  shows "done_invariants st = Inr ()
    \<and> (list_ex (\<lambda>w. stage_kind w = StageKind.Merge) (wf_stages wfl) \<longrightarrow> merge_commit st \<noteq> None)"
proof -
  note s = run_state [OF assms(1,2)]
  have "done_inv st" using s(5) assms(3) by (simp add: state_inv_def)
  then show ?thesis
    using done_invariants_hold [of st] s(2,4,5) assms(3)
    by (auto simp: done_inv_def has_merge_def list_ex_iff)
qed

definition sample_end :: "PipelineEvent list" where
  "sample_end = sample_events @ [sample_answer, MergeCompleted ''merge'' 2 ''h2'' ''m1'']"

theorem done_is_covered_witness:
  "\<exists>st. run_of ''t-1'' builtin_code sample_end st \<and> status st = PipelineStatus.Done
     \<and> done_invariants st = Inr () \<and> merge_commit st \<noteq> None"
proof -
  have "(case apply_events sample_end (state_unchecked ''t-1'' builtin_code) of
      Inr st \<Rightarrow> status st = PipelineStatus.Done | Inl _ \<Rightarrow> False)" by code_simp
  then obtain st where s: "apply_events sample_end (state_unchecked ''t-1'' builtin_code) = Inr st"
    "status st = PipelineStatus.Done" by (auto split: sum.splits)
  have r: "run_of ''t-1'' builtin_code sample_end st"
    by (rule apply_events_run [OF s(1)]) (simp_all add: sample_end_def sample_events_def sample_answer_def)
  from done_is_covered [OF sample_valid r s(2)] r s(2) show ?thesis
    by (auto simp: builtin_code_def WorkflowStage_new_def)
qed

text \<open>C6: no event can bring the engine to an internal failure. In every reachable state the answer
  to any event is an acceptance or an ordinary rejection: no index is out of bounds (no panic), the
  stage index stays inside the workflow and the merge gate is never found closed.\<close>

theorem no_internal_failure:
  assumes "validate wfl team_roles = []" and "run_of task wfl evs st" and "event_ok ev"
    and "step st ev = Inl e"
  shows "e \<noteq> Panic \<and> e \<notin> Rejected ` {MergeGateClosed, InvalidStageIndex, EmptyWorkflow}"
proof -
  note s = run_state [OF assms(1,2)]
  have "step_ok 0 (workflow st) (step st ev)"
    using s by (intro step_inv) (simp_all add: assms(3))
  then have "\<not> internal_failure e" using assms(4) by simp
  then show ?thesis by (cases e) auto
qed

theorem no_internal_failure_witness:
  "\<exists>e. step sample_state PipelineEvent.Start = Inl e \<and> e \<noteq> Panic"
proof -
  have "step sample_state PipelineEvent.Start = Inl (Rejected NotPending)" by code_simp
  from no_internal_failure [OF sample_valid sample_run _ this] this show ?thesis by simp
qed

text \<open>Terminal states are final: once a task is done, failed or cancelled no event is accepted any
  more.\<close>

theorem terminal_is_final:
  assumes "is_terminal (status st)" and "accepts step st evs t"
  shows "evs = [] \<and> t = st"
  using machine.terminal_run assms by blast

theorem terminal_is_final_witness:
  "\<not> accepts step (sample_state\<lparr>status := PipelineStatus.Cancelled\<rparr>) [PipelineEvent.Start] sample_state"
  using terminal_is_final [of "sample_state\<lparr>status := PipelineStatus.Cancelled\<rparr>" "[PipelineEvent.Start]"]
  by auto

section \<open>Merges and heads\<close>


definition sample_merging :: PipelineState where
  "sample_merging = (case step sample_state sample_answer of Inr (st, _) \<Rightarrow> st | Inl _ \<Rightarrow> sample_state)"


text \<open>C14: a head change never moves a task forward. A new commit or a moved main branch leaves the task
  at its stage or takes it to an earlier one, and never emits a merge request.\<close>

theorem head_change_never_forward:
  assumes "validate wfl team_roles = []" and "run_of task wfl evs st"
    and "step st (event_of c) = Inr (st', acts)"
  shows "stage_index st' \<le> stage_index st \<and> (\<forall>sid a h. PipelineAction.Merge sid a h \<notin> set acts)"
proof -
  note s = run_state [OF assms(1,2)]
  have wf: "well_formed (workflow st)" using s by simp
  from assms(3) have h: "handle_event st (event_of c) = Inr (st', acts)" by (auto elim: step_InrE)
  have run: "status st = PipelineStatus.Running"
    using h by (cases c) (auto simp: on_commit_created_def on_main_advanced_def result_split)
  show ?thesis
  proof (cases "merge_in_flight st")
    case True
    then show ?thesis
      using h by (cases c) (auto simp: on_commit_created_def on_main_advanced_def result_split split: if_splits)
  next
    case False
    have live: "live st" by (rule live_of_running [OF wf s(5) run False])
    have good: "good_entry 0 (workflow st) st"
      using live budget_mono [OF s(6), of 0] by (simp add: live_def good_entry_def)
    have "st' = st \<and> acts = [] \<or> apply_head_change c st = Inr (st', acts)"
      using h False by (cases c) (auto simp: on_commit_created_def on_main_advanced_def result_split
          simp del: apply_head_change.simps split: if_splits)
    then show ?thesis
      using apply_head_change_not_forward [OF live] apply_head_change_merge_free [OF good wf]
      by (auto simp: merge_free_def)
  qed
qed

theorem head_change_never_forward_witness:
  "\<exists>st acts. step sample_state (PipelineEvent.CommitCreated ''h3'' ''p3'') = Inr (st, acts)
     \<and> stage_index st \<le> stage_index sample_state"
proof -
  have "(case step sample_state (PipelineEvent.CommitCreated ''h3'' ''p3'') of
      Inr _ \<Rightarrow> True | Inl _ \<Rightarrow> False)" by code_simp
  then obtain st acts where s: "step sample_state (PipelineEvent.CommitCreated ''h3'' ''p3'') = Inr (st, acts)"
    by (rule sample_step)
  from head_change_never_forward [OF sample_valid sample_run, of "PendingHeadChange.CommitCreated ''h3'' ''p3''"] s
  show ?thesis by auto
qed

section \<open>Restarts of the daemon\<close>



text \<open>C18: restoring never opens a gate. Whatever snapshot is offered, a state that \<open>restore\<close> accepts
  has exactly the snapshot's data and the given workflow, an open merge gate if a merge is in flight,
  and the done invariants with a merge commit if it is done.\<close>

theorem restore_is_guarded:
  assumes "restore s wfl = Inr st"
  shows "snapshot st = s \<and> workflow st = wfl
    \<and> (merge_in_flight st \<longrightarrow> allowed (merge_gate st (stage_index st)))
    \<and> (status st = PipelineStatus.Done \<longrightarrow> done_invariants st = Inr ()
         \<and> (list_ex (\<lambda>w. stage_kind w = StageKind.Merge) (wf_stages wfl) \<longrightarrow> merge_commit st \<noteq> None))
    \<and> (\<forall>a \<in> set (attempts st). a \<noteq> - 1)"
proof -
  note r = restore_Inr [OF assms]
  have "done_invariants st = Inr ()
      \<and> (list_ex (\<lambda>w. stage_kind w = StageKind.Merge) (wf_stages wfl) \<longrightarrow> merge_commit st \<noteq> None)"
    if "status st = PipelineStatus.Done"
    using r(5) that by (cases "done_invariants st") (auto simp: done_error_def r(1) split: if_splits)
  then show ?thesis using r(3,4) by (auto simp: r(1) position_invalid_def)
qed

theorem restore_is_guarded_witness:
  "\<exists>st. restore (snapshot sample_merging) builtin_code = Inr st
     \<and> allowed (merge_gate st (stage_index st))"
proof -
  have "(case restore (snapshot sample_merging) builtin_code of
      Inr st \<Rightarrow> merge_in_flight st | Inl _ \<Rightarrow> False)" by code_simp
  then obtain st where s: "restore (snapshot sample_merging) builtin_code = Inr st" "merge_in_flight st"
    by (auto split: sum.splits)
  with restore_is_guarded [OF s(1)] show ?thesis by blast
qed

text \<open>The requests of a restored state carry the current ticket. If the request of the current
  stage can be built, \<open>outstanding_actions\<close> is the timeout of the current attempt (unless it was
  already reported) followed by that request with the current attempt, as rework when the task was
  sent back; the attempt counters are not touched.\<close>

theorem outstanding_actions_current:
  assumes "validate wfl team_roles = []" and "run_of task wfl evs st"
    and "status st = PipelineStatus.Running"
    and "stage_request st (stage_index st) (wf_stages wfl ! stage_index st) (attempt st) = Inr act"
  shows "outstanding_actions st =
    Inr ((if notified_timeout st = Some (stage_index st, attempt st) then []
          else [schedule (wf_stages wfl ! stage_index st) (attempt st)])
         @ [case pending_work_reason st of Some reason \<Rightarrow> as_return_to_work reason act | None \<Rightarrow> act])"
proof -
  note s = run_state [OF assms(1,2)]
  show ?thesis
    using outstanding_requests [of st act] s assms(3,4) by (simp add: requests_def)
qed

theorem outstanding_actions_current_witness:
  "outstanding_actions sample_state =
     Inr [ScheduleTimeout ''checks'' 3 300000 Notify,
          RunCommand ''checks'' 3 ''cargo test'' (Some ''h2'') (Some ''agend/t-1/fix'') None 300000 Notify]"
proof -
  have "status sample_state = PipelineStatus.Running" by code_simp
  moreover have "stage_request sample_state (stage_index sample_state)
      (wf_stages builtin_code ! stage_index sample_state) (attempt sample_state)
      = Inr (RunCommand ''checks'' 3 ''cargo test'' (Some ''h2'') (Some ''agend/t-1/fix'') None 300000 Notify)"
    by code_simp
  ultimately have "outstanding_actions sample_state =
    Inr ((if notified_timeout sample_state = Some (stage_index sample_state, attempt sample_state) then []
          else [schedule (wf_stages builtin_code ! stage_index sample_state) (attempt sample_state)])
         @ [case pending_work_reason sample_state of
              Some reason \<Rightarrow> as_return_to_work reason
                (RunCommand ''checks'' 3 ''cargo test'' (Some ''h2'') (Some ''agend/t-1/fix'') None 300000 Notify)
            | None \<Rightarrow> RunCommand ''checks'' 3 ''cargo test'' (Some ''h2'') (Some ''agend/t-1/fix'') None 300000 Notify])"
    by (rule outstanding_actions_current [OF sample_valid sample_run])
  moreover have "notified_timeout sample_state = None" "pending_work_reason sample_state = None"
    "schedule (wf_stages builtin_code ! stage_index sample_state) (attempt sample_state)
       = ScheduleTimeout ''checks'' 3 300000 Notify"
    by code_simp+
  ultimately show ?thesis by simp
qed

end
