(* ===== verification/Command_Template.thy ===== *)
theory Command_Template
  imports Workflow_Rules
begin

text \<open>
  Command templates and the shell. \<open>sh_read\<close> is the part of the POSIX shell that decides which
  characters of a command line are literal: the quoting rules of single quotes, double quotes and the
  backslash, and comments. \<open>sh_template\<close> reads a template the same way, with a placeholder standing for
  a literal word. A template that the save rules accept expands to a command line that the shell
  reads as the template with the values as literal words; the values that the state machine knows are
  enough to expand it.
\<close>

section \<open>How the shell reads quotes\<close>

text \<open>The characters after quote removal, each with a flag: literal, or still seen by the shell.\<close>

type_synonym sh_text = "(char \<times> bool) list"

definition literal :: "string \<Rightarrow> sh_text" where
  "literal s = map (\<lambda>c. (c, True)) s"

definition word_break :: "char \<Rightarrow> bool" where
  "word_break c \<longleftrightarrow> c \<in> set ([CHR 0x09, CHR 0x0A] @ '' ;&|()<>'')"

definition dquote_escape :: "char \<Rightarrow> bool" where
  "dquote_escape c \<longleftrightarrow> c \<in> {CHR ''$'', CHR 0x60, dquote, backslash}"

function sh_read :: "Quote \<Rightarrow> bool \<Rightarrow> string \<Rightarrow> sh_text" where
  "sh_read q word_start [] = []"
| "sh_read NoQuote word_start (c # cs) =
     (if c = squote then sh_read Single False cs
      else if c = dquote then sh_read Double False cs
      else if c = backslash then
        (case cs of
           [] \<Rightarrow> [(backslash, True)]
         | d # ds \<Rightarrow> if d = CHR 0x0A then sh_read NoQuote word_start ds
                    else (d, True) # sh_read NoQuote False ds)
      else if c = CHR ''#'' \<and> word_start then sh_read NoQuote True (dropWhile (\<lambda>x. x \<noteq> CHR 0x0A) cs)
      else (c, False) # sh_read NoQuote (word_break c) cs)"
| "sh_read Single word_start (c # cs) =
     (if c = squote then sh_read NoQuote False cs else (c, True) # sh_read Single False cs)"
| "sh_read Double word_start (c # cs) =
     (if c = dquote then sh_read NoQuote False cs
      else if c = backslash then
        (case cs of
           [] \<Rightarrow> [(backslash, True)]
         | d # ds \<Rightarrow> if d = CHR 0x0A then sh_read Double False ds
                    else if dquote_escape d then (d, True) # sh_read Double False ds
                    else (backslash, True) # (d, True) # sh_read Double False ds)
      else (c, c \<noteq> CHR ''$'' \<and> c \<noteq> CHR 0x60) # sh_read Double False cs)"
  by pat_completeness auto
termination
  by (relation "measure (\<lambda>(q, w, s). length s)") (simp_all add: length_dropWhile_le less_Suc_eq_le)

text \<open>A template without comments, read the same way, with the values of its placeholders.\<close>

function sh_template :: "(string \<Rightarrow> string) \<Rightarrow> Quote \<Rightarrow> string \<Rightarrow> sh_text" where
  "sh_template vals q rest =
     (case rest of
        [] \<Rightarrow> []
      | c # cs \<Rightarrow>
          (case placeholder_at rest of
             Some (p, name) \<Rightarrow> literal (vals name) @ sh_template vals q (drop (length p) rest)
           | None \<Rightarrow>
               if q = Single \<and> c = squote \<or> q = Double \<and> c = dquote then sh_template vals NoQuote cs
               else if q = NoQuote \<and> c = squote then sh_template vals Single cs
               else if q = NoQuote \<and> c = dquote then sh_template vals Double cs
               else if q \<noteq> Single \<and> c = backslash then
                 (case cs of
                    [] \<Rightarrow> [(backslash, True)]
                  | d # ds \<Rightarrow>
                      (if d = CHR 0x0A then []
                       else if q = NoQuote \<or> dquote_escape d then [(d, True)]
                       else [(backslash, True), (d, True)])
                      @ sh_template vals q ds)
               else (c, q = Single \<or> q = Double \<and> c \<noteq> CHR ''$'' \<and> c \<noteq> CHR 0x60)
                      # sh_template vals q cs))"
  by pat_completeness auto
termination
  by (relation "measure (\<lambda>(vals, q, rest). length rest)") (auto dest: placeholder_at_Some)

declare sh_template.simps [simp del]

section \<open>Quoted values\<close>

lemma literal_simps [simp]: "literal [] = []" "literal (c # s) = (c, True) # literal s"
  by (simp_all add: literal_def)

lemma sh_read_quoted:
  "sh_read Single w (concat (map (\<lambda>c. if c = squote then [squote, backslash, squote, squote] else [c]) v)
     @ squote # out) = literal v @ sh_read NoQuote False out"
proof (induction v arbitrary: w)
  case (Cons c v)
  then show ?case by (cases "c = squote") simp_all
qed simp

lemma sh_read_shell_quote: "sh_read NoQuote w (shell_quote v @ out) = literal v @ sh_read NoQuote False out"
  by (simp add: shell_quote_def sh_read_quoted)

section \<open>Accepted templates\<close>

text \<open>The cases of the scan on an accepted template.\<close>

lemma scan_Inr_cases:
  assumes "scan_placeholders q used rest = Inr all"
  obtains (empty) "rest = []" "all = used"
  | (placeholder) p name where "placeholder_at rest = Some (p, name)" "q = NoQuote" "rest \<noteq> []"
      "scan_placeholders q (if name \<in> set used then used else used @ [name]) (drop (length p) rest) = Inr all"
  | (closing) c cs where "rest = c # cs" "placeholder_at rest = None"
      "q = Single \<and> c = squote \<or> q = Double \<and> c = dquote" "scan_placeholders NoQuote used cs = Inr all"
  | (single) cs where "rest = squote # cs" "placeholder_at rest = None" "q = NoQuote"
      "scan_placeholders Single used cs = Inr all"
  | (double) cs where "rest = dquote # cs" "placeholder_at rest = None" "q = NoQuote"
      "scan_placeholders Double used cs = Inr all"
  | (escape) cs where "rest = backslash # cs" "placeholder_at rest = None" "q \<noteq> Single"
      "placeholder_at cs = None" "scan_placeholders q used (drop 1 cs) = Inr all"
  | (plain) c cs where "rest = c # cs" "placeholder_at rest = None"
      "\<not> (q = Single \<and> c = squote \<or> q = Double \<and> c = dquote)" "\<not> (q = NoQuote \<and> (c = squote \<or> c = dquote))"
      "\<not> (q \<noteq> Single \<and> c = backslash)" "scan_placeholders q used cs = Inr all"
proof (cases rest)
  case Nil
  then show thesis using assms empty by (simp add: scan_placeholders.simps [of q used])
next
  case (Cons c cs)
  show thesis
  proof (cases "placeholder_at rest")
    case None
    then show thesis
      using assms Cons closing single double escape plain
      by (subst (asm) scan_placeholders.simps) (auto split: if_splits option.splits)
  next
    case (Some x)
    then show thesis
      using assms Cons placeholder
      by (cases x) (subst (asm) scan_placeholders.simps, auto split: if_splits)
  qed
qed

lemma scan_used: "scan_placeholders q used rest = Inr all \<Longrightarrow> set used \<subseteq> set all"
proof (induction "length rest" arbitrary: q used rest rule: less_induct)
  case less
  from less.prems show ?case
  proof (cases rule: scan_Inr_cases)
    case (placeholder p name)
    then have "length (drop (length p) rest) < length rest" by (auto dest: placeholder_at_Some)
    from less.hyps [OF this placeholder(4)] show ?thesis by (auto split: if_splits)
  next
    case (escape cs)
    then have "length (drop 1 cs) < length rest" by simp
    from less.hyps [OF this escape(5)] show ?thesis .
  qed (use less.hyps in \<open>auto\<close>)
qed

lemma placeholder_at_not_Nil: "placeholder_at rest = Some x \<Longrightarrow> rest \<noteq> []"
  by auto

lemma expand_from_placeholder:
  assumes "placeholder_at rest = Some (p, name)"
  shows "expand_from ctx rest =
    and_then (ok_or (placeholder_value ctx name) (MissingValue name)) (\<lambda>v.
    and_then (expand_from ctx (drop (length p) rest)) (\<lambda>out. Inr (shell_quote v @ out)))"
  using assms placeholder_at_not_Nil [OF assms] by (subst expand_from.simps) (cases rest, simp_all)

lemma expand_from_plain:
  "placeholder_at (c # cs) = None \<Longrightarrow>
     expand_from ctx (c # cs) = and_then (expand_from ctx cs) (\<lambda>out. Inr (c # out))"
  by (subst expand_from.simps) simp

lemma sh_template_placeholder:
  assumes "placeholder_at rest = Some (p, name)"
  shows "sh_template vals q rest = literal (vals name) @ sh_template vals q (drop (length p) rest)"
  using assms placeholder_at_not_Nil [OF assms] by (subst sh_template.simps) (cases rest, simp_all)

lemmas template_step = expand_from_plain sh_template.simps [of _ _ "c # cs" for c cs]

text \<open>The shell reads the expansion of an accepted template as the template with literal values.\<close>

lemma expand_accepted:
  assumes "scan_placeholders q used rest = Inr all"
    and "\<And>name. name \<in> set all \<Longrightarrow> placeholder_value ctx name = Some (vals name)"
  shows "\<exists>out. expand_from ctx rest = Inr out
    \<and> (CHR ''#'' \<notin> set rest \<longrightarrow> (\<forall>w. sh_read q w out = sh_template vals q rest))"
  using assms(1)
proof (induction "length rest" arbitrary: q used rest rule: less_induct)
  case less
  have smaller: "\<exists>out. expand_from ctx s = Inr out
      \<and> (CHR ''#'' \<notin> set rest \<longrightarrow> (\<forall>w. sh_read q' w out = sh_template vals q' s))"
    if "scan_placeholders q' u s = Inr all" "length s < length rest" "\<forall>x \<in> set s. x \<in> set rest" for q' u s
    using less.hyps [OF that(2,1)] that(3) by blast
  from less.prems show ?case
  proof (cases rule: scan_Inr_cases)
    case empty
    then show ?thesis by (simp add: expand_from.simps [of ctx] sh_template.simps [of vals])
  next
    case (placeholder p name)
    have name: "placeholder_value ctx name = Some (vals name)"
      using scan_used [OF placeholder(4)] assms(2) by (auto split: if_splits)
    have "length (drop (length p) rest) < length rest" using placeholder by (auto dest: placeholder_at_Some)
    from smaller [OF placeholder(4) this] in_set_dropD [of _ "length p" rest] show ?thesis
      using name placeholder(2)
      by (auto simp: expand_from_placeholder [OF placeholder(1)] sh_template_placeholder [OF placeholder(1)]
          sh_read_shell_quote)
  next
    case (closing c cs)
    then show ?thesis using smaller [OF closing(4)] by (auto simp: template_step)
  next
    case (single cs)
    then show ?thesis using smaller [OF single(4)] by (auto simp: template_step)
  next
    case (double cs)
    then show ?thesis using smaller [OF double(4)] by (auto simp: template_step)
  next
    case (plain c cs)
    then show ?thesis using smaller [OF plain(6)] by (cases q) (auto simp: template_step)
  next
    case (escape cs)
    show ?thesis
    proof (cases cs)
      case Nil
      then show ?thesis using escape
        by (cases q) (simp_all add: template_step expand_from.simps [of ctx "[]"])
    next
      case (Cons d ds)
      then show ?thesis using escape smaller [OF escape(5)] by (cases q) (auto simp: template_step)
    qed
  qed
qed

lemma accepted_command:
  assumes "static_errors wfl team_roles = ([] :: 'r WorkflowError list)" and "i < length (wf_stages wfl)"
    and "ws_stage (wf_stages wfl ! i) = Stage.Command c"
  obtains used where "command_placeholders c = Inr used"
    "\<And>name. name \<in> set used \<Longrightarrow> has_placeholder_source wfl i name"
proof -
  have "stage_errors wfl team_roles i = ([] :: 'r WorkflowError list)"
    using assms(1,2) by (auto simp: static_errors_Nil)
  then have e: "command_errors wfl i (ws_id (wf_stages wfl ! i)) c = ([] :: 'r WorkflowError list)"
    using assms(3) by (simp add: stage_errors_def Let_def)
  show thesis
  proof (cases "command_placeholders c")
    case (Inl p)
    with e show thesis by (simp add: command_errors_def split: if_splits)
  next
    case (Inr used)
    with e have "\<And>name. name \<in> set used \<Longrightarrow> has_placeholder_source wfl i name"
      by (auto simp: command_errors_def filter_empty_conv split: if_splits)
    with Inr show thesis by (rule that)
  qed
qed

section \<open>Properties\<close>



text \<open>
  The restriction to templates without comments is needed. The save rule does not know comments, so
  an apostrophe in one turns its view of quoting around: this template is accepted although its
  placeholder stands between quotes, and the shell sees the operator in the value.
\<close>

definition comment_template :: string where
  "comment_template = ''# don'' @ [squote] @ ''t'' @ [CHR 0x0A] @ ''echo '' @ [squote] @ ''{branch}'' @ [squote]
     @ '' # don'' @ [squote] @ ''t''"

lemma comment_hides_quotes:
  "command_placeholders comment_template = Inr [''branch'']
   \<and> (case expand_command_placeholders comment_template \<lparr>ctx_pr = None, ctx_head = None, ctx_branch = Some ''a;b''\<rparr> of
        Inr out \<Rightarrow> (CHR '';'', False) \<in> set (sh_read NoQuote True out)
      | Inl _ \<Rightarrow> False)"
  by code_simp

end
