(* ===== verification/Pipeline_Progress.thy ===== *)
theory Pipeline_Progress
  imports Pipeline_Safety Command_Template
begin

text \<open>
  Progress of the workflow engine: from every state that a run of a saved workflow can reach, unless
  the task was cancelled or failed, some further events complete the task. The successful answer to
  the request of the current stage takes the task to a later stage; an approval that has to pick a
  child of a fanout which was reset in the meantime is first answered with a change request.
\<close>

section \<open>What a state needs to move on\<close>

fun uses_pr :: "Stage \<Rightarrow> bool" where
  "uses_pr (Stage.Command c) = (case command_placeholders c of Inr names \<Rightarrow> ''pr'' \<in> set names | Inl _ \<Rightarrow> False)"
| "uses_pr _ = False"

definition submit_before :: "nat \<Rightarrow> PipelineState \<Rightarrow> bool" where
  "submit_before i st \<longleftrightarrow>
     list_ex (\<lambda>w. uses_pr (ws_stage w)) (stages st)
     \<and> list_ex (\<lambda>w. stage_kind w = StageKind.Submit) (take i (stages st))"

text \<open>If a command of the workflow names the change, a task that was submitted knows its id.\<close>

definition pr_known :: "PipelineState \<Rightarrow> bool" where
  "pr_known st \<longleftrightarrow> (submit_before (stage_index st) st \<longrightarrow> change_id st \<noteq> None)"

definition at_pick :: "PipelineState \<Rightarrow> bool" where
  "at_pick st \<longleftrightarrow> pick_fanout_index_for_approval (workflow st) (stage_index st) \<noteq> None"

text \<open>An approval that picks has children to pick from, the tentative choice among them.\<close>

definition pick_ready :: "PipelineState \<Rightarrow> bool" where
  "pick_ready st \<longleftrightarrow>
     (at_pick st \<longrightarrow> fanout_child_task_ids st \<noteq> []
        \<and> (case pending_pick st of Some p \<Rightarrow> p \<in> set (fanout_child_task_ids st) | None \<Rightarrow> True))"

text \<open>The workflow passed the static save rules.\<close>

definition saved :: "Workflow \<Rightarrow> bool" where
  "saved wfl \<longleftrightarrow>
     (\<exists>roles. static_errors wfl roles = ([] :: (Scenario \<times> Stuck) WorkflowError list)) \<and> wf_stages wfl \<noteq> []"

lemma saved_well_formed: "saved wfl \<Longrightarrow> well_formed wfl"
  unfolding saved_def using static_errors_well_formed by blast

lemma validate_saved: "validate wfl roles = [] \<Longrightarrow> saved wfl"
  using validate_Nil(2) [of wfl roles]
  by (auto simp: saved_def validate_def Let_def split: if_splits sum.splits)

lemma submit_before_iff:
  "i \<le> length (stages st) \<Longrightarrow> submit_before i st \<longleftrightarrow>
     list_ex (\<lambda>w. uses_pr (ws_stage w)) (stages st) \<and> (\<exists>j < i. stage_kind (stages st ! j) = StageKind.Submit)"
  by (auto simp: submit_before_def take_ex_nth)

section \<open>Commands can be run\<close>

lemma command_expands:
  assumes saved: "saved (workflow st)" and i: "i < length (stages st)"
    and w: "ws_stage (stages st ! i) = Stage.Command c" and cov: "cov i st"
    and pr: "submit_before i st \<Longrightarrow> change_id st \<noteq> None"
  shows "\<exists>out. expand_command_placeholders c
    \<lparr>ctx_pr = change_id st, ctx_head = current_head st, ctx_branch = branch st\<rparr> = Inr out"
proof -
  let ?ctx = "\<lparr>ctx_pr = change_id st, ctx_head = current_head st, ctx_branch = branch st\<rparr>"
  from saved obtain roles where
    "static_errors (workflow st) roles = ([] :: (Scenario \<times> Stuck) WorkflowError list)"
    by (auto simp: saved_def)
  from accepted_command [OF this i w] obtain used where used: "command_placeholders c = Inr used"
    "\<And>name. name \<in> set used \<Longrightarrow> has_placeholder_source (workflow st) i name" by blast
  have head: "current_head st \<noteq> None \<and> branch st \<noteq> None" if "list_ex is_branch_work (take i (stages st))"
  proof -
    from that obtain b where b: "b < i" "is_branch_work (stages st ! b)" by (auto simp: take_ex_nth)
    with covD [OF cov b(1)] i show ?thesis
      by (cases "ws_stage (stages st ! b)")
        (auto simp: is_branch_work_def stage_covered_def elim!: is_branch_work_stage.elims)
  qed
  have "list_ex (\<lambda>w. uses_pr (ws_stage w)) (stages st)" if "''pr'' \<in> set used"
    using that used(1) w nth_mem [OF i] by (auto simp: list_ex_iff intro!: bexI [of _ "stages st ! i"])
  then have "placeholder_value ?ctx name \<noteq> None" if "name \<in> set used" for name
    using used(2) [OF that] head pr that
    by (auto simp: has_placeholder_source_def placeholder_value_def submit_before_def split: if_splits)
  then have "placeholder_value ?ctx name = Some (the (placeholder_value ?ctx name))" if "name \<in> set used" for name
    using that by auto
  from expand_accepted [of NoQuote "[]" c used ?ctx "\<lambda>name. the (placeholder_value ?ctx name)"] this used(1)
  show ?thesis by (auto simp: command_placeholders_def expand_command_placeholders_def)
qed

lemma stage_request_runs:
  assumes "saved (workflow st)" and "i < length (stages st)" and "cov i st"
    and "submit_before i st \<Longrightarrow> change_id st \<noteq> None"
  shows "\<exists>act. stage_request st i (stages st ! i) a = Inr act"
proof (cases "ws_stage (stages st ! i)")
  case (Command c)
  then show ?thesis using command_expands [OF assms(1,2) Command assms(3,4)]
    by (auto simp: stage_request_def)
next
  case Merge
  then have "stage_kind (stages st ! i) = StageKind.Merge" by simp
  from gate_open [OF saved_well_formed [OF assms(1)] assms(3,2) this] Merge show ?thesis
    by (auto simp: stage_request_def)
qed (simp_all add: stage_request_def)

section \<open>Entering the next stage\<close>

lemma change_id_entered [simp]: "change_id (entered j st) = change_id st"
  and pending_pick_entered [simp]: "pending_pick (entered j st) = None"
  by (simp_all add: entered_def Let_def prepare_stage_def reset_fanout_at_def clear_fanout_def split: option.splits)

definition moved_on :: "nat \<Rightarrow> PipelineState \<Rightarrow> bool" where
  "moved_on i st \<longleftrightarrow>
     status st = PipelineStatus.Done
     \<or> (status st = PipelineStatus.Running \<and> i \<le> stage_index st \<and> stage_index st < length (stages st)
        \<and> pr_known st \<and> pick_ready st)"

lemma enter_moves_on:
  assumes ok: "entry_ok i st" and room: "budget (Suc K) st" and saved: "saved (workflow st)"
    and pr: "submit_before i st \<Longrightarrow> change_id st \<noteq> None"
    and kids: "\<And>g. i = Suc g \<Longrightarrow> stage_kind (stages st ! g) = StageKind.Fanout \<Longrightarrow> fanout_child_task_ids st \<noteq> []"
  shows "\<exists>st' acts. enter_stage i st = Inr (st', acts) \<and> moved_on i st'"
proof (cases rule: enter_stage_cases [of i st])
  case (at_stage j)
  note d = entry_okD [OF ok] and e = entered_inv [OF ok room at_stage(1-4)]
  have len: "j < length (attempts st)" using base_invD(1) [OF d(2)] at_stage(2) by simp
  have skipped: "stage_kind (stages st ! k) = StageKind.Approval" if "i \<le> k" "k < j" for k
    using at_stage(3) [OF that] by (rule approval_for_stage_kind)
  have pr': "change_id st \<noteq> None" if "submit_before j (entered j st)"
  proof (rule pr)
    from that at_stage(2) obtain k where k: "k < j" "stage_kind (stages st ! k) = StageKind.Submit"
      and u: "list_ex (\<lambda>w. uses_pr (ws_stage w)) (stages st)"
      by (auto simp: submit_before_iff)
    then have "k < i" using skipped [of k] by (cases "i \<le> k") auto
    with k(2) u d(5) show "submit_before i st" by (auto simp: submit_before_iff)
  qed
  have "\<exists>act. stage_request (entered j st) j (stages (entered j st) ! j) (attempts st ! j + 1) = Inr act"
    by (rule stage_request_runs) (use saved at_stage(2) e(4) pr' in simp_all)
  then obtain act where "stage_request (entered j st) j (stages st ! j) (attempts st ! j + 1) = Inr act" by auto
  then have enter: "enter_stage i st = Inr (entered j st, [schedule (stages st ! j) (attempts st ! j + 1), act])"
    using at_stage(5) request_entered [OF len, of "stages st ! j"] by simp
  have "pick_ready (entered j st)"
  proof (unfold pick_ready_def, intro impI conjI)
    assume "at_pick (entered j st)"
    then obtain g where "pick_fanout_index_for_approval (workflow st) j = Some g" by (auto simp: at_pick_def)
    from pick_index_sound [OF d(1) at_stage(2) this] obtain src
      where g: "j = Suc g" "ws_stage (stages st ! g) = Stage.Fanout src Pick" by blast
    have "\<not> i \<le> g" using skipped [of g] g by auto
    then have "i = Suc g" using g(1) at_stage(1) by simp
    with kids [of g] g have "fanout_child_task_ids st \<noteq> []" by simp
    moreover have "stage_kind (stages st ! j) \<noteq> StageKind.Fanout"
      using well_formed_pick [OF d(1) _ g(2)] g(1) at_stage(2) by simp
    ultimately show "fanout_child_task_ids (entered j st) \<noteq> []" using at_stage(2) by simp
  qed simp
  then show ?thesis
    using enter d(8) at_stage(1,2) pr' by (auto simp: moved_on_def pr_known_def)
qed (auto simp: moved_on_def)

section \<open>The successful answer of each stage\<close>

abbreviation cur :: "PipelineState \<Rightarrow> WorkflowStage" where
  "cur st \<equiv> stages st ! stage_index st"

lemma step_answer:
  assumes "status st = PipelineStatus.Running" and "stage_index st < length (stages st)"
    and "identity ev = Some i" and "id_stage_id i = ws_id (cur st)" and "id_attempt i = attempt st"
    and "id_head i = None \<or> id_head i = Some (current_head st)"
    and "merge_in_flight st \<Longrightarrow> allowed_in_flight ev"
  shows "step st ev = handle_event st ev"
proof -
  have "check_identity st i = Inr ()" using assms(1,2,4-6) by (auto simp: check_identity_Inr)
  then show ?thesis using assms(3,7) by (auto simp: step_def)
qed

lemma live_answer:
  assumes live: "live st" and "stage_kind (cur st) \<noteq> StageKind.Merge" and "identity ev = Some i"
    and "id_stage_id i = ws_id (cur st)" and "id_attempt i = attempt st"
    and "id_head i = None \<or> id_head i = Some (current_head st)"
  shows "step st ev = handle_event st ev"
  using assms liveD(3) [OF live] state_inv_runningD(1) [OF liveD(2,3) [OF live]]
  by (intro step_answer [of st ev i]) (auto simp: merge_in_flight_iff)

lemma submit_moves_on:
  assumes live: "live st" and room: "budget (Suc K) st" and saved: "saved (workflow st)"
    and k: "stage_kind (cur st) = StageKind.Submit"
  shows "\<exists>st' acts. step st (Submitted (ws_id (cur st)) (attempt st) (Some pr)) = Inr (st', acts)
    \<and> moved_on (Suc (stage_index st)) st'"
proof -
  let ?st = "st\<lparr>change_id := Some pr\<rparr>"
  have "\<exists>st' acts. enter_stage (Suc (stage_index st)) ?st = Inr (st', acts) \<and> moved_on (Suc (stage_index st)) st'"
    by (rule enter_moves_on [OF submitted_entry [OF live k]])
      (use room saved k in \<open>auto simp: budget_def\<close>)
  moreover have "step st (Submitted (ws_id (cur st)) (attempt st) (Some pr)) = on_submitted (Some pr) st"
    using k by (subst live_answer [OF live]) auto
  ultimately show ?thesis using k by (auto simp: on_submitted_def ensure_current_stage_live [OF live])
qed

text \<open>A change id that is known stays known past a stage that is not a submission.\<close>

lemma pr_known_next:
  assumes "pr_known st" and "stage_index st < length (stages st)" and "stage_kind (cur st) \<noteq> StageKind.Submit"
    and "submit_before (Suc (stage_index st)) st'" and "workflow st' = workflow st"
    and "change_id st' = change_id st"
  shows "change_id st' \<noteq> None"
proof -
  from assms(2,4,5) obtain j where "j < Suc (stage_index st)" "stage_kind (stages st ! j) = StageKind.Submit"
    and "list_ex (\<lambda>w. uses_pr (ws_stage w)) (stages st)"
    by (auto simp: submit_before_iff)
  then have "submit_before (stage_index st) st"
    using assms(2,3) by (auto simp: submit_before_iff less_Suc_eq)
  then show ?thesis using assms(1,6) by (simp add: pr_known_def)
qed

lemma command_moves_on:
  assumes live: "live st" and room: "budget (Suc K) st" and saved: "saved (workflow st)" and pr: "pr_known st"
    and k: "stage_kind (cur st) = StageKind.Command"
  shows "\<exists>st' acts. step st (CommandFinished (ws_id (cur st)) (attempt st) (current_head st) (Some 0)) = Inr (st', acts)
    \<and> moved_on (Suc (stage_index st)) st'"
proof -
  note r = state_inv_runningD [OF liveD(2,3) [OF live]]
  let ?st = "push_check (ws_id (cur st)) (current_head st) st"
  have frame: "workflow ?st = workflow st" "change_id ?st = change_id st" "attempts ?st = attempts st"
    by (simp_all add: push_check_def)
  have "\<exists>st' acts. enter_stage (Suc (stage_index st)) ?st = Inr (st', acts) \<and> moved_on (Suc (stage_index st)) st'"
  proof (rule enter_moves_on [OF command_entry [OF live k refl refl]])
    show "change_id ?st \<noteq> None" if "submit_before (Suc (stage_index st)) ?st"
      by (rule pr_known_next [OF pr r(1) _ that frame(1,2)]) (simp add: k)
  qed (use room saved frame k in \<open>auto simp: budget_def\<close>)
  moreover have "step st (CommandFinished (ws_id (cur st)) (attempt st) (current_head st) (Some 0))
      = on_command_finished (ws_id (cur st)) (current_head st) (Some 0) st"
    using k by (subst live_answer [OF live]) auto
  ultimately show ?thesis using k by (auto simp: on_command_finished_def ensure_current_stage_live [OF live])
qed

text \<open>A product of every kind of output.\<close>

fun some_product :: "WorkOutput \<Rightarrow> WorkProduct" where
  "some_product Branch = BranchProduct ''branch'' ''head'' ''patch''"
| "some_product Result = ResultProduct ''result'' None"
| "some_product Plan = PlanProduct []"

lemma work_moves_on:
  assumes live: "live st" and room: "budget (Suc K) st" and saved: "saved (workflow st)" and pr: "pr_known st"
    and w: "ws_stage (cur st) = Stage.Work role ins out"
  shows "\<exists>st' acts. step st (WorkCompleted (ws_id (cur st)) (attempt st) (some_product out)) = Inr (st', acts)
    \<and> moved_on (Suc (stage_index st)) st'"
proof -
  note r = state_inv_runningD [OF liveD(2,3) [OF live]]
  let ?st = "with_product (some_product out) st"
  have fits: "product_fits out (some_product out)" by (cases out) simp_all
  have frame: "change_id ?st = change_id st"
    by (cases out) (simp_all add: with_product_def invalidate_head_bound_def drop_approvals_def clear_partial_def
        clear_fanout_def Let_def)
  have "\<exists>st' acts. enter_stage (Suc (stage_index st)) ?st = Inr (st', acts) \<and> moved_on (Suc (stage_index st)) st'"
  proof (rule enter_moves_on [OF work_entry [OF live w fits]])
    show "change_id ?st \<noteq> None" if "submit_before (Suc (stage_index st)) ?st"
      by (rule pr_known_next [OF pr r(1) _ that _ frame]) (simp_all add: w)
  qed (use room saved w in \<open>auto simp: budget_def\<close>)
  moreover have "step st (WorkCompleted (ws_id (cur st)) (attempt st) (some_product out))
      = on_work_completed (some_product out) st"
    using w by (subst live_answer [OF live]) auto
  ultimately show ?thesis
    using w fits r(1) by (auto simp: on_work_completed_def with_product_def current_stage_def)
qed

text \<open>One child is enough for a fanout; a \<open>First\<close> join has to name it.\<close>

definition join_choice :: "FanoutJoin \<Rightarrow> string option" where
  "join_choice join = (if join = First then Some ''child'' else None)"

lemma fanout_moves_on:
  assumes live: "live st" and room: "budget (Suc K) st" and saved: "saved (workflow st)" and pr: "pr_known st"
    and w: "ws_stage (cur st) = Stage.Fanout src join"
  shows "\<exists>st' acts. step st (FanoutCompleted (ws_id (cur st)) (attempt st) [''child''] (join_choice join)) = Inr (st', acts)
    \<and> moved_on (Suc (stage_index st)) st'"
proof -
  note r = state_inv_runningD [OF liveD(2,3) [OF live]]
  let ?st = "st\<lparr>selected_fanout_child := None, fanout_child_task_ids := [''child'']\<rparr>"
  obtain st1 acts where j: "join_children join (join_choice join) ?st = Inr (st1, acts)"
    and kids: "fanout_child_task_ids st1 \<noteq> []" and cid: "change_id st1 = change_id st"
    by (cases join) (simp_all add: join_children_def join_choice_def keep_only_winner_def Let_def)
  have "\<exists>st' acts. enter_stage (Suc (stage_index st)) st1 = Inr (st', acts) \<and> moved_on (Suc (stage_index st)) st'"
  proof (rule enter_moves_on [OF joined_entry [OF live w j]])
    show "change_id st1 \<noteq> None" if "submit_before (Suc (stage_index st)) st1"
      by (rule pr_known_next [OF pr r(1) _ that _ cid]) (use join_children_Inr(1) [OF j] in \<open>simp_all add: w\<close>)
  qed (use room saved kids join_children_Inr(1,4) [OF j] in \<open>auto simp: budget_def\<close>)
  moreover have "step st (FanoutCompleted (ws_id (cur st)) (attempt st) [''child''] (join_choice join))
      = on_fanout_completed [''child''] (join_choice join) st"
    using w by (subst live_answer [OF live]) auto
  ultimately show ?thesis
    using w r(1) j by (auto simp: on_fanout_completed_def ensure_current_stage_live [OF live] current_stage_def
        has_duplicate_iff)
qed

lemma merge_completes:
  assumes wf: "well_formed (workflow st)" and inv: "state_inv st" and run: "status st = PipelineStatus.Running"
    and k: "stage_kind (cur st) = StageKind.Merge"
  shows "\<exists>h st' acts. step st (MergeCompleted (ws_id (cur st)) (attempt st) h commit) = Inr (st', acts)
    \<and> status st' = PipelineStatus.Done"
proof -
  note r = state_inv_runningD [OF inv run]
  from gate_open(2) [OF wf r(3,1) k] obtain h where h: "current_head st = Some h" by blast
  have "step st (MergeCompleted (ws_id (cur st)) (attempt st) h commit) = on_merge_completed commit st"
    using h run r(1) by (subst step_answer [of st]) auto
  also have "\<dots> = Inr (st\<lparr>merge_commit := Some commit, pending_head_changes := [], status := PipelineStatus.Done\<rparr>,
      [TaskDone (Some commit)])"
    using run r(1,7) k
    by (simp add: on_merge_completed_def ensure_current_stage_def ensure_running_def current_kind_is_iff
        current_stage_def)
  finally show ?thesis by (intro exI conjI) (assumption, simp)
qed

section \<open>Approvals\<close>

text \<open>The child to vote for: the one voted for so far, or else the first.\<close>

definition vote :: "PipelineState \<Rightarrow> string option" where
  "vote st =
     (if at_pick st
      then Some (case pending_pick st of Some p \<Rightarrow> p | None \<Rightarrow> hd (fanout_child_task_ids st)) else None)"

lemma vote_accepted:
  assumes "pick_ready st"
  shows "tentative_pick (vote st) st = Inr (st\<lparr>pending_pick := (if at_pick st then vote st else pending_pick st)\<rparr>)"
    "at_pick st \<Longrightarrow> \<exists>x \<in> set (fanout_child_task_ids st). vote st = Some x"
  using assms
  by (auto simp: tentative_pick_def vote_def pick_ready_def at_pick_def split: option.splits)

lemma settle_vote:
  assumes "at_pick st \<Longrightarrow> pending_pick st \<noteq> None"
  shows "\<exists>st' acts. settle_pick st = Inr (st', acts) \<and> change_id st' = change_id st"
  using assms by (auto simp: settle_pick_def at_pick_def keep_only_winner_def Let_def)

lemma approval_vote:
  assumes live: "live st" and room: "budget (Suc K) st" and saved: "saved (workflow st)" and pr: "pr_known st"
    and ready: "pick_ready st" and w: "ws_stage (cur st) = Stage.Approval by count bd"
    and rv: "reviewer \<notin> set (approval_reviewers st)" "reviewer \<noteq> []"
  shows "\<exists>st' acts. step st (ApprovalGranted (ws_id (cur st)) (attempt st) reviewer (current_head st) (vote st))
      = Inr (st', acts)
    \<and> (moved_on (Suc (stage_index st)) st'
       \<or> st' = st\<lparr>pending_pick := (if at_pick st then vote st else pending_pick st),
                   approval_reviewers := approval_reviewers st @ [reviewer]\<rparr>
         \<and> length (approval_reviewers st) + 1 < unat count)"
proof -
  note d = liveD [OF live] and r = state_inv_runningD [OF liveD(2,3) [OF live]]
  define st2 where "st2 = st\<lparr>pending_pick := (if at_pick st then vote st else pending_pick st),
    approval_reviewers := approval_reviewers st @ [reviewer]\<rparr>"
  let ?rec = "record_approval (ws_id (cur st)) bd (current_head st) st2"
  have ca: "current_approval st = Inr (bd, count)" using ensure_approval_live [OF live] w by simp
  then have head: "bd \<Longrightarrow> current_head st \<noteq> None" by (auto simp: result_split)
  have eq: "step st (ApprovalGranted (ws_id (cur st)) (attempt st) reviewer (current_head st) (vote st)) =
      (if length (approval_reviewers st) + 1 < unat count then Inr (st2, [])
       else and_then (settle_pick ?rec) (\<lambda>(st3, acts).
         and_then (enter_stage (Suc (stage_index st)) st3) (\<lambda>(st4, acts2). Inr (st4, acts @ acts2))))"
    using w by (subst live_answer [OF live])
      (auto simp: on_approval_granted_def ca rv(1) vote_accepted(1) [OF ready] Let_def st2_def)
  show ?thesis
  proof (cases "length (approval_reviewers st) + 1 < unat count")
    case True
    then show ?thesis using eq by (auto simp: st2_def)
  next
    case full: False
    have "at_pick ?rec = at_pick st" by (simp add: at_pick_def record_approval_def st2_def)
    moreover have "pending_pick ?rec = pending_pick st2" "change_id ?rec = change_id st"
      by (simp_all add: record_approval_def st2_def)
    ultimately obtain st3 acts where s: "settle_pick ?rec = Inr (st3, acts)" "change_id st3 = change_id st"
      using settle_vote [of ?rec] by (auto simp: st2_def vote_def)
    note e = approval_entry [OF live w refl refl head rv full st2_def s(1)]
    have "\<exists>st' acts. enter_stage (Suc (stage_index st)) st3 = Inr (st', acts) \<and> moved_on (Suc (stage_index st)) st'"
    proof (rule enter_moves_on [OF e(1)])
      show "change_id st3 \<noteq> None" if "submit_before (Suc (stage_index st)) st3"
        by (rule pr_known_next [OF pr r(1) _ that e(3) s(2)]) (simp add: w)
    qed (use room saved e w in \<open>auto simp: budget_def\<close>)
    then show ?thesis using eq full s(1) by auto
  qed
qed

lemma machine_live:
  assumes "machine_inv (Suc k) st" and "status st = PipelineStatus.Running" and "stage_kind (cur st) \<noteq> StageKind.Merge"
  shows "live st" "budget (Suc k) st"
proof -
  have nf: "\<not> merge_in_flight st" using assms(3) by (simp add: merge_in_flight_iff)
  show "live st" using live_of_running [of st] assms nf by (auto simp: machine_inv_def)
  show "budget (Suc k) st" using assms(1) budget_mono [of "Suc k + length (pending_head_changes st)" st "Suc k"]
    by (simp add: machine_inv_def)
qed

lemma approvals_move_on:
  assumes "machine_inv (Suc n) st" and "status st = PipelineStatus.Running" and "saved (workflow st)"
    and "pr_known st" and "pick_ready st" and "ws_stage (cur st) = Stage.Approval by count bd"
    and "unat count - length (approval_reviewers st) \<le> n" and "length (approval_reviewers st) < unat count"
  shows "\<exists>evs st'. accepts step st evs st' \<and> list_all event_ok evs \<and> length evs \<le> n
    \<and> moved_on (Suc (stage_index st)) st'"
  using assms
proof (induction n arbitrary: st)
  case 0
  then show ?case by simp
next
  case (Suc n)
  have k: "stage_kind (cur st) \<noteq> StageKind.Merge" using Suc.prems(6) by simp
  note l = machine_live [OF Suc.prems(1,2) k]
  have "finite (insert [] (set (approval_reviewers st)))" by simp
  from ex_new_if_finite [OF _ this] obtain reviewer
    where rv: "reviewer \<notin> set (approval_reviewers st)" "reviewer \<noteq> []"
    using infinite_UNIV_listI by blast
  let ?ev = "ApprovalGranted (ws_id (cur st)) (attempt st) reviewer (current_head st) (vote st)"
  have ev: "event_ok ?ev" using rv(2) by simp
  from approval_vote [OF l(1,2) Suc.prems(3-6) rv] obtain st' acts
    where s: "step st ?ev = Inr (st', acts)"
      and c: "moved_on (Suc (stage_index st)) st'
         \<or> st' = st\<lparr>pending_pick := (if at_pick st then vote st else pending_pick st),
                     approval_reviewers := approval_reviewers st @ [reviewer]\<rparr>
           \<and> length (approval_reviewers st) + 1 < unat count" by blast
  from c show ?case
  proof
    assume "moved_on (Suc (stage_index st)) st'"
    then show ?thesis using accepts_Cons [where f = step, OF s accepts_nil] ev by (intro exI [of _ "[?ev]"]) auto
  next
    assume c: "st' = st\<lparr>pending_pick := (if at_pick st then vote st else pending_pick st),
        approval_reviewers := approval_reviewers st @ [reviewer]\<rparr>
      \<and> length (approval_reviewers st) + 1 < unat count"
    have inv: "machine_inv (Suc n) st'" using Suc.prems(1) ev s by (rule machine.step_counted)
    have "pr_known st'" using Suc.prems(4) c by (simp add: pr_known_def submit_before_def)
    moreover have "pick_ready st'"
      using Suc.prems(5) vote_accepted(2) [OF Suc.prems(5)] c by (auto simp: pick_ready_def at_pick_def)
    moreover have "unat count - length (approval_reviewers st') \<le> n" using Suc.prems(7) c by simp
    ultimately obtain evs st''
      where "accepts step st' evs st''" "list_all event_ok evs" "length evs \<le> n" "moved_on (Suc (stage_index st)) st''"
      using Suc.IH [OF inv] Suc.prems c by auto
    then show ?thesis using accepts_Cons [where f = step, OF s] ev by (intro exI [of _ "?ev # evs"]) auto
  qed
qed

section \<open>Starting and reworking\<close>

lemma start_moves_on:
  assumes inv: "machine_inv (Suc k) st" and saved: "saved (workflow st)" and p: "status st = PipelineStatus.Pending"
  shows "\<exists>st' acts. step st PipelineEvent.Start = Inr (st', acts) \<and> moved_on 0 st'"
proof -
  let ?st = "st\<lparr>status := PipelineStatus.Running\<rparr>"
  have i: "well_formed (workflow st)" "state_inv st" using inv by (simp_all add: machine_inv_def)
  have "budget (Suc k) ?st"
    using inv budget_mono [of "Suc k + length (pending_head_changes st)" st "Suc k"]
    by (simp add: machine_inv_def budget_def)
  then have "\<exists>st' acts. enter_stage 0 ?st = Inr (st', acts) \<and> moved_on 0 st'"
    by (rule enter_moves_on [OF start_entry(1) [OF i p]]) (use saved in \<open>simp_all add: submit_before_def\<close>)
  then show ?thesis
    using p start_entry(2) [OF i p] by (auto simp: step_def merge_in_flight_iff on_start_def)
qed

text \<open>A change request takes an approval back to an earlier work stage.\<close>

lemma rework_moves_back:
  assumes live: "live st" and wf: "well_formed (workflow st)" and pr: "pr_known st"
    and w: "ws_stage (cur st) = Stage.Approval by count bd"
  shows "\<exists>st' acts. step st (ChangesRequested (ws_id (cur st)) (attempt st) ''reviewer'' (current_head st) ''again'')
      = Inr (st', acts) \<and> moved_on 0 st'"
proof -
  note d = liveD [OF live] and r = state_inv_runningD [OF liveD(2,3) [OF live]]
  let ?i = "stage_index st" and ?why = "''changes requested by reviewer: again''"
  have k: "stage_kind (cur st) = StageKind.Approval" using w by simp
  from well_formed_rework [OF wf r(1)] k obtain j where j: "j < ?i" "stage_kind (stages st ! j) = StageKind.Work"
    by auto
  then have "list_ex (\<lambda>w. stage_kind w = StageKind.Work) (take ?i (stages st))"
    using r(1) by (auto simp: take_ex_nth)
  then have "previous_work st ?i \<noteq> None"
    using r(1) by (auto simp: previous_work_def rposition_eq_None list_ex_iff)
  then obtain t where t: "or_else (explicit_target st ?i (cur st)) (default_target st ?i (cur st)) = Some t"
    using k by (cases "explicit_target st ?i (cur st)") (auto simp: default_target_def)
  note ts = rework_target_sound [OF t r(1)]
  obtain role ins out where tw: "ws_stage (stages st ! t) = Stage.Work role ins out"
    using ts(2) by (auto simp: kind_simps)
  have len: "t < length (attempts st)" "t < length (stages st)" using ts(1) r(1) base_invD(1) [OF r(8)] by simp_all
  let ?st' = "(reworked t ?why st)\<lparr>attempts := (attempts st)[t := attempts st ! t + 1]\<rparr>"
  have "return_to_work t ?why st = Inr (?st', [schedule (stages st ! t) (attempts st ! t + 1),
      PipelineAction.ReturnToWork (ws_id (stages st ! t)) (attempts st ! t + 1) role ?why])"
    unfolding return_to_work_eq [OF len(2) tw] using len(1) by (simp add: bump_attempt_def)
  moreover have "step st (ChangesRequested (ws_id (cur st)) (attempt st) ''reviewer'' (current_head st) ''again'')
      = return_to_work t ?why st"
    using k r(1) t w by (subst live_answer [OF live])
      (auto simp: on_changes_requested_def ensure_approval_live [OF live] fail_stage_def)
  moreover have "moved_on 0 ?st'"
  proof -
    have "change_id ?st' = change_id st"
      by (simp add: reworked_def Let_def forget_from_def drop_approvals_def clear_partial_def clear_fanout_def)
    moreover have "submit_before t ?st' \<Longrightarrow> submit_before ?i st"
      using ts(1) len(2) r(1) by (auto simp: submit_before_iff intro: less_trans)
    moreover have "\<not> at_pick ?st'"
    proof
      assume "at_pick ?st'"
      then obtain g where "pick_fanout_index_for_approval (workflow st) t = Some g" by (auto simp: at_pick_def)
      from pick_index_sound [OF wf len(2) this] well_formed_pick [OF wf, of g] len(2) ts(2)
      show False by auto
    qed
    ultimately show ?thesis using d(3) len(2) pr by (auto simp: moved_on_def pr_known_def pick_ready_def)
  qed
  ultimately show ?thesis by auto
qed

section \<open>Completion\<close>

definition completes :: "nat \<Rightarrow> PipelineState \<Rightarrow> bool" where
  "completes n st \<longleftrightarrow>
     (\<exists>evs st'. accepts step st evs st' \<and> list_all event_ok evs \<and> length evs \<le> n
        \<and> status st' = PipelineStatus.Done)"

lemma completes_after:
  assumes "accepts step st evs st'" and "list_all event_ok evs" and "length evs \<le> m" and "completes n st'"
  shows "completes (m + n) st"
proof -
  from assms(4) obtain evs' st'' where "accepts step st' evs' st''" "list_all event_ok evs'" "length evs' \<le> n"
    "status st'' = PipelineStatus.Done" by (auto simp: completes_def)
  with assms(1-3) accepts_append [OF assms(1)] show ?thesis
    unfolding completes_def by (intro exI [of _ "evs @ evs'"] exI [of _ st'']) auto
qed

lemma accepts_one: "step st ev = Inr (st', acts) \<Longrightarrow> accepts step st [ev] st'"
  by (rule accepts_Cons [OF _ accepts_nil])

text \<open>The current stage can be passed.\<close>

lemma stage_moves_on:
  assumes inv: "machine_inv 256 st" and run: "status st = PipelineStatus.Running" and saved: "saved (workflow st)"
    and pr: "pr_known st" and ready: "pick_ready st"
  shows "\<exists>evs st'. accepts step st evs st' \<and> list_all event_ok evs \<and> length evs \<le> 255
    \<and> moved_on (Suc (stage_index st)) st'"
proof -
  have m: "machine_inv (Suc 255) st" using inv by simp
  have one: "?thesis" if "\<exists>ev st' acts. step st ev = Inr (st', acts) \<and> event_ok ev \<and> moved_on (Suc (stage_index st)) st'"
  proof -
    from that obtain ev st' acts where "step st ev = Inr (st', acts)" "event_ok ev"
      "moved_on (Suc (stage_index st)) st'" by blast
    then show ?thesis by (intro exI [of _ "[ev]"] exI [of _ st']) (simp add: accepts_one)
  qed
  note l = machine_live [OF m run]
  show ?thesis
  proof (cases "ws_stage (cur st)")
    case (Approval "by" count bd)
    have live: "live st" using l Approval by simp
    note r = state_inv_runningD [OF liveD(2,3) [OF live]]
    have n: "length (approval_reviewers st) < unat count"
      using approval_complete [OF liveD(1) [OF live] r(8,9,1) Approval]
      by (cases "length (approval_reviewers st) + 1 < unat count") auto
    have "unat count \<le> 255" using unsigned_less [of count, where ?'a = nat] by simp
    then show ?thesis
      using approvals_move_on [OF m run saved pr ready Approval] n by simp
  next
    case Merge
    then have "moved_on (Suc (stage_index st)) st'" if "status st' = PipelineStatus.Done" for st'
      using that by (simp add: moved_on_def)
    moreover have "stage_kind (cur st) = StageKind.Merge" using Merge by simp
    ultimately show ?thesis
      using merge_completes [of st "''commit''"] inv run by (intro one) (fastforce simp: machine_inv_def)
  next
    case (Work role ins out)
    then show ?thesis using work_moves_on [OF l saved pr Work] by (intro one) fastforce
  next
    case (Command c)
    then show ?thesis using command_moves_on [OF l saved pr] by (intro one) fastforce
  next
    case (Submit f)
    then show ?thesis using submit_moves_on [OF l saved, of "''pr''"] by (intro one) fastforce
  next
    case (Fanout src join)
    then show ?thesis using fanout_moves_on [OF l saved pr Fanout] by (intro one) fastforce
  qed
qed

lemma running_completes:
  assumes "machine_inv (255 * n + 1) st" and "length (stages st) - stage_index st \<le> n"
    and "status st = PipelineStatus.Running" and "saved (workflow st)" and "pr_known st" and "pick_ready st"
  shows "completes (255 * n) st"
  using assms
proof (induction n arbitrary: st)
  case 0
  then show ?case using state_inv_runningD(1) [of st] by (simp add: machine_inv_def)
next
  case (Suc n)
  have "machine_inv 256 st"
    using Suc.prems(1) budget_mono [of _ st "256 + length (pending_head_changes st)"] by (auto simp: machine_inv_def)
  from stage_moves_on [OF this Suc.prems(3-6)] obtain evs st'
    where evs: "accepts step st evs st'" "list_all event_ok evs" "length evs \<le> 255"
      and st': "moved_on (Suc (stage_index st)) st'" by blast
  have "machine_inv (length evs + (255 * n + 1)) st"
    using Suc.prems(1) evs(3) budget_mono [of _ st "length evs + (255 * n + 1) + length (pending_head_changes st)"]
    by (auto simp: machine_inv_def)
  from accepts_machine [OF evs(1) this] evs(2)
  have inv: "machine_inv (255 * n + 1) st'" and wfl: "workflow st' = workflow st" by (simp_all add: list_all_iff)
  have "completes (255 * n) st'"
  proof (cases "status st' = PipelineStatus.Done")
    case True
    then show ?thesis unfolding completes_def by (intro exI [of _ "[]"] exI [of _ st']) (simp add: accepts_nil)
  next
    case False
    with st' Suc.prems(2) wfl show ?thesis
      by (intro Suc.IH [OF inv]) (auto simp: moved_on_def Suc.prems(4))
  qed
  from completes_after [OF evs this] show ?case by simp
qed

lemma machine_inv_mono: "machine_inv m st \<Longrightarrow> k \<le> m \<Longrightarrow> machine_inv k st"
  using budget_mono [of "m + length (pending_head_changes st)" st "k + length (pending_head_changes st)"]
  by (simp add: machine_inv_def)

lemma moved_completes:
  assumes inv: "machine_inv (255 * length (stages st) + 2) st" and "saved (workflow st)"
    and s: "step st ev = Inr (st', acts)" "event_ok ev" and m: "moved_on i st'"
  shows "completes (255 * length (stages st) + 1) st"
proof -
  have "machine_inv (length [ev] + (255 * length (stages st) + 1)) st" using inv by simp
  from accepts_machine [OF accepts_one [OF s(1)] this] s(2)
  have i: "machine_inv (255 * length (stages st) + 1) st'" "workflow st' = workflow st" by simp_all
  have "completes (255 * length (stages st)) st'"
  proof (cases "status st' = PipelineStatus.Done")
    case True
    then show ?thesis unfolding completes_def by (intro exI [of _ "[]"] exI [of _ st']) (simp add: accepts_nil)
  next
    case False
    with m i assms(2) show ?thesis by (intro running_completes) (auto simp: moved_on_def)
  qed
  from completes_after [OF accepts_one [OF s(1)] _ _ this, of 1] s(2) show ?thesis by simp
qed

text \<open>An unready pick is an approval, which a change request takes back.\<close>

lemma at_pick_approval:
  assumes "well_formed (workflow st)" and "stage_index st < length (stages st)" and "at_pick st"
  obtains "by" count bd where "ws_stage (cur st) = Stage.Approval by count bd"
proof -
  from assms(3) obtain g where "pick_fanout_index_for_approval (workflow st) (stage_index st) = Some g"
    by (auto simp: at_pick_def)
  from pick_index_sound [OF assms(1,2) this] well_formed_pick [OF assms(1), of g] assms(2)
  have "stage_kind (cur st) = StageKind.Approval" by auto
  then show thesis using that by (cases "ws_stage (cur st)") auto
qed

lemma state_completes:
  assumes inv: "machine_inv (255 * length (stages st) + 2) st" and saved: "saved (workflow st)"
    and pr: "pr_known st" and "status st \<noteq> PipelineStatus.Failed" "status st \<noteq> PipelineStatus.Cancelled"
  shows "completes (255 * length (stages st) + 1) st"
proof (cases "status st")
  case Pending
  from start_moves_on [of "255 * length (stages st) + 1" st] inv saved Pending obtain st' acts
    where "step st PipelineEvent.Start = Inr (st', acts)" "moved_on 0 st'" by auto
  then show ?thesis by (intro moved_completes [OF inv saved, of PipelineEvent.Start]) simp_all
next
  case Done
  then show ?thesis unfolding completes_def by (intro exI [of _ "[]"] exI [of _ st]) (simp add: accepts_nil)
next
  case Running
  have wf: "well_formed (workflow st)" "state_inv st" using inv by (simp_all add: machine_inv_def)
  note r = state_inv_runningD [OF wf(2) Running]
  show ?thesis
  proof (cases "pick_ready st")
    case True
    have "machine_inv (255 * length (stages st) + 1) st" by (rule machine_inv_mono [OF inv]) simp
    from running_completes [OF this _ Running saved pr True] have "completes (255 * length (stages st)) st" by simp
    from completes_after [OF accepts_nil _ _ this, of 1] show ?thesis by simp
  next
    case False
    then have "at_pick st" by (simp add: pick_ready_def)
    from at_pick_approval [OF wf(1) r(1) this] obtain "by" count bd
      where w: "ws_stage (cur st) = Stage.Approval by count bd" by blast
    have "live st" using machine_live(1) [of "255 * length (stages st) + 1" st] inv Running w by simp
    from rework_moves_back [OF this wf(1) pr w] obtain st' acts where
      "step st (ChangesRequested (ws_id (cur st)) (attempt st) ''reviewer'' (current_head st) ''again'')
        = Inr (st', acts)" "moved_on 0 st'" by blast
    then show ?thesis using moved_completes [OF inv saved] by simp
  qed
qed (use assms(4,5) in simp_all)

section \<open>The change id of the local forge\<close>

text \<open>
  The static rules accept a command that names the change after any submission, also to the local
  forge, which reports no change id; the task would fail at that command. The trial runs of \<open>validate\<close>
  submit the way the workflow's forge does, and so such a workflow is not saved.
\<close>

definition local_pr_workflow :: Workflow where
  "local_pr_workflow =
     \<lparr>wf_id = ''local'', wf_version = 1, wf_requires = [Repo], wf_allow_unreviewed = True,
      wf_stages =
       [WorkflowStage_new ''work'' (Stage.Work ''dev'' [] Branch),
        WorkflowStage_new ''submit'' (Stage.Submit ''local''),
        WorkflowStage_new ''checks'' (Stage.Command ''check {pr}'')]\<rparr>"

lemma local_pr_workflow_rejected:
  "static_errors local_pr_workflow [''dev''] = ([] :: (Scenario \<times> Stuck) WorkflowError list)"
  "validate local_pr_workflow [''dev''] \<noteq> []"
  by code_simp+

section \<open>Property\<close>

text \<open>C24: no task gets stuck. From every state that a run of a saved workflow reaches, unless the task
  was cancelled or failed, at most 255 more events per stage and one more complete it; all that is
  needed is that a submitted task knows the id of its change if a command names it, and room for these events before the
  attempt counters end.\<close>

theorem tasks_can_complete:
  assumes "validate wfl team_roles = []" and "run_of task wfl evs st"
    and "status st \<noteq> PipelineStatus.Failed" "status st \<noteq> PipelineStatus.Cancelled" and "pr_known st"
    and "length evs + 255 * length (wf_stages wfl) + 1 < 2 ^ 32 - 2"
  shows "\<exists>evs' st'. run_of task wfl (evs @ evs') st' \<and> status st' = PipelineStatus.Done
    \<and> length evs' \<le> 255 * length (wf_stages wfl) + 1"
proof -
  let ?s = "state_unchecked task wfl" and ?n = "255 * length (wf_stages wfl) + 1"
  note run = run_ofD [OF assms(2)]
  have "machine_inv (length evs + (?n + 1)) ?s"
    using validate_Nil(1,2) [OF assms(1)] assms(6) by (intro machine_inv_initial) simp_all
  from accepts_machine [OF run(1) this run(2)] have inv: "machine_inv (?n + 1) st" and wfl: "workflow st = wfl"
    by (simp_all add: state_unchecked_def)
  have "completes ?n st"
    using state_completes [of st] inv assms(3-5) validate_saved [OF assms(1)] wfl by simp
  then obtain evs' st' where e: "accepts step st evs' st'" "list_all event_ok evs'" "length evs' \<le> ?n"
    "status st' = PipelineStatus.Done" by (auto simp: completes_def)
  have "run_of task wfl (evs @ evs') st'"
    using accepts_append [OF run(1) e(1)] run(2) e(2,3) assms(6) unfolding run_of_def list_all_iff by auto
  with e(3,4) show ?thesis by blast
qed

theorem tasks_can_complete_witness:
  "\<exists>evs' st'. run_of ''t-1'' builtin_code (sample_events @ evs') st' \<and> status st' = PipelineStatus.Done
    \<and> length evs' \<le> 255 * length (wf_stages builtin_code) + 1"
proof (rule tasks_can_complete [OF sample_valid sample_run])
  have "(case apply_events sample_events (state_unchecked ''t-1'' builtin_code) of
      Inr st \<Rightarrow> status st = PipelineStatus.Running \<and> pr_known st | Inl _ \<Rightarrow> False)" by code_simp
  then have st: "status sample_state = PipelineStatus.Running" "pr_known sample_state"
    by (simp_all add: sample_accepted)
  show "status sample_state \<noteq> PipelineStatus.Failed" "status sample_state \<noteq> PipelineStatus.Cancelled"
    using st(1) by simp_all
  show "pr_known sample_state" by (rule st(2))
qed (simp add: sample_events_def builtin_code_def)

end
