(* ===== verification/Domain_Model.thy ===== *)
theory Domain_Model
  imports Prelude
begin

text \<open>
  The shared domain types of \<^verbatim>\<open>crates/agend-core/src/model.rs\<close>: agent backends with their names,
  the delivery states of a message and their transition table, and the naming of the branches and
  worktrees that belong to a task.
\<close>

section \<open>Backends\<close>

datatype Backend = Claude | Codex | Opencode

definition Backend_ALL :: "Backend list" where
  "Backend_ALL = [Claude, Codex, Opencode]"

fun Backend_as_str :: "Backend \<Rightarrow> string" where
  "Backend_as_str Claude = ''claude''"
| "Backend_as_str Codex = ''codex''"
| "Backend_as_str Opencode = ''opencode''"

definition Backend_parse :: "string \<Rightarrow> Backend option" where
  "Backend_parse s = List.find (\<lambda>b. Backend_as_str b = s) Backend_ALL"

datatype Lifetime = Persistent | Ephemeral

section \<open>Message delivery\<close>

datatype DeliveryState = Queued | Sent | Confirmed | Failed

fun DeliveryState_is_terminal :: "DeliveryState \<Rightarrow> bool" where
  "DeliveryState_is_terminal Confirmed = True"
| "DeliveryState_is_terminal DeliveryState.Failed = True"
| "DeliveryState_is_terminal _ = False"

definition can_transition_to :: "DeliveryState \<Rightarrow> DeliveryState \<Rightarrow> bool" where
  "can_transition_to s t \<longleftrightarrow>
     (s, t) \<in> {(Queued, Sent), (Queued, DeliveryState.Failed), (Sent, Confirmed),
               (Sent, DeliveryState.Failed)}"

text \<open>A caller that asks \<open>can_transition_to\<close> before it stores the next state.\<close>

definition delivery_step :: "DeliveryState \<Rightarrow> DeliveryState \<Rightarrow> unit + DeliveryState \<times> unit list" where
  "delivery_step s t = (if can_transition_to s t then Inr (t, []) else Inl ())"

section \<open>Branch and worktree names\<close>

definition BRANCH_NAMESPACE :: string where
  "BRANCH_NAMESPACE = ''agend/''"

definition work_branch :: "string \<Rightarrow> string \<Rightarrow> string" where
  "work_branch task slug = BRANCH_NAMESPACE @ task @ ''/'' @ slug"

definition worktree_dir :: "string \<Rightarrow> string" where
  "worktree_dir task = ''worktrees/'' @ task @ ''/''"

definition strip_prefix :: "'a list \<Rightarrow> 'a list \<Rightarrow> 'a list option" where
  "strip_prefix p s = (if take (length p) s = p then Some (drop (length p) s) else None)"

definition split_once :: "'a \<Rightarrow> 'a list \<Rightarrow> ('a list \<times> 'a list) option" where
  "split_once c s =
     (if c \<in> set s
      then Some (takeWhile (\<lambda>x. x \<noteq> c) s, tl (dropWhile (\<lambda>x. x \<noteq> c) s)) else None)"

definition task_id_of_branch :: "string \<Rightarrow> string option" where
  "task_id_of_branch br =
     (case strip_prefix BRANCH_NAMESPACE br of
        None \<Rightarrow> None
      | Some rest \<Rightarrow>
          (case split_once (CHR ''/'') rest of
             None \<Rightarrow> None
           | Some (task, slug) \<Rightarrow> if task \<noteq> [] \<and> slug \<noteq> [] then Some task else None))"

section \<open>Lemmas\<close>

lemma strip_prefix_append [simp]: "strip_prefix p (p @ s) = Some s"
  by (simp add: strip_prefix_def)

lemma strip_prefix_eq_Some: "strip_prefix p s = Some t \<longleftrightarrow> s = p @ t"
  by (auto simp: strip_prefix_def) (metis append_take_drop_id)

lemma while_until:
  "c \<notin> set a \<Longrightarrow> takeWhile (\<lambda>x. x \<noteq> c) (a @ c # b) = a"
  "c \<notin> set a \<Longrightarrow> dropWhile (\<lambda>x. x \<noteq> c) (a @ c # b) = c # b"
  by (induction a) auto

lemma split_once_eq_Some:
  "split_once c s = Some (a, b) \<longleftrightarrow> s = a @ c # b \<and> c \<notin> set a"
proof
  assume s: "split_once c s = Some (a, b)"
  then have c: "c \<in> set s" and a: "a = takeWhile (\<lambda>x. x \<noteq> c) s"
    and b: "b = tl (dropWhile (\<lambda>x. x \<noteq> c) s)"
    by (auto simp: split_once_def split: if_splits)
  from c have ne: "dropWhile (\<lambda>x. x \<noteq> c) s \<noteq> []" by (auto simp: dropWhile_eq_Nil_conv)
  then have "dropWhile (\<lambda>x. x \<noteq> c) s = c # b"
    using hd_dropWhile [OF ne] b by (cases "dropWhile (\<lambda>x. x \<noteq> c) s") auto
  then have "s = a @ c # b" using a takeWhile_dropWhile_id [of "\<lambda>x. x \<noteq> c" s] by simp
  moreover have "c \<notin> set a" using a by (auto dest: set_takeWhileD)
  ultimately show "s = a @ c # b \<and> c \<notin> set a" by simp
next
  assume s: "s = a @ c # b \<and> c \<notin> set a"
  then have "takeWhile (\<lambda>x. x \<noteq> c) s = a" "dropWhile (\<lambda>x. x \<noteq> c) s = c # b"
    by (auto simp: while_until)
  with s show "split_once c s = Some (a, b)" by (simp add: split_once_def)
qed

lemma task_id_of_branch_eq_Some:
  "task_id_of_branch br = Some task \<longleftrightarrow>
     task \<noteq> [] \<and> CHR ''/'' \<notin> set task \<and> (\<exists>slug. slug \<noteq> [] \<and> br = work_branch task slug)"
proof
  assume "task_id_of_branch br = Some task"
  then obtain rest slug where "br = BRANCH_NAMESPACE @ rest"
    and "split_once (CHR ''/'') rest = Some (task, slug)" and "task \<noteq> []" "slug \<noteq> []"
    by (auto simp: task_id_of_branch_def strip_prefix_eq_Some split: option.splits if_splits)
  then show "task \<noteq> [] \<and> CHR ''/'' \<notin> set task \<and> (\<exists>slug. slug \<noteq> [] \<and> br = work_branch task slug)"
    by (auto simp: split_once_eq_Some work_branch_def)
next
  assume r: "task \<noteq> [] \<and> CHR ''/'' \<notin> set task \<and> (\<exists>slug. slug \<noteq> [] \<and> br = work_branch task slug)"
  then obtain slug where slug: "slug \<noteq> []" "br = BRANCH_NAMESPACE @ (task @ CHR ''/'' # slug)"
    by (auto simp: work_branch_def)
  have "split_once (CHR ''/'') (task @ CHR ''/'' # slug) = Some (task, slug)"
    using r by (simp add: split_once_eq_Some)
  with slug r show "task_id_of_branch br = Some task" by (simp add: task_id_of_branch_def)
qed

interpretation delivery: terminal_transition delivery_step DeliveryState_is_terminal
proof unfold_locales
  fix s i assume "DeliveryState_is_terminal s"
  then show "\<exists>e. delivery_step s i = Inl e"
    by (cases s) (auto simp: delivery_step_def can_transition_to_def)
qed

lemma delivery_run_cases:
  "accepts delivery_step Queued ins t \<Longrightarrow>
     (ins, t) \<in> {([], Queued), ([Sent], Sent), ([DeliveryState.Failed], DeliveryState.Failed),
       ([Sent, Confirmed], Confirmed), ([Sent, DeliveryState.Failed], DeliveryState.Failed)}"
proof (induction Queued ins t rule: accepts.induct)
  case accepts_nil
  then show ?case by simp
next
  case (accepts_snoc ins t i u os)
  from accepts_snoc.hyps(3) have "can_transition_to t i" "u = i"
    by (auto simp: delivery_step_def split: if_splits)
  with accepts_snoc.hyps(2) show ?case by (auto simp: can_transition_to_def)
qed

end
