(* ===== verification/Task_Relations.thy ===== *)
theory Task_Relations
  imports Domain_Model
begin

text \<open>
  Task relations and operations, \<^verbatim>\<open>crates/agend-core/src/pipeline/task.rs\<close>: the record of a task, the
  operations that are not workflow stages, and the invariant that every accepted operation keeps.
  The invariant is stated through the interface \<open>invariant_transition\<close> of the prelude.
\<close>

section \<open>Data\<close>

datatype TaskStatus = Open | Running | Blocked | Done | Superseded | Failed | Cancelled

record Task =
  t_id :: string
  t_title :: string
  t_team_id :: string
  t_workflow_id :: string
  t_workflow_version :: u64
  t_parent :: "string option"
  t_depends_on :: "string list"
  t_superseded_by :: "string option"
  t_assignee :: "string option"
  t_status :: TaskStatus
  t_requires_repo :: bool
  t_merge_commit :: "string option"

definition Task_new :: "string \<Rightarrow> string \<Rightarrow> string \<Rightarrow> string \<Rightarrow> u64 \<Rightarrow> Task" where
  "Task_new ident title team wfl version =
     \<lparr>t_id = ident, t_title = title, t_team_id = team, t_workflow_id = wfl,
      t_workflow_version = version, t_parent = None, t_depends_on = [], t_superseded_by = None,
      t_assignee = None, t_status = TaskStatus.Open, t_requires_repo = False, t_merge_commit = None\<rparr>"

definition set_requires_repo :: "bool \<Rightarrow> Task \<Rightarrow> Task" where
  "set_requires_repo requires t = t\<lparr>t_requires_repo := requires\<rparr>"

datatype TaskOperation =
    Reassign string
  | Reopen
  | Block
  | Unblock
  | Complete "string option"
  | Supersede string
  | SetRelations "string option" "string list"

datatype TaskError =
    Closed | NotDone | NotBlocked | SelfSupersede | SelfDependency | MissingMergeRecord

fun TaskError_to_string :: "TaskError \<Rightarrow> string" where
  "TaskError_to_string Closed = ''a closed task cannot be changed''"
| "TaskError_to_string NotDone = ''only a done task can be reopened''"
| "TaskError_to_string NotBlocked = ''only a blocked task can be unblocked''"
| "TaskError_to_string SelfSupersede = ''a task cannot supersede itself''"
| "TaskError_to_string SelfDependency = ''a task cannot depend on itself''"
| "TaskError_to_string MissingMergeRecord =
     ''a repository task can only complete with a recorded merge commit''"

fun TaskStatus_as_str :: "TaskStatus \<Rightarrow> string" where
  "TaskStatus_as_str TaskStatus.Open = ''open''"
| "TaskStatus_as_str TaskStatus.Running = ''running''"
| "TaskStatus_as_str TaskStatus.Blocked = ''blocked''"
| "TaskStatus_as_str TaskStatus.Done = ''done''"
| "TaskStatus_as_str TaskStatus.Superseded = ''superseded''"
| "TaskStatus_as_str TaskStatus.Failed = ''failed''"
| "TaskStatus_as_str TaskStatus.Cancelled = ''cancelled''"

section \<open>Operations\<close>

text \<open>The four statuses that four of the operations match on before anything else.\<close>

definition closed_status :: "TaskStatus \<Rightarrow> bool" where
  "closed_status s \<longleftrightarrow>
     s = TaskStatus.Done \<or> s = TaskStatus.Superseded \<or> s = TaskStatus.Failed \<or> s = TaskStatus.Cancelled"

fun task_apply :: "Task \<Rightarrow> TaskOperation \<Rightarrow> TaskError + Task" where
  "task_apply t (Reassign assignee) =
     (if closed_status (t_status t) then Inl Closed
      else Inr (t\<lparr>t_assignee := Some assignee, t_status := TaskStatus.Running\<rparr>))"
| "task_apply t Reopen =
     (if t_status t = TaskStatus.Superseded then Inl Closed
      else if t_status t \<noteq> TaskStatus.Done then Inl NotDone
      else Inr (t\<lparr>t_status := TaskStatus.Open, t_merge_commit := None\<rparr>))"
| "task_apply t Block =
     (if closed_status (t_status t) then Inl Closed
      else Inr (t\<lparr>t_status := TaskStatus.Blocked\<rparr>))"
| "task_apply t Unblock =
     (if t_status t \<noteq> TaskStatus.Blocked then Inl NotBlocked
      else Inr (t\<lparr>t_status := (if t_assignee t \<noteq> None then TaskStatus.Running else TaskStatus.Open)\<rparr>))"
| "task_apply t (Complete commit) =
     (if closed_status (t_status t) then Inl Closed
      else if t_requires_repo t \<and> commit = None then Inl MissingMergeRecord
      else Inr (t\<lparr>t_status := TaskStatus.Done, t_merge_commit := commit\<rparr>))"
| "task_apply t (Supersede new_task_id) =
     (if closed_status (t_status t) then Inl Closed
      else if new_task_id = t_id t then Inl SelfSupersede
      else Inr (t\<lparr>t_status := TaskStatus.Superseded, t_superseded_by := Some new_task_id\<rparr>))"
| "task_apply t (SetRelations parent depends_on) =
     (if parent = Some (t_id t) \<or> t_id t \<in> set depends_on then Inl SelfDependency
      else Inr (t\<lparr>t_parent := parent, t_depends_on := depends_on\<rparr>))"

text \<open>The operation as a transition function without outputs.\<close>

definition task_step :: "Task \<Rightarrow> TaskOperation \<Rightarrow> TaskError + Task \<times> unit list" where
  "task_step t op = map_sum id (\<lambda>u. (u, [])) (task_apply t op)"

lemma task_step_Inr: "task_step t op = Inr (u, os) \<Longrightarrow> task_apply t op = Inr u"
  by (cases "task_apply t op") (auto simp: task_step_def)

section \<open>The task invariant\<close>

text \<open>
  No relation of a task points back at the task; it is superseded exactly when it names its
  successor; a merge commit is recorded only on a done task, and every done repository task has one.
\<close>

definition relations_ok :: "Task \<Rightarrow> bool" where
  "relations_ok t \<longleftrightarrow> t_parent t \<noteq> Some (t_id t) \<and> t_id t \<notin> set (t_depends_on t)
     \<and> t_superseded_by t \<noteq> Some (t_id t)
     \<and> (t_superseded_by t \<noteq> None \<longleftrightarrow> t_status t = TaskStatus.Superseded)"

definition merge_record_ok :: "Task \<Rightarrow> bool" where
  "merge_record_ok t \<longleftrightarrow>
     (t_merge_commit t \<noteq> None \<longrightarrow> t_status t = TaskStatus.Done)
     \<and> (t_status t = TaskStatus.Done \<and> t_requires_repo t \<longrightarrow> t_merge_commit t \<noteq> None)"

definition same_task :: "Task \<Rightarrow> Task \<Rightarrow> bool" where
  "same_task s t \<longleftrightarrow>
     (t_id t, t_title t, t_team_id t, t_workflow_id t, t_workflow_version t, t_requires_repo t)
     = (t_id s, t_title s, t_team_id s, t_workflow_id s, t_workflow_version s, t_requires_repo s)"

lemma apply_keeps_relations: "task_apply t op = Inr u \<Longrightarrow> relations_ok t \<Longrightarrow> relations_ok u"
  by (cases op) (auto simp: relations_ok_def closed_status_def split: if_splits)

lemma apply_keeps_merge_record: "task_apply t op = Inr u \<Longrightarrow> merge_record_ok t \<Longrightarrow> merge_record_ok u"
  by (cases op) (auto simp: merge_record_ok_def closed_status_def split: if_splits)

lemma apply_same_task: "task_apply t op = Inr u \<Longrightarrow> same_task t u"
  by (cases op) (auto simp: same_task_def split: if_splits)

interpretation relations: invariant_transition task_step relations_ok
  by unfold_locales (blast dest: task_step_Inr intro: apply_keeps_relations)

interpretation merge_record: invariant_transition task_step merge_record_ok
  by unfold_locales (blast dest: task_step_Inr intro: apply_keeps_merge_record)

interpretation pinned: invariant_transition task_step "same_task s" for s
proof unfold_locales
  fix t op u os assume "same_task s t" and "task_step t op = Inr (u, os)"
  then show "same_task s u"
    using apply_same_task [OF task_step_Inr] by (fastforce simp: same_task_def)
qed

lemma new_task_ok:
  "relations_ok (set_requires_repo r (Task_new ident title team wfl version))"
  "merge_record_ok (set_requires_repo r (Task_new ident title team wfl version))"
  by (simp_all add: relations_ok_def merge_record_ok_def set_requires_repo_def Task_new_def)

section \<open>Properties\<close>

text \<open>C34: whatever operations a new task accepts, it never depends on, belongs to or is superseded by
  itself, it is superseded exactly when it names a successor, it carries a merge commit only while it
  is done, and a repository task is done only with a merge commit; its id, team and pinned workflow
  version never change.\<close>

theorem task_invariant:
  assumes "t0 = set_requires_repo r (Task_new ident title team wfl version)"
    and "accepts task_step t0 ops t"
  shows "relations_ok t \<and> merge_record_ok t \<and> same_task t0 t"
proof -
  have "same_task t0 t0" by (simp add: same_task_def)
  then show ?thesis
    using relations.run_inv [OF assms(2)] merge_record.run_inv [OF assms(2)]
      pinned.run_inv [OF assms(2)] new_task_ok assms(1) by simp
qed

primrec task_run :: "TaskOperation list \<Rightarrow> Task \<Rightarrow> TaskError + Task" where
  "task_run [] t = Inr t"
| "task_run (op # ops) t = and_then (task_apply t op) (task_run ops)"

lemma task_run_accepts: "task_run ops t = Inr u \<Longrightarrow> accepts task_step t ops u"
proof (induction ops arbitrary: t)
  case Nil
  then show ?case by (auto intro: accepts_nil)
next
  case (Cons op ops)
  then obtain v where v: "task_apply t op = Inr v" "task_run ops v = Inr u" by (auto simp: result_split)
  then have "task_step t op = Inr (v, [])" by (simp add: task_step_def)
  with Cons.IH [OF v(2)] show ?case by (blast intro: accepts_Cons)
qed

theorem task_invariant_witness:
  "\<exists>t. accepts task_step (set_requires_repo True (Task_new ''t1'' ''x'' ''team'' ''code'' 3))
         [Reassign ''a'', Block, Unblock, Complete (Some ''m1'')] t
     \<and> t_status t = TaskStatus.Done \<and> merge_record_ok t"
proof -
  have "(case task_run [Reassign ''a'', Block, Unblock, Complete (Some ''m1'')]
      (set_requires_repo True (Task_new ''t1'' ''x'' ''team'' ''code'' 3)) of
      Inr t \<Rightarrow> t_status t = TaskStatus.Done | Inl _ \<Rightarrow> False)" by code_simp
  then obtain t where t: "task_run [Reassign ''a'', Block, Unblock, Complete (Some ''m1'')]
      (set_requires_repo True (Task_new ''t1'' ''x'' ''team'' ''code'' 3)) = Inr t"
    "t_status t = TaskStatus.Done" by (auto split: sum.splits)
  from task_invariant [OF refl task_run_accepts [OF t(1)]] task_run_accepts [OF t(1)] t(2)
  show ?thesis by blast
qed

text \<open>A task closed as superseded, failed or cancelled stays so: no operation changes its status,
  and only its relations can still be set. A done task leaves that status only by \<open>Reopen\<close>, which
  drops the merge record.\<close>

theorem closed_task_stays_closed:
  assumes "closed_status (t_status t)" and "task_apply t op = Inr u"
  shows "(\<exists>parent depends_on. op = SetRelations parent depends_on
            \<and> u = t\<lparr>t_parent := parent, t_depends_on := depends_on\<rparr>)
    \<or> (op = Reopen \<and> t_status t = TaskStatus.Done \<and> t_status u = TaskStatus.Open \<and> t_merge_commit u = None)"
  using assms by (cases op) (auto simp: closed_status_def split: if_splits)

theorem closed_task_stays_closed_witness:
  "\<exists>u. task_apply ((Task_new ''t1'' ''x'' ''team'' ''code'' 3)\<lparr>t_status := TaskStatus.Done\<rparr>) Reopen = Inr u
     \<and> t_status u = TaskStatus.Open"
proof -
  let ?t = "(Task_new ''t1'' ''x'' ''team'' ''code'' 3)\<lparr>t_status := TaskStatus.Done\<rparr>"
  have "task_apply ?t Reopen = Inr (?t\<lparr>t_status := TaskStatus.Open, t_merge_commit := None\<rparr>)" by simp
  from closed_task_stays_closed [OF _ this] this show ?thesis by (auto simp: closed_status_def)
qed

end
