(* ===== verification/Assignment.thy ===== *)
theory Assignment
  imports Domain_Model "HOL-Library.Char_ord" "HOL-Library.List_Lexorder"
    "HOL-Library.Product_Lexorder" "HOL-Library.Multiset"
begin

text \<open>
  The assignment rules for role templates, \<^verbatim>\<open>crates/agend-core/src/policy/assign.rs\<close>: which instance
  gets a task, a review or rework, when a new ephemeral instance is spawned and when the request
  waits. Strings are compared bytewise, which is the lexicographic order of the library; the stable
  \<open>sort_by_key\<close> of the standard library is \<open>sort_key\<close>. Head counts are plain numbers: they are only
  compared.
\<close>

section \<open>Data\<close>

record Candidate =
  c_instance_id :: string
  c_team_id :: string
  c_role :: string
  c_backend :: Backend
  c_held_task :: "string option"
  c_ephemeral :: bool
  c_usage_available :: bool

definition is_free :: "Candidate \<Rightarrow> bool" where
  "is_free c \<longleftrightarrow> c_held_task c = None"

definition may_reclaim :: "Candidate \<Rightarrow> bool" where
  "may_reclaim c \<longleftrightarrow> c_ephemeral c \<and> is_free c"

record RoleCapacity =
  minimum_instances :: nat
  maximum_instances :: nat
  current_instances :: nat

datatype Purpose =
    NewTask
  | Review string Backend
  | Rework string string "string option" "string list"

record AssignmentRequest =
  rq_team_id :: string
  rq_role :: string
  rq_allowed_backends :: "Backend list"
  rq_available_backends :: "Backend list"
  rq_role_capacity :: "RoleCapacity option"
  rq_purpose :: Purpose

datatype QueueReason =
  AtCapacity | UsageLimit | InvalidRoleCapacity | NoAllowedBackend | NoEligibleReviewer

record Handoff =
  from_instance :: string
  ho_branch :: "string option"
  ho_review_comments :: "string list"

datatype AssignmentDecision =
    Assigned string
  | Reassigned string Handoff
  | SpawnEphemeral Backend "Handoff option"
  | Queue QueueReason
  | AskForRole string

section \<open>Rules\<close>

definition queue_reason :: "RoleCapacity \<Rightarrow> QueueReason" where
  "queue_reason capacity =
     (if current_instances capacity \<ge> maximum_instances capacity then AtCapacity else UsageLimit)"

definition is_allowed :: "Candidate \<Rightarrow> Backend list \<Rightarrow> bool" where
  "is_allowed c allowed_backends \<longleftrightarrow> c_backend c \<in> set allowed_backends"

definition role_candidates :: "AssignmentRequest \<Rightarrow> Candidate list \<Rightarrow> Candidate list" where
  "role_candidates rq cs = filter (\<lambda>c. c_team_id c = rq_team_id rq \<and> c_role c = rq_role rq) cs"

definition free_candidates ::
    "AssignmentRequest \<Rightarrow> Candidate list \<Rightarrow> string option \<Rightarrow> Candidate list" where
  "free_candidates rq cs exclude_instance =
     sort_key c_instance_id
       (filter (\<lambda>c. is_allowed c (rq_allowed_backends rq) \<and> c_usage_available c \<and> is_free c
                  \<and> exclude_instance \<noteq> Some (c_instance_id c))
          (role_candidates rq cs))"

definition valid_role_capacity :: "RoleCapacity \<Rightarrow> bool" where
  "valid_role_capacity capacity \<longleftrightarrow>
     minimum_instances capacity \<le> maximum_instances capacity
     \<and> current_instances capacity \<le> maximum_instances capacity"

definition spawn_backend :: "AssignmentRequest \<Rightarrow> Backend option \<Rightarrow> Backend option" where
  "spawn_backend rq excluded_backend =
     (case rq_role_capacity rq of
        None \<Rightarrow> None
      | Some capacity \<Rightarrow>
          if \<not> valid_role_capacity capacity
             \<or> current_instances capacity \<ge> maximum_instances capacity then None
          else List.find (\<lambda>b. Some b \<noteq> excluded_backend \<and> b \<in> set (rq_available_backends rq))
                 (rq_allowed_backends rq))"

definition take_over ::
    "AssignmentRequest \<Rightarrow> Candidate list \<Rightarrow> Candidate option \<Rightarrow> Handoff \<Rightarrow> AssignmentDecision" where
  "take_over rq cs current handoff =
     (case rq_role_capacity rq of
        None \<Rightarrow> AskForRole (rq_role rq)
      | Some capacity \<Rightarrow>
          if \<not> valid_role_capacity capacity then Queue InvalidRoleCapacity
          else
            let excluded_backend = map_option c_backend current in
            case List.find (\<lambda>c. Some (c_backend c) \<noteq> excluded_backend)
                   (free_candidates rq cs (Some (from_instance handoff))) of
              Some c \<Rightarrow> Reassigned (c_instance_id c) handoff
            | None \<Rightarrow>
                (case spawn_backend rq excluded_backend of
                   Some b \<Rightarrow> SpawnEphemeral b (Some handoff)
                 | None \<Rightarrow> Queue (if current \<noteq> None then UsageLimit else queue_reason capacity)))"

definition holder_of :: "AssignmentRequest \<Rightarrow> string \<Rightarrow> string \<Rightarrow> Candidate list \<Rightarrow> Candidate option" where
  "holder_of rq task holder cs =
     List.find (\<lambda>c. c_team_id c = rq_team_id rq \<and> c_instance_id c = holder
       \<and> c_held_task c = Some task \<and> is_allowed c (rq_allowed_backends rq)
       \<and> rq_role_capacity rq \<noteq> None) cs"

definition choose_rework ::
    "AssignmentRequest \<Rightarrow> string \<Rightarrow> string \<Rightarrow> string option \<Rightarrow> string list \<Rightarrow> Candidate list
       \<Rightarrow> AssignmentDecision" where
  "choose_rework rq task holder branch comments cs =
     (let current = holder_of rq task holder cs in
      if (case current of Some c \<Rightarrow> c_usage_available c | None \<Rightarrow> False) then Assigned holder
      else take_over rq cs current
             \<lparr>from_instance = holder, ho_branch = branch, ho_review_comments = comments\<rparr>)"

definition eligible_candidates :: "AssignmentRequest \<Rightarrow> Candidate list \<Rightarrow> Candidate list" where
  "eligible_candidates rq cs =
     (case rq_purpose rq of
        Review holder holder_backend \<Rightarrow>
          sort_key (\<lambda>c. (c_backend c = holder_backend, c_instance_id c))
            (filter (\<lambda>c. c_instance_id c \<noteq> holder) (free_candidates rq cs None))
      | _ \<Rightarrow> free_candidates rq cs None)"

definition preferred_spawn :: "AssignmentRequest \<Rightarrow> Backend option" where
  "preferred_spawn rq =
     or_else (case rq_purpose rq of
                Review _ holder_backend \<Rightarrow> spawn_backend rq (Some holder_backend)
              | _ \<Rightarrow> None)
       (spawn_backend rq None)"

definition only_holder :: "AssignmentRequest \<Rightarrow> Candidate list \<Rightarrow> bool" where
  "only_holder rq cs \<longleftrightarrow>
     (case rq_purpose rq of
        Review holder _ \<Rightarrow>
          role_candidates rq cs \<noteq> [] \<and> list_all (\<lambda>c. c_instance_id c = holder) (role_candidates rq cs)
      | _ \<Rightarrow> False)"

definition choose_fresh :: "AssignmentRequest \<Rightarrow> RoleCapacity \<Rightarrow> Candidate list \<Rightarrow> AssignmentDecision" where
  "choose_fresh rq capacity cs =
     (case eligible_candidates rq cs of
        c # _ \<Rightarrow> Assigned (c_instance_id c)
      | [] \<Rightarrow>
          if role_candidates rq cs = [] \<and> rq_allowed_backends rq = [] then Queue NoAllowedBackend
          else case preferred_spawn rq of
            Some b \<Rightarrow> SpawnEphemeral b None
          | None \<Rightarrow>
              if only_holder rq cs then Queue NoEligibleReviewer
              else Queue (queue_reason capacity))"

definition choose_decision :: "AssignmentRequest \<Rightarrow> Candidate list \<Rightarrow> AssignmentDecision" where
  "choose_decision rq cs =
     (case rq_purpose rq of
        Rework task holder branch comments \<Rightarrow> choose_rework rq task holder branch comments cs
      | _ \<Rightarrow>
          (case rq_role_capacity rq of
             None \<Rightarrow> AskForRole (rq_role rq)
           | Some capacity \<Rightarrow>
               if \<not> valid_role_capacity capacity then Queue InvalidRoleCapacity
               else choose_fresh rq capacity cs))"

section \<open>Who may take a task\<close>

text \<open>
  The specification side: a candidate may take new work of the request if it belongs to the team and
  the role, runs on an allowed backend with usage left and holds no task.
\<close>

definition may_take :: "AssignmentRequest \<Rightarrow> Candidate \<Rightarrow> bool" where
  "may_take rq c \<longleftrightarrow> c_team_id c = rq_team_id rq \<and> c_role c = rq_role rq
     \<and> c_backend c \<in> set (rq_allowed_backends rq) \<and> c_usage_available c \<and> c_held_task c = None"

definition may_spawn :: "AssignmentRequest \<Rightarrow> Backend \<Rightarrow> bool" where
  "may_spawn rq b \<longleftrightarrow>
     (\<exists>cap. rq_role_capacity rq = Some cap \<and> minimum_instances cap \<le> maximum_instances cap
        \<and> current_instances cap < maximum_instances cap)
     \<and> b \<in> set (rq_allowed_backends rq) \<and> b \<in> set (rq_available_backends rq)"

lemmas candidate_defs = may_take_def is_allowed_def is_free_def role_candidates_def

lemma set_free_candidates:
  "set (free_candidates rq cs ex) = {c \<in> set cs. may_take rq c \<and> ex \<noteq> Some (c_instance_id c)}"
  by (auto simp: free_candidates_def candidate_defs)

lemma spawn_backend_SomeD:
  "spawn_backend rq ex = Some b \<Longrightarrow> may_spawn rq b \<and> ex \<noteq> Some b"
  by (auto simp: spawn_backend_def may_spawn_def valid_role_capacity_def find_Some_iff
      split: option.splits if_splits)

lemma spawn_backend_NoneD:
  "spawn_backend rq ex = None \<Longrightarrow> may_spawn rq b \<Longrightarrow> ex = Some b"
  by (auto simp: spawn_backend_def may_spawn_def valid_role_capacity_def find_None_iff
      split: option.splits if_splits)

lemma preferred_spawn_SomeD: "preferred_spawn rq = Some b \<Longrightarrow> may_spawn rq b"
  by (auto simp: preferred_spawn_def or_else_def dest: spawn_backend_SomeD split: option.splits Purpose.splits)

lemma preferred_spawn_NoneD: "preferred_spawn rq = None \<Longrightarrow> \<not> may_spawn rq b"
  by (auto simp: preferred_spawn_def dest: spawn_backend_NoneD)

lemma set_eligible:
  "set (eligible_candidates rq cs) =
     {c \<in> set cs. may_take rq c \<and> (\<forall>holder b. rq_purpose rq = Review holder b \<longrightarrow> c_instance_id c \<noteq> holder)}"
  by (auto simp: eligible_candidates_def set_free_candidates split: Purpose.split)

lemma hd_sort_key_least:
  assumes "sort_key f xs = y # ys"
  shows "y \<in> set xs" "\<And>x. x \<in> set xs \<Longrightarrow> f y \<le> f x"
proof -
  have s: "sorted (map f (y # ys))" using sorted_sort_key [of f xs] assms by simp
  have e: "set (y # ys) = set xs" using set_sort [of f xs] assms by simp
  show "y \<in> set xs" using e by auto
  fix x assume "x \<in> set xs"
  then have "x \<in> set (y # ys)" using e by simp
  then show "f y \<le> f x" using s by auto
qed

section \<open>Decisions\<close>

lemma choose_fresh_spec:
  "case choose_fresh rq cap cs of
     Assigned i \<Rightarrow> (\<exists>c \<in> set (eligible_candidates rq cs). c_instance_id c = i)
   | Reassigned _ _ \<Rightarrow> False
   | SpawnEphemeral b h \<Rightarrow> h = None \<and> may_spawn rq b \<and> eligible_candidates rq cs = []
   | Queue _ \<Rightarrow> eligible_candidates rq cs = [] \<and> (\<forall>b. \<not> may_spawn rq b)
   | AskForRole _ \<Rightarrow> False"
proof (cases "eligible_candidates rq cs")
  case (Cons c rest)
  then show ?thesis by (simp add: choose_fresh_def)
next
  case Nil
  then show ?thesis
    by (auto simp: choose_fresh_def may_spawn_def dest: preferred_spawn_SomeD preferred_spawn_NoneD
        split: option.split)
qed

lemma take_over_spec:
  "case take_over rq cs current h of
     Assigned _ \<Rightarrow> False
   | Reassigned i h' \<Rightarrow> h' = h \<and> (\<exists>c \<in> set cs. c_instance_id c = i \<and> may_take rq c
       \<and> i \<noteq> from_instance h \<and> map_option c_backend current \<noteq> Some (c_backend c))
   | SpawnEphemeral b h' \<Rightarrow> h' = Some h \<and> may_spawn rq b \<and> map_option c_backend current \<noteq> Some b
   | Queue reason \<Rightarrow> reason = InvalidRoleCapacity
       \<or> reason = (if current \<noteq> None then UsageLimit else queue_reason (the (rq_role_capacity rq)))
   | AskForRole r \<Rightarrow> r = rq_role rq \<and> rq_role_capacity rq = None"
proof (cases "rq_role_capacity rq")
  case None
  then show ?thesis by (simp add: take_over_def)
next
  case (Some cap)
  let ?free = "free_candidates rq cs (Some (from_instance h))"
  show ?thesis
  proof (cases "List.find (\<lambda>c. Some (c_backend c) \<noteq> map_option c_backend current) ?free")
    case None
    then show ?thesis
      using Some spawn_backend_SomeD [of rq "map_option c_backend current"]
      by (cases "spawn_backend rq (map_option c_backend current)") (simp_all add: take_over_def)
  next
    case (Some c)
    from find_SomeD [OF this] have "c \<in> set cs" "may_take rq c" "c_instance_id c \<noteq> from_instance h"
      "map_option c_backend current \<noteq> Some (c_backend c)" by (auto simp: set_free_candidates)
    with Some \<open>rq_role_capacity rq = Some cap\<close> show ?thesis by (auto simp: take_over_def)
  qed
qed

lemma choose_new:
  assumes "\<And>task holder br comments. rq_purpose rq \<noteq> Rework task holder br comments"
    and "rq_role_capacity rq = Some cap" and "valid_role_capacity cap"
  shows "choose_decision rq cs = choose_fresh rq cap cs"
  using assms by (cases "rq_purpose rq") (auto simp: choose_decision_def)

text \<open>C36: nobody gets a second task. An instance chosen for a new task, a review or to take over
  rework belongs to the request's team and role, runs on an allowed backend with usage left and holds
  no task; a reviewer is never the task holder. The only busy instance that is ever assigned is the
  holder of the very task that needs rework.\<close>

theorem assigned_instance_may_take:
  assumes "choose_decision rq cs = Assigned i \<or> choose_decision rq cs = Reassigned i h"
  shows "(\<exists>c \<in> set cs. c_instance_id c = i \<and> may_take rq c
            \<and> (\<forall>holder b. rq_purpose rq = Review holder b \<longrightarrow> i \<noteq> holder))
    \<or> (\<exists>task br comments. \<exists>c \<in> set cs. rq_purpose rq = Rework task i br comments
            \<and> c_instance_id c = i \<and> c_team_id c = rq_team_id rq \<and> c_held_task c = Some task
            \<and> c_backend c \<in> set (rq_allowed_backends rq) \<and> c_usage_available c)"
proof (cases "rq_purpose rq")
  case (Rework task holder br comments)
  let ?cur = "holder_of rq task holder cs"
  let ?h = "\<lparr>from_instance = holder, ho_branch = br, ho_review_comments = comments\<rparr>"
  have d: "choose_decision rq cs = (if (case ?cur of Some c \<Rightarrow> c_usage_available c | None \<Rightarrow> False)
      then Assigned holder else take_over rq cs ?cur ?h)"
    using Rework by (simp add: choose_decision_def choose_rework_def)
  show ?thesis
  proof (cases "case ?cur of Some c \<Rightarrow> c_usage_available c | None \<Rightarrow> False")
    case True
    then obtain c where "?cur = Some c" "c_usage_available c" by (auto split: option.splits)
    moreover have "i = holder" using True assms d by simp
    ultimately show ?thesis
      using Rework by (auto simp: holder_of_def is_allowed_def dest!: find_SomeD)
  next
    case False
    then have "take_over rq cs ?cur ?h = Assigned i \<or> take_over rq cs ?cur ?h = Reassigned i h"
      using assms d by simp
    then show ?thesis
      using Rework take_over_spec [where rq = rq and cs = cs and current = ?cur and h = ?h] by auto
  qed
next
  case NewTask
  then show ?thesis
    using assms choose_fresh_spec [where rq = rq and cap = "the (rq_role_capacity rq)" and cs = cs]
    by (auto simp: choose_decision_def set_eligible split: option.splits if_splits)
next
  case (Review holder b)
  then show ?thesis
    using assms choose_fresh_spec [where rq = rq and cap = "the (rq_role_capacity rq)" and cs = cs]
    by (auto simp: choose_decision_def set_eligible split: option.splits if_splits)
qed

text \<open>No work waits while somebody could do it. A valid request for a new task or a review is
  queued exactly when no member that may take it is free (the task holder does not count for a
  review) and no allowed backend with quota left could be spawned within the head count; otherwise it
  is assigned if such a member exists and else spawned.\<close>

theorem queue_only_when_stuck:
  assumes "\<And>task holder br comments. rq_purpose rq \<noteq> Rework task holder br comments"
    and "rq_role_capacity rq = Some cap" and "valid_role_capacity cap"
  shows "(\<exists>reason. choose_decision rq cs = Queue reason) \<longleftrightarrow>
      \<not> (\<exists>c \<in> set cs. may_take rq c
           \<and> (\<forall>holder b. rq_purpose rq = Review holder b \<longrightarrow> c_instance_id c \<noteq> holder))
      \<and> \<not> (\<exists>b. may_spawn rq b)"
proof -
  have e: "eligible_candidates rq cs = [] \<longleftrightarrow> \<not> (\<exists>c \<in> set cs. may_take rq c
      \<and> (\<forall>holder b. rq_purpose rq = Review holder b \<longrightarrow> c_instance_id c \<noteq> holder))"
    using set_eligible [of rq cs] by (auto simp flip: set_empty)
  show ?thesis
    unfolding choose_new [OF assms] e [symmetric] using choose_fresh_spec [where rq = rq and cap = cap and cs = cs]
    by (cases "choose_fresh rq cap cs") auto
qed

text \<open>A review goes to another backend where it can. The reviewer chosen is least in the order
  that puts instances on a backend other than the task holder's first and then compares instance ids;
  in particular it shares the holder's backend only if every eligible reviewer does.\<close>

theorem review_prefers_other_backend:
  assumes "rq_purpose rq = Review holder hb" and "choose_decision rq cs = Assigned i"
  shows "\<exists>c \<in> set cs. c_instance_id c = i \<and> may_take rq c \<and> i \<noteq> holder
    \<and> (\<forall>d \<in> set cs. may_take rq d \<and> c_instance_id d \<noteq> holder \<longrightarrow>
         (c_backend c = hb \<longrightarrow> c_backend d = hb)
         \<and> ((c_backend d = hb) = (c_backend c = hb) \<longrightarrow> i \<le> c_instance_id d))"
proof -
  let ?f = "\<lambda>c. (c_backend c = hb, c_instance_id c)"
  let ?cs = "filter (\<lambda>c. c_instance_id c \<noteq> holder) (free_candidates rq cs None)"
  from assms obtain c rest where c: "sort_key ?f ?cs = c # rest" "c_instance_id c = i"
    by (auto simp: choose_decision_def choose_fresh_def eligible_candidates_def
        split: option.splits if_splits list.splits)
  note least = hd_sort_key_least [OF c(1)]
  have "c \<in> set cs \<and> may_take rq c \<and> i \<noteq> holder"
    using least(1) c(2) by (auto simp: set_free_candidates)
  moreover have "(c_backend c = hb \<longrightarrow> c_backend d = hb)
      \<and> ((c_backend d = hb) = (c_backend c = hb) \<longrightarrow> i \<le> c_instance_id d)"
    if "d \<in> set cs" "may_take rq d" "c_instance_id d \<noteq> holder" for d
  proof -
    have "d \<in> set ?cs" using that by (simp add: set_free_candidates)
    from least(2) [OF this] show ?thesis using c(2) by (auto simp: less_bool_def)
  qed
  ultimately show ?thesis using c(2) by blast
qed

section \<open>A concrete team\<close>

definition sample_request :: AssignmentRequest where
  "sample_request = \<lparr>rq_team_id = ''team'', rq_role = ''reviewer'', rq_allowed_backends = [Claude, Codex],
     rq_available_backends = [Claude], rq_role_capacity = Some \<lparr>minimum_instances = 1,
     maximum_instances = 3, current_instances = 2\<rparr>, rq_purpose = Review ''dev-1'' Claude\<rparr>"

definition sample_candidates :: "Candidate list" where
  "sample_candidates =
     [\<lparr>c_instance_id = ''rev-1'', c_team_id = ''team'', c_role = ''reviewer'', c_backend = Claude,
       c_held_task = None, c_ephemeral = False, c_usage_available = True\<rparr>,
      \<lparr>c_instance_id = ''rev-2'', c_team_id = ''team'', c_role = ''reviewer'', c_backend = Codex,
       c_held_task = None, c_ephemeral = True, c_usage_available = True\<rparr>]"

theorem assigned_instance_may_take_witness:
  "\<exists>c. may_take sample_request c \<and> c_instance_id c = ''rev-2''"
proof -
  have "choose_decision sample_request sample_candidates = Assigned ''rev-2''" by code_simp
  from assigned_instance_may_take [OF disjI1 [OF this]] show ?thesis
    by (auto simp: sample_request_def)
qed

theorem queue_only_when_stuck_witness:
  "\<not> (\<exists>reason. choose_decision sample_request sample_candidates = Queue reason)"
proof -
  have "choose_decision sample_request sample_candidates = Assigned ''rev-2''" by code_simp
  then show ?thesis
    using queue_only_when_stuck [of sample_request _ sample_candidates]
    by (auto simp: sample_request_def valid_role_capacity_def)
qed

theorem review_prefers_other_backend_witness:
  "\<exists>c \<in> set sample_candidates. c_instance_id c = ''rev-2'' \<and> c_backend c \<noteq> Claude"
proof -
  have "choose_decision sample_request sample_candidates = Assigned ''rev-2''" by code_simp
  from review_prefers_other_backend [OF _ this] show ?thesis
    by (fastforce simp: sample_request_def sample_candidates_def)
qed

section \<open>Rework and the order of the candidates\<close>

text \<open>Rework stays with the task holder while it can work, and leaves a backend that hit its usage
  limit. If the holder is present with usage left it keeps the task. If it is present without usage,
  the task goes to a free member or a spawned instance on another backend, with the branch and the
  review comments handed over, or it waits for the usage limit.\<close>

theorem rework_follows_holder:
  assumes "rq_purpose rq = Rework task holder br comments"
    and "rq_role_capacity rq = Some cap" and "valid_role_capacity cap"
    and "holder_of rq task holder cs = Some c"
  shows "if c_usage_available c then choose_decision rq cs = Assigned holder
    else (case choose_decision rq cs of
        Reassigned i h \<Rightarrow> h = \<lparr>from_instance = holder, ho_branch = br, ho_review_comments = comments\<rparr>
          \<and> (\<exists>d \<in> set cs. c_instance_id d = i \<and> may_take rq d \<and> c_backend d \<noteq> c_backend c)
      | SpawnEphemeral b h \<Rightarrow>
          h = Some \<lparr>from_instance = holder, ho_branch = br, ho_review_comments = comments\<rparr>
          \<and> may_spawn rq b \<and> b \<noteq> c_backend c
      | Queue reason \<Rightarrow> reason = UsageLimit
      | _ \<Rightarrow> False)"
proof -
  let ?h = "\<lparr>from_instance = holder, ho_branch = br, ho_review_comments = comments\<rparr>"
  have d: "choose_decision rq cs = (if c_usage_available c then Assigned holder
      else take_over rq cs (Some c) ?h)"
    using assms(1,4) by (simp add: choose_decision_def choose_rework_def)
  have "take_over rq cs (Some c) ?h \<noteq> Queue InvalidRoleCapacity"
    using assms(2,3) by (simp add: take_over_def split: option.split)
  then show ?thesis
    using d take_over_spec [where rq = rq and cs = cs and current = "Some c" and h = ?h] assms(2)
    by (auto split: AssignmentDecision.splits)
qed

lemma sort_key_perm:
  assumes "mset xs = mset ys" and "inj_on f (set xs)"
  shows "sort_key f xs = sort_key f ys"
  using assms by (intro sort_key_inj_key_eq) simp_all

lemma find_perm:
  assumes "mset xs = mset ys" and "distinct (map f xs)" and "\<And>x. P x \<Longrightarrow> f x = k"
  shows "List.find P xs = List.find P ys"
proof (cases "List.find P xs")
  case None
  then show ?thesis using mset_eq_setD [OF assms(1)] by (metis find_None_iff)
next
  case (Some x)
  from find_SomeD [OF this] have x: "x \<in> set ys" "P x" using mset_eq_setD [OF assms(1)] by auto
  then obtain y where y: "List.find P ys = Some y" by (metis find_None_iff not_None_eq)
  from find_SomeD [OF y] find_SomeD [OF Some] have "y \<in> set xs" "x \<in> set xs" "f y = f x"
    using mset_eq_setD [OF assms(1)] assms(3) by auto
  with assms(2) Some y show ?thesis by (auto simp: distinct_map dest: inj_onD)
qed

lemma candidates_perm:
  assumes "mset cs = mset cs'" and "distinct (map c_instance_id cs)"
  shows "free_candidates rq cs ex = free_candidates rq cs' ex"
    "set (role_candidates rq cs) = set (role_candidates rq cs')"
    "eligible_candidates rq cs = eligible_candidates rq cs'"
proof -
  have inj: "inj_on c_instance_id (set cs)" using assms(2) by (simp add: distinct_map)
  show free: "free_candidates rq cs ex = free_candidates rq cs' ex" for ex
    unfolding free_candidates_def role_candidates_def using assms(1) inj
    by (intro sort_key_perm) (auto simp: mset_filter intro: inj_on_subset)
  show "set (role_candidates rq cs) = set (role_candidates rq cs')"
    using mset_eq_setD [OF assms(1)] by (simp add: role_candidates_def)
  show "eligible_candidates rq cs = eligible_candidates rq cs'"
    by (simp add: eligible_candidates_def free split: Purpose.split)
qed

text \<open>The decision does not depend on the order in which the daemon lists the candidates, as long
  as instance ids are unique.\<close>

theorem choice_ignores_order:
  assumes "mset cs = mset cs'" and "distinct (map c_instance_id cs)"
  shows "choose_decision rq cs = choose_decision rq cs'"
proof -
  note perm = candidates_perm [OF assms]
  have "role_candidates rq cs = [] \<longleftrightarrow> role_candidates rq cs' = []"
    using perm(2) [of rq] by (metis set_empty)
  moreover have "only_holder rq cs \<longleftrightarrow> only_holder rq cs'"
    using perm(2) [of rq] calculation by (auto simp: only_holder_def list_all_iff split: Purpose.split)
  ultimately have fresh: "choose_fresh rq cap cs = choose_fresh rq cap cs'" for cap
    unfolding choose_fresh_def perm(3) by (auto split: list.split)
  have "holder_of rq task holder cs = holder_of rq task holder cs'" for task holder
    unfolding holder_of_def by (rule find_perm [OF assms]) simp
  moreover have "take_over rq cs cur h = take_over rq cs' cur h" for cur h
    unfolding take_over_def perm(1) by simp
  ultimately have "choose_rework rq task holder br comments cs = choose_rework rq task holder br comments cs'"
    for task holder br comments
    unfolding choose_rework_def Let_def by simp
  with fresh show ?thesis by (simp add: choose_decision_def split: Purpose.split option.split)
qed

theorem choice_ignores_order_witness:
  "choose_decision sample_request (rev sample_candidates) = Assigned ''rev-2''"
proof -
  have "choose_decision sample_request (rev sample_candidates)
      = choose_decision sample_request sample_candidates"
    by (rule choice_ignores_order) (simp_all add: sample_candidates_def)
  also have "\<dots> = Assigned ''rev-2''" by code_simp
  finally show ?thesis .
qed

theorem rework_follows_holder_witness:
  "choose_decision (sample_request\<lparr>rq_purpose := Rework ''t9'' ''rev-1'' None []\<rparr>)
     (map (c_held_task_update (\<lambda>_. Some ''t9'')) sample_candidates) = Assigned ''rev-1''"
proof -
  let ?rq = "sample_request\<lparr>rq_purpose := Rework ''t9'' ''rev-1'' None []\<rparr>"
  let ?cs = "map (c_held_task_update (\<lambda>_. Some ''t9'')) sample_candidates"
  have "holder_of ?rq ''t9'' ''rev-1'' ?cs
      = Some \<lparr>c_instance_id = ''rev-1'', c_team_id = ''team'', c_role = ''reviewer'',
              c_backend = Claude, c_held_task = Some ''t9'', c_ephemeral = False, c_usage_available = True\<rparr>"
    by code_simp
  from rework_follows_holder [OF _ _ _ this] show ?thesis
    by (simp add: sample_request_def valid_role_capacity_def)
qed

end
