(* ===== verification/Wait_Graph.thy ===== *)
theory Wait_Graph
  imports Prelude
begin

text \<open>
  The wait-cycle check of \<^verbatim>\<open>crates/agend-core/src/policy/assign.rs\<close>: before an agent may wait for
  another, the edge is tested against the waits of its team. The loop of the source is a worklist
  search with a list of visited nodes; it is modelled with the same stack discipline (\<open>pop\<close> and
  \<open>extend\<close> work at the end of the vector) and shown to terminate and to decide reachability.
\<close>

record WaitEdge =
  we_team_id :: string
  waiter :: string
  waits_for :: string

definition successors :: "WaitEdge list \<Rightarrow> string \<Rightarrow> string \<Rightarrow> string list" where
  "successors existing team x =
     map waits_for (filter (\<lambda>e. we_team_id e = team \<and> waiter e = x) existing)"

function search_waits ::
    "WaitEdge list \<Rightarrow> string \<Rightarrow> string \<Rightarrow> string list \<Rightarrow> string list \<Rightarrow> bool" where
  "search_waits existing team goal pending visited =
     (if pending = [] then False
      else let current = last pending; rest = butlast pending in
        if current = goal then True
        else if current \<in> set visited then search_waits existing team goal rest visited
        else search_waits existing team goal (rest @ successors existing team current)
               (visited @ [current]))"
  by pat_completeness auto

lemma no_successors: "x \<notin> waiter ` set existing \<Longrightarrow> successors existing team x = []"
  by (auto simp: successors_def filter_empty_conv)

text \<open>
  A step either marks a waiter as visited or shortens the stack.
\<close>

termination search_waits
proof (relation "measures [\<lambda>(existing, _, _, _, visited). card (waiter ` set existing - set visited),
    \<lambda>(_, _, _, pending, _). length pending]", goal_cases)
  case 1
  then show ?case by simp
next
  case (2 existing team goal pending visited x rest)
  then show ?case by (cases pending rule: rev_cases) auto
next
  case (3 existing team goal pending visited x rest)
  show ?case
  proof (cases "x \<in> waiter ` set existing")
    case True
    with 3 have "waiter ` set existing - set (visited @ [x]) \<subset> waiter ` set existing - set visited" by auto
    then show ?thesis by (auto intro: psubset_card_mono)
  next
    case False
    then have "waiter ` set existing - set (visited @ [x]) = waiter ` set existing - set visited" by auto
    moreover have "length rest < length pending" using 3 by (cases pending rule: rev_cases) auto
    ultimately show ?thesis using no_successors [OF False] by simp
  qed
qed

declare search_waits.simps [simp del]

lemma search_waits_Nil [simp]: "\<not> search_waits existing team goal [] visited"
  by (simp add: search_waits.simps)

lemma search_waits_snoc:
  "search_waits existing team goal (rest @ [x]) visited \<longleftrightarrow>
     x = goal
     \<or> (if x \<in> set visited then search_waits existing team goal rest visited
        else search_waits existing team goal (rest @ successors existing team x) (visited @ [x]))"
  by (subst search_waits.simps) simp

definition creates_wait_cycle :: "WaitEdge list \<Rightarrow> WaitEdge \<Rightarrow> bool" where
  "creates_wait_cycle existing new_edge =
     (waiter new_edge = waits_for new_edge
      \<or> search_waits existing (we_team_id new_edge) (waiter new_edge) [waits_for new_edge] [])"

section \<open>The search decides reachability\<close>

definition waits :: "WaitEdge list \<Rightarrow> string \<Rightarrow> (string \<times> string) set" where
  "waits existing team = {(waiter e, waits_for e) | e. e \<in> set existing \<and> we_team_id e = team}"

lemma set_successors: "set (successors existing team x) = waits existing team `` {x}"
  by (auto simp: successors_def waits_def)

text \<open>
  Invariant of the loop: the goal was not visited, and what a visited node waits for was visited or
  is on the stack.
\<close>

definition search_inv :: "WaitEdge list \<Rightarrow> string \<Rightarrow> string \<Rightarrow> string list \<Rightarrow> string list \<Rightarrow> bool" where
  "search_inv existing team goal pending visited \<longleftrightarrow>
     goal \<notin> set visited \<and> waits existing team `` set visited \<subseteq> set visited \<union> set pending"

lemma closed_reach:
  assumes "r `` V \<subseteq> V" and "(x, y) \<in> r\<^sup>*" and "x \<in> V"
  shows "y \<in> V"
  using assms(2,3) by (induction rule: rtrancl_induct) (use assms(1) in auto)

lemma search_waits_iff:
  "search_inv existing team goal pending visited \<Longrightarrow>
     search_waits existing team goal pending visited
       \<longleftrightarrow> (\<exists>x \<in> set pending. (x, goal) \<in> (waits existing team)\<^sup>*)"
proof (induction existing team goal pending visited rule: search_waits.induct)
  case (1 existing team goal pending visited)
  let ?r = "waits existing team"
  show ?case
  proof (cases pending rule: rev_cases)
    case Nil
    then show ?thesis by simp
  next
    case (snoc rest x)
    consider "x = goal" | "x \<noteq> goal" "x \<in> set visited" | "x \<noteq> goal" "x \<notin> set visited" by blast
    then show ?thesis
    proof cases
      case 1
      then show ?thesis using snoc by (simp add: search_waits_snoc)
    next
      case 2
      have inv: "search_inv existing team goal rest visited"
        using "1.prems" snoc 2 by (auto simp: search_inv_def)
      have "\<exists>y \<in> set rest. (y, goal) \<in> ?r\<^sup>*" if "(x, goal) \<in> ?r\<^sup>*"
      proof (rule ccontr)
        let ?V = "{v. \<exists>y \<in> set rest. (y, v) \<in> ?r\<^sup>*} \<union> set visited"
        assume "\<not> ?thesis"
        then have "goal \<notin> ?V" using inv by (auto simp: search_inv_def)
        moreover have "?r `` ?V \<subseteq> ?V"
          using inv by (auto simp: search_inv_def intro: rtrancl.rtrancl_into_rtrancl)
        ultimately show False using closed_reach [OF _ that, of ?V] 2 by auto
      qed
      moreover have "search_waits existing team goal rest visited \<longleftrightarrow> (\<exists>y \<in> set rest. (y, goal) \<in> ?r\<^sup>*)"
        using "1.IH"(1) [OF _ refl refl] snoc 2 inv by simp
      ultimately show ?thesis unfolding snoc search_waits_snoc using 2 by auto
    next
      case 3
      have inv: "search_inv existing team goal (rest @ successors existing team x) (visited @ [x])"
        using "1.prems" snoc 3 by (auto simp: search_inv_def set_successors)
      have "(x, goal) \<in> ?r\<^sup>* \<longleftrightarrow> (\<exists>y \<in> ?r `` {x}. (y, goal) \<in> ?r\<^sup>*)"
        using 3 by (auto elim: converse_rtranclE intro: converse_rtrancl_into_rtrancl)
      moreover have "search_waits existing team goal (rest @ successors existing team x) (visited @ [x])
          \<longleftrightarrow> (\<exists>y \<in> set rest \<union> ?r `` {x}. (y, goal) \<in> ?r\<^sup>*)"
        using "1.IH"(2) [OF _ refl refl] snoc 3 inv by (simp add: set_successors)
      ultimately show ?thesis unfolding snoc search_waits_snoc using 3 by auto
    qed
  qed
qed

lemma search_exact:
  "creates_wait_cycle existing e \<longleftrightarrow> (waits_for e, waiter e) \<in> (waits existing (we_team_id e))\<^sup>*"
proof -
  have "search_inv existing (we_team_id e) (waiter e) [waits_for e] []" by (simp add: search_inv_def)
  from search_waits_iff [OF this] show ?thesis by (auto simp: creates_wait_cycle_def)
qed

text \<open>C35: the check is exact. For every list of waits and every new edge, \<open>creates_wait_cycle\<close>
  terminates and answers true exactly when the agent to be waited for already waits, directly or
  through others of the same team, for the agent that wants to wait.\<close>

theorem creates_wait_cycle_iff:
  "creates_wait_cycle existing e
     \<longleftrightarrow> (waits_for e, waiter e) \<in> (waits existing (we_team_id e))\<^sup>*"
  by (rule search_exact)

section \<open>A guarded list of waits\<close>

text \<open>A caller that adds an edge only after the check.\<close>

definition add_wait :: "WaitEdge list \<Rightarrow> WaitEdge \<Rightarrow> unit + WaitEdge list \<times> unit list" where
  "add_wait existing e = (if creates_wait_cycle existing e then Inl () else Inr (existing @ [e], []))"

definition deadlock_free :: "WaitEdge list \<Rightarrow> bool" where
  "deadlock_free existing \<longleftrightarrow> (\<forall>team. acyclic (waits existing team))"

lemma waits_snoc:
  "waits (existing @ [e]) team =
     (if team = we_team_id e then insert (waiter e, waits_for e) (waits existing team)
      else waits existing team)"
  by (auto simp: waits_def)

interpretation guarded_waits: invariant_transition add_wait deadlock_free
proof unfold_locales
  fix existing e existing' os
  assume d: "deadlock_free existing" and a: "add_wait existing e = Inr (existing', os)"
  then have "\<not> creates_wait_cycle existing e" "existing' = existing @ [e]"
    by (auto simp: add_wait_def split: if_splits)
  then show "deadlock_free existing'"
    using d by (auto simp: deadlock_free_def waits_snoc search_exact acyclic_insert)
qed

text \<open>Agents that only wait after the check never deadlock: from no waits at all, every sequence
  of accepted edges leaves the waits of every team without a cycle.\<close>

theorem guarded_waits_never_deadlock:
  assumes "accepts add_wait [] edges existing"
  shows "\<forall>team. acyclic (waits existing team)"
proof -
  have "deadlock_free []" by (simp add: deadlock_free_def waits_def acyclic_def)
  from guarded_waits.run_inv [OF assms this] show ?thesis by (simp add: deadlock_free_def)
qed

theorem guarded_waits_never_deadlock_witness:
  "acyclic (waits [\<lparr>we_team_id = ''t'', waiter = ''a'', waits_for = ''b''\<rparr>] ''t'')"
proof -
  let ?e = "\<lparr>we_team_id = ''t'', waiter = ''a'', waits_for = ''b''\<rparr>"
  have "add_wait [] ?e = Inr ([?e], [])" by (simp add: add_wait_def search_exact waits_def)
  then have "accepts add_wait [] [?e] [?e]" using accepts_nil by (rule accepts_Cons)
  from guarded_waits_never_deadlock [OF this] show ?thesis by simp
qed

end
