(* ===== verification/Agent_Policies.thy ===== *)
theory Agent_Policies
  imports Domain_Model "HOL-Library.Char_ord" "HOL-Library.List_Lexorder"
    "HOL-Library.Product_Lexorder" "HOL-Library.Multiset"
begin

text \<open>
  The small policies of \<^verbatim>\<open>crates/agend-core/src/policy\<close>: how a message reaches a busy agent
  (\<^verbatim>\<open>busy.rs\<close>), the busy/idle debounce (\<^verbatim>\<open>debounce.rs\<close>), overlapping file sets (\<^verbatim>\<open>conflict.rs\<close>), the
  order of the operator's items (\<^verbatim>\<open>attention.rs\<close>) and the admission of Codex input
  (\<^verbatim>\<open>codex_input.rs\<close>).
\<close>

section \<open>Busy agents\<close>

datatype BusyLevel = Queue | Steer | Interrupt

fun effective_level :: "Backend \<Rightarrow> BusyLevel \<Rightarrow> BusyLevel" where
  "effective_level Claude Steer = Interrupt"
| "effective_level Opencode Steer = Interrupt"
| "effective_level _ level = level"

section \<open>Debounce\<close>

definition IDLE_STABLE_MS :: u64 where
  "IDLE_STABLE_MS = 5000"

datatype AgentActivity = Idle | Busy

record DebounceState =
  effective :: AgentActivity
  idle_candidate_since_ms :: "u64 option"

definition DebounceState_new :: "AgentActivity \<Rightarrow> DebounceState" where
  "DebounceState_new activity = \<lparr>effective = activity, idle_candidate_since_ms = None\<rparr>"

definition set_effective :: "AgentActivity \<Rightarrow> DebounceState \<Rightarrow> DebounceState \<times> bool" where
  "set_effective activity d = (d\<lparr>effective := activity\<rparr>, effective d \<noteq> activity)"

text \<open>\<open>saturating_sub\<close> of \<open>u64\<close>.\<close>

definition saturating_sub :: "u64 \<Rightarrow> u64 \<Rightarrow> u64" where
  "saturating_sub a b = (if b \<le> a then a - b else 0)"

definition advance :: "u64 \<Rightarrow> DebounceState \<Rightarrow> DebounceState \<times> bool" where
  "advance now_ms d =
     (case idle_candidate_since_ms d of
        None \<Rightarrow> (d, False)
      | Some since_ms \<Rightarrow>
          if saturating_sub now_ms since_ms < IDLE_STABLE_MS then (d, False)
          else set_effective Idle (d\<lparr>idle_candidate_since_ms := None\<rparr>))"

definition observe :: "AgentActivity \<Rightarrow> u64 \<Rightarrow> DebounceState \<Rightarrow> DebounceState \<times> bool" where
  "observe observed now_ms d =
     (case observed of
        Busy \<Rightarrow> set_effective Busy (d\<lparr>idle_candidate_since_ms := None\<rparr>)
      | Idle \<Rightarrow>
          if effective d = Idle then (d\<lparr>idle_candidate_since_ms := None\<rparr>, False)
          else advance now_ms
                 (case idle_candidate_since_ms d of
                    None \<Rightarrow> d\<lparr>idle_candidate_since_ms := Some now_ms\<rparr>
                  | Some _ \<Rightarrow> d))"

definition DebounceState_default :: DebounceState where
  "DebounceState_default = DebounceState_new Idle"

text \<open>
  The daemon calls \<open>observe\<close> for status events and \<open>advance\<close> on its timer.
\<close>

datatype DebounceCall = Observe AgentActivity u64 | Advance u64

fun debounce_call :: "DebounceState \<Rightarrow> DebounceCall \<Rightarrow> unit + DebounceState \<times> bool list" where
  "debounce_call d (Observe a now) = (let (d', changed) = observe a now d in Inr (d', [changed]))"
| "debounce_call d (Advance now) = (let (d', changed) = advance now d in Inr (d', [changed]))"

fun call_time :: "DebounceCall \<Rightarrow> u64" where
  "call_time (Observe _ t) = t"
| "call_time (Advance t) = t"

text \<open>
  What a history of calls says: the idle observations since the last busy one, oldest first.
\<close>

fun is_busy_call :: "DebounceCall \<Rightarrow> bool" where
  "is_busy_call (Observe Busy _) = True"
| "is_busy_call _ = False"

fun idle_time :: "DebounceCall \<Rightarrow> u64 option" where
  "idle_time (Observe Idle t) = Some t"
| "idle_time _ = None"

definition since_busy :: "DebounceCall list \<Rightarrow> DebounceCall list" where
  "since_busy calls = rev (takeWhile (\<lambda>c. \<not> is_busy_call c) (rev calls))"

lemma since_busy_snoc:
  "since_busy (calls @ [c]) = (if is_busy_call c then [] else since_busy calls @ [c])"
  by (simp add: since_busy_def)

lemma saturating_sub_less:
  "saturating_sub a b < c \<longleftrightarrow> unat a - unat b < unat c"
  by (auto simp: saturating_sub_def word_less_nat_alt word_le_nat_alt unat_sub_if')

lemma saturating_sub_unat: "unat (saturating_sub a b) = unat a - unat b"
  by (auto simp: saturating_sub_def word_le_nat_alt unat_sub_if')

text \<open>
  The state of the debounce as a function of the calls since the last busy observation: the idle
  candidate is the first idle observation, and the agent turns idle at the first call from then on
  that is at least five seconds younger.
\<close>

definition first_idle :: "DebounceCall list \<Rightarrow> u64 option" where
  "first_idle = find_map idle_time"

definition settled :: "DebounceCall list \<Rightarrow> bool" where
  "settled calls \<longleftrightarrow>
     (\<exists>j < length calls. \<exists>t. first_idle (take (Suc j) calls) = Some t
        \<and> unat (call_time (calls ! j)) - unat t \<ge> 5000)"

lemma find_map_snoc: "find_map f (xs @ [x]) = or_else (find_map f xs) (f x)"
  by (induction xs) (auto split: option.split)

lemma settled_Nil [simp]: "\<not> settled []"
  by (simp add: settled_def)

lemma settled_snoc:
  "settled (h @ [c]) \<longleftrightarrow> settled h
     \<or> (\<exists>t. or_else (first_idle h) (idle_time c) = Some t \<and> unat (call_time c) - unat t \<ge> 5000)"
proof -
  have "(\<exists>j < Suc (length h). P j) \<longleftrightarrow> (\<exists>j < length h. P j) \<or> P (length h)" for P
    by (auto simp: less_Suc_eq)
  then show ?thesis by (auto simp: settled_def nth_append first_idle_def find_map_snoc)
qed

definition debounced :: "AgentActivity \<Rightarrow> DebounceCall list \<Rightarrow> DebounceState" where
  "debounced initial calls =
     (if initial = Idle \<and> \<not> list_ex is_busy_call calls \<or> settled (since_busy calls)
      then \<lparr>effective = Idle, idle_candidate_since_ms = None\<rparr>
      else \<lparr>effective = Busy, idle_candidate_since_ms = first_idle (since_busy calls)\<rparr>)"

lemma stable_ms [simp]: "unat IDLE_STABLE_MS = 5000"
  by (simp add: IDLE_STABLE_MS_def)

lemma advance_debounced:
  "fst (advance now \<lparr>effective = Busy, idle_candidate_since_ms = cand\<rparr>) =
     (if \<exists>t. cand = Some t \<and> unat now - unat t \<ge> 5000
      then \<lparr>effective = Idle, idle_candidate_since_ms = None\<rparr>
      else \<lparr>effective = Busy, idle_candidate_since_ms = cand\<rparr>)"
  by (cases cand) (auto simp: advance_def set_effective_def saturating_sub_less)

lemma debounce_call_debounced:
  assumes "debounce_call (debounced initial calls) c = Inr (d, os)"
  shows "d = debounced initial (calls @ [c])"
proof (cases "is_busy_call c")
  case True
  then show ?thesis
    using assms by (cases c rule: is_busy_call.cases)
      (auto simp: debounced_def observe_def set_effective_def since_busy_snoc first_idle_def)
next
  case False
  have b: "list_ex is_busy_call (calls @ [c]) = list_ex is_busy_call calls" using False by simp
  let ?h = "since_busy calls"
  have h: "since_busy (calls @ [c]) = ?h @ [c]" using False by (simp add: since_busy_snoc)
  have f: "first_idle (?h @ [c]) = or_else (first_idle ?h) (idle_time c)"
    by (simp add: first_idle_def find_map_snoc)
  show ?thesis
  proof (cases "initial = Idle \<and> \<not> list_ex is_busy_call calls \<or> settled ?h")
    case True
    then have "debounced initial (calls @ [c]) = debounced initial calls"
      using b h by (auto simp: debounced_def settled_snoc)
    moreover have "d = debounced initial calls"
      using assms True False
      by (cases c rule: is_busy_call.cases) (auto simp: debounced_def observe_def advance_def)
    ultimately show ?thesis by simp
  next
    case busy: False
    then have old: "debounced initial calls = \<lparr>effective = Busy, idle_candidate_since_ms = first_idle ?h\<rparr>"
      by (simp add: debounced_def)
    have "d = fst (advance (call_time c)
        \<lparr>effective = Busy, idle_candidate_since_ms = or_else (first_idle ?h) (idle_time c)\<rparr>)"
    proof (cases c)
      case (Observe a now)
      then have "a = Idle" using False by (cases a) auto
      then show ?thesis
        using assms Observe old by (auto simp: observe_def split: prod.splits option.splits)
    next
      case (Advance now)
      then show ?thesis using assms old by (cases "first_idle ?h") (auto split: prod.splits)
    qed
    then show ?thesis
      using busy b h f by (auto simp: debounced_def settled_snoc advance_debounced)
  qed
qed

text \<open>C37: the debounce implements its specification on every history of calls. An agent counts as busy
  from a busy observation on, until a call comes at least five seconds (in saturating milliseconds)
  after the first idle observation since; without a busy observation it keeps its initial activity
  under the same rule.\<close>

theorem debounce_refines:
  assumes "accepts debounce_call (DebounceState_new initial) calls d"
  shows "d = debounced initial calls"
  using assms
proof (induction "DebounceState_new initial" calls d rule: accepts.induct)
  case accepts_nil
  then show ?case
    by (cases initial) (simp_all add: DebounceState_new_def debounced_def since_busy_def first_idle_def)
next
  case (accepts_snoc ins t i u os)
  then show ?case by (intro debounce_call_debounced) simp
qed

theorem debounce_refines_witness:
  "\<exists>d. accepts debounce_call (DebounceState_new Busy) [Observe Idle 100, Advance 5100] d
     \<and> effective d = Idle"
proof -
  let ?d1 = "\<lparr>effective = Busy, idle_candidate_since_ms = Some 100\<rparr>"
  let ?d2 = "\<lparr>effective = Idle, idle_candidate_since_ms = None\<rparr>"
  have "debounce_call (DebounceState_new Busy) (Observe Idle 100) = Inr (?d1, [False])"
    by (simp add: DebounceState_new_def observe_def advance_def saturating_sub_def IDLE_STABLE_MS_def)
  moreover have "debounce_call ?d1 (Advance 5100) = Inr (?d2, [True])"
    by (simp add: advance_def saturating_sub_def IDLE_STABLE_MS_def set_effective_def)
  then have "accepts debounce_call ?d1 [Advance 5100] ?d2" using accepts_nil by (rule accepts_Cons)
  ultimately have a2: "accepts debounce_call (DebounceState_new Busy) [Observe Idle 100, Advance 5100] ?d2"
    by (rule accepts_Cons)
  have "settled [Observe Idle 100, Advance 5100]"
    by (auto simp: settled_def first_idle_def intro!: exI [of _ "1 :: nat"])
  then have "effective (debounced Busy [Observe Idle 100, Advance 5100]) = Idle"
    by (simp add: debounced_def since_busy_def)
  with a2 debounce_refines [OF a2] show ?thesis by auto
qed

section \<open>Overlapping file sets\<close>

record TaskFileSet =
  tf_task_id :: string
  tf_files :: "string list"

record FileConflict =
  left_task_id :: string
  right_task_id :: string
  overlapping_files :: "string list"

text \<open>A \<open>BTreeSet\<close> of strings is its ascending list of elements.\<close>

definition btree_set :: "string list \<Rightarrow> string list" where
  "btree_set xs = sort (remdups xs)"

definition overlap :: "string list \<Rightarrow> string list \<Rightarrow> string list" where
  "overlap l r = (let r' = btree_set r in filter (\<lambda>p. p \<in> set r') (btree_set l))"

definition pair_conflict :: "TaskFileSet list \<Rightarrow> nat \<Rightarrow> nat \<Rightarrow> FileConflict list" where
  "pair_conflict tasks i j =
     (let files = overlap (tf_files (tasks ! i)) (tf_files (tasks ! j)) in
      if files \<noteq> []
      then [\<lparr>left_task_id = tf_task_id (tasks ! i), right_task_id = tf_task_id (tasks ! j),
             overlapping_files = files\<rparr>]
      else [])"

definition conflicts :: "TaskFileSet list \<Rightarrow> FileConflict list" where
  "conflicts tasks =
     concat (map (\<lambda>i. concat (map (pair_conflict tasks i) [i + 1..<length tasks])) [0..<length tasks])"

lemma set_pair_conflict:
  "\<lparr>left_task_id = a, right_task_id = b, overlapping_files = fs\<rparr> \<in> set (pair_conflict tasks i j) \<longleftrightarrow>
     a = tf_task_id (tasks ! i) \<and> b = tf_task_id (tasks ! j) \<and> fs \<noteq> []
     \<and> fs = overlap (tf_files (tasks ! i)) (tf_files (tasks ! j))"
  by (auto simp: pair_conflict_def Let_def)

lemma set_conflicts:
  "c \<in> set (conflicts tasks) \<longleftrightarrow>
     (\<exists>i j. i < j \<and> j < length tasks \<and> c \<in> set (pair_conflict tasks i j))"
proof -
  have "c \<in> set (conflicts tasks)
      \<longleftrightarrow> (\<exists>i \<in> {0..<length tasks}. \<exists>j \<in> {i + 1..<length tasks}. c \<in> set (pair_conflict tasks i j))"
    by (simp add: conflicts_def)
  also have "\<dots> \<longleftrightarrow> (\<exists>i j. i < j \<and> j < length tasks \<and> c \<in> set (pair_conflict tasks i j))"
    by (force simp: Suc_le_eq)
  finally show ?thesis .
qed

lemma sorted_overlap: "sorted_wrt (<) (overlap l r)" "set (overlap l r) = set l \<inter> set r"
  by (auto simp: overlap_def btree_set_def strict_sorted_iff intro: sorted_wrt_filter)

lemma overlap_unique:
  "sorted_wrt (<) fs \<Longrightarrow> set fs = set l \<inter> set r \<Longrightarrow> fs = overlap l r"
  using sorted_overlap [of l r] by (metis strict_sorted_equal)

text \<open>Exactly the overlapping pairs of tasks are reported: a report names a task and a later one
  and lists, strictly ascending, all the paths the two have in common, of which there is at least
  one; every such pair is reported.\<close>

theorem conflicts_iff:
  "\<lparr>left_task_id = a, right_task_id = b, overlapping_files = fs\<rparr> \<in> set (conflicts tasks) \<longleftrightarrow>
     (\<exists>i j. i < j \<and> j < length tasks \<and> a = tf_task_id (tasks ! i) \<and> b = tf_task_id (tasks ! j)
        \<and> fs \<noteq> [] \<and> sorted_wrt (<) fs \<and> set fs = set (tf_files (tasks ! i)) \<inter> set (tf_files (tasks ! j)))"
proof -
  have "fs = overlap l r \<longleftrightarrow> sorted_wrt (<) fs \<and> set fs = set l \<inter> set r" for l r
    using overlap_unique sorted_overlap by blast
  then show ?thesis by (simp add: set_conflicts set_pair_conflict)
qed

section \<open>The operator's items\<close>

record AttentionItem =
  ai_id :: string
  ai_unblocks :: u32
  ai_waiting_since_unix_ms :: u64

text \<open>The comparison of \<open>order\<close>, as an ordering and as the key it compares.\<close>

datatype Ordering = Less | Equal | Greater

definition compare_with :: "'a::linorder \<Rightarrow> 'a \<Rightarrow> Ordering" where
  "compare_with a b = (if a < b then Less else if a = b then Equal else Greater)"

definition then_with :: "Ordering \<Rightarrow> Ordering \<Rightarrow> Ordering" where
  "then_with x y = (if x = Equal then y else x)"

definition attention_cmp :: "AttentionItem \<Rightarrow> AttentionItem \<Rightarrow> Ordering" where
  "attention_cmp a b =
     then_with (then_with (compare_with (ai_unblocks b) (ai_unblocks a))
       (compare_with (ai_waiting_since_unix_ms a) (ai_waiting_since_unix_ms b)))
       (compare_with (ai_id a) (ai_id b))"

definition insert_by :: "('a \<Rightarrow> 'a \<Rightarrow> Ordering) \<Rightarrow> 'a \<Rightarrow> 'a list \<Rightarrow> 'a list" where
  "insert_by cmp x xs = takeWhile (\<lambda>y. cmp x y = Greater) xs @ x # dropWhile (\<lambda>y. cmp x y = Greater) xs"

text \<open>A stable sort by a comparison; items are inserted from the right in front of their equals.\<close>

definition sort_by :: "('a \<Rightarrow> 'a \<Rightarrow> Ordering) \<Rightarrow> 'a list \<Rightarrow> 'a list" where
  "sort_by cmp xs = foldr (insert_by cmp) xs []"

definition order_items :: "AttentionItem list \<Rightarrow> AttentionItem list" where
  "order_items items = sort_by attention_cmp items"

definition attention_key :: "AttentionItem \<Rightarrow> int \<times> u64 \<times> string" where
  "attention_key a = (- uint (ai_unblocks a), ai_waiting_since_unix_ms a, ai_id a)"

lemma uint_order:
  "uint a < uint b \<longleftrightarrow> a < b" "uint a \<le> uint b \<longleftrightarrow> a \<le> b" "uint a = uint b \<longleftrightarrow> a = b"
  by (simp_all add: word_less_def word_le_def word_uint_eq_iff)

lemma attention_cmp_key: "attention_cmp a b = compare_with (attention_key a) (attention_key b)"
  by (auto simp: attention_cmp_def attention_key_def compare_with_def then_with_def uint_order)

lemma insert_by_key:
  "(\<And>a b. cmp a b = compare_with (f a) (f b)) \<Longrightarrow> insert_by cmp x xs = insort_key f x xs"
  by (induction xs) (auto simp: insert_by_def compare_with_def)

lemma sort_by_key: "(\<And>a b. cmp a b = compare_with (f a) (f b)) \<Longrightarrow> sort_by cmp xs = sort_key f xs"
  by (induction xs) (simp_all add: sort_by_def insert_by_key sort_key_def)

lemma order_items_key: "order_items items = sort_key attention_key items"
  by (simp add: order_items_def sort_by_key [OF attention_cmp_key])

text \<open>The list of items is a rearrangement of the given ones in which an item that unblocks more
  comes first, among equals the one waiting longer, among equals the one with the smaller id.\<close>

theorem order_items_spec:
  "mset (order_items items) = mset items
   \<and> sorted_wrt (\<lambda>a b. ai_unblocks a > ai_unblocks b
       \<or> (ai_unblocks a = ai_unblocks b
          \<and> (ai_waiting_since_unix_ms a < ai_waiting_since_unix_ms b
             \<or> (ai_waiting_since_unix_ms a = ai_waiting_since_unix_ms b \<and> ai_id a \<le> ai_id b))))
      (order_items items)"
proof -
  have "sorted_wrt (\<lambda>a b. attention_key a \<le> attention_key b) (order_items items)"
    using sorted_sort_key [of attention_key items] by (simp add: order_items_key sorted_map)
  then show ?thesis
    by (auto simp: order_items_key attention_key_def uint_order elim!: sorted_wrt_mono_rel [rotated])
qed

end
