(* ===== verification/Rust_Text.thy ===== *)
theory Rust_Text
  imports Domain_Model
begin

text \<open>
  The functions of \<open>str\<close> and \<open>[u8]\<close> that the command shim, the protocols and the policies use. A
  string is its list of UTF-8 bytes, as in \<open>Prelude\<close>; every separator and class below is ASCII, so
  working on bytes and on characters agrees.
\<close>

section \<open>Prefixes, suffixes, substrings\<close>

definition starts_with :: "'a list \<Rightarrow> 'a list \<Rightarrow> bool" where
  "starts_with s p \<longleftrightarrow> take (length p) s = p"

definition ends_with :: "'a list \<Rightarrow> 'a list \<Rightarrow> bool" where
  "ends_with s p \<longleftrightarrow> length p \<le> length s \<and> drop (length s - length p) s = p"

definition strip_suffix :: "'a list \<Rightarrow> 'a list \<Rightarrow> 'a list option" where
  "strip_suffix s p = (if ends_with s p then Some (take (length s - length p) s) else None)"

definition str_contains :: "'a list \<Rightarrow> 'a list \<Rightarrow> bool" where
  "str_contains s p \<longleftrightarrow> list_ex (\<lambda>i. starts_with (drop i s) p) [0..<length s + 1]"

text \<open>\<open>split\<close> on one character; there is always at least one part.\<close>

fun split_on :: "'a \<Rightarrow> 'a list \<Rightarrow> 'a list list" where
  "split_on c [] = [[]]"
| "split_on c (x # xs) =
     (if x = c then [] # split_on c xs
      else case split_on c xs of p # ps \<Rightarrow> (x # p) # ps | [] \<Rightarrow> [[x]])"

definition split_first :: "'a \<Rightarrow> 'a list \<Rightarrow> 'a list" where
  "split_first c s = takeWhile (\<lambda>x. x \<noteq> c) s"

definition rsplit_first :: "'a \<Rightarrow> 'a list \<Rightarrow> 'a list" where
  "rsplit_first c s = rev (takeWhile (\<lambda>x. x \<noteq> c) (rev s))"

text \<open>\<open>split_once\<close> with a string: what comes before and after its first occurrence.\<close>

fun split_once_str :: "'a list \<Rightarrow> 'a list \<Rightarrow> ('a list \<times> 'a list) option" where
  "split_once_str p [] = (if p = [] then Some ([], []) else None)"
| "split_once_str p (x # xs) =
     (if starts_with (x # xs) p then Some ([], drop (length p) (x # xs))
      else map_option (\<lambda>(a, b). (x # a, b)) (split_once_str p xs))"

text \<open>
  \<open>str::lines\<close>: parts between newlines, without the last one if it is empty, each without a trailing
  carriage return.
\<close>

definition strip_cr :: "string \<Rightarrow> string" where
  "strip_cr l = (case strip_suffix l [CHR 0x0D] of Some p \<Rightarrow> p | None \<Rightarrow> l)"

definition lines :: "string \<Rightarrow> string list" where
  "lines s = (let ps = split_on (CHR 0x0A) s
              in map strip_cr (if last ps = [] then butlast ps else ps))"

fun join :: "'a list \<Rightarrow> 'a list list \<Rightarrow> 'a list" where
  "join sep [] = []"
| "join sep [s] = s"
| "join sep (s # ss) = s @ sep @ join sep ss"

section \<open>ASCII classes\<close>

definition char_in :: "nat \<Rightarrow> nat \<Rightarrow> char \<Rightarrow> bool" where
  "char_in a b c \<longleftrightarrow> a \<le> of_char c \<and> of_char c \<le> b"

definition is_ascii_digit :: "char \<Rightarrow> bool" where
  "is_ascii_digit c \<longleftrightarrow> char_in 48 57 c"

definition is_ascii_lower :: "char \<Rightarrow> bool" where
  "is_ascii_lower c \<longleftrightarrow> char_in 97 122 c"

definition is_ascii_upper :: "char \<Rightarrow> bool" where
  "is_ascii_upper c \<longleftrightarrow> char_in 65 90 c"

definition is_ascii_alphabetic :: "char \<Rightarrow> bool" where
  "is_ascii_alphabetic c \<longleftrightarrow> is_ascii_lower c \<or> is_ascii_upper c"

definition is_ascii_alphanumeric :: "char \<Rightarrow> bool" where
  "is_ascii_alphanumeric c \<longleftrightarrow> is_ascii_alphabetic c \<or> is_ascii_digit c"

text \<open>\<open>char::is_ascii_whitespace\<close>: tab, line feed, form feed, carriage return, space.\<close>

definition is_ascii_whitespace :: "char \<Rightarrow> bool" where
  "is_ascii_whitespace c \<longleftrightarrow> (of_char c :: nat) \<in> {9, 10, 12, 13, 32}"

definition ascii_lower :: "char \<Rightarrow> char" where
  "ascii_lower c = (if is_ascii_upper c then char_of (of_char c + 32 :: nat) else c)"

definition to_ascii_lowercase :: "string \<Rightarrow> string" where
  "to_ascii_lowercase s = map ascii_lower s"

definition eq_ignore_ascii_case :: "string \<Rightarrow> string \<Rightarrow> bool" where
  "eq_ignore_ascii_case a b \<longleftrightarrow> to_ascii_lowercase a = to_ascii_lowercase b"

section \<open>Trimming\<close>

definition trim_start_while :: "('a \<Rightarrow> bool) \<Rightarrow> 'a list \<Rightarrow> 'a list" where
  "trim_start_while P s = dropWhile P s"

definition trim_end_while :: "('a \<Rightarrow> bool) \<Rightarrow> 'a list \<Rightarrow> 'a list" where
  "trim_end_while P s = rev (dropWhile P (rev s))"

definition trim_while :: "('a \<Rightarrow> bool) \<Rightarrow> 'a list \<Rightarrow> 'a list" where
  "trim_while P s = trim_end_while P (trim_start_while P s)"

text \<open>
  \<open>str::trim\<close> removes white-space characters (Unicode \<open>White_Space\<close>) at both ends. \<open>strip_blank_end\<close>
  removes one at the end: on well-formed UTF-8 a suffix that is the encoding of a character starts
  at a character boundary.
\<close>

definition strip_blank_end :: "nat list \<Rightarrow> nat list option" where
  "strip_blank_end xs =
     find_map (\<lambda>n. if n \<le> length xs \<and> strip_blank (drop (length xs - n) xs) = Some []
                   then Some (take (length xs - n) xs) else None) [1, 2, 3]"

lemma strip_blank_end_shorter: "strip_blank_end xs = Some ys \<Longrightarrow> length ys < length xs"
  by (auto simp: strip_blank_end_def split: if_splits option.splits)

function trim_start_bytes :: "nat list \<Rightarrow> nat list" where
  "trim_start_bytes xs = (case strip_blank xs of Some ys \<Rightarrow> trim_start_bytes ys | None \<Rightarrow> xs)"
  by pat_completeness auto
termination
  by (relation "measure length") (auto simp: strip_blank_shorter)

function trim_end_bytes :: "nat list \<Rightarrow> nat list" where
  "trim_end_bytes xs = (case strip_blank_end xs of Some ys \<Rightarrow> trim_end_bytes ys | None \<Rightarrow> xs)"
  by pat_completeness auto
termination
  by (relation "measure length") (auto simp: strip_blank_end_shorter)

declare trim_start_bytes.simps [simp del] trim_end_bytes.simps [simp del]

definition trim :: "string \<Rightarrow> string" where
  "trim s = map char_of (trim_end_bytes (trim_start_bytes (map of_char s)))"

section \<open>Numbers\<close>

text \<open>The value of a digit string and \<open>str::parse::<i64>\<close>: an optional sign, digits, no overflow.\<close>

definition digit_value :: "char \<Rightarrow> nat" where
  "digit_value c = of_char c - 48"

definition digits_value :: "string \<Rightarrow> nat" where
  "digits_value s = foldl (\<lambda>n c. n * 10 + digit_value c) 0 s"

definition parse_i64 :: "string \<Rightarrow> int option" where
  "parse_i64 s =
     (let (neg, ds) = (case s of
          c # cs \<Rightarrow> if c = CHR ''-'' then (True, cs) else if c = CHR ''+'' then (False, cs) else (False, s)
        | [] \<Rightarrow> (False, []));
          n = (if neg then - int (digits_value ds) else int (digits_value ds))
      in if ds = [] \<or> \<not> list_all is_ascii_digit ds then None
         else if - (2 ^ 63) \<le> n \<and> n < 2 ^ 63 then Some n else None)"

section \<open>Lemmas\<close>

lemma starts_with_iff: "starts_with s p \<longleftrightarrow> (\<exists>t. s = p @ t)"
  by (auto simp: starts_with_def) (metis append_take_drop_id)

lemma ends_with_iff: "ends_with s p \<longleftrightarrow> (\<exists>t. s = t @ p)"
  by (auto simp: ends_with_def) (metis append_take_drop_id)

lemma strip_suffix_eq_Some: "strip_suffix s p = Some t \<longleftrightarrow> s = t @ p"
  by (auto simp: strip_suffix_def ends_with_iff)

lemma str_contains_iff: "str_contains s p \<longleftrightarrow> (\<exists>a b. s = a @ p @ b)"
proof
  assume "str_contains s p"
  then obtain i where "starts_with (drop i s) p" unfolding str_contains_def list_ex_iff by blast
  then show "\<exists>a b. s = a @ p @ b" by (metis append_take_drop_id starts_with_iff)
next
  assume "\<exists>a b. s = a @ p @ b"
  then obtain a b where "s = a @ p @ b" by blast
  then have "starts_with (drop (length a) s) p" "length a < length s + 1"
    by (auto simp: starts_with_iff)
  then show "str_contains s p" by (force simp: str_contains_def list_ex_iff)
qed

lemma split_on_nonempty [simp]: "split_on c s \<noteq> []"
  by (cases s) (auto split: list.split)

lemma split_on_no_sep: "p \<in> set (split_on c s) \<Longrightarrow> c \<notin> set p"
  by (induction c s arbitrary: p rule: split_on.induct) (auto split: if_splits list.splits)

lemma join_split_on: "join [c] (split_on c s) = s"
proof (induction c s rule: split_on.induct)
  case (2 c x xs)
  then show ?case by (cases "split_on c xs"; cases "tl (split_on c xs)") (auto split: if_splits)
qed simp

lemma split_on_snoc_no_sep:
  "c \<notin> set a \<Longrightarrow> split_on c (a @ c # b) = a # split_on c b"
  by (induction a) auto

lemma split_once_str_None: "split_once_str p s = None \<longleftrightarrow> \<not> str_contains s p"
proof (induction p s rule: split_once_str.induct)
  case (1 p)
  then show ?case by (auto simp: str_contains_iff)
next
  case (2 p x xs)
  have "str_contains (x # xs) p \<longleftrightarrow> starts_with (x # xs) p \<or> str_contains xs p"
    unfolding str_contains_iff starts_with_iff by (auto simp: Cons_eq_append_conv)
  then show ?case using 2 by auto
qed

text \<open>Texts that begin and end with a printable ASCII character have nothing to trim.\<close>

definition printable :: "char \<Rightarrow> bool" where
  "printable c \<longleftrightarrow> char_in 33 126 c"

lemma strip_blank_printable: "33 \<le> a \<Longrightarrow> a \<le> 126 \<Longrightarrow> strip_blank (a # xs) = None"
  by (cases xs; cases "tl xs") auto

lemma strip_blank_last: "strip_blank xs = Some [] \<Longrightarrow> last xs \<le> 32 \<or> 128 \<le> last xs"
  by (cases xs rule: strip_blank.cases) (auto split: if_splits list.splits)

lemma strip_blank_end_printable:
  assumes "xs \<noteq> []" and "33 \<le> last xs" and "last xs \<le> 126"
  shows "strip_blank_end xs = None"
proof -
  have "strip_blank (drop (length xs - n) xs) \<noteq> Some []" if "0 < n" for n
  proof
    assume "strip_blank (drop (length xs - n) xs) = Some []"
    from strip_blank_last [OF this] assms that show False by (simp add: last_drop)
  qed
  then show ?thesis by (simp add: strip_blank_end_def)
qed

lemma trim_printable:
  assumes "s \<noteq> []" and "printable (hd s)" and "printable (last s)"
  shows "trim s = s"
proof -
  let ?b = "map of_char s :: nat list"
  obtain a xs where b: "?b = a # xs" "33 \<le> a" "a \<le> 126"
    using assms(1,2) by (cases s) (auto simp: printable_def char_in_def)
  have start: "trim_start_bytes ?b = ?b"
    using strip_blank_printable [OF b(2,3)] unfolding b(1) by (simp add: trim_start_bytes.simps [of "a # xs"])
  have "strip_blank_end ?b = None"
    using assms(1,3) by (intro strip_blank_end_printable) (auto simp: printable_def char_in_def last_map)
  then have "trim_end_bytes ?b = ?b" by (simp add: trim_end_bytes.simps [of ?b])
  with start show ?thesis by (simp add: trim_def map_idI)
qed

lemma split_once_str_first:
  assumes "c \<notin> set a"
  shows "split_once_str (c # p) (a @ c # p @ b) = Some (a, b)"
  using assms by (induction a) (auto simp: starts_with_def)

lemma while_none: "c \<notin> set a \<Longrightarrow> takeWhile (\<lambda>x. x \<noteq> c) a = a"
  by (induction a) auto

lemma split_once_append: "c \<notin> set a \<Longrightarrow> split_once c (a @ c # b) = Some (a, b)"
  by (simp add: split_once_def while_until)

lemma split_first_append: "c \<notin> set a \<Longrightarrow> split_first c (a @ c # b) = a"
  by (simp add: split_first_def while_until)

lemma split_first_none: "c \<notin> set a \<Longrightarrow> split_first c a = a"
  unfolding split_first_def by (rule while_none)

lemma rsplit_first_append: "c \<notin> set b \<Longrightarrow> rsplit_first c (a @ c # b) = b"
  by (simp add: rsplit_first_def while_until)

lemma rsplit_first_none: "c \<notin> set a \<Longrightarrow> rsplit_first c a = a"
  unfolding rsplit_first_def by (subst while_none) simp_all

lemma position_sep: "c \<notin> set a \<Longrightarrow> position (\<lambda>x. x = c) (a @ c # b) = Some (length a)"
  by (auto simp: position_eq_Some nth_append in_set_conv_nth)

end
