(* ===== verification/Shim_Hooks.thy ===== *)
theory Shim_Hooks
  imports Rust_Text
begin

text \<open>
  The agent's binding and the git hooks that guard refs: the snapshot data of
  \<^verbatim>\<open>crates/agend-core/src/binding.rs\<close>, its loading and validation in \<^verbatim>\<open>crates/agend-shim/src/binding.rs\<close>,
  the protected refs of \<^verbatim>\<open>protected_ref.rs\<close> and the decisions of \<^verbatim>\<open>hook.rs\<close>.

  A refusal is its stable machine-readable code; the explanation and the next step shown to the
  agent are texts built from the same data and are not modelled. The file system and the JSON
  decoder are parameters. Paths are the strings the code passes around.
\<close>

section \<open>The binding snapshot\<close>

datatype Binding =
    Work string string string
  | Review string string string

fun binding_task_id :: "Binding \<Rightarrow> string" where
  "binding_task_id (Binding.Work task _ _) = task"
| "binding_task_id (Binding.Review task _ _) = task"

fun binding_worktree :: "Binding \<Rightarrow> string" where
  "binding_worktree (Binding.Work _ _ wt) = wt"
| "binding_worktree (Binding.Review _ _ wt) = wt"

fun binding_branch :: "Binding \<Rightarrow> string option" where
  "binding_branch (Binding.Work _ br _) = Some br"
| "binding_branch (Binding.Review _ _ _) = None"

fun binding_namespace :: "Binding \<Rightarrow> string option" where
  "binding_namespace (Binding.Work task _ _) = Some (BRANCH_NAMESPACE @ task @ ''/'')"
| "binding_namespace (Binding.Review _ _ _) = None"

definition SNAPSHOT_VERSION :: u32 where
  "SNAPSHOT_VERSION = 1"

record Snapshot =
  sn_version :: u32
  sn_instance :: string
  sn_source_repo :: "string option"
  sn_protected_refs :: "string list"
  sn_binding :: "Binding option"

datatype SnapshotProblem =
    Json string
  | BadVersion u32
  | OtherInstance string string
  | RelativeSourceRepo
  | EmptyProtectedRef
  | NoSourceRepo
  | EmptyTask
  | RelativeWorktree
  | BranchNotOfTask string string
  | EmptyHead

datatype SnapshotError =
    NotAnAgent
  | BadInstance string
  | Missing string
  | Unreadable string string
  | Malformed string SnapshotProblem

text \<open>\<open>Path::join\<close> and \<open>Path::is_absolute\<close> on Unix.\<close>

definition is_absolute :: "string \<Rightarrow> bool" where
  "is_absolute p \<longleftrightarrow> starts_with p ''/''"

definition path_join :: "string \<Rightarrow> string \<Rightarrow> string" where
  "path_join a b =
     (if is_absolute b then b
      else if a = [] \<or> ends_with a ''/'' then a @ b else a @ ''/'' @ b)"

definition snapshot_path :: "string \<Rightarrow> string \<Rightarrow> string" where
  "snapshot_path home ins = path_join (path_join home ''bindings'') (ins @ ''.json'')"

definition valid_instance :: "string \<Rightarrow> bool" where
  "valid_instance ident \<longleftrightarrow>
     ident \<noteq> [] \<and> ident \<noteq> ''.'' \<and> ident \<noteq> ''..''
     \<and> \<not> list_ex (\<lambda>c. c = CHR ''/'' \<or> c = CHR 0x5C \<or> c = CHR 0x00) ident
     \<and> \<not> starts_with ident ''.''"

definition binding_problem :: "Binding \<Rightarrow> SnapshotProblem option" where
  "binding_problem b =
     (case b of
        Binding.Work task br _ \<Rightarrow>
          if task_id_of_branch br \<noteq> Some task then Some (BranchNotOfTask br task) else None
      | Binding.Review _ head _ \<Rightarrow> if head = [] then Some EmptyHead else None)"

definition validate_snapshot :: "Snapshot \<Rightarrow> string \<Rightarrow> SnapshotProblem + unit" where
  "validate_snapshot snap ins =
     (if sn_version snap \<noteq> SNAPSHOT_VERSION then Inl (BadVersion (sn_version snap))
      else if sn_instance snap \<noteq> ins then Inl (OtherInstance (sn_instance snap) ins)
      else if (case sn_source_repo snap of Some repo \<Rightarrow> \<not> is_absolute repo | None \<Rightarrow> False)
      then Inl RelativeSourceRepo
      else if list_ex (\<lambda>r. trim r = []) (sn_protected_refs snap) then Inl EmptyProtectedRef
      else case sn_binding snap of
        None \<Rightarrow> Inr ()
      | Some b \<Rightarrow>
          if sn_source_repo snap = None then Inl NoSourceRepo
          else if binding_task_id b = [] then Inl EmptyTask
          else if \<not> is_absolute (binding_worktree b) then Inl RelativeWorktree
          else case binding_problem b of Some p \<Rightarrow> Inl p | None \<Rightarrow> Inr ())"

definition parse_snapshot ::
    "(string \<Rightarrow> string + Snapshot) \<Rightarrow> string \<Rightarrow> string \<Rightarrow> SnapshotProblem + Snapshot" where
  "parse_snapshot from_json text ins =
     (case from_json text of
        Inl e \<Rightarrow> Inl (Json e)
      | Inr snap \<Rightarrow> and_then (validate_snapshot snap ins) (\<lambda>_. Inr snap))"

datatype ReadResult = FileText string | NotFound | ReadError string

definition load ::
    "(string \<Rightarrow> ReadResult) \<Rightarrow> (string \<Rightarrow> string + Snapshot) \<Rightarrow> string option \<Rightarrow> string option
       \<Rightarrow> SnapshotError + Snapshot" where
  "load read_file from_json home ins =
     (case (home, ins) of
        (Some h, Some i) \<Rightarrow>
          if \<not> valid_instance i then Inl (BadInstance i)
          else let path = snapshot_path h i in
            (case read_file path of
               NotFound \<Rightarrow> Inl (Missing path)
             | ReadError e \<Rightarrow> Inl (Unreadable path e)
             | FileText text \<Rightarrow>
                 (case parse_snapshot from_json text i of
                    Inl e \<Rightarrow> Inl (Malformed path e)
                  | Inr snap \<Rightarrow> Inr snap))
      | _ \<Rightarrow> Inl NotAnAgent)"

section \<open>Protected refs\<close>

definition BUILTIN :: "string list" where
  "BUILTIN = [''main'', ''master'']"

definition full_pattern :: "string \<Rightarrow> string" where
  "full_pattern p = (if starts_with p ''refs/'' then p else ''refs/heads/'' @ p)"

text \<open>\<open>ProtectedRefs\<close> is its list of patterns.\<close>

type_synonym ProtectedRefs = "string list"

definition ProtectedRefs_new :: "string list \<Rightarrow> ProtectedRefs" where
  "ProtectedRefs_new extra = map full_pattern (BUILTIN @ map trim extra)"

definition is_protected :: "ProtectedRefs \<Rightarrow> string \<Rightarrow> bool" where
  "is_protected patterns full_ref =
     list_ex (\<lambda>p. case strip_suffix p ''*'' of
                    Some prefix \<Rightarrow> starts_with full_ref prefix
                  | None \<Rightarrow> full_ref = p) patterns"

section \<open>The hooks\<close>

type_synonym Refusal = string

definition is_zero :: "string \<Rightarrow> bool" where
  "is_zero oid \<longleftrightarrow> oid \<noteq> [] \<and> list_all (\<lambda>c. c = CHR ''0'') oid"

definition check_update :: "SnapshotError + Snapshot \<Rightarrow> string \<Rightarrow> string \<Rightarrow> Refusal + unit" where
  "check_update snap new refname =
     (if refname = ''refs/stash'' then Inl ''stash_shared''
      else case snap of
        Inl _ \<Rightarrow> if starts_with refname ''refs/remotes/'' then Inr () else Inl ''no_binding''
      | Inr s \<Rightarrow>
          if is_protected (ProtectedRefs_new (sn_protected_refs s)) refname then Inl ''protected_ref''
          else case strip_prefix ''refs/heads/'' refname of
            None \<Rightarrow> Inr ()
          | Some br \<Rightarrow>
              if \<not> (case Option.bind (sn_binding s) binding_namespace of
                       Some ns \<Rightarrow> starts_with br ns | None \<Rightarrow> False)
              then Inl ''ref_not_yours''
              else if is_zero new \<and> Option.bind (sn_binding s) binding_branch = Some br
              then Inl ''ref_not_yours''
              else Inr ())"

definition check_push :: "SnapshotError + Snapshot \<Rightarrow> string \<Rightarrow> string \<Rightarrow> Refusal + unit" where
  "check_push snap local_oid remote_ref =
     (case snap of
        Inl _ \<Rightarrow> Inl ''no_binding''
      | Inr s \<Rightarrow>
          (case Option.bind (sn_binding s) binding_branch of
             None \<Rightarrow> Inl ''push_not_yours''
           | Some br \<Rightarrow>
               if is_protected (ProtectedRefs_new (sn_protected_refs s)) remote_ref
               then Inl ''protected_ref''
               else if remote_ref \<noteq> ''refs/heads/'' @ br then Inl ''push_not_yours''
               else if is_zero local_oid then Inl ''push_not_yours''
               else Inr ()))"

definition check_line ::
    "string \<Rightarrow> string list \<Rightarrow> SnapshotError + Snapshot \<Rightarrow> string \<Rightarrow> Refusal + unit" where
  "check_line name args snap line =
     (if name = ''reference-transaction''
      then if (case args of a # _ \<Rightarrow> a = ''prepared'' | [] \<Rightarrow> False)
           then (case split_on (CHR '' '') line of
                   [_, new, refname] \<Rightarrow> check_update snap new refname
                 | _ \<Rightarrow> Inl ''hook_input'')
           else Inr ()
      else if name = ''pre-push''
      then (case split_on (CHR '' '') line of
              [_, local_oid, remote_ref, _] \<Rightarrow> check_push snap local_oid remote_ref
            | _ \<Rightarrow> Inl ''hook_input'')
      else Inl ''hook_input'')"

primrec check_lines ::
    "string \<Rightarrow> string list \<Rightarrow> SnapshotError + Snapshot \<Rightarrow> string list \<Rightarrow> Refusal + unit" where
  "check_lines name args snap [] = Inr ()"
| "check_lines name args snap (line # ls) =
     and_then (check_line name args snap line) (\<lambda>_. check_lines name args snap ls)"

definition hook_check ::
    "string \<Rightarrow> string list \<Rightarrow> string \<Rightarrow> SnapshotError + Snapshot \<Rightarrow> Refusal + unit" where
  "hook_check name args input snap = check_lines name args snap (lines input)"

section \<open>Lemmas\<close>

lemma check_lines_iff:
  "check_lines name args snap ls = Inr () \<longleftrightarrow> (\<forall>l \<in> set ls. check_line name args snap l = Inr ())"
  by (induction ls) (auto simp: result_split)

lemma builtin_protected:
  "is_protected (ProtectedRefs_new extra) ''refs/heads/main''"
  "is_protected (ProtectedRefs_new extra) ''refs/heads/master''"
  by (simp_all add: is_protected_def ProtectedRefs_new_def BUILTIN_def full_pattern_def
      starts_with_def strip_suffix_def ends_with_def)

text \<open>What one accepted ref update is.\<close>

definition update_allowed :: "SnapshotError + Snapshot \<Rightarrow> string \<Rightarrow> string \<Rightarrow> bool" where
  "update_allowed snap new refname \<longleftrightarrow>
     refname \<noteq> ''refs/stash''
     \<and> (case snap of
          Inl _ \<Rightarrow> starts_with refname ''refs/remotes/''
        | Inr s \<Rightarrow>
            \<not> is_protected (ProtectedRefs_new (sn_protected_refs s)) refname
            \<and> (\<forall>br. refname = ''refs/heads/'' @ br \<longrightarrow>
                 (\<exists>task own wt. sn_binding s = Some (Binding.Work task own wt)
                    \<and> starts_with br (''agend/'' @ task @ ''/'') \<and> \<not> (is_zero new \<and> br = own))))"

lemma check_update_iff: "check_update snap new refname = Inr () \<longleftrightarrow> update_allowed snap new refname"
proof (cases snap)
  case (Inl e)
  then show ?thesis by (simp add: check_update_def update_allowed_def)
next
  case (Inr s)
  show ?thesis
  proof (cases "strip_prefix ''refs/heads/'' refname")
    case None
    then have "refname \<noteq> ''refs/heads/'' @ br" for br
      by (metis option.distinct(1) strip_prefix_append)
    then show ?thesis using None Inr by (simp add: check_update_def update_allowed_def)
  next
    case (Some br)
    then have r: "refname = ''refs/heads/'' @ br" by (simp add: strip_prefix_eq_Some)
    show ?thesis
    proof (cases "sn_binding s")
      case (Some b)
      then show ?thesis
        using Inr r \<open>strip_prefix _ _ = _\<close>
        by (cases b) (auto simp: check_update_def update_allowed_def BRANCH_NAMESPACE_def)
    qed (use Inr r Some in \<open>auto simp: check_update_def update_allowed_def\<close>)
  qed
qed

lemma check_push_Inr:
  "check_push snap local_oid remote_ref = Inr () \<longleftrightarrow>
     (\<exists>s task br wt. snap = Inr s \<and> sn_binding s = Some (Binding.Work task br wt)
        \<and> remote_ref = ''refs/heads/'' @ br \<and> \<not> is_zero local_oid
        \<and> \<not> is_protected (ProtectedRefs_new (sn_protected_refs s)) remote_ref)"
proof (cases snap)
  case (Inr s)
  show ?thesis
  proof (cases "sn_binding s")
    case (Some b)
    then show ?thesis using Inr by (cases b) (auto simp: check_push_def)
  qed (simp add: Inr check_push_def)
qed (simp add: check_push_def)

lemma load_Inr:
  "load rd js home ins = Inr s \<Longrightarrow>
     \<exists>i. ins = Some i \<and> valid_instance i \<and> validate_snapshot s i = Inr ()"
  by (auto simp: load_def parse_snapshot_def Let_def result_split
      split: option.splits if_splits ReadResult.splits sum.splits)

lemma validate_work:
  assumes "validate_snapshot s i = Inr ()" and "sn_binding s = Some (Binding.Work task br wt)"
  shows "task_id_of_branch br = Some task"
  using assms by (auto simp: validate_snapshot_def binding_problem_def split: if_splits option.splits)

lemma namespace_unique:
  assumes "starts_with br (''agend/'' @ t1 @ ''/'')" and "starts_with br (''agend/'' @ t2 @ ''/'')"
    and "CHR ''/'' \<notin> set t1" and "CHR ''/'' \<notin> set t2"
  shows "t1 = t2"
proof -
  from assms(1,2) obtain a b where "''agend/'' @ (t1 @ CHR ''/'' # a) = ''agend/'' @ (t2 @ CHR ''/'' # b)"
    by (auto simp: starts_with_iff)
  then have "t1 @ CHR ''/'' # a = t2 @ CHR ''/'' # b" by (simp only: same_append_eq)
  with assms(3,4) have "split_once (CHR ''/'') (t1 @ CHR ''/'' # a) = Some (t1, a)"
    and "split_once (CHR ''/'') (t1 @ CHR ''/'' # a) = Some (t2, b)"
    by (simp_all only: split_once_eq_Some) simp_all
  then show ?thesis by simp
qed

section \<open>Properties\<close>

text \<open>C30: the reference-transaction hook accepts a prepared transaction exactly when every line names
  one ref update that is allowed: never the shared stash; without a readable binding only
  remote-tracking refs; otherwise no protected ref, and a branch only inside the namespace
  \<open>agend/<task>/\<close> of the agent's work binding and not the deletion of the bound branch itself.\<close>

theorem transaction_guard:
  "hook_check ''reference-transaction'' (''prepared'' # args) input snap = Inr () \<longleftrightarrow>
     (\<forall>line \<in> set (lines input). \<exists>old new refname.
        split_on (CHR '' '') line = [old, new, refname] \<and> update_allowed snap new refname)"
proof -
  have "check_line ''reference-transaction'' (''prepared'' # args) snap line = Inr () \<longleftrightarrow>
      (\<exists>old new refname. split_on (CHR '' '') line = [old, new, refname] \<and> update_allowed snap new refname)"
    for line
    by (auto simp: check_line_def check_update_iff split: list.splits)
  then show ?thesis by (simp add: hook_check_def check_lines_iff)
qed

definition sample_snapshot :: Snapshot where
  "sample_snapshot = \<lparr>sn_version = 1, sn_instance = ''dev-1'', sn_source_repo = Some ''/repo'',
     sn_protected_refs = [''release/*''],
     sn_binding = Some (Binding.Work ''t1'' ''agend/t1/fix'' ''/wt/t1'')\<rparr>"

theorem transaction_guard_witness:
  "update_allowed (Inr sample_snapshot) ''2'' ''refs/heads/agend/t1/fix''
   \<and> \<not> update_allowed (Inr sample_snapshot) ''2'' ''refs/heads/release/1''"
proof -
  have "hook_check ''reference-transaction'' [''prepared''] ''1 2 refs/heads/agend/t1/fix'' (Inr sample_snapshot)
      = Inr ()" "hook_check ''reference-transaction'' [''prepared''] ''1 2 refs/heads/release/1''
      (Inr sample_snapshot) = Inl ''protected_ref''" by code_simp+
  moreover have "lines ''1 2 refs/heads/agend/t1/fix'' = [''1 2 refs/heads/agend/t1/fix'']"
    "lines ''1 2 refs/heads/release/1'' = [''1 2 refs/heads/release/1'']"
    "split_on (CHR '' '') ''1 2 refs/heads/agend/t1/fix'' = [''1'', ''2'', ''refs/heads/agend/t1/fix'']"
    "split_on (CHR '' '') ''1 2 refs/heads/release/1'' = [''1'', ''2'', ''refs/heads/release/1'']"
    by code_simp+
  ultimately show ?thesis
    using transaction_guard [of "[]" "''1 2 refs/heads/agend/t1/fix''" "Inr sample_snapshot"]
      transaction_guard [of "[]" "''1 2 refs/heads/release/1''" "Inr sample_snapshot"] by simp
qed

text \<open>C32: agents on different tasks cannot write the same branch. If two loaded snapshots carry work
  bindings of different tasks, no branch update is accepted by the hooks of both.\<close>

theorem tasks_are_isolated:
  assumes "load rd js h1 i1 = Inr s1" and "sn_binding s1 = Some (Binding.Work task1 br1 wt1)"
    and "load rd js h2 i2 = Inr s2" and "sn_binding s2 = Some (Binding.Work task2 br2 wt2)"
    and "task1 \<noteq> task2"
  shows "\<not> (check_update (Inr s1) new1 (''refs/heads/'' @ br) = Inr ()
            \<and> check_update (Inr s2) new2 (''refs/heads/'' @ br) = Inr ())"
proof
  assume both: "check_update (Inr s1) new1 (''refs/heads/'' @ br) = Inr ()
    \<and> check_update (Inr s2) new2 (''refs/heads/'' @ br) = Inr ()"
  have slash: "CHR ''/'' \<notin> set task"
    if "load rd js h i = Inr s" "sn_binding s = Some (Binding.Work task own wt)" for h i s task own wt
    using load_Inr [OF that(1)] validate_work [OF _ that(2)]
    by (auto simp: task_id_of_branch_eq_Some)
  have "starts_with br (''agend/'' @ task1 @ ''/'')" "starts_with br (''agend/'' @ task2 @ ''/'')"
    using both assms(2,4) by (auto simp: check_update_iff update_allowed_def)
  then have "task1 = task2"
    using slash [OF assms(1,2)] slash [OF assms(3,4)] by (rule namespace_unique)
  with assms(5) show False by simp
qed

definition other_snapshot :: Snapshot where
  "other_snapshot = sample_snapshot\<lparr>sn_instance := ''dev-2'',
     sn_binding := Some (Binding.Work ''t2'' ''agend/t2/fix'' ''/wt/t2'')\<rparr>"

theorem tasks_are_isolated_witness:
  "\<not> (check_update (Inr sample_snapshot) ''1'' (''refs/heads/'' @ ''agend/t1/x'') = Inr ()
      \<and> check_update (Inr other_snapshot) ''1'' (''refs/heads/'' @ ''agend/t1/x'') = Inr ())"
proof -
  let ?js = "\<lambda>text. if text = ''1'' then Inr sample_snapshot else Inr other_snapshot"
  let ?rd = "\<lambda>p. if p = ''/h/bindings/dev-1.json'' then FileText ''1'' else FileText ''2''"
  have "load ?rd ?js (Some ''/h'') (Some ''dev-1'') = Inr sample_snapshot"
    "load ?rd ?js (Some ''/h'') (Some ''dev-2'') = Inr other_snapshot" by code_simp+
  from tasks_are_isolated [OF this(1) _ this(2)] show ?thesis
    by (simp add: sample_snapshot_def other_snapshot_def)
qed

text \<open>A push reaches only the bound branch. The pre-push hook accepts exactly the pushes in which
  every line updates (and does not delete) the remote ref of the branch of the agent's work binding,
  provided that ref is not protected; without a readable binding, or with a review binding, nothing
  can be pushed.\<close>

theorem push_guard:
  "hook_check ''pre-push'' args input snap = Inr () \<longleftrightarrow>
     (\<forall>line \<in> set (lines input). \<exists>a local_oid remote_ref b s task br wt.
        split_on (CHR '' '') line = [a, local_oid, remote_ref, b]
        \<and> snap = Inr s \<and> sn_binding s = Some (Binding.Work task br wt)
        \<and> remote_ref = ''refs/heads/'' @ br \<and> \<not> is_zero local_oid
        \<and> \<not> is_protected (ProtectedRefs_new (sn_protected_refs s)) remote_ref)"
proof -
  have "check_line ''pre-push'' args snap line = Inr () \<longleftrightarrow>
      (\<exists>a local_oid remote_ref b. split_on (CHR '' '') line = [a, local_oid, remote_ref, b]
        \<and> check_push snap local_oid remote_ref = Inr ())" for line
    by (auto simp: check_line_def split: list.splits)
  then show ?thesis by (simp add: hook_check_def check_lines_iff check_push_Inr)
qed

theorem push_guard_witness:
  "\<not> is_protected (ProtectedRefs_new (sn_protected_refs sample_snapshot)) ''refs/heads/agend/t1/fix''"
proof -
  have "hook_check ''pre-push'' [''origin''] ''a 1 refs/heads/agend/t1/fix 0'' (Inr sample_snapshot) = Inr ()"
    by code_simp
  moreover have "lines ''a 1 refs/heads/agend/t1/fix 0'' = [''a 1 refs/heads/agend/t1/fix 0'']"
    "split_on (CHR '' '') ''a 1 refs/heads/agend/t1/fix 0'' = [''a'', ''1'', ''refs/heads/agend/t1/fix'', ''0'']"
    by code_simp+
  ultimately show ?thesis
    using push_guard [of "[''origin'']" "''a 1 refs/heads/agend/t1/fix 0''" "Inr sample_snapshot"] by simp
qed

end
