(* ===== verification/Shim_Args.thy ===== *)
theory Shim_Args
  imports Shim_Hooks
begin

text \<open>
  The command line side of the git guard, \<^verbatim>\<open>crates/agend-shim/src/classify.rs\<close>: splitting the global
  options from the subcommand, matching options and their abbreviations, sorting subcommands into
  reading and writing ones, and the operations that need a snapshot first. Lists that the source
  keeps as one string of words are lists of words here.
\<close>

section \<open>Global options\<close>

record GitArgs =
  sub_index :: nat
  sub_command :: "string option"
  sub_rest :: "string list"
  chdirs :: "string list"
  git_dir :: "string option"
  work_tree :: "string option"
  config :: "string list"
  info_only :: bool
  retarget_indexes :: "nat list"

definition GitArgs_default :: GitArgs where
  "GitArgs_default = \<lparr>sub_index = 0, sub_command = None, sub_rest = [], chdirs = [], git_dir = None,
     work_tree = None, config = [], info_only = False, retarget_indexes = []\<rparr>"

definition INFO_GLOBALS :: "string list" where
  "INFO_GLOBALS = [''--version'', ''-v'', ''--help'', ''-h'', ''--html-path'', ''--man-path'',
     ''--info-path'', ''--exec-path'']"

definition FLAG_GLOBALS :: "string list" where
  "FLAG_GLOBALS = [''-p'', ''--paginate'', ''-P'', ''--no-pager'', ''--no-replace-objects'',
     ''--literal-pathspecs'', ''--glob-pathspecs'', ''--noglob-pathspecs'', ''--icase-pathspecs'',
     ''--no-optional-locks'', ''--no-lazy-fetch'', ''--no-advice'']"

definition VALUE_GLOBALS :: "string list" where
  "VALUE_GLOBALS = [''--namespace'', ''--super-prefix'', ''--attr-source'']"

text \<open>
  The body of the loop in two steps: which of the source's branches an argument takes, and what that
  branch does to the state and how many arguments it uses up; \<open>None\<close> ends the loop.
\<close>

datatype GlobalOption =
    NotGlobal | InfoFlag | PlainFlag | ChangeDir | GitDir | WorkTree
  | GitDirIs string | WorkTreeIs string | Bare | ConfigNext | ConfigIs string | SkipValue | HasValue

definition global_kind :: "string \<Rightarrow> GlobalOption" where
  "global_kind a =
     (if \<not> starts_with a ''-'' then NotGlobal
      else if a \<in> set INFO_GLOBALS then InfoFlag
      else if a \<in> set FLAG_GLOBALS then PlainFlag
      else if a = ''-C'' then ChangeDir
      else if a = ''--git-dir'' then GitDir
      else if a = ''--work-tree'' then WorkTree
      else if starts_with a ''--git-dir='' then GitDirIs (drop 10 a)
      else if starts_with a ''--work-tree='' then WorkTreeIs (drop 12 a)
      else if a = ''--bare'' then Bare
      else if a = ''-c'' \<or> a = ''--config-env'' then ConfigNext
      else if starts_with a ''--config-env='' then ConfigIs (drop 13 a)
      else if a \<in> set VALUE_GLOBALS then SkipValue
      else if list_ex (\<lambda>v. starts_with a (v @ ''='')) (VALUE_GLOBALS @ [''--exec-path'', ''--list-cmds''])
      then HasValue
      else NotGlobal)"

definition mark :: "nat list \<Rightarrow> GitArgs \<Rightarrow> GitArgs" where
  "mark is g = g\<lparr>retarget_indexes := retarget_indexes g @ is\<rparr>"

fun apply_global :: "GlobalOption \<Rightarrow> string option \<Rightarrow> nat \<Rightarrow> GitArgs \<Rightarrow> (GitArgs \<times> nat) option" where
  "apply_global NotGlobal following i g = None"
| "apply_global InfoFlag following i g = Some (g\<lparr>info_only := True\<rparr>, 1)"
| "apply_global PlainFlag following i g = Some (g, 1)"
| "apply_global ChangeDir following i g =
     map_option (\<lambda>v. (mark [i, i + 1] (g\<lparr>chdirs := chdirs g @ [v]\<rparr>), 2)) following"
| "apply_global GitDir following i g =
     map_option (\<lambda>v. (mark [i, i + 1] (g\<lparr>git_dir := Some v\<rparr>), 2)) following"
| "apply_global WorkTree following i g =
     map_option (\<lambda>v. (mark [i, i + 1] (g\<lparr>work_tree := Some v\<rparr>), 2)) following"
| "apply_global (GitDirIs v) following i g = Some (mark [i] (g\<lparr>git_dir := Some v\<rparr>), 1)"
| "apply_global (WorkTreeIs v) following i g = Some (mark [i] (g\<lparr>work_tree := Some v\<rparr>), 1)"
| "apply_global Bare following i g = Some (mark [i] (g\<lparr>git_dir := Some ''.''\<rparr>), 1)"
| "apply_global ConfigNext following i g =
     map_option (\<lambda>v. (g\<lparr>config := config g @ [v]\<rparr>, 2)) following"
| "apply_global (ConfigIs v) following i g = Some (g\<lparr>config := config g @ [v]\<rparr>, 1)"
| "apply_global SkipValue following i g = map_option (\<lambda>_. (g, 2)) following"
| "apply_global HasValue following i g = Some (g, 1)"

definition global_option :: "string \<Rightarrow> string option \<Rightarrow> nat \<Rightarrow> GitArgs \<Rightarrow> (GitArgs \<times> nat) option" where
  "global_option a = apply_global (global_kind a)"

lemma global_option_takes: "global_option a following i g = Some (g1, n) \<Longrightarrow> n = 1 \<or> n = 2 \<and> following \<noteq> None"
  by (cases "global_kind a") (auto simp: global_option_def)

function parse_globals :: "string list \<Rightarrow> nat \<Rightarrow> GitArgs \<Rightarrow> GitArgs \<times> nat" where
  "parse_globals [] i g = (g, i)"
| "parse_globals (a # as) i g =
     (case global_option a (slice_get as 0) i g of
        None \<Rightarrow> (g, i)
      | Some (g1, n) \<Rightarrow> parse_globals (drop n (a # as)) (i + n) g1)"
  by pat_completeness auto
termination
  by (relation "measure (\<lambda>(args, _, _). length args)") (auto dest!: global_option_takes)

definition parse_args :: "string list \<Rightarrow> GitArgs" where
  "parse_args args =
     (let (g, i) = parse_globals args 0 GitArgs_default
      in g\<lparr>sub_index := i, sub_command := slice_get args i, sub_rest := drop (i + 1) args\<rparr>)"

text \<open>The argument list of a call that is routed into a directory (\<^verbatim>\<open>git.rs\<close>).\<close>

definition routed_args :: "string list \<Rightarrow> string \<Rightarrow> nat list \<Rightarrow> string list" where
  "routed_args args dir drops =
     [''-C'', dir] @ map snd (filter (\<lambda>(i, a). i \<notin> set drops) (enumerate 0 args))"

section \<open>Options of a subcommand\<close>

definition options :: "string list \<Rightarrow> string list" where
  "options rest = takeWhile (\<lambda>a. a \<noteq> ''--'') rest"

definition long :: "string \<Rightarrow> string \<Rightarrow> bool" where
  "long arg l \<longleftrightarrow>
     (let name = split_first (CHR ''='') arg
      in name = l \<or> (length name \<ge> 3 \<and> starts_with l name \<and> name \<noteq> ''--force''))"

definition short :: "string \<Rightarrow> string \<Rightarrow> bool" where
  "short arg letters \<longleftrightarrow>
     length arg > 1 \<and> starts_with arg ''-'' \<and> \<not> starts_with arg ''--''
     \<and> list_ex (\<lambda>c. c \<in> set letters) (tl arg)"

definition has_long :: "string list \<Rightarrow> string \<Rightarrow> bool" where
  "has_long rest l \<longleftrightarrow> list_ex (\<lambda>a. long a l) (options rest)"

definition has_short :: "string list \<Rightarrow> string \<Rightarrow> bool" where
  "has_short rest letters \<longleftrightarrow> list_ex (\<lambda>a. short a letters) (options rest)"

definition first_positional :: "string list \<Rightarrow> string option" where
  "first_positional rest = List.find (\<lambda>a. \<not> starts_with a ''-'') rest"

section \<open>Reading and writing\<close>

datatype Kind = Read | Write

definition READ :: "string list" where
  "READ = [''init'', ''clone'', ''status'', ''log'', ''diff'', ''show'', ''blame'', ''annotate'', ''ls-files'',
     ''ls-tree'', ''rev-parse'', ''rev-list'', ''cat-file'', ''describe'', ''shortlog'', ''grep'', ''for-each-ref'',
     ''show-ref'', ''name-rev'', ''merge-base'', ''merge-tree'', ''diff-tree'', ''diff-index'', ''diff-files'',
     ''difftool'', ''count-objects'', ''check-ignore'', ''check-attr'', ''check-mailmap'', ''check-ref-format'',
     ''var'', ''help'', ''version'', ''whatchanged'', ''format-patch'', ''range-diff'', ''cherry'', ''fsck'',
     ''verify-commit'', ''verify-tag'', ''verify-pack'', ''archive'', ''show-branch'', ''patch-id'', ''ls-remote'',
     ''hash-object'', ''request-pull'', ''interpret-trailers'', ''stripspace'', ''column'', ''get-tar-commit-id'']"

definition WRITE :: "string list" where
  "WRITE = [''add'', ''rm'', ''mv'', ''commit'', ''reset'', ''restore'', ''checkout'', ''switch'', ''merge'',
     ''rebase'', ''cherry-pick'', ''revert'', ''pull'', ''push'', ''fetch'', ''am'', ''apply'', ''clean'', ''gc'',
     ''prune'', ''repack'', ''pack-refs'', ''maintenance'', ''update-index'', ''read-tree'', ''write-tree'',
     ''commit-tree'', ''mktree'', ''mktag'', ''update-ref'', ''symbolic-ref'', ''bisect'', ''lfs'', ''rerere'',
     ''config'', ''filter-branch'', ''fast-import'', ''replace'', ''unpack-objects'']"

definition reads :: "string \<Rightarrow> string list \<Rightarrow> bool option" where
  "reads cmd rest =
     (let first = first_positional rest in
      if cmd = ''branch'' \<or> cmd = ''tag'' then Some (first = None)
      else if cmd = ''stash'' then Some (first \<in> {Some ''list'', Some ''show''})
      else if cmd = ''remote'' \<and> first = Some ''prune''
      then Some (\<not> list_ex (\<lambda>a. starts_with a ''--no-'') (options rest)
                 \<and> list_ex (\<lambda>a. a = ''-n'' \<or> long a ''--dry-run'') (options rest))
      else if cmd = ''remote'' then Some (first \<in> {None, Some ''show'', Some ''get-url''})
      else if cmd = ''reflog'' then Some (first \<notin> {Some ''expire'', Some ''delete''})
      else if cmd = ''submodule'' then Some (first \<in> {None, Some ''status'', Some ''summary''})
      else if cmd = ''notes'' then Some (first \<in> {None, Some ''list'', Some ''show''})
      else if cmd = ''sparse-checkout'' \<or> cmd = ''worktree'' then Some (first = Some ''list'')
      else if cmd \<in> set WRITE then Some False
      else None)"

definition kind_of :: "string \<Rightarrow> string list \<Rightarrow> Kind option" where
  "kind_of cmd rest =
     (if cmd \<in> set READ then Some Read
      else map_option (\<lambda>rd. if rd then Read else Write) (reads cmd rest))"

section \<open>Snapshots\<close>

definition SNAPSHOT_OPS :: "string list" where
  "SNAPSHOT_OPS = [''reset'', ''clean'', ''checkout'', ''restore'', ''switch'', ''rm'', ''mv'', ''merge'',
     ''rebase'', ''pull'', ''cherry-pick'', ''revert'', ''am'']"

definition discards :: "string \<Rightarrow> string list \<Rightarrow> bool" where
  "discards cmd rest =
     (if cmd = ''reset'' then has_long rest ''--hard'' \<or> has_long rest ''--merge'' \<or> has_long rest ''--keep''
      else if cmd = ''restore''
      then \<not> (has_long rest ''--staged'' \<or> has_short rest ''S'') \<or> has_long rest ''--worktree''
           \<or> has_short rest ''W''
      else if cmd = ''switch''
      then has_long rest ''--force'' \<or> has_long rest ''--discard-changes'' \<or> has_short rest ''f''
      else if cmd = ''rm'' \<or> cmd = ''mv''
      then (has_long rest ''--force'' \<or> has_short rest ''f'') \<and> \<not> has_long rest ''--cached''
           \<and> \<not> has_long rest ''--dry-run'' \<and> \<not> list_ex (\<lambda>a. a = ''-n'') (options rest)
      else True)"

definition destructive :: "string \<Rightarrow> string list \<Rightarrow> string option" where
  "destructive cmd rest =
     (case List.find (\<lambda>o'. o' = cmd) SNAPSHOT_OPS of
        Some o' \<Rightarrow> if discards cmd rest then Some o' else None
      | None \<Rightarrow> None)"

section \<open>Routing keeps the command and drops the retargeting\<close>

text \<open>
  \<open>same_options g g' h h'\<close>: going from \<open>g\<close> to \<open>g'\<close> and from \<open>h\<close> to \<open>h'\<close> adds the same
  configuration and information flags, and the second one retargets nothing.
\<close>

definition same_options :: "GitArgs \<Rightarrow> GitArgs \<Rightarrow> GitArgs \<Rightarrow> GitArgs \<Rightarrow> bool" where
  "same_options g g' h h' \<longleftrightarrow>
     (\<exists>cs b. config g' = config g @ cs \<and> config h' = config h @ cs
        \<and> info_only g' = (info_only g \<or> b) \<and> info_only h' = (info_only h \<or> b)
        \<and> chdirs h' = chdirs h \<and> git_dir h' = git_dir h \<and> work_tree h' = work_tree h)"

lemma same_options_refl: "same_options g g h h"
  unfolding same_options_def by (intro exI [of _ "[]"] exI [of _ False]) simp

lemma same_options_trans:
  "same_options g g1 h h1 \<Longrightarrow> same_options g1 g2 h1 h2 \<Longrightarrow> same_options g g2 h h2"
proof -
  assume "same_options g g1 h h1" "same_options g1 g2 h1 h2"
  then obtain cs b cs' b' where "config g1 = config g @ cs" "config h1 = config h @ cs"
      "info_only g1 = (info_only g \<or> b)" "info_only h1 = (info_only h \<or> b)"
      "chdirs h1 = chdirs h" "git_dir h1 = git_dir h" "work_tree h1 = work_tree h"
      "config g2 = config g1 @ cs'" "config h2 = config h1 @ cs'"
      "info_only g2 = (info_only g1 \<or> b')" "info_only h2 = (info_only h1 \<or> b')"
      "chdirs h2 = chdirs h1" "git_dir h2 = git_dir h1" "work_tree h2 = work_tree h1"
    unfolding same_options_def by blast
  then show ?thesis
    unfolding same_options_def by (intro exI [of _ "cs @ cs'"] exI [of _ "b \<or> b'"]) auto
qed

text \<open>An option either retargets, and is marked, or means the same in any other state.\<close>

definition neutral :: "string \<Rightarrow> string option \<Rightarrow> GitArgs \<Rightarrow> GitArgs \<Rightarrow> nat \<Rightarrow> bool" where
  "neutral a following g g1 n \<longleftrightarrow>
     retarget_indexes g1 = retarget_indexes g
     \<and> (\<forall>f k h. n = 1 \<or> f = following \<longrightarrow>
          (\<exists>h1. global_option a f k h = Some (h1, n) \<and> same_options g g1 h h1))"

definition marked :: "nat \<Rightarrow> GitArgs \<Rightarrow> GitArgs \<Rightarrow> nat \<Rightarrow> bool" where
  "marked i g g1 n \<longleftrightarrow> retarget_indexes g1 = retarget_indexes g @ [i..<i + n]
     \<and> config g1 = config g \<and> info_only g1 = info_only g"

lemma same_config:
  "same_options g (g\<lparr>config := config g @ [v]\<rparr>) h (h\<lparr>config := config h @ [v]\<rparr>)"
  unfolding same_options_def by (intro exI [of _ "[v]"] exI [of _ False]) simp

lemma same_info: "same_options g (g\<lparr>info_only := True\<rparr>) h (h\<lparr>info_only := True\<rparr>)"
  unfolding same_options_def by (intro exI [of _ "[]"] exI [of _ True]) simp

lemma global_option_cases:
  assumes "global_option a following i g = Some (g1, n)"
  shows "neutral a following g g1 n \<or> marked i g g1 n"
proof -
  have "[i..<Suc (Suc i)] = [i, Suc i]" by simp
  then show ?thesis
    using assms by (cases "global_kind a")
      (auto simp: neutral_def marked_def mark_def global_option_def
        intro: same_options_refl same_config same_info)
qed

lemma global_option_None:
  "global_option a following i g = None \<Longrightarrow> global_option a following k h = None"
  by (cases "global_kind a") (auto simp: global_option_def)

definition kept :: "nat list \<Rightarrow> nat \<Rightarrow> string list \<Rightarrow> string list" where
  "kept drops i args = map snd (filter (\<lambda>(k, a). k \<notin> set drops) (enumerate i args))"

lemma kept_simps [simp]:
  "kept drops i [] = []"
  "kept drops i (a # as) = (if i \<in> set drops then kept drops (Suc i) as else a # kept drops (Suc i) as)"
  by (simp_all add: kept_def)

lemma kept_all: "set drops \<subseteq> {..<i} \<Longrightarrow> kept drops i args = args"
proof (induction args arbitrary: i)
  case (Cons a args)
  then have "i \<notin> set drops" "set drops \<subseteq> {..<Suc i}" by auto
  then show ?case using Cons.IH by simp
qed simp

lemma parse_globals_marks:
  "parse_globals args i g = (g', j) \<Longrightarrow>
     i \<le> j \<and> set (retarget_indexes g) \<subseteq> set (retarget_indexes g')
     \<and> set (retarget_indexes g') \<subseteq> set (retarget_indexes g) \<union> {i..<j}"
proof (induction args i g rule: parse_globals.induct)
  case (1 i g)
  then show ?case by simp
next
  case (2 a as i g)
  show ?case
  proof (cases "global_option a (slice_get as 0) i g")
    case None
    then show ?thesis using 2 by simp
  next
    case (Some r)
    obtain g1 n where r: "r = (g1, n)" by (cases r)
    with Some have o: "global_option a (slice_get as 0) i g = Some (g1, n)" by simp
    have "set (retarget_indexes g1) = set (retarget_indexes g) \<or>
        set (retarget_indexes g1) = set (retarget_indexes g) \<union> {i..<i + n}"
      using global_option_cases [OF o] by (auto simp: neutral_def marked_def)
    moreover have "i + n \<le> j \<and> set (retarget_indexes g1) \<subseteq> set (retarget_indexes g')
        \<and> set (retarget_indexes g') \<subseteq> set (retarget_indexes g1) \<union> {i + n..<j}"
      using "2.IH" [OF o refl] "2.prems" o by simp
    ultimately show ?thesis by (elim conjE disjE) (simp; fastforce)+
  qed
qed

lemma slice_get_drop: "slice_get xs i = slice_get (drop i xs) 0"
  by (cases "i < length xs") (simp_all add: slice_get_def)

lemma kept_keeps:
  "\<forall>k \<in> set drops. k < i \<or> i + n \<le> k \<Longrightarrow>
     kept drops i args = take n args @ kept drops (i + n) (drop n args)"
proof (induction n arbitrary: i args)
  case (Suc n)
  then have "i \<notin> set drops" "\<forall>k \<in> set drops. k < Suc i \<or> Suc i + n \<le> k" by fastforce+
  then show ?case using Suc.IH [of "Suc i" "tl args"] by (cases args) simp_all
qed simp

lemma kept_drops: "{i..<i + n} \<subseteq> set drops \<Longrightarrow> kept drops i args = kept drops (i + n) (drop n args)"
proof (induction n arbitrary: i args)
  case (Suc n)
  then have "i \<in> set drops" "{Suc i..<Suc i + n} \<subseteq> set drops" by auto
  then show ?case using Suc.IH [of "Suc i" "tl args"] by (cases args) simp_all
qed simp

lemma parse_neutral:
  assumes "neutral a (slice_get as 0) g g1 n" and "n = 1 \<or> n = 2 \<and> slice_get as 0 \<noteq> None"
  shows "\<exists>h1. same_options g g1 h h1
    \<and> parse_globals (take n (a # as) @ tail) k h = parse_globals tail (k + n) h1"
proof (cases "n = 1")
  case True
  then obtain h1 where "global_option a (slice_get tail 0) k h = Some (h1, 1)" "same_options g g1 h h1"
    using assms(1) unfolding neutral_def by blast
  then show ?thesis using True by auto
next
  case False
  then obtain b bs where as: "as = b # bs" "n = 2" using assms(2) by (cases as) auto
  then obtain h1 where "global_option a (Some b) k h = Some (h1, 2)" "same_options g g1 h h1"
    using assms(1) unfolding neutral_def by fastforce
  then show ?thesis using as by (auto simp: numeral_2_eq_2)
qed

lemma parse_kept:
  assumes "parse_globals args i g = (g', j)" and "set (retarget_indexes g) \<subseteq> {..<i}"
  shows "\<exists>h' m. parse_globals (kept (retarget_indexes g') i args) k h = (h', k + m)
    \<and> same_options g g' h h' \<and> drop m (kept (retarget_indexes g') i args) = drop (j - i) args"
  using assms
proof (induction args i g arbitrary: k h rule: parse_globals.induct)
  case (1 i g)
  then show ?case by (auto intro: same_options_refl)
next
  case (2 a as i g)
  let ?D = "retarget_indexes g'"
  show ?case
  proof (cases "global_option a (slice_get as 0) i g")
    case None
    then have "g' = g" "j = i" using "2.prems" by auto
    moreover have "parse_globals (a # as) k h = (h, k)" using global_option_None [OF None] by simp
    moreover have "kept (retarget_indexes g) i (a # as) = a # as" by (rule kept_all [OF "2.prems"(2)])
    ultimately show ?thesis using same_options_refl by (auto intro!: exI [of _ 0])
  next
    case (Some r)
    obtain g1 n where r: "r = (g1, n)" by (cases r)
    with Some have o: "global_option a (slice_get as 0) i g = Some (g1, n)" by simp
    have p: "parse_globals (drop n (a # as)) (i + n) g1 = (g', j)" using "2.prems"(1) o by simp
    note cs = global_option_cases [OF o]
    have sub: "set (retarget_indexes g1) \<subseteq> {..<i + n}"
      using cs "2.prems"(2) by (auto simp: neutral_def marked_def)
    note D = parse_globals_marks [OF p]
    have IH: "\<exists>h' m. parse_globals (kept ?D (i + n) (drop n (a # as))) k' h1 = (h', k' + m)
        \<and> same_options g1 g' h1 h'
        \<and> drop m (kept ?D (i + n) (drop n (a # as))) = drop (j - (i + n)) (drop n (a # as))" for k' h1
      using "2.IH" [OF o refl p sub] .
    have jn: "drop (j - (i + n)) (drop n (a # as)) = drop (j - i) (a # as)" using D by simp
    from cs show ?thesis
    proof
      assume n: "neutral a (slice_get as 0) g g1 n"
      then have "set (retarget_indexes g1) \<subseteq> {..<i}" using "2.prems"(2) by (simp add: neutral_def)
      then have "\<forall>k \<in> set ?D. k < i \<or> i + n \<le> k" using D by fastforce
      then have k: "kept ?D i (a # as) = take n (a # as) @ kept ?D (i + n) (drop n (a # as))"
        by (rule kept_keeps)
      obtain h1 where h1: "same_options g g1 h h1" "parse_globals (kept ?D i (a # as)) k h
          = parse_globals (kept ?D (i + n) (drop n (a # as))) (k + n) h1"
        using parse_neutral [OF n global_option_takes [OF o]] k by metis
      obtain h' m where m: "parse_globals (kept ?D (i + n) (drop n (a # as))) (k + n) h1 = (h', k + n + m)"
        "same_options g1 g' h1 h'"
        "drop m (kept ?D (i + n) (drop n (a # as))) = drop (j - (i + n)) (drop n (a # as))"
        using IH by blast
      have "n \<le> length (a # as)" using global_option_takes [OF o] by (cases as) auto
      then have "drop (n + m) (kept ?D i (a # as)) = drop (j - i) (a # as)"
        using m(3) jn k by simp
      then show ?thesis
        using h1(2) m(1) same_options_trans [OF h1(1) m(2)] by (auto simp: add.assoc)
    next
      assume n: "marked i g g1 n"
      then have "{i..<i + n} \<subseteq> set ?D" using D by (auto simp: marked_def)
      then have k: "kept ?D i (a # as) = kept ?D (i + n) (drop n (a # as))" by (rule kept_drops)
      have "same_options g1 g' h h' \<Longrightarrow> same_options g g' h h'" for h'
        using n unfolding same_options_def marked_def by simp
      then show ?thesis using IH [of k h] k jn by auto
    qed
  qed
qed

lemma routed_parse:
  assumes "g = parse_args args" and "h = parse_args (routed_args args dir (retarget_indexes g))"
  shows "chdirs h = [dir] \<and> git_dir h = None \<and> work_tree h = None
    \<and> sub_command h = sub_command g \<and> sub_rest h = sub_rest g
    \<and> config h = config g \<and> info_only h = info_only g"
proof -
  obtain g0 j where g0: "parse_globals args 0 GitArgs_default = (g0, j)" by fastforce
  then have g: "g = g0\<lparr>sub_index := j, sub_command := slice_get args j, sub_rest := drop (j + 1) args\<rparr>"
    using assms(1) by (simp add: parse_args_def)
  then have D: "retarget_indexes g = retarget_indexes g0" by simp
  let ?kept = "kept (retarget_indexes g0) 0 args"
  let ?h0 = "GitArgs_default\<lparr>chdirs := [dir], retarget_indexes := [0, 1]\<rparr>"
  have r: "routed_args args dir (retarget_indexes g) = ''-C'' # dir # ?kept"
    by (simp add: routed_args_def kept_def D)
  have "global_kind ''-C'' = ChangeDir" by code_simp
  then have first: "parse_globals (''-C'' # dir # ?kept) 0 GitArgs_default = parse_globals ?kept 2 ?h0"
    by (simp add: global_option_def mark_def GitArgs_default_def numeral_2_eq_2)
  have "set (retarget_indexes GitArgs_default) \<subseteq> {..<0}" by (simp add: GitArgs_default_def)
  from parse_kept [OF g0 this, of 2 ?h0] obtain h' m where
    h': "parse_globals ?kept 2 ?h0 = (h', 2 + m)" "same_options GitArgs_default g0 ?h0 h'"
      "drop m ?kept = drop j args" by auto
  have h: "h = h'\<lparr>sub_index := 2 + m, sub_command := slice_get (''-C'' # dir # ?kept) (2 + m),
      sub_rest := drop (2 + m + 1) (''-C'' # dir # ?kept)\<rparr>"
    using assms(2) r first h'(1) by (simp add: parse_args_def)
  have "slice_get (''-C'' # dir # ?kept) (2 + m) = slice_get args j"
    using h'(3) by (metis drop_Suc_Cons add_2_eq_Suc slice_get_drop)
  moreover have "drop (2 + m + 1) (''-C'' # dir # ?kept) = drop (j + 1) args"
    using arg_cong [OF h'(3), of "drop 1"] by (simp add: add.commute)
  ultimately show ?thesis
    using h'(2) g h by (auto simp: same_options_def GitArgs_default_def)
qed

text \<open>Routing a call keeps the command and drops exactly its retargeting. Reading the argument list
  that the shim passes on, git changes into the chosen directory and nowhere else, takes no other git
  directory or work tree, and sees the same subcommand with the same arguments, the same one-call
  configuration and the same information flags as the agent typed.\<close>

theorem routing_round_trip:
  assumes "g = parse_args args" and "h = parse_args (routed_args args dir (retarget_indexes g))"
  shows "chdirs h = [dir] \<and> git_dir h = None \<and> work_tree h = None
    \<and> sub_command h = sub_command g \<and> sub_rest h = sub_rest g
    \<and> config h = config g \<and> info_only h = info_only g"
  by (rule routed_parse [OF assms])

theorem routing_round_trip_witness:
  "sub_command (parse_args (routed_args [''-C'', ''/x'', ''-c'', ''a=b'', ''commit'', ''-m'', ''y''] ''/wt''
     (retarget_indexes (parse_args [''-C'', ''/x'', ''-c'', ''a=b'', ''commit'', ''-m'', ''y''])))) = Some ''commit''"
proof -
  have "sub_command (parse_args [''-C'', ''/x'', ''-c'', ''a=b'', ''commit'', ''-m'', ''y'']) = Some ''commit''"
    by code_simp
  then show ?thesis using routing_round_trip [OF refl refl] by metis
qed

end
