(* ===== verification/Rust_Path.thy ===== *)
theory Rust_Path
  imports Rust_Text
begin

text \<open>
  \<open>std::path\<close> on Unix. A path is the list of its components: the standard library compares paths,
  tests prefixes and walks ancestors by components, so repeated and trailing slashes and inner
  \<open>.\<close> components are gone. The questions about files that exist are a record of functions, one per
  library call the sources make.
\<close>

datatype Component = RootDir | CurDir | ParentDir | Normal string

type_synonym path = "Component list"

fun component_of :: "string \<Rightarrow> Component" where
  "component_of s = (if s = ''.'' then CurDir else if s = ''..'' then ParentDir else Normal s)"

text \<open>\<open>Path::components\<close>: a leading \<open>.\<close> of a relative path stays, every other one is dropped.\<close>

definition components :: "string \<Rightarrow> path" where
  "components s =
     (let parts = filter (\<lambda>p. p \<noteq> []) (split_on (CHR ''/'') s);
          cs = map component_of parts
      in if starts_with s ''/'' then RootDir # filter (\<lambda>c. c \<noteq> CurDir) cs
         else case cs of
           [] \<Rightarrow> []
         | c # rest \<Rightarrow> (if starts_with s ''.'' \<and> c = CurDir then [CurDir] else filter (\<lambda>c. c \<noteq> CurDir) [c])
                       @ filter (\<lambda>c. c \<noteq> CurDir) rest)"

definition is_absolute_path :: "path \<Rightarrow> bool" where
  "is_absolute_path p \<longleftrightarrow> (case p of RootDir # _ \<Rightarrow> True | _ \<Rightarrow> False)"

definition file_name :: "path \<Rightarrow> string option" where
  "file_name p = (case rev p of Normal n # _ \<Rightarrow> Some n | _ \<Rightarrow> None)"

definition join_path :: "path \<Rightarrow> path \<Rightarrow> path" where
  "join_path a b =
     (if is_absolute_path b then b
      else if a = [] then b
      else a @ (case b of CurDir # rest \<Rightarrow> rest | _ \<Rightarrow> b))"

definition parent :: "path \<Rightarrow> path option" where
  "parent p = (case rev p of [] \<Rightarrow> None | RootDir # _ \<Rightarrow> None | _ # rest \<Rightarrow> Some (rev rest))"

lemma parent_shorter: "parent p = Some q \<Longrightarrow> length q < length p"
proof -
  assume "parent p = Some q"
  then obtain c rest where "rev p = c # rest" "q = rev rest"
    by (auto simp: parent_def split: list.splits Component.splits)
  then have "length (rev p) = Suc (length q)" by simp
  then show ?thesis by simp
qed

function ancestors :: "path \<Rightarrow> path list" where
  "ancestors p = p # (case parent p of None \<Rightarrow> [] | Some q \<Rightarrow> ancestors q)"
  by pat_completeness auto
termination
  by (relation "measure length") (auto simp: parent_shorter)

declare ancestors.simps [simp del]

record Fs =
  fs_is_dir :: "path \<Rightarrow> bool"
  fs_is_file :: "path \<Rightarrow> bool"
  fs_exists :: "path \<Rightarrow> bool"
  fs_canonicalize :: "path \<Rightarrow> path option"

text \<open>\<open>Path::starts_with\<close> on whole components is \<open>starts_with\<close> on the lists.\<close>

lemma ancestors_normal:
  assumes "list_all (\<lambda>c. \<exists>n. c = Normal n) cs"
  shows "takeWhile (\<lambda>a. a \<noteq> base) (ancestors (base @ cs))
    = map (\<lambda>n. base @ take (length cs - n) cs) [0..<length cs]"
  using assms
proof (induction cs rule: rev_induct)
  case Nil
  then show ?case by (simp add: ancestors.simps)
next
  case (snoc c cs)
  then obtain n where c: "c = Normal n" by auto
  have "parent (base @ cs @ [c]) = Some (base @ cs)" by (simp add: parent_def c)
  then have a: "ancestors (base @ cs @ [c]) = (base @ cs @ [c]) # ancestors (base @ cs)"
    by (subst ancestors.simps) simp
  have "map (\<lambda>n. base @ take (length (cs @ [c]) - n) (cs @ [c])) [0..<length (cs @ [c])]
      = (base @ cs @ [c]) # map (\<lambda>n. base @ take (length cs - n) cs) [0..<length cs]"
  proof -
    have "[0..<length (cs @ [c])] = 0 # map Suc [0..<length cs]" 
      by (subst upt_conv_Cons) (simp_all add: map_Suc_upt del: upt_Suc)
    then show ?thesis by simp
  qed
  then show ?case using snoc by (simp add: a)
qed

end
