(* ===== verification/Shim_Location.thy ===== *)
theory Shim_Location
  imports Rust_Path
begin

text \<open>
  Where a git call acts, \<^verbatim>\<open>crates/agend-shim/src/location.rs\<close>: git's own answer (\<open>rev-parse\<close>, decoded by
  \<open>from_lines\<close>) classified against the agent's bound worktree and the team's canonical checkout.
\<close>

datatype Location =
  Worktree | Canonical | OtherWorktree | Foreign | Nested | NoRepo | Workspace | Unknown

record Resolved =
  r_git_dir :: path
  r_common_dir :: path
  r_work_tree :: "path option"
  r_prefix :: path

definition canon_in :: "Fs \<Rightarrow> path \<Rightarrow> path \<Rightarrow> path option" where
  "canon_in fs base p = fs_canonicalize fs (join_path base p)"

definition resolved_of :: "Fs \<Rightarrow> path \<Rightarrow> path \<Rightarrow> path \<Rightarrow> path option \<Rightarrow> path \<Rightarrow> Resolved option" where
  "resolved_of fs base g c w pre =
     (case (canon_in fs base g, canon_in fs base c, w) of
        (Some g', Some c', None) \<Rightarrow>
          Some \<lparr>r_git_dir = g', r_common_dir = c', r_work_tree = None, r_prefix = pre\<rparr>
      | (Some g', Some c', Some w0) \<Rightarrow>
          (case canon_in fs base w0 of
             Some w' \<Rightarrow> Some \<lparr>r_git_dir = g', r_common_dir = c', r_work_tree = Some w', r_prefix = pre\<rparr>
           | None \<Rightarrow> None)
      | _ \<Rightarrow> None)"

definition from_lines :: "Fs \<Rightarrow> path list \<Rightarrow> path \<Rightarrow> Resolved option" where
  "from_lines fs ls base =
     (case ls of
        [g, c] \<Rightarrow> resolved_of fs base g c None []
      | [g, c, w] \<Rightarrow> resolved_of fs base g c (Some w) []
      | [g, c, w, p] \<Rightarrow> resolved_of fs base g c (Some w) p
      | _ \<Rightarrow> None)"

definition root :: "Resolved \<Rightarrow> path" where
  "root r = (case r_work_tree r of Some w \<Rightarrow> w | None \<Rightarrow> r_git_dir r)"

record Anchors =
  an_worktree :: "path option"
  an_source_repo :: "path option"
  an_worktree_dirs :: "(path \<times> path) option"
  an_team_common_dir :: "path option"

definition own_worktree :: "Resolved \<Rightarrow> bool \<Rightarrow> Anchors \<Rightarrow> bool" where
  "own_worktree r explicit an =
     (case an_worktree an of
        None \<Rightarrow> False
      | Some wt \<Rightarrow>
          if explicit
          then (case an_worktree_dirs an of
                  Some (g, c) \<Rightarrow> g = r_git_dir r \<and> c = r_common_dir r
                | None \<Rightarrow> False)
          else r_work_tree r = Some wt)"

definition in_bound_tree :: "Resolved \<Rightarrow> Anchors \<Rightarrow> bool" where
  "in_bound_tree r an =
     (case an_worktree an of Some w \<Rightarrow> starts_with (root r) w | None \<Rightarrow> False)"

definition locate :: "Resolved \<Rightarrow> bool \<Rightarrow> Anchors \<Rightarrow> Location" where
  "locate r explicit an =
     (if own_worktree r explicit an then Worktree
      else if \<not> explicit \<and> r_work_tree r \<noteq> None \<and> r_work_tree r = an_source_repo an
      then if r_git_dir r = r_common_dir r then Canonical else OtherWorktree
      else case an_team_common_dir an of
        Some team \<Rightarrow>
          if team = r_common_dir r \<and> r_git_dir r = team then Canonical
          else if team = r_common_dir r then OtherWorktree
          else if in_bound_tree r an then Nested
          else if starts_with (r_git_dir r) team then OtherWorktree
          else Foreign
      | None \<Rightarrow> if in_bound_tree r an then Nested else Foreign)"

text \<open>A call that reaches the team's repository is never taken for somebody else's. If git's common
  directory for the call is the team's, the location is the bound worktree, the canonical checkout or
  another worktree of the team; and it is the canonical checkout only if git acts on the common
  directory itself.\<close>

theorem team_repo_is_recognised:
  assumes "an_team_common_dir an = Some (r_common_dir r)"
  shows "locate r explicit an \<in> {Worktree, Canonical, OtherWorktree}
    \<and> (locate r explicit an = Canonical \<longrightarrow> r_git_dir r = r_common_dir r)"
  using assms by (auto simp: locate_def)

theorem team_repo_is_recognised_witness:
  "locate \<lparr>r_git_dir = [RootDir, Normal ''g''], r_common_dir = [RootDir, Normal ''c''],
      r_work_tree = None, r_prefix = []\<rparr> True
     \<lparr>an_worktree = None, an_source_repo = None, an_worktree_dirs = None,
      an_team_common_dir = Some [RootDir, Normal ''c'']\<rparr> \<in> {Worktree, Canonical, OtherWorktree}"
  by (rule team_repo_is_recognised [THEN conjunct1]) simp

end
