(* ===== verification/Shim_Classify.thy ===== *)
theory Shim_Classify
  imports Shim_Args Shim_Location
begin

text \<open>
  The decision of the git guard, \<^verbatim>\<open>crates/agend-shim/src/classify.rs\<close>: run a call as typed, route it
  into the bound worktree, or refuse it. Git's answers (\<open>Probe\<close>) and the file system are parameters.
  A refusal is its code and the note about a routed call is its pair of directories; the texts are
  not modelled.
\<close>

section \<open>Inputs and decisions\<close>

datatype Decision =
    Run "path option" "string option" "(path \<times> path) option"
  | Refuse Refusal

definition PASS :: Decision where
  "PASS = Run None None None"

record Probe =
  is_team_repo :: bool
  is_team_remote :: "string \<Rightarrow> bool"
  probe_git :: "string list \<Rightarrow> string option"
  hooks_installed :: bool

record GitEnv =
  retargets :: bool
  index_file :: "path option"
  env_config :: "string list"

record Input =
  in_args :: GitArgs
  in_snapshot :: "SnapshotError + Snapshot"
  in_location :: Location
  in_resolved :: "Resolved option"
  in_env :: GitEnv
  in_dir :: path
  in_probe :: Probe
  in_fs :: Fs

definition needs_location :: "GitArgs \<Rightarrow> bool" where
  "needs_location args \<longleftrightarrow>
     \<not> info_only args \<and> sub_command args \<notin> {None, Some ''init'', Some ''clone''}"

definition input_binding :: "Input \<Rightarrow> Binding option" where
  "input_binding inp = (case in_snapshot inp of Inr s \<Rightarrow> sn_binding s | Inl _ \<Rightarrow> None)"

definition worktree_path :: "Binding \<Rightarrow> path" where
  "worktree_path b = components (binding_worktree b)"

section \<open>Hooks and directories\<close>

definition sets_key :: "string \<Rightarrow> string \<Rightarrow> bool" where
  "sets_key key v \<longleftrightarrow> str_contains (to_ascii_lowercase v) key"

definition check_hooks_kept :: "string \<Rightarrow> string list \<Rightarrow> Input \<Rightarrow> Refusal + unit" where
  "check_hooks_kept cmd rest inp =
     (if list_ex (sets_key ''core.hookspath'') (config (in_args inp) @ env_config (in_env inp))
      then Inl ''hooks_skipped''
      else if cmd = ''push'' \<and> has_long rest ''--no-verify'' then Inl ''hooks_skipped''
      else Inr ())"

fun is_normal :: "Component \<Rightarrow> bool" where
  "is_normal (Normal _) = True"
| "is_normal _ = False"

definition target_ok :: "Fs \<Rightarrow> path \<Rightarrow> path \<Rightarrow> path \<Rightarrow> bool" where
  "target_ok fs wt pre target \<longleftrightarrow>
     list_all is_normal pre \<and> fs_is_dir fs target
     \<and> \<not> list_ex (\<lambda>a. fs_exists fs (join_path a [Normal ''.git'']))
           (takeWhile (\<lambda>a. a \<noteq> wt) (ancestors target))
     \<and> (case (fs_canonicalize fs target, fs_canonicalize fs wt) of
          (Some t, Some w) \<Rightarrow> starts_with t w | _ \<Rightarrow> False)"

definition route_dir :: "Input \<Rightarrow> Binding \<Rightarrow> Refusal + path" where
  "route_dir inp b =
     (let wt = worktree_path b;
          pre = (case in_resolved inp of Some r \<Rightarrow> r_prefix r | None \<Rightarrow> []);
          target = foldl (\<lambda>p c. join_path p [c]) wt pre
      in if in_location inp = OtherWorktree then Inl ''other_worktree''
         else if target_ok (in_fs inp) wt pre target then Inr target
         else Inl ''route_dir_missing'')"

definition check_work_tree :: "Input \<Rightarrow> Binding \<Rightarrow> Refusal + unit" where
  "check_work_tree inp b =
     (if in_location inp \<noteq> Worktree
      then if git_dir (in_args inp) \<noteq> None \<or> work_tree (in_args inp) \<noteq> None
           then Inl ''work_tree_retarget'' else Inr ()
      else
        let bound = fs_canonicalize (in_fs inp) (worktree_path b) in
        case Option.bind (in_resolved inp) r_work_tree of
          None \<Rightarrow> Inl ''work_tree_retarget''
        | Some p \<Rightarrow>
            if Some p \<noteq> bound then Inl ''work_tree_retarget''
            else (case index_file (in_env inp) of
                    None \<Rightarrow> Inr ()
                  | Some f \<Rightarrow>
                      (case (in_resolved inp, Option.bind (parent f) (fs_canonicalize (in_fs inp))) of
                         (Some r, Some d) \<Rightarrow>
                           if starts_with d (r_git_dir r) then Inr () else Inl ''work_tree_retarget''
                       | _ \<Rightarrow> Inl ''work_tree_retarget'')))"

section \<open>Leaving the bound branch\<close>

definition previous :: "string \<Rightarrow> string option" where
  "previous target =
     (let n = (if target = ''-'' then Some ''1''
               else Option.bind (strip_prefix (CHR ''@'' # ''{-'') target) (\<lambda>t. strip_suffix t ''}''))
      in case n of
           None \<Rightarrow> None
         | Some d \<Rightarrow> if d \<noteq> [] \<and> list_all is_ascii_digit d then Some (CHR ''@'' # ''{-'' @ d @ ''}'') else None)"

definition stays :: "string \<Rightarrow> Binding \<Rightarrow> Probe \<Rightarrow> bool" where
  "stays target b probe =
     (if target = ''HEAD'' \<or> target = ''@'' then True
      else case binding_branch b of
        None \<Rightarrow> False
      | Some br \<Rightarrow>
          (case previous target of
             Some prev \<Rightarrow>
               (case probe_git probe [''rev-parse'', ''--symbolic-full-name'', prev] of
                  Some f \<Rightarrow> strip_prefix ''refs/heads/'' f = Some br
                | None \<Rightarrow> False)
           | None \<Rightarrow> target = br))"

definition leaving_options :: "string \<Rightarrow> (string list \<times> string) option" where
  "leaving_options cmd =
     (if cmd = ''checkout'' then Some ([''--detach'', ''--orphan''], ''bBd'')
      else if cmd = ''switch''
      then Some ([''--detach'', ''--orphan'', ''--create'', ''--force-create''], ''cCd'')
      else None)"

definition leaves_target :: "string \<Rightarrow> string list \<Rightarrow> Binding \<Rightarrow> Probe \<Rightarrow> string option" where
  "leaves_target cmd rest b probe =
     (let dashdash = position (\<lambda>a. a = ''--'') rest;
          upto = (case dashdash of Some i \<Rightarrow> i | None \<Rightarrow> length rest);
          pos = filter (\<lambda>a. \<not> starts_with a ''-'' \<or> a = ''-'') (take upto rest)
      in case pos of
           [] \<Rightarrow> None
         | target # others \<Rightarrow>
             let restores = (cmd = ''checkout''
               \<and> ((case dashdash of Some i \<Rightarrow> i + 1 < length rest | None \<Rightarrow> False) \<or> others \<noteq> []
                  \<or> (dashdash = None
                     \<and> \<not> (previous target \<noteq> None
                          \<or> probe_git probe [''rev-parse'', ''--verify'', ''-q'', target @ ''^{commit}''] \<noteq> None))))
             in if restores then None
                else if stays target b probe then None else Some target)"

definition leaves_branch :: "string \<Rightarrow> string list \<Rightarrow> Binding \<Rightarrow> Probe \<Rightarrow> string option" where
  "leaves_branch cmd rest b probe =
     (case leaving_options cmd of
        None \<Rightarrow> None
      | Some (longs, letters) \<Rightarrow>
          (case List.find (\<lambda>a. list_ex (long a) longs \<or> short a letters) (options rest) of
             Some flag \<Rightarrow> Some flag
           | None \<Rightarrow> leaves_target cmd rest b probe))"

section \<open>What the hooks and snapshots do not cover\<close>

definition copies_or_renames :: "string \<Rightarrow> bool" where
  "copies_or_renames a =
     (case strip_prefix ''--'' a of
        Some n0 \<Rightarrow>
          (let n = split_first (CHR ''='') n0
           in n \<noteq> [] \<and> (starts_with ''move'' n \<or> starts_with ''copy'' n))
      | None \<Rightarrow>
          starts_with a ''-''
          \<and> list_ex (\<lambda>c. c \<in> set ''cCmM'') (takeWhile (\<lambda>c. c \<notin> set ''ut'') (tl a)))"

definition copy_or_rename :: "string \<Rightarrow> string list \<Rightarrow> string option" where
  "copy_or_rename cmd rest =
     (if cmd = ''branch'' then List.find copies_or_renames (options rest) else None)"

definition untracked_ref_write :: "string \<Rightarrow> string list \<Rightarrow> Refusal option" where
  "untracked_ref_write cmd rest =
     (if cmd = ''symbolic-ref''
      then let flags = filter (\<lambda>a. starts_with a ''-'') rest;
               names = filter (\<lambda>a. \<not> starts_with a ''-'') rest
           in if length names = 1
                \<and> list_all (\<lambda>a. a \<in> set [''-q'', ''--quiet'', ''--short'', ''--recurse'', ''--no-recurse'']) flags
              then None else Some ''ref_outside_hook''
      else if cmd = ''reflog'' \<and> first_positional rest \<in> {Some ''expire'', Some ''delete''}
      then Some ''ref_outside_hook''
      else None)"

definition config_true :: "Probe \<Rightarrow> string \<Rightarrow> bool" where
  "config_true probe key \<longleftrightarrow> probe_git probe [''config'', ''--get'', ''--type=bool'', key] = Some ''true''"

definition short_letters :: "string list \<Rightarrow> string" where
  "short_letters rest =
     concat (filter (\<lambda>l. \<not> starts_with l ''-'')
       (List.map_filter (\<lambda>a. map_option (split_first (CHR ''e'')) (strip_prefix ''-'' a)) (options rest)))"

definition recursing :: "string \<Rightarrow> string list \<Rightarrow> Input \<Rightarrow> Binding \<Rightarrow> bool" where
  "recursing cmd rest inp b \<longleftrightarrow>
     cmd \<in> set [''reset'', ''checkout'', ''restore'', ''switch'']
     \<and> destructive cmd rest \<noteq> None
     \<and> fs_is_file (in_fs inp) (join_path (worktree_path b) [Normal ''.gitmodules''])
     \<and> (has_long rest ''--recurse-submodules''
        \<or> \<not> has_long rest ''--no-recurse-submodules''
          \<and> (list_ex (sets_key ''submodule.recurse'') (config (in_args inp))
             \<or> config_true (in_probe inp) ''submodule.recurse''))"

definition unsnapshotted :: "string \<Rightarrow> string list \<Rightarrow> Input \<Rightarrow> Binding \<Rightarrow> Refusal option" where
  "unsnapshotted cmd rest inp b =
     (let shorts = short_letters rest;
          forces = length (filter (\<lambda>c. c = CHR ''f'') shorts)
                   + length (filter (\<lambda>a. long a ''--force'') (options rest));
          first = (case first_positional rest of Some p \<Rightarrow> p | None \<Rightarrow> []);
          prune = list_ex (\<lambda>a. a = ''-p'' \<or> long a ''--prune'') (options rest)
      in if cmd = ''stash'' then Some ''stash_shared''
         else if cmd = ''remote''
           \<and> (first \<in> set [''add'', ''remove'', ''rm'', ''rename'', ''set-url'', ''set-head'', ''set-branches'', ''prune'']
              \<or> first = ''update'' \<and> prune) then Some ''remote_write''
         else if cmd = ''submodule'' \<and> first = ''foreach'' then Some ''submodule_foreach''
         else if recursing cmd rest inp b then Some ''submodule_recurse''
         else if cmd = ''clean'' \<and> (CHR ''x'' \<in> set shorts \<or> CHR ''X'' \<in> set shorts \<or> forces > 1)
         then Some ''clean_unsnapshotted''
         else None)"

definition autostash_keys :: "string \<Rightarrow> string list option" where
  "autostash_keys cmd =
     (if cmd = ''rebase'' then Some [''rebase.autostash'']
      else if cmd = ''merge'' then Some [''merge.autostash'']
      else if cmd = ''pull'' then Some [''rebase.autostash'', ''merge.autostash'']
      else None)"

definition autostash :: "string \<Rightarrow> string list \<Rightarrow> Input \<Rightarrow> Refusal option" where
  "autostash cmd rest inp =
     (case autostash_keys cmd of
        None \<Rightarrow> None
      | Some keys \<Rightarrow>
          if has_long rest ''--autostash''
             \<or> list_ex (\<lambda>v. list_ex (\<lambda>k. sets_key k v) keys) (config (in_args inp) @ env_config (in_env inp))
             \<or> (\<not> list_ex (\<lambda>a. a \<in> set [''--no-autostash'', ''--continue'', ''--abort'', ''--skip'', ''--quit'',
                    ''--edit-todo'', ''--show-current-patch'']) (options rest)
                \<and> list_ex (config_true (in_probe inp)) keys)
          then Some ''autostash'' else None)"

section \<open>The decision\<close>

definition refuse_unbound :: "Location \<Rightarrow> Refusal" where
  "refuse_unbound l = (if l = Canonical then ''canonical_checkout'' else ''unbound'')"

text \<open>The checks that follow once the directory is settled, in the order of the source.\<close>

definition refuse_write :: "Input \<Rightarrow> string \<Rightarrow> string list \<Rightarrow> Binding \<Rightarrow> Refusal option" where
  "refuse_write inp cmd rest b =
     (if \<not> hooks_installed (in_probe inp) then Some ''hooks_missing''
      else if leaves_branch cmd rest b (in_probe inp) \<noteq> None then Some ''branch_switch''
      else if copy_or_rename cmd rest \<noteq> None then Some ''branch_copy''
      else or_else (untracked_ref_write cmd rest)
             (or_else (unsnapshotted cmd rest inp b) (autostash cmd rest inp)))"

definition write_route :: "Input \<Rightarrow> Binding \<Rightarrow> Refusal + path option" where
  "write_route inp b =
     (let named = (git_dir (in_args inp) \<noteq> None \<or> work_tree (in_args inp) \<noteq> None);
          no_work_tree = (case in_resolved inp of Some r \<Rightarrow> r_work_tree r = None | None \<Rightarrow> False)
      in if \<not> fs_is_dir (in_fs inp) (worktree_path b) then Inl ''worktree_missing''
         else if in_location inp = NoRepo then Inl ''no_repo_there''
         else if in_location inp \<noteq> Worktree \<and> no_work_tree \<and> \<not> named then Inl ''route_dir_missing''
         else and_then (if in_location inp = Worktree then Inr None
                        else and_then (route_dir inp b) (\<lambda>d. Inr (Some d)))
                (\<lambda>route. if route \<noteq> None \<and> retargets (in_env inp) then Inl ''git_env_retarget''
                         else and_then (check_work_tree inp b) (\<lambda>_. Inr route)))"

definition write_decision :: "Input \<Rightarrow> string \<Rightarrow> string list \<Rightarrow> Decision" where
  "write_decision inp cmd rest =
     (case in_snapshot inp of
        Inl _ \<Rightarrow> Refuse ''no_binding''
      | Inr s \<Rightarrow>
          (case sn_binding s of
             None \<Rightarrow> Refuse (refuse_unbound (in_location inp))
           | Some b \<Rightarrow>
               (case write_route inp b of
                  Inl r \<Rightarrow> Refuse r
                | Inr route \<Rightarrow>
                    (case refuse_write inp cmd rest b of
                       Some r \<Rightarrow> Refuse r
                     | None \<Rightarrow> Run route (destructive cmd rest) (map_option (\<lambda>d. (d, in_dir inp)) route)))))"

definition route_read :: "Input \<Rightarrow> Decision" where
  "route_read inp =
     (case input_binding inp of
        None \<Rightarrow> PASS
      | Some b \<Rightarrow>
          if in_location inp \<notin> {Canonical, Workspace} \<or> retargets (in_env inp)
             \<or> \<not> fs_is_dir (in_fs inp) (worktree_path b) then PASS
          else case route_dir inp b of
            Inl r \<Rightarrow> Refuse r
          | Inr d \<Rightarrow> Run (Some d) None (Some (d, in_dir inp)))"

definition push_destinations :: "string list \<Rightarrow> string list" where
  "push_destinations rest =
     filter (\<lambda>a. \<not> starts_with a ''-'') rest @ List.map_filter (strip_prefix ''--repo='') rest"

definition foreign :: "Input \<Rightarrow> string \<Rightarrow> string list \<Rightarrow> Decision" where
  "foreign inp cmd rest =
     (if kind_of cmd rest = Some Read then PASS
      else if is_team_repo (in_probe inp) then Refuse ''team_clone''
      else if cmd = ''push'' \<and> list_ex (is_team_remote (in_probe inp)) (push_destinations rest)
      then Refuse ''team_remote''
      else Run None (if in_location inp = Nested then destructive cmd rest else None) None)"

definition classify :: "Input \<Rightarrow> Decision" where
  "classify inp =
     (case sub_command (in_args inp) of
        None \<Rightarrow> PASS
      | Some cmd \<Rightarrow>
          if info_only (in_args inp) then PASS
          else let rest = sub_rest (in_args inp) in
            if in_location inp \<in> {Foreign, Nested} then foreign inp cmd rest
            else case check_hooks_kept cmd rest inp of
              Inl r \<Rightarrow> Refuse r
            | Inr _ \<Rightarrow>
                if cmd = ''worktree'' \<and> first_positional rest \<noteq> Some ''list'' then Refuse ''worktree_managed''
                else case kind_of cmd rest of
                  None \<Rightarrow> Refuse ''unknown_command''
                | Some Read \<Rightarrow> route_read inp
                | Some Write \<Rightarrow> write_decision inp cmd rest)"

section \<open>Inversion of the decision\<close>

lemma join_normal: "list_all is_normal pre \<Longrightarrow> foldl (\<lambda>p c. join_path p [c]) wt pre = wt @ pre"
proof (induction pre arbitrary: wt)
  case (Cons c pre)
  then obtain n where "c = Normal n" by (cases c) auto
  then show ?case using Cons by (simp add: join_path_def is_absolute_path_def)
qed simp

definition inside :: "Fs \<Rightarrow> path \<Rightarrow> path \<Rightarrow> bool" where
  "inside fs wt d \<longleftrightarrow>
     (\<exists>pre t w. d = wt @ pre \<and> list_all is_normal pre \<and> fs_is_dir fs d
        \<and> fs_canonicalize fs d = Some t \<and> fs_canonicalize fs wt = Some w \<and> starts_with t w)"

lemma route_dir_Inr:
  assumes "route_dir inp b = Inr d"
  shows "in_location inp \<noteq> OtherWorktree" "inside (in_fs inp) (worktree_path b) d"
proof -
  let ?pre = "case in_resolved inp of Some r \<Rightarrow> r_prefix r | None \<Rightarrow> []"
  let ?t = "foldl (\<lambda>p c. join_path p [c]) (worktree_path b) ?pre"
  have d: "d = ?t" and ok: "target_ok (in_fs inp) (worktree_path b) ?pre ?t"
    and l: "in_location inp \<noteq> OtherWorktree"
    using assms by (auto simp: route_dir_def Let_def split: if_splits)
  show "in_location inp \<noteq> OtherWorktree" by (rule l)
  have "list_all is_normal ?pre" using ok by (simp add: target_ok_def)
  with d have "d = worktree_path b @ ?pre" by (simp add: join_normal)
  moreover have "fs_is_dir (in_fs inp) d" "list_all is_normal ?pre"
    using ok d by (auto simp: target_ok_def)
  moreover have "\<exists>t w. fs_canonicalize (in_fs inp) d = Some t
      \<and> fs_canonicalize (in_fs inp) (worktree_path b) = Some w \<and> starts_with t w"
    using ok d by (auto simp: target_ok_def split: option.splits)
  ultimately show "inside (in_fs inp) (worktree_path b) d" unfolding inside_def by blast
qed

lemma check_work_tree_Inr:
  assumes "check_work_tree inp b = Inr ()"
  shows "in_location inp \<noteq> Worktree \<Longrightarrow> git_dir (in_args inp) = None \<and> work_tree (in_args inp) = None"
    "in_location inp = Worktree \<Longrightarrow> \<exists>r w. in_resolved inp = Some r \<and> r_work_tree r = Some w
       \<and> fs_canonicalize (in_fs inp) (worktree_path b) = Some w"
proof -
  show "git_dir (in_args inp) = None \<and> work_tree (in_args inp) = None" if "in_location inp \<noteq> Worktree"
    using assms that by (auto simp: check_work_tree_def split: if_splits)
  show "\<exists>r w. in_resolved inp = Some r \<and> r_work_tree r = Some w
      \<and> fs_canonicalize (in_fs inp) (worktree_path b) = Some w" if home: "in_location inp = Worktree"
  proof -
    obtain p where "Option.bind (in_resolved inp) r_work_tree = Some p"
      "Some p = fs_canonicalize (in_fs inp) (worktree_path b)"
      using assms home by (cases "Option.bind (in_resolved inp) r_work_tree")
        (auto simp: check_work_tree_def Let_def split: if_splits)
    then show ?thesis by (metis bind_eq_Some_conv)
  qed
qed

text \<open>Where a write that runs acts.\<close>

definition at_home :: "Input \<Rightarrow> Binding \<Rightarrow> path option \<Rightarrow> bool" where
  "at_home inp b route \<longleftrightarrow>
     (case route of
        None \<Rightarrow> in_location inp = Worktree
          \<and> (\<exists>r w. in_resolved inp = Some r \<and> r_work_tree r = Some w
               \<and> fs_canonicalize (in_fs inp) (worktree_path b) = Some w)
      | Some d \<Rightarrow> in_location inp \<notin> {Worktree, OtherWorktree, NoRepo} \<and> \<not> retargets (in_env inp)
          \<and> git_dir (in_args inp) = None \<and> work_tree (in_args inp) = None
          \<and> inside (in_fs inp) (worktree_path b) d)"

lemma write_route_Inr:
  assumes "write_route inp b = Inr route"
  shows "at_home inp b route"
proof (cases "in_location inp = Worktree")
  case True
  then have "route = None" "check_work_tree inp b = Inr ()"
    using assms by (auto simp: write_route_def Let_def result_split split: if_splits)
  then show ?thesis using True check_work_tree_Inr(2) by (auto simp: at_home_def)
next
  case False
  then obtain d where "route = Some d" "route_dir inp b = Inr d" "check_work_tree inp b = Inr ()"
    "\<not> retargets (in_env inp)" "in_location inp \<noteq> NoRepo"
    using assms by (auto simp: write_route_def Let_def result_split split: if_splits)
  then show ?thesis using False route_dir_Inr [of inp b d] check_work_tree_Inr(1) by (simp add: at_home_def)
qed

lemma write_Run:
  assumes "write_decision inp cmd rest = Run route snap note"
  shows "\<exists>s b. in_snapshot inp = Inr s \<and> sn_binding s = Some b \<and> write_route inp b = Inr route
    \<and> refuse_write inp cmd rest b = None \<and> snap = destructive cmd rest"
  using assms by (auto simp: write_decision_def split: sum.splits option.splits)

text \<open>A call that the guard decides on: it names a subcommand and is not only informational.\<close>

definition decided :: "Input \<Rightarrow> string \<Rightarrow> bool" where
  "decided inp cmd \<longleftrightarrow> sub_command (in_args inp) = Some cmd \<and> \<not> info_only (in_args inp)"

lemma classify_team:
  assumes "decided inp cmd" and "in_location inp \<notin> {Foreign, Nested}"
    and "classify inp = Run route snap note"
  shows "check_hooks_kept cmd (sub_rest (in_args inp)) inp = Inr ()"
    "kind_of cmd (sub_rest (in_args inp)) = Some Write \<Longrightarrow>
       write_decision inp cmd (sub_rest (in_args inp)) = Run route snap note"
  using assms by (auto simp: classify_def decided_def Let_def split: sum.splits if_splits option.splits Kind.splits)

section \<open>A concrete call\<close>

definition sample_fs :: Fs where
  "sample_fs = \<lparr>fs_is_dir = (\<lambda>_. True), fs_is_file = (\<lambda>_. False), fs_exists = (\<lambda>_. False),
     fs_canonicalize = Some\<rparr>"

definition sample_call :: "string list \<Rightarrow> Input" where
  "sample_call args = \<lparr>in_args = parse_args args, in_snapshot = Inr sample_snapshot, in_location = Canonical,
     in_resolved = Some \<lparr>r_git_dir = components ''/repo/.git'', r_common_dir = components ''/repo/.git'',
       r_work_tree = Some (components ''/repo''), r_prefix = components ''src/''\<rparr>,
     in_env = \<lparr>retargets = False, index_file = None, env_config = []\<rparr>, in_dir = components ''/repo/src'',
     in_probe = \<lparr>is_team_repo = False, is_team_remote = (\<lambda>_. False), probe_git = (\<lambda>_. None),
       hooks_installed = True\<rparr>, in_fs = sample_fs\<rparr>"

lemma sample_location [simp]: "in_location (sample_call args) = Canonical"
  by (simp add: sample_call_def)

section \<open>Properties\<close>

text \<open>C29: an agent's writes stay in its worktree. Unless the call acts on a foreign repository, a writing
  git command that the guard lets run belongs to an agent with a readable binding, whose worktree has
  the hooks installed; and it acts either in the bound worktree itself, which is the very work tree
  git resolved, or it is routed to a directory inside it (also after resolving symbolic links), from
  neither another worktree nor a place without a repository, with no git directory or work tree named
  by the caller or its environment.\<close>

theorem writes_stay_in_worktree:
  assumes "decided inp cmd" and "in_location inp \<notin> {Foreign, Nested}"
    and "kind_of cmd (sub_rest (in_args inp)) = Some Write" and "classify inp = Run route snap note"
  shows "\<exists>s b. in_snapshot inp = Inr s \<and> sn_binding s = Some b \<and> hooks_installed (in_probe inp)
    \<and> at_home inp b route"
proof -
  from write_Run [OF classify_team(2) [OF assms(1,2,4,3)]] obtain s b where
    "in_snapshot inp = Inr s" "sn_binding s = Some b" "write_route inp b = Inr route"
    "refuse_write inp cmd (sub_rest (in_args inp)) b = None" by blast
  moreover then have "hooks_installed (in_probe inp)" by (auto simp: refuse_write_def split: if_splits)
  ultimately show ?thesis using write_route_Inr by blast
qed

theorem writes_stay_in_worktree_witness:
  "classify (sample_call [''reset'', ''--hard'']) = Run (Some (components ''/wt/t1/src'')) (Some ''reset'')
     (Some (components ''/wt/t1/src'', components ''/repo/src''))
   \<and> (\<exists>b. at_home (sample_call [''reset'', ''--hard'']) b (Some (components ''/wt/t1/src'')))"
proof -
  let ?inp = "sample_call [''reset'', ''--hard'']"
  have c: "classify ?inp = Run (Some (components ''/wt/t1/src'')) (Some ''reset'')
     (Some (components ''/wt/t1/src'', components ''/repo/src''))" by code_simp
  have "decided ?inp ''reset''" "kind_of ''reset'' (sub_rest (in_args ?inp)) = Some Write" by code_simp+
  from writes_stay_in_worktree [OF this(1) _ this(2) c] c show ?thesis by auto
qed

text \<open>Nothing is discarded without a snapshot. In the team's repository and in repositories nested in
  the bound worktree, a writing command that can discard work runs only with a snapshot of its
  operation requested first.\<close>

theorem destructive_is_snapshotted:
  assumes "decided inp cmd" and "in_location inp \<noteq> Foreign"
    and "kind_of cmd (sub_rest (in_args inp)) = Some Write"
    and "destructive cmd (sub_rest (in_args inp)) = Some op" and "classify inp = Run route snap note"
  shows "snap = Some op"
proof (cases "in_location inp = Nested")
  case True
  then show ?thesis
    using assms by (auto simp: classify_def decided_def foreign_def Let_def split: if_splits)
next
  case False
  with assms(2) have "in_location inp \<notin> {Foreign, Nested}" by simp
  from write_Run [OF classify_team(2) [OF assms(1) this assms(5,3)]] assms(4) show ?thesis by auto
qed

theorem destructive_is_snapshotted_witness:
  "\<exists>route snap note. classify (sample_call [''reset'', ''--hard'']) = Run route snap note \<and> snap = Some ''reset''"
proof -
  let ?inp = "sample_call [''reset'', ''--hard'']"
  have "(case classify ?inp of Run _ _ _ \<Rightarrow> True | Refuse _ \<Rightarrow> False)" by code_simp
  then obtain route snap nt where c: "classify ?inp = Run route snap nt" by (auto split: Decision.splits)
  have "decided ?inp ''reset''" "kind_of ''reset'' (sub_rest (in_args ?inp)) = Some Write"
    "destructive ''reset'' (sub_rest (in_args ?inp)) = Some ''reset''" by code_simp+
  from destructive_is_snapshotted [OF this(1) _ this(2,3) c] c show ?thesis by auto
qed

text \<open>The hooks cannot be switched off for one call. Outside foreign repositories no call runs that
  sets \<open>core.hooksPath\<close> in any capitalisation through \<open>-c\<close>, \<open>--config-env\<close> or the environment, and no
  push with \<open>--no-verify\<close> or any abbreviation of it that git accepts.\<close>

theorem hooks_stay_on:
  assumes "decided inp cmd" and "in_location inp \<notin> {Foreign, Nested}"
    and "classify inp = Run route snap note"
  shows "(\<forall>v \<in> set (config (in_args inp) @ env_config (in_env inp)).
            \<not> (\<exists>a b. map ascii_lower v = a @ ''core.hookspath'' @ b))
    \<and> (cmd = ''push'' \<longrightarrow> (\<forall>a \<in> set (options (sub_rest (in_args inp))).
            \<not> (\<exists>n \<ge> 3. split_first (CHR ''='') a = take n ''--no-verify'')))"
proof -
  have h: "check_hooks_kept cmd (sub_rest (in_args inp)) inp = Inr ()"
    by (rule classify_team(1) [OF assms])
  have "long a ''--no-verify''" if "split_first (CHR ''='') a = take n ''--no-verify''" "3 \<le> n" for a n
  proof -
    have "take n ''--no-verify'' \<noteq> ''--force''"
    proof
      assume "take n ''--no-verify'' = ''--force''"
      then have "(take n ''--no-verify'') ! 2 = ''--force'' ! 2" by simp
      then show False using that(2) by (simp add: nth_Cons')
    qed
    moreover have "starts_with ''--no-verify'' (take n ''--no-verify'')"
      unfolding starts_with_iff by (metis append_take_drop_id)
    ultimately show ?thesis using that unfolding long_def Let_def by simp
  qed
  then show ?thesis
    using h by (auto simp: check_hooks_kept_def has_long_def list_ex_iff sets_key_def
        str_contains_iff to_ascii_lowercase_def split: if_splits)
qed

theorem hooks_stay_on_witness:
  "\<exists>route snap note. classify (sample_call [''-c'', ''user.name=x'', ''push'', ''origin'']) = Run route snap note
     \<and> \<not> (\<exists>a b. map ascii_lower ''user.name=x'' = a @ ''core.hookspath'' @ b)"
proof -
  let ?inp = "sample_call [''-c'', ''user.name=x'', ''push'', ''origin'']"
  have "(case classify ?inp of Run _ _ _ \<Rightarrow> True | Refuse _ \<Rightarrow> False)" by code_simp
  then obtain route snap nt where c: "classify ?inp = Run route snap nt" by (auto split: Decision.splits)
  have "decided ?inp ''push''" "config (in_args ?inp) = [''user.name=x'']" by code_simp+
  with hooks_stay_on [OF this(1) _ c] c show ?thesis by auto
qed

text \<open>\<open>git switch\<close> never leaves the bound branch. If a switch runs outside foreign repositories, none
  of its options creates a branch or detaches, and its target is \<open>HEAD\<close>, the branch of the agent's
  own work binding, or a name for the previous branch that git resolves to that branch.\<close>

theorem switch_stays_on_branch:
  assumes "decided inp ''switch''" and "in_location inp \<notin> {Foreign, Nested}"
    and "classify inp = Run route snap note"
  shows "\<not> list_ex (\<lambda>a. list_ex (long a) [''--detach'', ''--orphan'', ''--create'', ''--force-create'']
            \<or> short a ''cCd'') (options (sub_rest (in_args inp)))
    \<and> (\<forall>target others. filter (\<lambda>a. \<not> starts_with a ''-'' \<or> a = ''-'') (options (sub_rest (in_args inp)))
          = target # others \<longrightarrow>
        (\<exists>s b. in_snapshot inp = Inr s \<and> sn_binding s = Some b \<and> stays target b (in_probe inp)))"
proof -
  have "kind_of ''switch'' rest = Some Write" for rest
    by (simp add: kind_of_def reads_def READ_def WRITE_def)
  from write_Run [OF classify_team(2) [OF assms this]] obtain s b where
    sb: "in_snapshot inp = Inr s" "sn_binding s = Some b"
    and r: "refuse_write inp ''switch'' (sub_rest (in_args inp)) b = None" by blast
  let ?rest = "sub_rest (in_args inp)"
  from r have l: "leaves_branch ''switch'' ?rest b (in_probe inp) = None"
    by (auto simp: refuse_write_def split: if_splits)
  have o: "leaving_options ''switch'' = Some ([''--detach'', ''--orphan'', ''--create'', ''--force-create''], ''cCd'')"
    by (simp add: leaving_options_def)
  have take: "take (case position (\<lambda>a. a = ''--'') xs of Some i \<Rightarrow> i | None \<Rightarrow> length xs) xs = options xs" for xs
    by (induction xs) (auto simp: options_def split: option.splits)
  have none: "List.find (\<lambda>a. list_ex (long a) [''--detach'', ''--orphan'', ''--create'', ''--force-create'']
      \<or> short a ''cCd'') (options ?rest) = None"
    and t: "leaves_target ''switch'' ?rest b (in_probe inp) = None"
    using l o unfolding leaves_branch_def by (auto split: option.splits)
  have "stays target b (in_probe inp)"
    if "filter (\<lambda>a. \<not> starts_with a ''-'' \<or> a = ''-'') (options ?rest) = target # others" for target others
    using t that unfolding leaves_target_def Let_def take by (auto split: if_splits)
  with none sb show ?thesis by (auto simp: find_None_iff list_ex_iff)
qed

theorem switch_stays_on_branch_witness:
  "stays ''agend/t1/fix'' (Binding.Work ''t1'' ''agend/t1/fix'' ''/wt/t1'')
     (in_probe (sample_call [''switch'', ''agend/t1/fix'']))"
proof -
  let ?inp = "sample_call [''switch'', ''agend/t1/fix'']"
  have "(case classify ?inp of Run _ _ _ \<Rightarrow> True | Refuse _ \<Rightarrow> False)" by code_simp
  then obtain route snap nt where c: "classify ?inp = Run route snap nt" by (auto split: Decision.splits)
  have "decided ?inp ''switch''"
    and f: "filter (\<lambda>a. \<not> starts_with a ''-'' \<or> a = ''-'') (options (sub_rest (in_args ?inp))) = [''agend/t1/fix'']"
    by code_simp+
  from switch_stays_on_branch [OF this(1) _ c] f obtain s b where
    "in_snapshot ?inp = Inr s" "sn_binding s = Some b" "stays ''agend/t1/fix'' b (in_probe ?inp)" by auto
  then show ?thesis by (auto simp: sample_call_def sample_snapshot_def)
qed

end
