(* ===== verification/Shim_Gh.thy ===== *)
theory Shim_Gh
  imports Shim_Hooks
begin

text \<open>
  The guard of the GitHub command line, \<^verbatim>\<open>crates/agend-shim/src/gh.rs\<close>: reading \<open>gh\<close> options, decoding
  the path of an API endpoint, the lexical scan of a GraphQL query and the verdict. A cluster of
  short options is read character by character; the model steps over the bytes of a UTF-8 character
  together, as \<open>char_indices\<close> does.
\<close>

section \<open>Options\<close>

record Parsed =
  operands :: "string list"
  gh_options :: "(string \<times> string option) list"

definition VALUE_OPTIONS :: "string list" where
  "VALUE_OPTIONS = [''R'', ''repo'', ''b'', ''body'', ''body-file'', ''F'', ''f'', ''field'', ''raw-field'', ''H'',
     ''header'', ''hostname'', ''X'', ''method'', ''p'', ''preview'', ''q'', ''jq'', ''t'', ''template'', ''cache'',
     ''input'']"

definition takes_value :: "string \<Rightarrow> bool" where
  "takes_value name \<longleftrightarrow> name \<in> set VALUE_OPTIONS"

text \<open>The number of bytes of the character that starts with the given byte.\<close>

definition char_len :: "char \<Rightarrow> nat" where
  "char_len c =
     (let b = (of_char c :: nat) in if b < 128 then 1 else if b < 224 then 2 else if b < 240 then 3 else 4)"

lemma char_len_pos [simp]: "0 < char_len c"
  by (simp add: char_len_def Let_def)

text \<open>
  A cluster of short options with the arguments that follow it: the options read and the arguments
  left.
\<close>

function short_cluster ::
    "string \<Rightarrow> string list \<Rightarrow> (string \<times> string option) list \<times> string list" where
  "short_cluster s iter =
     (case s of
        [] \<Rightarrow> ([], iter)
      | c # _ \<Rightarrow>
          (let name = take (char_len c) s; rest = drop (char_len c) s in
           if takes_value name
           then if rest = []
                then (case iter of
                        v # more_args \<Rightarrow> ([(name, Some v)], more_args)
                      | [] \<Rightarrow> ([(name, None)], []))
                else ([(name, Some (trim_start_while (\<lambda>x. x = CHR ''='') rest))], iter)
           else case strip_prefix ''='' rest of
             Some v \<Rightarrow> ([(name, Some v)], iter)
           | None \<Rightarrow>
               (let (opts, iter') = short_cluster rest iter in ((name, None) # opts, iter'))))"
  by pat_completeness auto
termination
  by (relation "measure (\<lambda>(s, _). length s)") auto

declare short_cluster.simps [simp del]

lemma short_cluster_iter: "length (snd (short_cluster s iter)) \<le> length iter"
proof (induction s iter rule: short_cluster.induct)
  case (1 s iter)
  show ?case
  proof (cases s)
    case (Cons c cs)
    then show ?thesis
      using "1.IH" [OF Cons refl refl]
      by (subst short_cluster.simps) (auto simp: Let_def split: list.splits option.splits prod.splits)
  qed (simp add: short_cluster.simps)
qed

function parse_gh :: "string list \<Rightarrow> Parsed \<Rightarrow> Parsed" where
  "parse_gh [] p = p"
| "parse_gh (arg # iter) p =
     (if arg = ''--'' then p\<lparr>operands := operands p @ iter\<rparr>
      else if starts_with arg ''--''
      then let long = drop 2 arg;
               (name, val) = (case split_once (CHR ''='') long of
                                  Some (n, v) \<Rightarrow> (n, Some v) | None \<Rightarrow> (long, None))
           in if val = None \<and> takes_value name
              then (case iter of
                      v # iter' \<Rightarrow> parse_gh iter' (p\<lparr>gh_options := gh_options p @ [(name, Some v)]\<rparr>)
                    | [] \<Rightarrow> p\<lparr>gh_options := gh_options p @ [(name, None)]\<rparr>)
              else parse_gh iter (p\<lparr>gh_options := gh_options p @ [(name, val)]\<rparr>)
      else if starts_with arg ''-'' \<and> length arg > 1
      then let r = short_cluster (drop 1 arg) iter
           in parse_gh (snd r) (p\<lparr>gh_options := gh_options p @ fst r\<rparr>)
      else parse_gh iter (p\<lparr>operands := operands p @ [arg]\<rparr>))"
  by pat_completeness auto
termination
  by (relation "measure (\<lambda>(args, _). length args)")
    (auto simp: less_Suc_eq_le short_cluster_iter)

definition Parsed_new :: "string list \<Rightarrow> Parsed" where
  "Parsed_new args = parse_gh args \<lparr>operands = [], gh_options = []\<rparr>"

section \<open>Endpoints\<close>

definition hex_value :: "char \<Rightarrow> nat option" where
  "hex_value c =
     (if is_ascii_digit c then Some (of_char c - 48)
      else if char_in 97 102 c then Some (of_char c - 87)
      else if char_in 65 70 c then Some (of_char c - 55)
      else None)"

fun percent_decode :: "string \<Rightarrow> string" where
  "percent_decode (c # a # b # rest) =
     (if c = CHR ''%''
      then (case (hex_value a, hex_value b) of
              (Some x, Some y) \<Rightarrow> char_of (x * 16 + y) # percent_decode rest
            | _ \<Rightarrow> c # percent_decode (a # b # rest))
      else c # percent_decode (a # b # rest))"
| "percent_decode (c # rest) = c # percent_decode rest"
| "percent_decode [] = []"

text \<open>
  \<open>from_utf8_lossy\<close> replaces only bytes that are not part of well-formed UTF-8, never an ASCII byte; the
  comparisons below are with ASCII words, so the model keeps the bytes.
\<close>

definition decode_path :: "string \<Rightarrow> string" where
  "decode_path path = to_ascii_lowercase (percent_decode path)"

definition api_segments :: "string \<Rightarrow> string list" where
  "api_segments endpoint =
     (let path = takeWhile (\<lambda>c. c \<noteq> CHR ''?'' \<and> c \<noteq> CHR ''#'') endpoint;
          local_path = (case split_once_str ''://'' path of
                          None \<Rightarrow> path
                        | Some (_, url) \<Rightarrow>
                            (case split_once (CHR ''/'') url of Some (_, p) \<Rightarrow> p | None \<Rightarrow> []))
      in filter (\<lambda>p. p \<noteq> []) (split_on (CHR ''/'') (decode_path local_path)))"

definition reserved_tail :: "string list \<Rightarrow> bool" where
  "reserved_tail tail =
     (case tail of
        x # rest \<Rightarrow>
          x = ''merges''
          \<or> (x = ''pulls'' \<and> (case rest of _ # verb # _ \<Rightarrow> verb = ''merge'' \<or> verb = ''reviews'' | _ \<Rightarrow> False))
      | [] \<Rightarrow> False)"

definition reserved_endpoint :: "string list \<Rightarrow> bool" where
  "reserved_endpoint segments \<longleftrightarrow>
     list_ex (\<lambda>i. segments ! i = ''repos'' \<and> reserved_tail (drop (i + 3) segments)) [0..<length segments]"

section \<open>GraphQL\<close>

fun skip_block :: "string \<Rightarrow> string" where
  "skip_block [] = []"
| "skip_block (c # cs) =
     (if starts_with (c # cs) [CHR 0x5C, CHR 0x22, CHR 0x22, CHR 0x22] then skip_block (drop 3 cs)
      else if starts_with (c # cs) [CHR 0x22, CHR 0x22, CHR 0x22] then drop 2 cs
      else skip_block cs)"

fun skip_string :: "string \<Rightarrow> string" where
  "skip_string [] = []"
| "skip_string (c # cs) =
     (if c = CHR 0x5C then skip_string (drop 1 cs)
      else if c = CHR 0x22 then cs
      else skip_string cs)"

lemma skip_block_length: "length (skip_block s) \<le> length s"
  by (induction s rule: skip_block.induct) auto

lemma skip_string_length: "length (skip_string s) \<le> length s"
  by (induction s rule: skip_string.induct) auto

definition name_start :: "char \<Rightarrow> bool" where
  "name_start c \<longleftrightarrow> c = CHR ''_'' \<or> is_ascii_alphabetic c"

definition name_char :: "char \<Rightarrow> bool" where
  "name_char c \<longleftrightarrow> c = CHR ''_'' \<or> is_ascii_alphanumeric c"

definition GUARDED :: "string list" where
  "GUARDED = [''mergePullRequest'', ''enablePullRequestAutoMerge'', ''enqueuePullRequest'', ''mergeBranch'',
     ''addPullRequestReview'', ''submitPullRequestReview'']"

function guarded_graphql :: "string \<Rightarrow> bool" where
  "guarded_graphql [] = False"
| "guarded_graphql (c # cs) =
     (if c = CHR ''#''
      then guarded_graphql (dropWhile (\<lambda>x. x \<noteq> CHR 0x0D \<and> x \<noteq> CHR 0x0A) cs)
      else if starts_with (c # cs) [CHR 0x22, CHR 0x22, CHR 0x22] then guarded_graphql (skip_block (drop 2 cs))
      else if c = CHR 0x22 then guarded_graphql (skip_string cs)
      else if name_start c
      then c # takeWhile name_char cs \<in> set GUARDED \<or> guarded_graphql (dropWhile name_char cs)
      else guarded_graphql cs)"
  by pat_completeness auto
termination
proof (relation "measure length", goal_cases)
  case (3 c cs)
  then show ?case using skip_block_length [of "drop 2 cs"] by simp
next
  case (4 c cs)
  then show ?case using skip_string_length [of cs] by simp
qed (simp_all add: length_dropWhile_le less_Suc_eq_le)

section \<open>The verdict\<close>

text \<open>One option of a GraphQL call: a refusal, or nothing.\<close>

definition graphql_option :: "string \<times> string option \<Rightarrow> Refusal option" where
  "graphql_option o' =
     (let (name, val) = o' in
      if name = ''input'' then Some ''gh_graphql_body''
      else if name \<notin> set [''f'', ''F'', ''field'', ''raw-field''] then None
      else case Option.bind val (strip_prefix ''query='') of
        None \<Rightarrow> None
      | Some query \<Rightarrow>
          if name \<noteq> ''f'' \<and> name \<noteq> ''raw-field'' \<and> starts_with query ''@'' then Some ''gh_graphql_body''
          else if guarded_graphql query then Some ''gh_api_merge_review'' else None)"

definition check_api :: "Parsed \<Rightarrow> string \<Rightarrow> Refusal + unit" where
  "check_api p endpoint =
     (let segments = api_segments endpoint in
      if reserved_endpoint segments then Inl ''gh_api_merge_review''
      else if segments = [] \<or> last segments \<noteq> ''graphql'' then Inr ()
      else case find_map graphql_option (gh_options p) of Some r \<Rightarrow> Inl r | None \<Rightarrow> Inr ())"

definition approves :: "Parsed \<Rightarrow> bool" where
  "approves p =
     (case List.find (\<lambda>(name, _). name = ''a'' \<or> name = ''approve'') (rev (gh_options p)) of
        None \<Rightarrow> False
      | Some (_, val) \<Rightarrow>
          val \<notin> {Some ''0'', Some ''f'', Some ''F'', Some ''false'', Some ''False'', Some ''FALSE''})"

definition gh_check :: "Parsed \<Rightarrow> Refusal + unit" where
  "gh_check p =
     (case operands p of
        x # y # _ \<Rightarrow>
          if x = ''pr'' \<and> y = ''merge'' then Inl ''gh_merge''
          else if x = ''pr'' \<and> y = ''review'' \<and> approves p then Inl ''gh_approve''
          else if x = ''auth'' \<and> y = ''token'' then Inl ''gh_token''
          else if x = ''api'' then check_api p y
          else Inr ()
      | _ \<Rightarrow> Inr ())"

section \<open>Properties\<close>

text \<open>\<open>encodes s e\<close>: \<open>e\<close> is a percent-encoding of the bytes \<open>s\<close>, any of them escaped or not.\<close>

inductive encodes :: "string \<Rightarrow> string \<Rightarrow> bool" where
  encodes_nil: "encodes [] []"
| encodes_plain: "encodes s e \<Longrightarrow> c \<noteq> CHR ''%'' \<Longrightarrow> encodes (c # s) (c # e)"
| encodes_hex: "encodes s e \<Longrightarrow> hex_value a = Some x \<Longrightarrow> hex_value b = Some y \<Longrightarrow>
    encodes (char_of (x * 16 + y) # s) (CHR ''%'' # a # b # e)"

lemma percent_decode_plain: "c \<noteq> CHR ''%'' \<Longrightarrow> percent_decode (c # s) = c # percent_decode s"
  by (cases s; cases "tl s") auto

lemma percent_decode_encodes: "encodes s e \<Longrightarrow> percent_decode e = s"
  by (induction rule: encodes.induct) (simp_all add: percent_decode_plain)

lemma reserved_endpointI:
  assumes "segments = front @ ''repos'' # owner # repo # ''pulls'' # n # verb # back"
    and "verb = ''merge'' \<or> verb = ''reviews''"
  shows "reserved_endpoint segments"
proof -
  let ?i = "length front"
  have "segments ! ?i = ''repos''" "?i < length segments"
    "drop (?i + 3) segments = ''pulls'' # n # verb # back"
    using assms(1) by (simp_all add: numeral_3_eq_3)
  moreover have "reserved_tail (''pulls'' # n # verb # back)" using assms(2) by (auto simp: reserved_tail_def)
  ultimately show ?thesis by (auto simp: reserved_endpoint_def list_ex_iff intro!: bexI [of _ ?i])
qed


lemma guarded_skip_names:
  assumes "list_all name_char w" and "post = [] \<or> \<not> name_char (hd post)"
  shows "takeWhile name_char (w @ post) = w" "dropWhile name_char (w @ post) = post"
  using assms by (induction w) (auto simp: takeWhile_eq_Nil_iff dropWhile_eq_self_iff)

lemma guarded_are_names: "list_all (\<lambda>w. w \<noteq> [] \<and> name_start (hd w) \<and> list_all name_char w) GUARDED"
  by code_simp

lemma guarded_names:
  assumes "w \<in> set GUARDED"
  obtains c cs where "w = c # cs" "name_start c" "list_all name_char cs"
proof -
  have "w \<noteq> [] \<and> name_start (hd w) \<and> list_all name_char w"
    using guarded_are_names assms by (rule list_all_iff [THEN iffD1, THEN bspec])
  then have "w = hd w # tl w" "name_start (hd w)" "list_all name_char (tl w)"
    by (cases w; simp)+
  then show thesis by (rule that)
qed

lemma name_start_not_quote: "name_start c \<Longrightarrow> c \<noteq> CHR ''#'' \<and> c \<noteq> CHR 0x22"
proof -
  have "\<not> name_start (CHR ''#'')" "\<not> name_start (CHR 0x22)" by code_simp+
  then show "name_start c \<Longrightarrow> ?thesis" by auto
qed

lemma last_dropWhile: "dropWhile P xs \<noteq> [] \<Longrightarrow> last (dropWhile P xs) = last xs"
  by (induction xs) auto

text \<open>An alias or layout does not hide a guarded mutation. In a query without string literals and
  comments before it, every guarded mutation name that stands as a whole name is found.\<close>

theorem graphql_finds_mutations:
  assumes "w \<in> set GUARDED" and "CHR ''#'' \<notin> set pre" and "CHR 0x22 \<notin> set pre"
    and "pre = [] \<or> \<not> name_char (last pre)" and "post = [] \<or> \<not> name_char (hd post)"
  shows "guarded_graphql (pre @ w @ post)"
  using assms(2-4)
proof (induction "length pre" arbitrary: pre rule: less_induct)
  case less
  obtain c cs where w: "w = c # cs" "name_start c" "list_all name_char cs"
    by (rule guarded_names [OF assms(1)])
  show ?case
  proof (cases pre)
    case Nil
    show ?thesis using name_start_not_quote [OF w(2)]
        Nil w guarded_skip_names(1) [OF w(3) assms(5)] assms(1)
      by (simp add: starts_with_def)
  next
    case (Cons x xs)
    have x: "x \<noteq> CHR ''#''" "x \<noteq> CHR 0x22" using less.prems Cons by auto
    show ?thesis
    proof (cases "name_start x")
      case True
      then have "name_char x" by (auto simp: name_start_def name_char_def is_ascii_alphanumeric_def)
      then have "\<exists>y \<in> set xs. \<not> name_char y" using less.prems Cons by (cases xs rule: rev_cases) auto
      then have d: "dropWhile name_char (xs @ w @ post) = dropWhile name_char xs @ w @ post"
        by (auto simp: dropWhile_append1)
      have "guarded_graphql (dropWhile name_char xs @ w @ post)"
      proof (rule less.hyps)
        show "length (dropWhile name_char xs) < length pre" using Cons length_dropWhile_le [of name_char xs] by simp
        show "CHR ''#'' \<notin> set (dropWhile name_char xs)" "CHR 0x22 \<notin> set (dropWhile name_char xs)"
          using less.prems Cons by (auto dest: set_dropWhileD)
        show "dropWhile name_char xs = [] \<or> \<not> name_char (last (dropWhile name_char xs))"
        proof (rule disjCI)
          assume "\<not> \<not> name_char (last (dropWhile name_char xs))"
          moreover have "xs \<noteq> []" using \<open>\<exists>y \<in> set xs. \<not> name_char y\<close> by auto
          then have "\<not> name_char (last xs)" using less.prems(3) Cons by simp
          ultimately show "dropWhile name_char xs = []" using last_dropWhile [of name_char xs] by metis
        qed
      qed
      then show ?thesis using Cons x True d by (simp add: starts_with_def)
    next
      case False
      have "guarded_graphql (xs @ w @ post)"
      proof (rule less.hyps)
        show "xs = [] \<or> \<not> name_char (last xs)" using less.prems(3) Cons by (cases "xs = []") simp_all
      qed (use less.prems(1,2) Cons in simp_all)
      then show ?thesis using Cons x False by (simp add: starts_with_def)
    qed
  qed
qed

theorem graphql_finds_mutations_witness:
  "guarded_graphql (''mutation{a:'' @ ''mergeBranch'' @ ''(input:{})}'')"
  by (rule graphql_finds_mutations) (simp_all add: GUARDED_def name_char_def is_ascii_alphanumeric_def
      is_ascii_alphabetic_def is_ascii_lower_def is_ascii_upper_def is_ascii_digit_def char_in_def)


end
