(* ===== verification/Shim_Kill.thy ===== *)
theory Shim_Kill
  imports Rust_Path Shim_Hooks
begin

text \<open>
  The guard of \<open>kill\<close>, \<open>killall\<close> and \<open>pkill\<close>, \<^verbatim>\<open>crates/agend-shim/src/kill_guard.rs\<close>, with the program
  names the shim answers to (\<^verbatim>\<open>lib.rs\<close>). The names of running processes are a parameter. Refusals
  are their codes, as in \<open>Shim_Hooks\<close>.
\<close>

section \<open>Tools\<close>

datatype Tool = Git | Gh | Kill | Killall | Pkill | Hook string

fun Tool_as_str :: "Tool \<Rightarrow> string" where
  "Tool_as_str Git = ''git''"
| "Tool_as_str Gh = ''gh''"
| "Tool_as_str Kill = ''kill''"
| "Tool_as_str Killall = ''killall''"
| "Tool_as_str Pkill = ''pkill''"
| "Tool_as_str (Hook name) = name"

definition HOOK_NAMES :: "string list" where
  "HOOK_NAMES = [''applypatch-msg'', ''pre-applypatch'', ''post-applypatch'', ''pre-commit'',
     ''pre-merge-commit'', ''prepare-commit-msg'', ''commit-msg'', ''post-commit'', ''pre-rebase'',
     ''post-checkout'', ''post-merge'', ''pre-push'', ''pre-auto-gc'', ''post-rewrite'',
     ''sendemail-validate'', ''post-index-change'', ''reference-transaction'']"

definition from_argv0 :: "string \<Rightarrow> Tool option" where
  "from_argv0 argv0 =
     (case file_name (components argv0) of
        None \<Rightarrow> None
      | Some name \<Rightarrow>
          if name = ''git'' then Some Git
          else if name = ''gh'' then Some Gh
          else if name = ''kill'' then Some Kill
          else if name = ''killall'' then Some Killall
          else if name = ''pkill'' then Some Pkill
          else map_option Hook (List.find (\<lambda>n. n = name) HOOK_NAMES))"

section \<open>Targets of kill\<close>

definition PROTECTED_EXE :: string where
  "PROTECTED_EXE = ''agend''"

definition is_protected_name :: "string \<Rightarrow> bool" where
  "is_protected_name name \<longleftrightarrow> file_name (components (trim name)) = Some PROTECTED_EXE"

definition KILL_INFO :: "string list" where
  "KILL_INFO = [''-l'', ''-L'', ''--list'', ''--table'', ''--help'', ''--version'']"

text \<open>The number of leading arguments that make up the signal spec, or a refusal.\<close>

definition signal_args :: "string \<Rightarrow> Refusal + nat" where
  "signal_args a =
     (if a \<in> {''-s'', ''-n'', ''--signal''} then Inr 2
      else if starts_with a ''--signal='' then Inr 1
      else if a = ''--'' then Inr 0
      else if starts_with a ''--'' then Inl ''kill_target''
      else if length a > 1 \<and> starts_with a ''-'' \<and> list_all is_ascii_alphanumeric (tl a) then Inr 1
      else Inr 0)"

definition kill_operands :: "string list \<Rightarrow> Refusal + string list" where
  "kill_operands args =
     (case args of
        [] \<Rightarrow> Inr []
      | a # _ \<Rightarrow>
          if a \<in> set KILL_INFO then Inr []
          else and_then (signal_args a) (\<lambda>skip.
            let rest0 = drop skip args;
                rest = (case rest0 of x # xs \<Rightarrow> if x = ''--'' then xs else rest0 | [] \<Rightarrow> [])
            in if rest = [] \<and> skip = 1 \<and> list_all is_ascii_digit (tl a) then Inl ''group_kill''
               else Inr rest))"

definition MAX_PID_DIGITS :: nat where
  "MAX_PID_DIGITS = 10"

definition unsigned_part :: "string \<Rightarrow> string" where
  "unsigned_part t =
     (case t of c # cs \<Rightarrow> if c = CHR ''+'' \<or> c = CHR ''-'' then cs else t | [] \<Rightarrow> [])"

definition kill_target :: "string \<Rightarrow> Refusal + u32" where
  "kill_target op =
     (let t = trim_while is_ascii_whitespace op; digits = unsigned_part t in
      if digits = [] \<or> \<not> list_all is_ascii_digit digits then Inl ''kill_target''
      else if length digits > MAX_PID_DIGITS then Inl ''kill_target''
      else case parse_i64 t of
        None \<Rightarrow> Inl ''kill_target''
      | Some n \<Rightarrow>
          if n \<le> 0 then Inl ''group_kill''
          else if n > 2 ^ 31 - 1 then Inl ''kill_target''
          else if n < 2 ^ 32 then Inr (word_of_int n) else Inl ''kill_target'')"

section \<open>The policy\<close>

definition PATTERN_INFO :: "string list" where
  "PATTERN_INFO = [''--help'', ''-h'', ''--version'', ''-V'', ''-l'', ''--list'', ''-L'']"

primrec check_targets :: "(u32 \<Rightarrow> string option) \<Rightarrow> string list \<Rightarrow> Refusal + unit" where
  "check_targets name_of [] = Inr ()"
| "check_targets name_of (op # ops) =
     and_then (kill_target op) (\<lambda>pid.
       if (case name_of pid of Some name \<Rightarrow> is_protected_name name | None \<Rightarrow> False)
       then Inl ''kill_protected'' else check_targets name_of ops)"

definition classify_kill :: "Tool \<Rightarrow> string list \<Rightarrow> (u32 \<Rightarrow> string option) \<Rightarrow> Refusal + unit" where
  "classify_kill tool args name_of =
     (case tool of
        Pkill \<Rightarrow> if list_all (\<lambda>a. a \<in> set PATTERN_INFO) args then Inr () else Inl ''pattern_kill''
      | Killall \<Rightarrow> if list_all (\<lambda>a. a \<in> set PATTERN_INFO) args then Inr () else Inl ''pattern_kill''
      | Kill \<Rightarrow> and_then (kill_operands args) (check_targets name_of)
      | _ \<Rightarrow> Inr ())"

section \<open>Properties\<close>

lemma kill_target_Inr:
  assumes "kill_target op = Inr pid"
  shows "\<exists>n. parse_i64 (trim_while is_ascii_whitespace op) = Some n \<and> 1 \<le> n \<and> n \<le> 2 ^ 31 - 1
    \<and> uint pid = n \<and> length (unsigned_part (trim_while is_ascii_whitespace op)) \<le> 10"
proof -
  from assms obtain n where n: "parse_i64 (trim_while is_ascii_whitespace op) = Some n"
    "\<not> n \<le> 0" "\<not> n > 2 ^ 31 - 1" "pid = word_of_int n"
    "\<not> length (unsigned_part (trim_while is_ascii_whitespace op)) > MAX_PID_DIGITS"
    by (auto simp: kill_target_def Let_def split: if_splits option.splits)
  then have "uint pid = n" by (simp add: uint_word_of_int take_bit_int_eq_self)
  with n show ?thesis by (auto simp: MAX_PID_DIGITS_def)
qed

lemma check_targets_iff:
  "check_targets name_of ops = Inr () \<longleftrightarrow>
     (\<forall>op \<in> set ops. \<exists>pid. kill_target op = Inr pid
        \<and> (\<forall>name. name_of pid = Some name \<longrightarrow> \<not> is_protected_name name))"
  by (induction ops) (auto simp: result_split split: option.splits)



end
