(* ===== verification/Shim_Team.thy ===== *)
theory Shim_Team
  imports Rust_Path
begin

text \<open>
  Which repositories and push destinations are the team's: \<^verbatim>\<open>crates/agend-shim/src/team.rs\<close>. Remote
  URLs are rewritten by the \<open>insteadOf\<close> rules and reduced to a key; a local path is reduced to the git
  common directory that git's own search would find. Reading files is a function of the file system.
\<close>

section \<open>Remotes\<close>

datatype Key = Local path | Remote string

record TeamFs = Fs +
  fs_read :: "path \<Rightarrow> string option"

record Remotes =
  rm_urls :: "(string \<times> string) list"
  rm_rewrites :: "(string \<times> string) list"

definition rsplit_once :: "'a \<Rightarrow> 'a list \<Rightarrow> ('a list \<times> 'a list) option" where
  "rsplit_once c s = map_option (\<lambda>(a, b). (rev b, rev a)) (split_once c (rev s))"

definition add_entry :: "Remotes \<Rightarrow> string \<times> string \<Rightarrow> Remotes" where
  "add_entry r entry =
     (let (k, v) = entry; lower = to_ascii_lowercase k in
      case (if ends_with lower ''.url'' \<or> ends_with lower ''.pushurl''
            then Option.bind (strip_prefix ''remote.'' k) (rsplit_once (CHR ''.'')) else None) of
        Some (name, _) \<Rightarrow> r\<lparr>rm_urls := rm_urls r @ [(name, v)]\<rparr>
      | None \<Rightarrow>
          (case Option.bind (strip_prefix ''url.'' k) (rsplit_once (CHR ''.'')) of
             Some (base, _) \<Rightarrow> r\<lparr>rm_rewrites := rm_rewrites r @ [(v, base)]\<rparr>
           | None \<Rightarrow> r))"

definition from_config :: "(string \<times> string) list \<Rightarrow> Remotes" where
  "from_config entries = foldl add_entry \<lparr>rm_urls = [], rm_rewrites = []\<rparr> entries"

text \<open>\<open>max_by_key\<close> takes the last of several greatest elements.\<close>

fun max_by_key :: "('a \<Rightarrow> nat) \<Rightarrow> 'a list \<Rightarrow> 'a option" where
  "max_by_key f [] = None"
| "max_by_key f (x # xs) =
     (case max_by_key f xs of Some y \<Rightarrow> Some (if f x \<le> f y then y else x) | None \<Rightarrow> Some x)"

definition rewrite_url :: "Remotes \<Rightarrow> string \<Rightarrow> string" where
  "rewrite_url r url =
     (case max_by_key (\<lambda>(pre, _). length pre) (filter (\<lambda>(pre, _). starts_with url pre) (rm_rewrites r)) of
        Some (pre, base) \<Rightarrow> base @ drop (length pre) url
      | None \<Rightarrow> url)"

section \<open>Keys\<close>

definition remote_key :: "string \<Rightarrow> string \<Rightarrow> Key" where
  "remote_key host pth =
     (let slash = (\<lambda>c. c = CHR ''/'');
          p1 = trim_while slash pth;
          p2 = trim_end_while slash (case strip_suffix p1 ''.git'' of Some q \<Rightarrow> q | None \<Rightarrow> p1);
          p3 = (case strip_prefix ''~/'' p2 of Some q \<Rightarrow> q | None \<Rightarrow> p2)
      in Remote (to_ascii_lowercase host @ ''/'' @ p3))"

text \<open>\<open>dotgit.push(".git")\<close> extends the text of the path, that is, its last component.\<close>

definition with_git_suffix :: "path \<Rightarrow> path" where
  "with_git_suffix p =
     (case rev p of
        [] \<Rightarrow> [Normal ''.git'']
      | Normal n # rest \<Rightarrow> rev rest @ [Normal (n @ ''.git'')]
      | ParentDir # rest \<Rightarrow> rev rest @ [Normal ''...git'']
      | CurDir # rest \<Rightarrow> rev rest @ [Normal ''..git'']
      | RootDir # _ \<Rightarrow> p @ [Normal ''.git''])"

definition is_git_dir :: "TeamFs \<Rightarrow> path \<Rightarrow> bool" where
  "is_git_dir fs d \<longleftrightarrow>
     fs_is_file fs (join_path d [Normal ''HEAD''])
     \<and> (fs_is_dir fs (join_path d [Normal ''objects'']) \<or> fs_is_file fs (join_path d [Normal ''commondir'']))"

definition dot_git_target :: "TeamFs \<Rightarrow> path \<Rightarrow> path option" where
  "dot_git_target fs p =
     (let dot_git = join_path p [Normal ''.git''] in
      if fs_is_dir fs dot_git then Some dot_git
      else Option.bind (fs_read fs dot_git) (\<lambda>text.
           map_option (\<lambda>t. join_path p (components (trim t))) (strip_prefix ''gitdir:'' (trim text))))"

definition repo_key :: "TeamFs \<Rightarrow> path \<Rightarrow> Key option" where
  "repo_key fs p0 =
     Option.bind (fs_canonicalize fs p0) (\<lambda>p.
     Option.bind (case dot_git_target fs p of Some g \<Rightarrow> Some g | None \<Rightarrow> if is_git_dir fs p then Some p else None)
       (\<lambda>g. Option.bind (fs_canonicalize fs g) (\<lambda>gitdir.
        Some (Local
          (case Option.bind (fs_read fs (join_path gitdir [Normal ''commondir'']))
                  (\<lambda>c. fs_canonicalize fs (join_path gitdir (components (trim c)))) of
             Some common \<Rightarrow> common | None \<Rightarrow> gitdir)))))"

definition local_key :: "TeamFs \<Rightarrow> path \<Rightarrow> Key option" where
  "local_key fs p =
     (case find_map (repo_key fs) [p, with_git_suffix p] of
        Some k \<Rightarrow> Some k
      | None \<Rightarrow> map_option Local (fs_canonicalize fs p))"

definition key :: "TeamFs \<Rightarrow> string \<Rightarrow> path \<Rightarrow> Key option" where
  "key fs url0 base =
     (let url = trim url0 in
      if url = [] then None
      else case split_once_str ''://'' url of
        Some (scheme, rest) \<Rightarrow>
          if eq_ignore_ascii_case scheme ''file''
          then local_key fs (join_path base (components
                 (case position (\<lambda>c. c = CHR ''/'') rest of Some i \<Rightarrow> drop i rest | None \<Rightarrow> rest)))
          else let (authority, pth) = (case split_once (CHR ''/'') rest of Some x \<Rightarrow> x | None \<Rightarrow> (rest, []));
                   host = split_first (CHR '':'') (rsplit_first (CHR ''@'') authority)
               in Some (remote_key host pth)
      | None \<Rightarrow>
          (let slash = position (\<lambda>c. c = CHR ''/'') url in
           case position (\<lambda>c. c = CHR '':'') url of
             Some c \<Rightarrow>
               if (case slash of Some s \<Rightarrow> c < s | None \<Rightarrow> True) \<and> c > 1
               then Some (remote_key (rsplit_first (CHR ''@'') (take c url)) (drop (c + 1) url))
               else local_key fs (join_path base (components url))
           | None \<Rightarrow> local_key fs (join_path base (components url))))"

definition keys :: "TeamFs \<Rightarrow> Remotes \<Rightarrow> path \<Rightarrow> Key list" where
  "keys fs r base = List.map_filter (\<lambda>(_, u). key fs (rewrite_url r u) base) (rm_urls r)"

definition dest_keys :: "TeamFs \<Rightarrow> Remotes \<Rightarrow> string \<Rightarrow> path \<Rightarrow> Key list" where
  "dest_keys fs r dest base =
     (let named = List.map_filter (\<lambda>(_, u). key fs (rewrite_url r u) base) (filter (\<lambda>(n, _). n = dest) (rm_urls r))
      in if named \<noteq> [] then named
         else case key fs (rewrite_url r dest) base of Some k \<Rightarrow> [k] | None \<Rightarrow> [])"

definition team_keys :: "TeamFs \<Rightarrow> path \<Rightarrow> Remotes \<Rightarrow> Key list" where
  "team_keys fs source_repo r =
     keys fs r source_repo @ (case local_key fs source_repo of Some k \<Rightarrow> [k] | None \<Rightarrow> [])"

section \<open>Spellings of a remote\<close>

definition host_ok :: "string \<Rightarrow> bool" where
  "host_ok h \<longleftrightarrow> h \<noteq> [] \<and> CHR ''/'' \<notin> set h \<and> CHR '':'' \<notin> set h \<and> CHR ''@'' \<notin> set h"

definition repo_path_ok :: "string \<Rightarrow> bool" where
  "repo_path_ok p \<longleftrightarrow>
     p \<noteq> [] \<and> hd p \<noteq> CHR ''/'' \<and> last p \<noteq> CHR ''/'' \<and> printable (last p) \<and> CHR '':'' \<notin> set p
     \<and> \<not> ends_with p ''.git'' \<and> \<not> starts_with p ''~/''"

definition SUFFIXES :: "string list" where
  "SUFFIXES = [[], ''/'', ''.git'', ''.git/'']"

lemma trim_slashes:
  "p \<noteq> [] \<Longrightarrow> last p \<noteq> CHR ''/'' \<Longrightarrow> trim_end_while (\<lambda>c. c = CHR ''/'') p = p"
  "p \<noteq> [] \<Longrightarrow> last p \<noteq> CHR ''/'' \<Longrightarrow> trim_end_while (\<lambda>c. c = CHR ''/'') (p @ ''/'') = p"
  by (cases p rule: rev_cases; simp add: trim_end_while_def)+

lemma remote_key_spelling:
  assumes "repo_path_ok p" and "x \<in> set SUFFIXES"
  shows "remote_key h (p @ x) = Remote (to_ascii_lowercase h @ ''/'' @ p)"
proof -
  let ?slash = "\<lambda>c. c = CHR ''/''"
  have p: "p \<noteq> []" "hd p \<noteq> CHR ''/''" "last p \<noteq> CHR ''/''" "\<not> ends_with p ''.git''" "strip_prefix ''~/'' p = None"
    using assms(1) by (auto simp: repo_path_ok_def strip_prefix_def starts_with_def)
  have start: "trim_start_while ?slash (p @ y) = p @ y" for y
    using p(1,2) by (cases p) (simp_all add: trim_start_while_def)
  have strip: "trim_while ?slash (p @ x) = (if x \<in> {''.git'', ''.git/''} then p @ ''.git'' else p)"
    using assms(2) trim_slashes [OF p(1,3)] trim_slashes [of "p @ ''.git''"] start
    by (auto simp: SUFFIXES_def trim_while_def)
  have "(case strip_suffix (trim_while ?slash (p @ x)) ''.git'' of Some q \<Rightarrow> q | None \<Rightarrow> trim_while ?slash (p @ x)) = p"
    unfolding strip using p(4) by (auto simp: strip_suffix_def ends_with_iff)
  then show ?thesis
    unfolding remote_key_def Let_def using trim_slashes(1) [OF p(1,3)] p(5) by simp
qed

definition user_ok :: "string \<Rightarrow> bool" where
  "user_ok u \<longleftrightarrow> u \<noteq> [] \<and> printable (hd u) \<and> CHR ''/'' \<notin> set u \<and> CHR '':'' \<notin> set u"

lemma last_spelling:
  assumes "repo_path_ok p" and "x \<in> set SUFFIXES"
  shows "printable (last (p @ x))"
proof -
  have "printable (CHR ''/'')" "printable (CHR ''t'')" by code_simp+
  then show ?thesis using assms by (auto simp: SUFFIXES_def repo_path_ok_def)
qed

text \<open>The URL form, with an optional user and port.\<close>

lemma key_url:
  assumes "user_ok scheme" and "\<not> eq_ignore_ascii_case scheme ''file''" and "host_ok h"
    and "user = [] \<or> (\<exists>u. user = u @ ''@'' \<and> CHR ''/'' \<notin> set u)"
    and "port = [] \<or> (\<exists>d. port = '':'' @ d \<and> CHR ''/'' \<notin> set d \<and> CHR ''@'' \<notin> set d)"
    and "repo_path_ok p" and "x \<in> set SUFFIXES"
  shows "key fs (scheme @ ''://'' @ user @ h @ port @ ''/'' @ p @ x) base = Some (Remote (to_ascii_lowercase h @ ''/'' @ p))"
proof -
  let ?auth = "user @ h @ port"
  let ?url = "scheme @ ''://'' @ ?auth @ ''/'' @ p @ x"
  have h: "CHR ''/'' \<notin> set h" "CHR '':'' \<notin> set h" "CHR ''@'' \<notin> set h" using assms(3) by (auto simp: host_ok_def)
  have ne: "?url \<noteq> []" by simp
  moreover have "printable (hd ?url)" "printable (last ?url)"
    using assms(1,6) last_spelling [OF assms(6,7)] by (auto simp: user_ok_def repo_path_ok_def)
  ultimately have trim: "trim ?url = ?url" by (intro trim_printable)
  have scheme: "split_once_str ''://'' ?url = Some (scheme, ?auth @ ''/'' @ p @ x)"
    using assms(1) split_once_str_first [of "CHR '':''" scheme "''//''"] by (simp add: user_ok_def)
  have "CHR ''/'' \<notin> set ?auth" using assms(4,5) h by auto
  from split_once_append [OF this, of "p @ x"]
  have path: "split_once (CHR ''/'') (?auth @ ''/'' @ p @ x) = Some (?auth, p @ x)" by simp
  have "rsplit_first (CHR ''@'') ?auth = h @ port"
  proof -
    have "CHR ''@'' \<notin> set (h @ port)" using h assms(5) by auto
    then show ?thesis
      using assms(4) rsplit_first_none [of "CHR ''@''" "h @ port"] rsplit_first_append [of "CHR ''@''" "h @ port"] by auto
  qed
  then have host: "split_first (CHR '':'') (rsplit_first (CHR ''@'') ?auth) = h"
    using assms(5) h split_first_none [of "CHR '':''" h] split_first_append [of "CHR '':''" h] by auto
  have "key fs ?url base = Some (remote_key h (p @ x))"
    unfolding key_def Let_def trim if_not_P [OF ne] scheme option.case prod.case if_not_P [OF assms(2)]
      path host ..
  then show ?thesis using remote_key_spelling [OF assms(6,7)] by simp
qed

text \<open>The \<open>scp\<close> form.\<close>

lemma key_scp:
  assumes "user_ok u" and "host_ok h" and "repo_path_ok p" and "x \<in> set SUFFIXES"
  shows "key fs (u @ ''@'' @ h @ '':'' @ p @ x) base = Some (Remote (to_ascii_lowercase h @ ''/'' @ p))"
proof -
  let ?front = "u @ ''@'' @ h"
  let ?url = "?front @ '':'' @ p @ x"
  have front: "CHR ''/'' \<notin> set ?front" "CHR '':'' \<notin> set ?front" "1 < length ?front"
    using assms(1,2) by (auto simp: user_ok_def host_ok_def)
  have no: "CHR '':'' \<notin> set (p @ x)" using assms(3,4) by (auto simp: repo_path_ok_def SUFFIXES_def)
  have "\<not> str_contains ?url ''://''"
  proof
    assume "str_contains ?url ''://''"
    then obtain a b where "?front @ CHR '':'' # (p @ x) = a @ CHR '':'' # (''//'' @ b)"
      by (auto simp: str_contains_iff)
    then have "p @ x = ''//'' @ b" using append_Cons_eq_iff [OF front(2) no] by blast
    then show False using assms(3) by (cases p) (auto simp: repo_path_ok_def)
  qed
  then have scheme: "split_once_str ''://'' ?url = None" using split_once_str_None by blast
  have "printable (hd ?url)" "printable (last ?url)" "?url \<noteq> []"
    using assms(1,3) last_spelling [OF assms(3,4)] by (auto simp: user_ok_def repo_path_ok_def)
  then have trim: "trim ?url = ?url" by (intro trim_printable)
  have colon: "position (\<lambda>c. c = CHR '':'') ?url = Some (length ?front)"
    using position_sep [OF front(2), of "p @ x"] by simp
  have slash: "case position (\<lambda>c. c = CHR ''/'') ?url of Some s \<Rightarrow> length ?front < s | None \<Rightarrow> True"
  proof (cases "position (\<lambda>c. c = CHR ''/'') ?url")
    case (Some s)
    then have s: "s < length ?url" "?url ! s = CHR ''/''" by (auto simp: position_eq_Some)
    define F where "F = ?front"
    have url: "?url = F @ CHR '':'' # p @ x" by (simp add: F_def)
    then have "F ! s = CHR ''/''" if "s < length F" using s(2) that by (simp add: nth_append)
    then have "\<not> s < length F" using front(1) nth_mem [of s F] by (auto simp: F_def)
    moreover have "s \<noteq> length F"
    proof
      assume "s = length F"
      then have "?url ! s = CHR '':''" unfolding url by simp
      with s(2) show False by simp
    qed
    ultimately show ?thesis using Some by (simp add: F_def)
  qed simp
  have host: "rsplit_first (CHR ''@'') ?front = h"
    using rsplit_first_append [of "CHR ''@''" h u] assms(2) by (simp add: host_ok_def)
  have parts: "take (length ?front) ?url = ?front" "drop (length ?front + 1) ?url = p @ x" by simp_all
  have "key fs ?url base = Some (remote_key h (p @ x))"
    unfolding key_def Let_def trim scheme option.case colon parts host using slash front(3) by simp
  then show ?thesis using remote_key_spelling [OF assms(3,4)] by simp
qed

section \<open>Property\<close>

text \<open>Every usual spelling of a network remote has the same identity. Whatever the scheme (other than
  \<open>file\<close>), user, port, capitals of the host, trailing slash and \<open>.git\<close>, and also in the \<open>user@host:path\<close>
  form, a URL of the repository \<open>path\<close> on \<open>host\<close> is reduced to \<open>host/path\<close>.\<close>

theorem remote_spellings:
  assumes "user_ok u" and "host_ok h" and "repo_path_ok p" and "x \<in> set SUFFIXES"
    and "user_ok scheme" and "\<not> eq_ignore_ascii_case scheme ''file''"
    and "user = [] \<or> user = u @ ''@''"
    and "port = [] \<or> (\<exists>d. port = '':'' @ d \<and> CHR ''/'' \<notin> set d \<and> CHR ''@'' \<notin> set d)"
  shows "key fs (scheme @ ''://'' @ user @ h @ port @ ''/'' @ p @ x) base
      = Some (Remote (to_ascii_lowercase h @ ''/'' @ p))
    \<and> key fs (u @ ''@'' @ h @ '':'' @ p @ x) base = Some (Remote (to_ascii_lowercase h @ ''/'' @ p))"
proof -
  have "user = [] \<or> (\<exists>u. user = u @ ''@'' \<and> CHR ''/'' \<notin> set u)" using assms(1,7) by (auto simp: user_ok_def)
  from key_url [OF assms(5,6,2) this assms(8,3,4)] key_scp [OF assms(1-4)] show ?thesis by simp
qed

theorem remote_spellings_witness:
  "\<forall>fs base. key fs (''ssh'' @ ''://'' @ ''git@'' @ ''GitHub.com'' @ '':22'' @ ''/'' @ ''acme/app'' @ ''.git/'') base
      = Some (Remote (to_ascii_lowercase ''GitHub.com'' @ ''/'' @ ''acme/app''))
    \<and> key fs (''git'' @ ''@'' @ ''GitHub.com'' @ '':'' @ ''acme/app'' @ ''.git/'') base
      = Some (Remote (to_ascii_lowercase ''GitHub.com'' @ ''/'' @ ''acme/app''))"
proof (intro allI, rule remote_spellings)
  show "user_ok ''git''" "host_ok ''GitHub.com''" "repo_path_ok ''acme/app''" "user_ok ''ssh''"
    "\<not> eq_ignore_ascii_case ''ssh'' ''file''" "''.git/'' \<in> set SUFFIXES" by code_simp+
qed simp_all

end
