(* ===== verification/Shim_Plan.thy ===== *)
theory Shim_Plan
  imports Shim_Classify Shim_Gh Shim_Kill Shim_Team
begin

text \<open>
  The whole decision of the shim for one call: \<^verbatim>\<open>git.rs\<close>, \<open>plan\<close> of \<^verbatim>\<open>gh.rs\<close> and \<^verbatim>\<open>kill_guard.rs\<close>, the
  environment of \<^verbatim>\<open>ctx.rs\<close> and the snapshot of \<^verbatim>\<open>snapshot.rs\<close>. What the shim asks the system (files, the
  real git, running processes) is a record of functions. The texts for the agent are left out; the
  audit records keep their event, code and detail. Arguments are UTF-8 texts.
\<close>

section \<open>The environment\<close>

definition MAX_DEPTH :: u32 where
  "MAX_DEPTH = 8"

record Ctx =
  cx_home :: "string option"
  cx_instance :: "string option"
  cx_bypass :: bool
  cx_depth :: u32
  cx_cwd :: "path option"
  cx_path :: "path list"
  cx_self_exe :: "path option"
  cx_git_dir :: "path option"
  cx_git_work_tree :: "path option"
  cx_git_common_dir :: "path option"
  cx_git_index_file :: "path option"
  cx_git_ceiling_dirs :: "path list"
  cx_config_env :: "string list"

type_synonym git_command = "string list \<times> bool"

record World =
  w_fs :: TeamFs
  w_read_file :: "string \<Rightarrow> ReadResult"
  w_from_json :: "string \<Rightarrow> string + Snapshot"
  w_is_executable :: "path \<Rightarrow> bool"
  w_identity :: "path \<Rightarrow> (nat \<times> nat) option"
  w_rev_parse :: "path list \<Rightarrow> string list \<Rightarrow> path list option"
  w_dirs :: "path \<Rightarrow> path list option"
  w_config :: "string \<Rightarrow> path \<Rightarrow> (string \<times> string) list"
  w_git :: "path \<Rightarrow> string list \<Rightarrow> string option"
  w_run :: "path \<Rightarrow> git_command list \<Rightarrow> git_command \<Rightarrow> string + string"
  w_call_id :: string
  w_process_name :: "u32 \<Rightarrow> string option"

definition git_env_names_repo :: "Ctx \<Rightarrow> bool" where
  "git_env_names_repo c \<longleftrightarrow> cx_git_dir c \<noteq> None \<or> cx_git_work_tree c \<noteq> None \<or> cx_git_common_dir c \<noteq> None"

definition git_env_retargets :: "Ctx \<Rightarrow> bool" where
  "git_env_retargets c \<longleftrightarrow> git_env_names_repo c \<or> cx_git_index_file c \<noteq> None"

definition find_real :: "World \<Rightarrow> Ctx \<Rightarrow> string \<Rightarrow> path option" where
  "find_real w c name =
     (let me = Option.bind (cx_self_exe c) (w_identity w) in
      List.find (\<lambda>cand. w_is_executable w cand \<and> (me = None \<or> w_identity w cand \<noteq> me))
        (map (\<lambda>dir. join_path dir [Normal name]) (filter (\<lambda>dir. dir \<noteq> []) (cx_path c))))"

record RealCommand =
  rc_program :: path
  rc_args :: "string list"
  rc_depth :: u32
  rc_cwd :: "path option"

definition real_command :: "Ctx \<Rightarrow> path \<Rightarrow> string list \<Rightarrow> RealCommand" where
  "real_command c real args =
     \<lparr>rc_program = real, rc_args = args, rc_depth = cx_depth c + 1, rc_cwd = cx_cwd c\<rparr>"

section \<open>Outcomes\<close>

datatype Action = Exec RealCommand | RefuseCall Refusal | NotFoundCall

record AuditRecord =
  au_tool :: string
  au_event :: string
  au_code :: "string option"
  au_detail :: "string option"

text \<open>What happens, in order: a line of the audit log or a git command of the shim's own.\<close>

datatype Effect = Audit AuditRecord | ShimGit path git_command

record Outcome =
  o_effects :: "Effect list"
  o_action :: Action

definition audit :: "string \<Rightarrow> string \<Rightarrow> string option \<Rightarrow> string option \<Rightarrow> Effect" where
  "audit tool event code detail =
     Audit \<lparr>au_tool = tool, au_event = event, au_code = code, au_detail = detail\<rparr>"

definition refused :: "string \<Rightarrow> Refusal \<Rightarrow> Effect list \<Rightarrow> Outcome" where
  "refused tool r effects =
     \<lparr>o_effects = effects @ [audit tool ''refuse'' (Some r) None], o_action = RefuseCall r\<rparr>"

section \<open>Snapshots\<close>

record Saved =
  sv_id :: string
  sv_reference :: string
  sv_previous_head :: "string option"

definition REF_PREFIX :: string where
  "REF_PREFIX = ''refs/agend/snapshots/''"

text \<open>
  \<open>run\<close> answers a command after the ones in the history; the flag says that it uses the temporary
  index. The result keeps the history, also of a snapshot that fails half-way.
\<close>

definition run_then ::
    "(git_command list \<Rightarrow> git_command \<Rightarrow> string + string) \<Rightarrow> git_command list \<Rightarrow> git_command
       \<Rightarrow> (git_command list \<Rightarrow> string \<Rightarrow> git_command list \<times> (string + 'a)) \<Rightarrow> git_command list \<times> (string + 'a)" where
  "run_then run hist cmd k =
     (case run hist cmd of Inl e \<Rightarrow> (hist @ [cmd], Inl e) | Inr out \<Rightarrow> k (hist @ [cmd]) out)"

definition take_snapshot ::
    "(git_command list \<Rightarrow> git_command \<Rightarrow> string + string) \<Rightarrow> string \<Rightarrow> string \<Rightarrow> git_command list \<times> (string + Saved)" where
  "take_snapshot run ins ident =
     (let head_cmd = ([''rev-parse'', ''--verify'', ''-q'', ''HEAD''], False);
          previous_head = (case run [] head_cmd of Inr h \<Rightarrow> Some h | Inl _ \<Rightarrow> None);
          reference = REF_PREFIX @ ins @ ''/'' @ ident;
          finish = (\<lambda>hist _.
            run_then run hist ([''add'', ''-A''], True) (\<lambda>hist _.
            run_then run hist ([''write-tree''], True) (\<lambda>hist tree.
            run_then run hist ([''commit-tree'', tree, ''-m'', ''agend snapshot '' @ ident]
                @ (case previous_head of Some h \<Rightarrow> [''-p'', h] | None \<Rightarrow> []), False) (\<lambda>hist commit.
            run_then run hist ([''update-ref'', reference, commit, []], False) (\<lambda>hist _.
              (hist, Inr \<lparr>sv_id = ident, sv_reference = reference, sv_previous_head = previous_head\<rparr>))))))
      in case previous_head of
           Some h \<Rightarrow> run_then run [head_cmd] ([''read-tree'', h], True) finish
         | None \<Rightarrow> finish [head_cmd] [])"

section \<open>Where a git call acts\<close>

definition load_snapshot :: "World \<Rightarrow> Ctx \<Rightarrow> SnapshotError + Snapshot" where
  "load_snapshot w c = load (w_read_file w) (w_from_json w) (cx_home c) (cx_instance c)"

definition bound_of :: "SnapshotError + Snapshot \<Rightarrow> Binding option" where
  "bound_of snap = (case snap of Inr s \<Rightarrow> sn_binding s | Inl _ \<Rightarrow> None)"

definition source_repo_of :: "SnapshotError + Snapshot \<Rightarrow> path option" where
  "source_repo_of snap = (case snap of Inr s \<Rightarrow> map_option components (sn_source_repo s) | Inl _ \<Rightarrow> None)"

definition canon :: "World \<Rightarrow> path \<Rightarrow> path option" where
  "canon w p = fs_canonicalize (w_fs w) p"

definition dirs_of :: "World \<Rightarrow> path \<Rightarrow> (path \<times> path) option" where
  "dirs_of w dir =
     (case w_dirs w dir of
        Some [g, c] \<Rightarrow>
          Option.bind (canon w (join_path dir g)) (\<lambda>g'. map_option (Pair g') (canon w (join_path dir c)))
      | _ \<Rightarrow> None)"

definition real_anchors :: "World \<Rightarrow> SnapshotError + Snapshot \<Rightarrow> Anchors" where
  "real_anchors w snap =
     (let wt = Option.bind (bound_of snap) (\<lambda>b. canon w (worktree_path b)) in
      \<lparr>an_worktree = wt, an_source_repo = Option.bind (source_repo_of snap) (canon w),
       an_worktree_dirs = Option.bind wt (dirs_of w),
       an_team_common_dir = map_option snd (Option.bind (source_repo_of snap) (dirs_of w))\<rparr>)"

definition ceilings :: "World \<Rightarrow> Ctx \<Rightarrow> path \<Rightarrow> bool \<Rightarrow> path list" where
  "ceilings w c dir names_git_dir =
     (case Option.bind (map_option components (cx_home c)) (canon w) of
        Some home \<Rightarrow>
          if (case canon w dir of Some d \<Rightarrow> starts_with d home | None \<Rightarrow> False) \<and> \<not> names_git_dir
          then home # cx_git_ceiling_dirs c else cx_git_ceiling_dirs c
      | None \<Rightarrow> cx_git_ceiling_dirs c)"

definition resolve :: "World \<Rightarrow> Ctx \<Rightarrow> string list \<Rightarrow> path \<Rightarrow> bool \<Rightarrow> Resolved option" where
  "resolve w c globals dir names_git_dir =
     Option.bind
       (w_rev_parse w (ceilings w c dir names_git_dir)
          (globals @ [''rev-parse'', ''--absolute-git-dir'', ''--git-common-dir'', ''--show-toplevel'', ''--show-prefix'']))
       (\<lambda>ls. from_lines (Fs.truncate (w_fs w)) ls dir)"

definition in_workspace :: "World \<Rightarrow> Ctx \<Rightarrow> SnapshotError + Snapshot \<Rightarrow> path \<Rightarrow> bool" where
  "in_workspace w c snap dir =
     (case (cx_home c, snap) of
        (Some h, Inr s) \<Rightarrow>
          (case (canon w (join_path (join_path (components h) [Normal ''workspace'']) (components (sn_instance s))),
                 canon w dir) of
             (Some ws, Some d) \<Rightarrow> starts_with d ws
           | _ \<Rightarrow> False)
      | _ \<Rightarrow> False)"

definition plan_location ::
    "World \<Rightarrow> Ctx \<Rightarrow> SnapshotError + Snapshot \<Rightarrow> GitArgs \<Rightarrow> path \<Rightarrow> Resolved option \<Rightarrow> Location" where
  "plan_location w c snap g dir resolved =
     (let names_git_dir = (git_dir g \<noteq> None \<or> cx_git_dir c \<noteq> None);
          explicit = (names_git_dir \<or> work_tree g \<noteq> None \<or> git_env_names_repo c);
          plain = (retarget_indexes g = [] \<and> \<not> git_env_retargets c)
      in if \<not> needs_location g then Unknown
         else case resolved of
           None \<Rightarrow> if plain \<and> in_workspace w c snap dir then Workspace else NoRepo
         | Some r \<Rightarrow> (case snap of Inl _ \<Rightarrow> Unknown | Inr _ \<Rightarrow> locate r explicit (real_anchors w snap)))"

section \<open>The probe\<close>

definition MARKER_FILE :: string where
  "MARKER_FILE = ''agend-hooks-installed''"

definition here_remotes :: "World \<Rightarrow> Resolved option \<Rightarrow> Remotes" where
  "here_remotes w acting =
     (case acting of
        Some r \<Rightarrow> from_config (w_config w ''--git-dir'' (r_git_dir r))
      | None \<Rightarrow> \<lparr>rm_urls = [], rm_rewrites = []\<rparr>)"

definition probe_base :: "Resolved option \<Rightarrow> path" where
  "probe_base acting = (case acting of Some r \<Rightarrow> root r | None \<Rightarrow> [CurDir])"

definition team_of :: "World \<Rightarrow> SnapshotError + Snapshot \<Rightarrow> Key list" where
  "team_of w snap =
     (case source_repo_of snap of
        Some src \<Rightarrow> team_keys (w_fs w) src (from_config (w_config w ''-C'' src))
      | None \<Rightarrow> [])"

definition real_probe :: "World \<Rightarrow> SnapshotError + Snapshot \<Rightarrow> Location \<Rightarrow> Resolved option \<Rightarrow> Probe" where
  "real_probe w snap loc acting =
     (let team = team_of w snap;
          bound = (case bound_of snap of
                     Some b \<Rightarrow> if fs_is_dir (w_fs w) (worktree_path b) then Some (worktree_path b) else None
                   | None \<Rightarrow> None);
          git_dir_of = (case (acting, loc) of
                          (Some r, Worktree) \<Rightarrow> Some (r_git_dir r)
                        | _ \<Rightarrow> map_option fst (an_worktree_dirs (real_anchors w snap)))
      in \<lparr>is_team_repo =
            ((case acting of Some r \<Rightarrow> Local (r_common_dir r) \<in> set team | None \<Rightarrow> False)
             \<or> list_ex (\<lambda>k. k \<in> set team) (keys (w_fs w) (here_remotes w acting) (probe_base acting))),
          is_team_remote =
            (\<lambda>dest. list_ex (\<lambda>k. k \<in> set team) (dest_keys (w_fs w) (here_remotes w acting) dest (probe_base acting))),
          probe_git = (\<lambda>args. Option.bind bound (\<lambda>wt. map_option trim (w_git w wt args))),
          hooks_installed =
            (case git_dir_of of
               Some d \<Rightarrow> fs_is_file (w_fs w) (join_path d [Normal MARKER_FILE])
             | None \<Rightarrow> False)\<rparr>)"

definition git_input ::
    "World \<Rightarrow> Ctx \<Rightarrow> SnapshotError + Snapshot \<Rightarrow> GitArgs \<Rightarrow> path \<Rightarrow> Resolved option \<Rightarrow> Input" where
  "git_input w c snap g dir resolved =
     (let loc = plan_location w c snap g dir resolved in
      \<lparr>in_args = g, in_snapshot = snap, in_location = loc, in_resolved = resolved,
       in_env = \<lparr>retargets = git_env_retargets c,
                 index_file = map_option (join_path dir) (cx_git_index_file c), env_config = cx_config_env c\<rparr>,
       in_dir = dir, in_probe = real_probe w snap loc resolved, in_fs = Fs.truncate (w_fs w)\<rparr>)"

text \<open>The input of the decision; none when the working directory is needed and cannot be read.\<close>

definition plan_cwd :: "Ctx \<Rightarrow> GitArgs \<Rightarrow> path option" where
  "plan_cwd c g =
     (case cx_cwd c of
        Some d \<Rightarrow> Some d
      | None \<Rightarrow>
          if (case chdirs g of d # _ \<Rightarrow> is_absolute_path (components d) | [] \<Rightarrow> False) \<or> \<not> needs_location g
          then Some [] else None)"

definition plan_input :: "World \<Rightarrow> Ctx \<Rightarrow> string list \<Rightarrow> Input option" where
  "plan_input w c args =
     (let snap = load_snapshot w c; g = parse_args args in
      map_option (\<lambda>cwd.
        let dir = foldl join_path cwd (map components (chdirs g));
            resolved = (if needs_location g
                        then resolve w c (take (sub_index g) args) dir (git_dir g \<noteq> None \<or> cx_git_dir c \<noteq> None)
                        else None)
        in git_input w c snap g dir resolved)
        (plan_cwd c g))"

section \<open>The plans\<close>

fun component_text :: "Component \<Rightarrow> string" where
  "component_text RootDir = []"
| "component_text CurDir = ''.''"
| "component_text ParentDir = ''..''"
| "component_text (Normal n) = n"

definition path_text :: "path \<Rightarrow> string" where
  "path_text p = (if p = [RootDir] then ''/'' else join ''/'' (map component_text p))"

definition executed :: "Ctx \<Rightarrow> path \<Rightarrow> string list \<Rightarrow> Effect list \<Rightarrow> Outcome" where
  "executed c real args effects = \<lparr>o_effects = effects, o_action = Exec (real_command c real args)\<rparr>"

definition snapshot_dir :: "Input \<Rightarrow> Binding \<Rightarrow> path" where
  "snapshot_dir inp b =
     (case in_resolved inp of
        Some r \<Rightarrow> if in_location inp = Nested then root r else worktree_path b
      | None \<Rightarrow> worktree_path b)"

definition final_args :: "Input \<Rightarrow> string list \<Rightarrow> path option \<Rightarrow> string list" where
  "final_args inp args route =
     (case route of
        Some d \<Rightarrow> routed_args args (path_text d) (retarget_indexes (in_args inp))
      | None \<Rightarrow> args)"

definition run_decided :: "World \<Rightarrow> Ctx \<Rightarrow> path \<Rightarrow> string list \<Rightarrow> Input \<Rightarrow> Outcome" where
  "run_decided w c real args inp =
     (case classify inp of
        Refuse r \<Rightarrow> refused ''git'' r []
      | Run route snapshot note \<Rightarrow>
          (case (snapshot, input_binding inp) of
             (Some op, Some b) \<Rightarrow>
               (let d = snapshot_dir inp b;
                    ins = (case cx_instance c of Some i \<Rightarrow> i | None \<Rightarrow> ''unknown'');
                    (hist, result) = take_snapshot (w_run w d) ins (w_call_id w);
                    effects = map (ShimGit d) hist
                in case result of
                     Inl _ \<Rightarrow> refused ''git'' ''snapshot_failed'' effects
                   | Inr saved \<Rightarrow>
                       executed c real (final_args inp args route)
                         (effects @ [audit ''git'' ''snapshot'' (Some op) (Some (sv_reference saved))]))
           | _ \<Rightarrow> executed c real (final_args inp args route) []))"

definition git_plan :: "World \<Rightarrow> Ctx \<Rightarrow> string list \<Rightarrow> Outcome" where
  "git_plan w c args =
     (case find_real w c ''git'' of
        None \<Rightarrow> \<lparr>o_effects = [], o_action = NotFoundCall\<rparr>
      | Some real \<Rightarrow>
          if cx_bypass c then executed c real args [audit ''git'' ''bypass'' None None]
          else if MAX_DEPTH \<le> cx_depth c then refused ''git'' ''shim_loop'' []
          else case plan_input w c args of
            None \<Rightarrow> refused ''git'' ''cwd_unreadable'' []
          | Some inp \<Rightarrow> run_decided w c real args inp)"

definition gh_plan :: "World \<Rightarrow> Ctx \<Rightarrow> string list \<Rightarrow> Outcome" where
  "gh_plan w c args =
     (case (if cx_bypass c then Inr ()
            else if MAX_DEPTH \<le> cx_depth c then Inl ''shim_loop''
            else gh_check (Parsed_new args)) of
        Inl r \<Rightarrow> refused ''gh'' r []
      | Inr _ \<Rightarrow>
          (case find_real w c ''gh'' of
             None \<Rightarrow> \<lparr>o_effects = [], o_action = NotFoundCall\<rparr>
           | Some real \<Rightarrow>
               executed c real args (if cx_bypass c then [audit ''gh'' ''bypass'' None None] else [])))"

definition kill_plan :: "World \<Rightarrow> Ctx \<Rightarrow> Tool \<Rightarrow> string list \<Rightarrow> Outcome" where
  "kill_plan w c tool args =
     (case find_real w c (Tool_as_str tool) of
        None \<Rightarrow> \<lparr>o_effects = [], o_action = NotFoundCall\<rparr>
      | Some real \<Rightarrow>
          if cx_bypass c then executed c real args [audit (Tool_as_str tool) ''bypass'' None None]
          else case (if MAX_DEPTH \<le> cx_depth c then Inl ''shim_loop''
                     else classify_kill tool args (w_process_name w)) of
            Inr _ \<Rightarrow> executed c real args []
          | Inl r \<Rightarrow> refused (Tool_as_str tool) r [])"

definition plan :: "World \<Rightarrow> Ctx \<Rightarrow> Tool \<Rightarrow> string list \<Rightarrow> Outcome" where
  "plan w c tool args =
     (case tool of
        Git \<Rightarrow> git_plan w c args
      | Gh \<Rightarrow> gh_plan w c args
      | _ \<Rightarrow> kill_plan w c tool args)"

section \<open>What a call that runs has passed\<close>

lemma plan_input_fields:
  assumes "plan_input w c args = Some inp"
  shows "in_args inp = parse_args args" "in_snapshot inp = load_snapshot w c"
  using assms by (auto simp: plan_input_def Let_def git_input_def)

lemma run_then_Inr:
  assumes "run_then run hist cmd k = (hist', Inr x)"
  obtains out where "run hist cmd = Inr out" "k (hist @ [cmd]) out = (hist', Inr x)"
  using assms by (auto simp: run_then_def split: sum.splits)

text \<open>A snapshot ends with the creation of its ref.\<close>

lemma take_snapshot_creates:
  assumes "take_snapshot run ins ident = (hist, Inr saved)"
  shows "sv_reference saved = REF_PREFIX @ ins @ ''/'' @ ident
    \<and> (\<exists>front commit. hist = front @ [([''update-ref'', sv_reference saved, commit, []], False)])"
  using assms unfolding take_snapshot_def Let_def
  by (auto split: option.splits elim!: run_then_Inr)

lemma executed_simps [simp]:
  "o_effects (executed c real args effects) = effects"
  "o_action (executed c real args effects) = Exec (real_command c real args)"
  by (simp_all add: executed_def)

lemma refused_simps [simp]:
  "o_action (refused tool r effects) = RefuseCall r"
  "o_effects (refused tool r effects) = effects @ [audit tool ''refuse'' (Some r) None]"
  by (simp_all add: refused_def)

lemma git_plan_Exec:
  assumes "o_action (git_plan w c args) = Exec cmd" and "\<not> cx_bypass c"
  obtains real inp where "cx_depth c < MAX_DEPTH" "plan_input w c args = Some inp"
    "git_plan w c args = run_decided w c real args inp"
  using assms by (auto simp: git_plan_def not_le split: option.splits if_splits)

text \<open>The effects of a call that was preceded by a snapshot of \<open>d\<close>: the ref is only ever created.\<close>

definition snapshotted :: "string \<Rightarrow> path \<Rightarrow> Effect list \<Rightarrow> bool" where
  "snapshotted op d effects \<longleftrightarrow>
     (\<exists>front ref commit. effects = map (ShimGit d) front
        @ [ShimGit d ([''update-ref'', REF_PREFIX @ ref, commit, []], False),
           audit ''git'' ''snapshot'' (Some op) (Some (REF_PREFIX @ ref))])"

lemma run_decided_Exec:
  assumes "o_action (run_decided w c real args inp) = Exec cmd"
  obtains route snapshot msg where "classify inp = Run route snapshot msg"
    "rc_args cmd = final_args inp args route"
    "\<And>op b. snapshot = Some op \<Longrightarrow> input_binding inp = Some b \<Longrightarrow>
       snapshotted op (snapshot_dir inp b) (o_effects (run_decided w c real args inp))"
proof (cases "classify inp")
  case (Refuse r)
  then show thesis using assms by (simp add: run_decided_def)
next
  case (Run route snapshot msg)
  show thesis
  proof (cases "\<exists>op b. snapshot = Some op \<and> input_binding inp = Some b")
    case False
    then have "run_decided w c real args inp = executed c real (final_args inp args route) []"
      using Run by (cases snapshot; cases "input_binding inp") (auto simp: run_decided_def)
    then show thesis using that [OF Run] assms False by (auto simp: real_command_def)
  next
    case True
    then obtain op b where ob: "snapshot = Some op" "input_binding inp = Some b" by blast
    define ins where "ins = (case cx_instance c of Some i \<Rightarrow> i | None \<Rightarrow> ''unknown'')"
    obtain hist result where t: "take_snapshot (w_run w (snapshot_dir inp b)) ins (w_call_id w) = (hist, result)"
      by fastforce
    show thesis
    proof (cases result)
      case (Inl e)
      then show thesis using assms t by (simp add: run_decided_def Run ob Let_def ins_def [symmetric])
    next
      case (Inr saved)
      from take_snapshot_creates [of "w_run w (snapshot_dir inp b)" ins "w_call_id w" hist saved] t Inr
      obtain front commit where h: "hist = front @ [([''update-ref'', sv_reference saved, commit, []], False)]"
        "sv_reference saved = REF_PREFIX @ (ins @ ''/'' @ w_call_id w)" by auto
      have e: "run_decided w c real args inp = executed c real (final_args inp args route)
          (map (ShimGit (snapshot_dir inp b)) hist @ [audit ''git'' ''snapshot'' (Some op) (Some (sv_reference saved))])"
        using t Inr by (simp add: run_decided_def Run ob Let_def ins_def [symmetric])
      show thesis
      proof (rule that [OF Run])
        show "rc_args cmd = final_args inp args route" using assms e by (auto simp: real_command_def)
        show "snapshotted op' (snapshot_dir inp b') (o_effects (run_decided w c real args inp))"
          if "snapshot = Some op'" "input_binding inp = Some b'" for op' b'
          unfolding snapshotted_def e
          by (rule exI [of _ front], rule exI [of _ "ins @ ''/'' @ w_call_id w"], rule exI [of _ commit])
            (use that ob h in simp)
      qed
    qed
  qed
qed

section \<open>Property\<close>

text \<open>How git reads the arguments of a call that was routed to \<open>d\<close>.\<close>

definition reads_routed :: "string list \<Rightarrow> path \<Rightarrow> GitArgs \<Rightarrow> bool" where
  "reads_routed real_args d g \<longleftrightarrow>
     (let h = parse_args real_args in
      chdirs h = [path_text d] \<and> git_dir h = None \<and> work_tree h = None
      \<and> sub_command h = sub_command g \<and> sub_rest h = sub_rest g \<and> config h = config g)"

lemma final_args_routed:
  "in_args inp = parse_args args \<Longrightarrow> reads_routed (final_args inp args (Some d)) d (parse_args args)"
  using routed_parse [OF refl refl, of args "path_text d"] by (simp add: reads_routed_def final_args_def Let_def)

text \<open>C25: the shim as a whole confines writes. If the shim runs the real git for a writing command without
  a bypass, the call is not nested too deep, and either it acts on a repository that is not the team's
  or the agent's binding was loaded and checked and its hooks are installed; then git gets the typed
  arguments unchanged in the bound worktree itself, or arguments that it reads as the same command in a
  directory inside the bound worktree and nowhere else; and if the command can discard work, a
  snapshot of the worktree was created and audited first.\<close>

theorem plan_confines_writes:
  assumes "o_action (plan w c Git args) = Exec cmd" and "\<not> cx_bypass c"
    and "sub_command (parse_args args) = Some cmd_name" and "\<not> info_only (parse_args args)"
    and "kind_of cmd_name (sub_rest (parse_args args)) = Some Write"
  shows "cx_depth c < MAX_DEPTH \<and> (\<exists>inp. plan_input w c args = Some inp \<and>
    (in_location inp \<in> {Foreign, Nested}
     \<or> (\<exists>s b. load_snapshot w c = Inr s \<and> sn_binding s = Some b \<and> hooks_installed (in_probe inp)
         \<and> (at_home inp b None \<and> rc_args cmd = args
            \<or> (\<exists>d. at_home inp b (Some d) \<and> reads_routed (rc_args cmd) d (parse_args args)))
         \<and> (\<forall>op. destructive cmd_name (sub_rest (parse_args args)) = Some op \<longrightarrow>
              snapshotted op (worktree_path b) (o_effects (plan w c Git args))))))"
proof -
  have p: "plan w c Git args = git_plan w c args" by (simp add: plan_def)
  from assms(1) have exec: "o_action (git_plan w c args) = Exec cmd" by (simp add: p)
  from git_plan_Exec [OF exec assms(2)] obtain real inp where d: "cx_depth c < MAX_DEPTH"
    and inp: "plan_input w c args = Some inp" and run: "git_plan w c args = run_decided w c real args inp" by blast
  note fields = plan_input_fields [OF inp]
  from run_decided_Exec [of w c real args inp cmd] exec run obtain route snapshot msg
    where cl: "classify inp = Run route snapshot msg" and rc: "rc_args cmd = final_args inp args route"
      and snap: "\<And>op b. snapshot = Some op \<Longrightarrow> input_binding inp = Some b \<Longrightarrow>
        snapshotted op (snapshot_dir inp b) (o_effects (git_plan w c args))" by auto
  show ?thesis
  proof (cases "in_location inp \<in> {Foreign, Nested}")
    case True
    with d inp show ?thesis by blast
  next
    case team: False
    have dec: "decided inp cmd_name" using assms(3,4) fields(1) by (simp add: decided_def)
    have wd: "write_decision inp cmd_name (sub_rest (in_args inp)) = Run route snapshot msg"
      using classify_team(2) [OF dec team cl] assms(5) fields(1) by simp
    from write_Run [OF wd] obtain s b where sb: "in_snapshot inp = Inr s" "sn_binding s = Some b"
      "write_route inp b = Inr route" "refuse_write inp cmd_name (sub_rest (in_args inp)) b = None"
      "snapshot = destructive cmd_name (sub_rest (in_args inp))" by blast
    have hooks: "hooks_installed (in_probe inp)" using sb(4) by (auto simp: refuse_write_def split: if_splits)
    have home: "at_home inp b route" by (rule write_route_Inr [OF sb(3)])
    have "at_home inp b None \<and> rc_args cmd = args
        \<or> (\<exists>d. at_home inp b (Some d) \<and> reads_routed (rc_args cmd) d (parse_args args))"
      using home rc final_args_routed [OF fields(1)] by (cases route) (auto simp: final_args_def)
    moreover have "snapshotted op (worktree_path b) (o_effects (plan w c Git args))"
      if "destructive cmd_name (sub_rest (parse_args args)) = Some op" for op
      using snap [of op b] that sb(1,2,5) fields(1) team
      by (auto simp: p input_binding_def snapshot_dir_def split: option.splits)
    ultimately show ?thesis using d inp sb(1,2) hooks fields(2) by auto
  qed
qed

text \<open>A call from the canonical checkout, routed into the worktree.\<close>

definition sample_world :: World where
  "sample_world =
     \<lparr>w_fs = \<lparr>fs_is_dir = (\<lambda>_. True), fs_is_file = (\<lambda>_. True), fs_exists = (\<lambda>_. False), fs_canonicalize = Some,
        fs_read = (\<lambda>_. None)\<rparr>,
      w_read_file = (\<lambda>_. FileText []), w_from_json = (\<lambda>_. Inr sample_snapshot),
      w_is_executable = (\<lambda>_. True), w_identity = (\<lambda>_. None),
      w_rev_parse = (\<lambda>_ _. Some [components ''/repo/.git'', components ''/repo/.git'', components ''/repo'', components ''src/'']),
      w_dirs = (\<lambda>_. Some [components ''/repo/.git'', components ''/repo/.git'']),
      w_config = (\<lambda>_ _. []), w_git = (\<lambda>_ _. None), w_run = (\<lambda>_ _ _. Inr ''oid''), w_call_id = ''1-2'',
      w_process_name = (\<lambda>_. None)\<rparr>"

definition sample_ctx :: Ctx where
  "sample_ctx =
     \<lparr>cx_home = Some ''/home'', cx_instance = Some (sn_instance sample_snapshot), cx_bypass = False, cx_depth = 0,
      cx_cwd = Some (components ''/repo/src''), cx_path = [components ''/usr/bin''], cx_self_exe = None,
      cx_git_dir = None, cx_git_work_tree = None, cx_git_common_dir = None, cx_git_index_file = None,
      cx_git_ceiling_dirs = [], cx_config_env = []\<rparr>"

lemma sample_plan:
  "o_action (plan sample_world sample_ctx Git [''reset'', ''--hard'']) =
     Exec (real_command sample_ctx (components ''/usr/bin/git'') [''-C'', ''/wt/t1/src'', ''reset'', ''--hard''])"
  by code_simp

theorem plan_confines_writes_witness:
  "\<exists>inp. plan_input sample_world sample_ctx [''reset'', ''--hard''] = Some inp \<and>
    (in_location inp \<in> {Foreign, Nested}
     \<or> (\<exists>s b. load_snapshot sample_world sample_ctx = Inr s \<and> sn_binding s = Some b
         \<and> snapshotted ''reset'' (worktree_path b)
             (o_effects (plan sample_world sample_ctx Git [''reset'', ''--hard'']))))"
proof -
  have "sub_command (parse_args [''reset'', ''--hard'']) = Some ''reset''"
    "\<not> info_only (parse_args [''reset'', ''--hard''])"
    "kind_of ''reset'' (sub_rest (parse_args [''reset'', ''--hard''])) = Some Write"
    "destructive ''reset'' (sub_rest (parse_args [''reset'', ''--hard''])) = Some ''reset''" by code_simp+
  with plan_confines_writes [OF sample_plan _ this(1-3)] show ?thesis by (auto simp: sample_ctx_def)
qed

end
