(* ===== verification/Github_Ledger.thy ===== *)
theory Github_Ledger
  imports Rust_Text Domain_Model
begin

text \<open>
  The record of what a task owns on GitHub: \<^verbatim>\<open>crates/agend-core/src/github.rs\<close> with the rule that one record
  may follow another, and the compare-and-swap store of \<^verbatim>\<open>crates/agend-daemon/src/store/github.rs\<close>. A row of
  the table has its columns as decoded values. The theorem is about any sequence of saves by any
  number of writers.
\<close>

section \<open>Records\<close>

record GithubIdentity =
  gi_task_id :: string
  gi_local_repo :: string
  gi_repository :: string
  gi_repository_id :: u64
  gi_base :: string
  gi_branch :: string
  gi_nonce :: string

record GithubCleanup =
  close_attempted :: bool
  delete_attempted :: bool
  cleanup_complete :: bool

definition GithubCleanup_default :: GithubCleanup where
  "GithubCleanup_default = \<lparr>close_attempted = False, delete_attempted = False, cleanup_complete = False\<rparr>"

record GithubChange =
  gc_identity :: GithubIdentity
  pull_number :: "u64 option"
  pushed_head :: "string option"
  push_intent :: "string option"
  create_attempted :: bool
  merge_head :: "string option"
  cleanup :: GithubCleanup

definition full_sha :: "string \<Rightarrow> bool" where
  "full_sha s \<longleftrightarrow> length s = 40 \<and> list_all (\<lambda>c. is_ascii_digit c \<or> char_in 97 102 c) s"

text \<open>The first condition of \<open>follows\<close>, and the ones that compare with the record before.\<close>

definition malformed :: "GithubChange \<Rightarrow> bool" where
  "malformed c \<longleftrightarrow>
     (let i = gc_identity c in
      gi_task_id i = [] \<or> gi_local_repo i = [] \<or> gi_repository i = [] \<or> gi_repository_id i = 0
      \<or> gi_base i = [] \<or> gi_branch i = [] \<or> gi_nonce i = []
      \<or> pull_number c = Some 0
      \<or> list_ex (\<lambda>h. case h of Some s \<Rightarrow> \<not> full_sha s | None \<Rightarrow> False) [pushed_head c, push_intent c, merge_head c]
      \<or> (pull_number c \<noteq> None \<and> \<not> create_attempted c))"

definition breaks_history :: "GithubChange \<Rightarrow> GithubChange \<Rightarrow> bool" where
  "breaks_history old c \<longleftrightarrow>
     (merge_head old \<noteq> None \<and> merge_head c \<noteq> merge_head old)
     \<or> (merge_head c \<noteq> None \<and> pull_number c = None)
     \<or> (merge_head old = None \<and> merge_head c \<noteq> None
        \<and> (cleanup old \<noteq> GithubCleanup_default \<or> push_intent old \<noteq> None))
     \<or> (merge_head old \<noteq> None \<and> (push_intent c \<noteq> push_intent old \<or> pushed_head c \<noteq> pushed_head old))
     \<or> (cleanup_complete (cleanup old) \<and> c \<noteq> old)
     \<or> (close_attempted (cleanup old) \<and> \<not> close_attempted (cleanup c))
     \<or> (delete_attempted (cleanup old) \<and> \<not> delete_attempted (cleanup c))
     \<or> gc_identity c \<noteq> gc_identity old
     \<or> (create_attempted old \<and> \<not> create_attempted c)
     \<or> (pull_number c \<noteq> None \<and> \<not> create_attempted old)
     \<or> (\<not> create_attempted old \<and> create_attempted c \<and> (pushed_head old = None \<or> push_intent old \<noteq> None))
     \<or> (pull_number old \<noteq> None \<and> pull_number c \<noteq> pull_number old)"

definition follows :: "GithubChange \<Rightarrow> GithubChange option \<Rightarrow> bool" where
  "follows c previous =
     (if malformed c then False
      else case previous of
        None \<Rightarrow>
          pull_number c = None \<and> pushed_head c = None \<and> push_intent c = None \<and> \<not> create_attempted c
          \<and> merge_head c = None \<and> cleanup c = GithubCleanup_default
      | Some old \<Rightarrow>
          if breaks_history old c then False
          else if push_intent old \<noteq> None \<and> push_intent c \<noteq> push_intent old
          then push_intent c = None \<and> pushed_head c = push_intent old
          else pushed_head c = pushed_head old)"

section \<open>The store\<close>

record LedgerRow =
  lr_revision :: u64
  lr_identity :: GithubIdentity
  lr_change :: GithubChange
  lr_repository_id :: u64
  lr_branch :: string

type_synonym ledger = "string \<rightharpoonup> LedgerRow"

datatype LedgerError = InvalidRow | InvalidTransition | RevisionExhausted | Constraint

definition load_change :: "ledger \<Rightarrow> string \<Rightarrow> LedgerError + (u64 \<times> GithubChange) option" where
  "load_change db task =
     (case db task of
        None \<Rightarrow> Inr None
      | Some row \<Rightarrow>
          if gi_task_id (gc_identity (lr_change row)) \<noteq> task \<or> gc_identity (lr_change row) \<noteq> lr_identity row
          then Inl InvalidRow
          else Inr (Some (lr_revision row, lr_change row)))"

definition I64_MAX :: u64 where
  "I64_MAX = 0x7FFFFFFFFFFFFFFF"

definition next_revision :: "u64 option \<Rightarrow> LedgerError + u64" where
  "next_revision expected =
     (let n = (case expected of Some r \<Rightarrow> r | None \<Rightarrow> 0) in
      if n = - 1 \<or> I64_MAX < n + 1 then Inl RevisionExhausted else Inr (n + 1))"

text \<open>
  The table's constraints: an integer column takes no value above \<open>i64::MAX\<close>, the task of a new row
  exists, and no two rows have the same repository and branch. Of an existing row only the revision
  and the change are updated. The tables are finite; the unique constraint is asked of the given tasks.
\<close>

definition upsert :: "string list \<Rightarrow> ledger \<Rightarrow> u64 \<Rightarrow> GithubChange \<Rightarrow> LedgerError + ledger" where
  "upsert tasks db revision c =
     (let i = gc_identity c; task = gi_task_id i in
      if I64_MAX < gi_repository_id i then Inl Constraint
      else case db task of
        Some row \<Rightarrow> Inr (db(task \<mapsto> row\<lparr>lr_revision := revision, lr_change := c\<rparr>))
      | None \<Rightarrow>
          if task \<notin> set tasks
             \<or> list_ex (\<lambda>t. case db t of
                   Some row \<Rightarrow> lr_repository_id row = gi_repository_id i \<and> lr_branch row = gi_branch i
                 | None \<Rightarrow> False) tasks
          then Inl Constraint
          else Inr (db(task \<mapsto> \<lparr>lr_revision = revision, lr_identity = i, lr_change = c,
                                lr_repository_id = gi_repository_id i, lr_branch = gi_branch i\<rparr>)))"

definition save_github_change ::
    "string list \<Rightarrow> ledger \<Rightarrow> u64 option \<Rightarrow> GithubChange \<Rightarrow> LedgerError + ledger \<times> bool" where
  "save_github_change tasks db expected c =
     and_then (load_change db (gi_task_id (gc_identity c))) (\<lambda>old.
       if map_option fst old \<noteq> expected then Inr (db, False)
       else if \<not> follows c (map_option snd old) then Inl InvalidTransition
       else and_then (next_revision expected) (\<lambda>revision.
         and_then (upsert tasks db revision c) (\<lambda>db'. Inr (db', True))))"

text \<open>A writer's save as a step; an error leaves the store as it was.\<close>

definition ledger_step :: "string list \<Rightarrow> ledger \<Rightarrow> u64 option \<times> GithubChange \<Rightarrow> LedgerError + ledger \<times> bool list" where
  "ledger_step tasks db w = map_sum id (\<lambda>(db', b). (db', [b])) (save_github_change tasks db (fst w) (snd w))"

section \<open>What one record keeps of the one before\<close>

definition sound_change :: "GithubChange \<Rightarrow> bool" where
  "sound_change c \<longleftrightarrow>
     \<not> malformed c
     \<and> (create_attempted c \<longrightarrow> pushed_head c \<noteq> None)
     \<and> (merge_head c \<noteq> None \<longrightarrow> pull_number c \<noteq> None)"

text \<open>\<open>extends a b\<close>: record \<open>b\<close> may stand after \<open>a\<close>, however many saves are between them.\<close>

definition extends :: "GithubChange \<Rightarrow> GithubChange \<Rightarrow> bool" where
  "extends a b \<longleftrightarrow>
     gc_identity b = gc_identity a
     \<and> (pull_number a \<noteq> None \<longrightarrow> pull_number b = pull_number a)
     \<and> (create_attempted a \<longrightarrow> create_attempted b)
     \<and> (pushed_head a \<noteq> None \<longrightarrow> pushed_head b \<noteq> None)
     \<and> (merge_head a \<noteq> None \<longrightarrow>
          merge_head b = merge_head a \<and> pushed_head b = pushed_head a \<and> push_intent b = push_intent a)
     \<and> (close_attempted (cleanup a) \<longrightarrow> close_attempted (cleanup b))
     \<and> (delete_attempted (cleanup a) \<longrightarrow> delete_attempted (cleanup b))
     \<and> (cleanup_complete (cleanup a) \<longrightarrow> b = a)"

lemma extends_refl [simp]: "extends a a"
  by (simp add: extends_def)

lemma extends_trans: "extends a b \<Longrightarrow> extends b c \<Longrightarrow> extends a c"
  unfolding extends_def by (elim conjE) (intro conjI; metis)

lemma follows_new: "follows c None \<Longrightarrow> sound_change c"
  by (auto simp: follows_def sound_change_def split: if_splits)

lemma follows_pushed:
  assumes "follows c (Some old)"
  shows "pushed_head c = pushed_head old \<or> (pushed_head c = push_intent old \<and> push_intent old \<noteq> None)"
  using assms by (auto simp: follows_def split: if_splits)

lemma follows_extends:
  assumes "follows c (Some old)"
  shows "extends old c"
proof -
  have "\<not> breaks_history old c" using assms by (auto simp: follows_def split: if_splits)
  then show ?thesis using follows_pushed [OF assms] unfolding breaks_history_def extends_def
    by (simp only: de_Morgan_disj) (intro conjI impI; metis)
qed

lemma follows_sound:
  assumes "follows c (Some old)" and "sound_change old"
  shows "sound_change c"
proof -
  have m: "\<not> malformed c" and b: "\<not> breaks_history old c" using assms(1) by (auto simp: follows_def split: if_splits)
  from b have "create_attempted c \<Longrightarrow> pushed_head old \<noteq> None"
    using assms(2) by (auto simp: breaks_history_def sound_change_def)
  moreover have "pushed_head old \<noteq> None \<Longrightarrow> pushed_head c \<noteq> None"
    using follows_extends [OF assms(1)] by (simp add: extends_def)
  moreover have "merge_head c \<noteq> None \<Longrightarrow> pull_number c \<noteq> None" using b by (auto simp: breaks_history_def)
  ultimately show ?thesis using m by (auto simp: sound_change_def)
qed

section \<open>What the store keeps\<close>

definition row_ok :: "string \<Rightarrow> LedgerRow \<Rightarrow> bool" where
  "row_ok task row \<longleftrightarrow>
     (let c = lr_change row in
      sound_change c \<and> gi_task_id (gc_identity c) = task \<and> lr_identity row = gc_identity c
      \<and> lr_repository_id row = gi_repository_id (gc_identity c) \<and> lr_branch row = gi_branch (gc_identity c)
      \<and> 1 \<le> lr_revision row \<and> lr_revision row \<le> I64_MAX)"

definition ledger_ok :: "string list \<Rightarrow> ledger \<Rightarrow> bool" where
  "ledger_ok tasks db \<longleftrightarrow>
     dom db \<subseteq> set tasks
     \<and> (\<forall>task row. db task = Some row \<longrightarrow> row_ok task row)
     \<and> (\<forall>t u row row'. db t = Some row \<longrightarrow> db u = Some row' \<longrightarrow>
          lr_repository_id row = lr_repository_id row' \<longrightarrow> lr_branch row = lr_branch row' \<longrightarrow> t = u)"

text \<open>Rows stay, their revisions grow, and a revision stands for one content.\<close>

definition grown :: "ledger \<Rightarrow> ledger \<Rightarrow> bool" where
  "grown s t \<longleftrightarrow>
     (\<forall>task row. s task = Some row \<longrightarrow>
        (\<exists>row'. t task = Some row' \<and> extends (lr_change row) (lr_change row')
           \<and> (row' = row \<or> lr_revision row < lr_revision row')))"

lemma grown_refl [simp]: "grown s s"
  by (auto simp: grown_def)

lemma grown_trans: "grown s t \<Longrightarrow> grown t u \<Longrightarrow> grown s u"
proof -
  assume st: "grown s t" and tu: "grown t u"
  show ?thesis unfolding grown_def
  proof (intro allI impI)
    fix task row assume "s task = Some row"
    with st obtain v where v: "t task = Some v" "extends (lr_change row) (lr_change v)"
      "v = row \<or> lr_revision row < lr_revision v" unfolding grown_def by blast
    with tu obtain w where w: "u task = Some w" "extends (lr_change v) (lr_change w)"
      "w = v \<or> lr_revision v < lr_revision w" unfolding grown_def by blast
    have "w = row \<or> lr_revision row < lr_revision w" using v(3) w(3) by (auto intro: order_less_trans)
    with w(1) extends_trans [OF v(2) w(2)]
    show "\<exists>row'. u task = Some row' \<and> extends (lr_change row) (lr_change row')
      \<and> (row' = row \<or> lr_revision row < lr_revision row')" by blast
  qed
qed

lemma ledger_okD:
  assumes "ledger_ok tasks db" and "db task = Some row"
  shows "row_ok task row" "task \<in> set tasks"
  using assms by (auto simp: ledger_ok_def)

lemma next_revision_Inr:
  assumes "next_revision expected = Inr r"
  shows "r = (case expected of Some n \<Rightarrow> n | None \<Rightarrow> 0) + 1"
    "(case expected of Some n \<Rightarrow> n | None \<Rightarrow> 0) < r" "1 \<le> r" "r \<le> I64_MAX"
proof -
  let ?n = "case expected of Some n \<Rightarrow> n | None \<Rightarrow> 0"
  have n: "?n \<noteq> - 1" and r: "r = ?n + 1" "r \<le> I64_MAX"
    using assms by (auto simp: next_revision_def Let_def not_less split: if_splits)
  have "1 + ?n \<noteq> 0" using n by (metis add_eq_0_iff)
  from unatSuc [OF this] have u: "unat r = Suc (unat ?n)" using r(1) by (simp add: add.commute)
  show "r = ?n + 1" "?n < r" "1 \<le> r" "r \<le> I64_MAX" using r u by (simp_all add: word_less_nat_alt word_le_nat_alt)
qed

text \<open>A save that reports success: the record follows the one of the expected revision.\<close>

lemma saved_cases:
  assumes "save_github_change tasks db expected c = Inr (db', b)" and "ledger_ok tasks db"
  obtains (stale) "db' = db" "\<not> b"
  | (first) r where "b" "db (gi_task_id (gc_identity c)) = None" "gi_task_id (gc_identity c) \<in> set tasks"
      "follows c None" "1 \<le> r" "r \<le> I64_MAX"
      "\<And>t row. db t = Some row \<Longrightarrow>
         \<not> (lr_repository_id row = gi_repository_id (gc_identity c) \<and> lr_branch row = gi_branch (gc_identity c))"
      "db' = db(gi_task_id (gc_identity c) \<mapsto> \<lparr>lr_revision = r, lr_identity = gc_identity c, lr_change = c,
         lr_repository_id = gi_repository_id (gc_identity c), lr_branch = gi_branch (gc_identity c)\<rparr>)"
  | (later) row r where "b" "db (gi_task_id (gc_identity c)) = Some row" "follows c (Some (lr_change row))"
      "lr_revision row < r" "1 \<le> r" "r \<le> I64_MAX"
      "db' = db(gi_task_id (gc_identity c) \<mapsto> row\<lparr>lr_revision := r, lr_change := c\<rparr>)"
proof (cases "db (gi_task_id (gc_identity c))")
  case None
  then show thesis
  proof (cases "expected = None")
    case True
    with None assms(1) obtain r where r: "follows c None" "next_revision None = Inr r"
      "upsert tasks db r c = Inr db'" "b"
      by (auto simp: save_github_change_def load_change_def result_split split: if_splits)
    have "\<not> (lr_repository_id row = gi_repository_id (gc_identity c) \<and> lr_branch row = gi_branch (gc_identity c))"
      if "db t = Some row" for t row
      using r(3) None ledger_okD(2) [OF assms(2) that] that
      by (fastforce simp: upsert_def Let_def list_ex_iff split: if_splits)
    then show thesis using first [OF r(4) None _ r(1)] r(3) None next_revision_Inr(3,4) [OF r(2)]
      by (auto simp: upsert_def Let_def split: if_splits)
  next
    case False
    with None assms(1) stale show thesis by (auto simp: save_github_change_def load_change_def split: if_splits)
  qed
next
  case (Some row)
  then have load: "load_change db (gi_task_id (gc_identity c)) = Inr (Some (lr_revision row, lr_change row))"
    using ledger_okD(1) [OF assms(2) Some] by (simp add: load_change_def row_ok_def Let_def)
  show thesis
  proof (cases "expected = Some (lr_revision row)")
    case True
    with load assms(1) obtain r where r: "follows c (Some (lr_change row))" "next_revision expected = Inr r"
      "upsert tasks db r c = Inr db'" "b"
      by (auto simp: save_github_change_def result_split split: if_splits)
    show thesis using later [OF r(4) Some r(1)] next_revision_Inr [OF r(2)] True r(3) Some
      by (auto simp: upsert_def Let_def split: if_splits)
  next
    case False
    with load assms(1) stale show thesis by (auto simp: save_github_change_def split: if_splits)
  qed
qed

lemma save_grows:
  assumes "save_github_change tasks db expected c = Inr (db', b)" and "ledger_ok tasks db"
  shows "grown db db'"
  using assms
proof (cases rule: saved_cases)
  case stale
  then show ?thesis by simp
next
  case (first r)
  then show ?thesis by (auto simp: grown_def)
next
  case (later row r)
  then show ?thesis using follows_extends [OF later(3)] by (auto simp: grown_def)
qed

lemma save_keeps_ledger:
  assumes "save_github_change tasks db expected c = Inr (db', b)" and ok: "ledger_ok tasks db"
  shows "ledger_ok tasks db'"
  using assms
proof (cases rule: saved_cases)
  case stale
  then show ?thesis using ok by simp
next
  case (first r)
  have "row_ok (gi_task_id (gc_identity c)) (the (db' (gi_task_id (gc_identity c))))"
    using first follows_new [OF first(4)] by (simp add: row_ok_def)
  with ok first show ?thesis unfolding ledger_ok_def by (auto split: if_splits) (blast | metis)+
next
  case (later row r)
  note old = ledger_okD [OF ok later(2)]
  have same: "gc_identity c = gc_identity (lr_change row)"
    using follows_extends [OF later(3)] by (simp add: extends_def)
  have "row_ok (gi_task_id (gc_identity c)) (row\<lparr>lr_revision := r, lr_change := c\<rparr>)"
    using follows_sound [OF later(3)] old(1) later(5,6) by (simp add: row_ok_def Let_def same)
  with ok later(2,7) old(2) show ?thesis unfolding ledger_ok_def by (auto split: if_splits)
qed

lemma ledger_step_Inr:
  assumes "ledger_step tasks db w = Inr (db', bs)"
  obtains b where "save_github_change tasks db (fst w) (snd w) = Inr (db', b)"
  using assms by (cases "save_github_change tasks db (fst w) (snd w)") (auto simp: ledger_step_def)

interpretation ledger: invariant_transition "ledger_step tasks" "\<lambda>t. ledger_ok tasks t \<and> grown s t" for tasks s
  by unfold_locales (blast elim: ledger_step_Inr intro: save_keeps_ledger save_grows grown_trans)

text \<open>\<open>earlier ws task Q\<close>: before the last of the saves \<open>ws\<close> the store held a record of the task with \<open>Q\<close>.\<close>

definition earlier :: "string list \<Rightarrow> (u64 option \<times> GithubChange) list \<Rightarrow> string \<Rightarrow> (GithubChange \<Rightarrow> bool) \<Rightarrow> bool" where
  "earlier tasks ws task Q \<longleftrightarrow>
     (\<exists>pre post mid row. ws = pre @ post \<and> post \<noteq> [] \<and> accepts (ledger_step tasks) Map.empty pre mid
        \<and> mid task = Some row \<and> Q (lr_change row))"

lemma earlier_snoc: "earlier tasks ws task Q \<Longrightarrow> earlier tasks (ws @ [w]) task Q"
  unfolding earlier_def by (metis append_assoc append_is_Nil_conv)

lemma earlier_now:
  assumes "accepts (ledger_step tasks) Map.empty ws db" and "db task = Some row" and "Q (lr_change row)"
  shows "earlier tasks (ws @ [w]) task Q"
  unfolding earlier_def using assms by (intro exI [of _ ws] exI [of _ "[w]"]) auto

text \<open>What holds of a record only after a step to it that had \<open>Q\<close> before was preceded by \<open>Q\<close>.\<close>

lemma write_ahead:
  assumes run: "accepts (ledger_step tasks) Map.empty ws db"
    and new: "\<And>c. follows c None \<Longrightarrow> \<not> P c"
    and next_save: "\<And>c old. follows c (Some old) \<Longrightarrow> sound_change old \<Longrightarrow> P c \<Longrightarrow> P old \<or> Q old"
  shows "db task = Some row \<Longrightarrow> P (lr_change row) \<Longrightarrow> earlier tasks ws task Q"
  using run
proof (induction ws arbitrary: db row rule: rev_induct)
  case Nil
  then show ?case by (auto elim: accepts_nilE)
next
  case (snoc w ws)
  from snoc.prems(3) obtain mid bs where mid: "accepts (ledger_step tasks) Map.empty ws mid"
    and st: "ledger_step tasks mid w = Inr (db, bs)" by (auto elim: accepts_snocE)
  have ok: "ledger_ok tasks mid"
    using ledger.run_inv [OF mid, of Map.empty] by (simp add: ledger_ok_def)
  from st obtain b where "save_github_change tasks mid (fst w) (snd w) = Inr (db, b)" by (rule ledger_step_Inr)
  from this ok have "mid task = Some row \<or> (\<exists>old. mid task = Some old \<and> follows (lr_change row) (Some (lr_change old)))
      \<or> follows (lr_change row) None"
    by (cases rule: saved_cases) (use snoc.prems(1) in \<open>auto split: if_splits\<close>)
  then obtain old where old: "mid task = Some old" "P (lr_change old) \<or> Q (lr_change old)"
    using new next_save snoc.prems(2) ledger_okD(1) [OF ok] by (metis row_ok_def)
  then show ?case using snoc.IH [OF old(1) _ mid] earlier_snoc earlier_now [OF mid old(1)] by blast
qed

section \<open>Property\<close>

text \<open>C33: whatever any number of writers save, in any order and with whatever revisions they expect, the
  ledger of GitHub changes is sound. A task keeps its first identity, pull request number and claimed
  merge head; a claimed merge freezes the pushed heads; attempts and clean-up marks are never taken
  back, and after the clean-up nothing changes any more. A revision stands for one content, and no two
  tasks own the same branch of a repository. A head counts as pushed only after it was stored as the
  intent, and a pull request number is stored only after the attempt to create it, which comes after a
  confirmed push.\<close>

theorem ledger_is_write_ahead:
  assumes "accepts (ledger_step tasks) Map.empty ws s" and "accepts (ledger_step tasks) s later t"
  shows "ledger_ok tasks t \<and> grown s t
    \<and> (\<forall>task row h. t task = Some row \<longrightarrow> pushed_head (lr_change row) = Some h \<longrightarrow>
         earlier tasks (ws @ later) task (\<lambda>c. push_intent c = Some h))
    \<and> (\<forall>task row. t task = Some row \<longrightarrow> pull_number (lr_change row) \<noteq> None \<longrightarrow>
         earlier tasks (ws @ later) task (\<lambda>c. create_attempted c \<and> pull_number c = None \<and> pushed_head c \<noteq> None))"
proof -
  note run = accepts_append [OF assms]
  have "ledger_ok tasks s" using ledger.run_inv [OF assms(1), of Map.empty] by (simp add: ledger_ok_def)
  then have inv: "ledger_ok tasks t" "grown s t" using ledger.run_inv [OF assms(2), of s] by simp_all
  have pushed: "earlier tasks (ws @ later) task (\<lambda>c. push_intent c = Some h)"
    if "t task = Some row" "pushed_head (lr_change row) = Some h" for task row h
    using run _ _ that
  proof (rule write_ahead)
    show "\<not> pushed_head c = Some h" if "follows c None" for c using that by (auto simp: follows_def split: if_splits)
    show "pushed_head old = Some h \<or> push_intent old = Some h"
      if "follows c (Some old)" "pushed_head c = Some h" for c old
      using follows_pushed [OF that(1)] that(2) by auto
  qed
  have created: "earlier tasks (ws @ later) task (\<lambda>c. create_attempted c \<and> pull_number c = None \<and> pushed_head c \<noteq> None)"
    if "t task = Some row" "pull_number (lr_change row) \<noteq> None" for task row
    using run _ _ that
  proof (rule write_ahead)
    show "\<not> pull_number c \<noteq> None" if "follows c None" for c using that by (auto simp: follows_def split: if_splits)
    show "pull_number old \<noteq> None \<or> create_attempted old \<and> pull_number old = None \<and> pushed_head old \<noteq> None"
      if "follows c (Some old)" "sound_change old" "pull_number c \<noteq> None" for c old
      using that by (auto simp: follows_def breaks_history_def sound_change_def split: if_splits)
  qed
  from inv pushed created show ?thesis by blast
qed

text \<open>A task from its first record to the pull request.\<close>

definition sample_change :: GithubChange where
  "sample_change =
     \<lparr>gc_identity = \<lparr>gi_task_id = ''t-1'', gi_local_repo = ''/repo'', gi_repository = ''owner/repo'',
        gi_repository_id = 42, gi_base = ''main'', gi_branch = ''agend/t-1'', gi_nonce = ''n''\<rparr>,
      pull_number = None, pushed_head = None, push_intent = None, create_attempted = False,
      merge_head = None, cleanup = GithubCleanup_default\<rparr>"

definition sample_head :: string where
  "sample_head = replicate 40 (CHR ''a'')"

definition sample_saves :: "(u64 option \<times> GithubChange) list" where
  "sample_saves =
     (let c = sample_change; i = c\<lparr>push_intent := Some sample_head\<rparr>; p = c\<lparr>pushed_head := Some sample_head\<rparr>;
          a = p\<lparr>create_attempted := True\<rparr>
      in [(None, c), (Some 1, i), (Some 1, p), (Some 2, p), (Some 3, a), (Some 4, a\<lparr>pull_number := Some 7\<rparr>)])"

primrec ledger_run :: "string list \<Rightarrow> (u64 option \<times> GithubChange) list \<Rightarrow> ledger \<Rightarrow> LedgerError + ledger" where
  "ledger_run tasks [] db = Inr db"
| "ledger_run tasks (w # ws) db = and_then (ledger_step tasks db w) (\<lambda>(db', _). ledger_run tasks ws db')"

lemma ledger_run_accepts: "ledger_run tasks ws db = Inr db' \<Longrightarrow> accepts (ledger_step tasks) db ws db'"
  by (induction ws arbitrary: db) (auto simp: result_split intro: accepts_nil accepts_Cons)

theorem ledger_is_write_ahead_witness:
  "\<exists>t row. accepts (ledger_step [''t-1'']) Map.empty sample_saves t \<and> t ''t-1'' = Some row
     \<and> pull_number (lr_change row) = Some 7 \<and> ledger_ok [''t-1''] t
     \<and> earlier [''t-1''] sample_saves ''t-1'' (\<lambda>c. push_intent c = Some sample_head)"
proof -
  have "(case ledger_run [''t-1''] sample_saves Map.empty of
      Inr t \<Rightarrow> (case t ''t-1'' of
        Some row \<Rightarrow> pull_number (lr_change row) = Some 7 \<and> pushed_head (lr_change row) = Some sample_head
      | None \<Rightarrow> False)
    | Inl _ \<Rightarrow> False)" by code_simp
  then obtain t row where t: "ledger_run [''t-1''] sample_saves Map.empty = Inr t" "t ''t-1'' = Some row"
    "pull_number (lr_change row) = Some 7" "pushed_head (lr_change row) = Some sample_head"
    by (auto split: sum.splits option.splits)
  note run = ledger_run_accepts [OF t(1)]
  from ledger_is_write_ahead [OF accepts_nil run] t run show ?thesis by auto
qed

end
