(* ===== verification/Client_Protocol.thy ===== *)
theory Client_Protocol
  imports Rust_Text
begin

text \<open>
  The pure parts of the wire protocol: version negotiation (\<^verbatim>\<open>crates/agend-core/src/protocol.rs\<close>, with the version
  lists of \<^verbatim>\<open>protocol/client.rs\<close> and \<^verbatim>\<open>protocol/holder.rs\<close>), the texts of tickets and of message ids
  (\<^verbatim>\<open>protocol/client.rs\<close>) and when an ask takes a reply (\<^verbatim>\<open>protocol/ask.rs\<close>).
\<close>

section \<open>Versions\<close>

datatype ProtocolVersion = ProtocolVersion (major: u16) (minor: u16)

text \<open>The derived order: the major version first.\<close>

instantiation ProtocolVersion :: linorder
begin

definition less_eq_ProtocolVersion :: "ProtocolVersion \<Rightarrow> ProtocolVersion \<Rightarrow> bool" where
  "less_eq_ProtocolVersion v w \<longleftrightarrow> major v < major w \<or> (major v = major w \<and> minor v \<le> minor w)"

definition less_ProtocolVersion :: "ProtocolVersion \<Rightarrow> ProtocolVersion \<Rightarrow> bool" where
  "less_ProtocolVersion v w \<longleftrightarrow> major v < major w \<or> (major v = major w \<and> minor v < minor w)"

instance
  by standard (auto simp: less_eq_ProtocolVersion_def less_ProtocolVersion_def intro: ProtocolVersion.expand)

end

record VersionMismatch =
  vm_protocol :: string
  vm_local :: "ProtocolVersion list"
  vm_remote :: "ProtocolVersion list"

definition shared_versions :: "ProtocolVersion list \<Rightarrow> ProtocolVersion list \<Rightarrow> ProtocolVersion list" where
  "shared_versions ours theirs =
     concat (map (\<lambda>a. List.map_filter (\<lambda>b.
       if major a = major b then Some (ProtocolVersion (major a) (min (minor a) (minor b))) else None) theirs) ours)"

definition negotiate ::
    "string \<Rightarrow> ProtocolVersion list \<Rightarrow> ProtocolVersion list \<Rightarrow> VersionMismatch + ProtocolVersion" where
  "negotiate protocol ours theirs =
     (case shared_versions ours theirs of
        [] \<Rightarrow> Inl \<lparr>vm_protocol = protocol, vm_local = ours, vm_remote = theirs\<rparr>
      | v # vs \<Rightarrow> Inr (foldl max v vs))"

definition OFFERED_VERSIONS :: "ProtocolVersion list" where
  "OFFERED_VERSIONS = map (ProtocolVersion 1) [9, 8, 7, 6, 5, 4, 3]"

definition SUPPORTED_VERSIONS :: "ProtocolVersion list" where
  "SUPPORTED_VERSIONS = [ProtocolVersion 1 3]"

definition holder_SUPPORTED_VERSIONS :: "ProtocolVersion list" where
  "holder_SUPPORTED_VERSIONS = map (ProtocolVersion 1) [3, 2, 1]"

definition negotiate_version :: "ProtocolVersion list \<Rightarrow> VersionMismatch + ProtocolVersion" where
  "negotiate_version theirs = negotiate ''client'' SUPPORTED_VERSIONS theirs"

definition holder_negotiate_version :: "ProtocolVersion list \<Rightarrow> VersionMismatch + ProtocolVersion" where
  "holder_negotiate_version theirs = negotiate ''holder'' holder_SUPPORTED_VERSIONS theirs"

section \<open>Tickets\<close>

record Ticket =
  tk_task_id :: string
  tk_stage_id :: string
  tk_attempt :: u32

text \<open>\<open>str::parse::<u32>\<close>: an optional plus sign, digits, no overflow.\<close>

definition parse_u32 :: "string \<Rightarrow> u32 option" where
  "parse_u32 s =
     (let ds = (case s of c # cs \<Rightarrow> if c = CHR ''+'' then cs else s | [] \<Rightarrow> [])
      in if ds = [] \<or> \<not> list_all is_ascii_digit ds \<or> 2 ^ 32 \<le> digits_value ds then None
         else Some (word_of_nat (digits_value ds)))"

lemma parse_u32_code [code]:
  "parse_u32 s =
     (let ds = (case s of c # cs \<Rightarrow> if c = CHR ''+'' then cs else s | [] \<Rightarrow> []); n = digits_value ds
      in if ds = [] \<or> \<not> list_all is_ascii_digit ds \<or> 4294967296 \<le> int n then None
         else Some (word_of_nat n))"
proof -
  have "(4294967296 \<le> int n) = (2 ^ 32 \<le> n)" for n by simp
  then show ?thesis by (simp only: parse_u32_def Let_def)
qed

definition Ticket_parse :: "string \<Rightarrow> Ticket option" where
  "Ticket_parse text =
     (case split_on (CHR ''/'') text of
        [task, stage, att] \<Rightarrow>
          if task = [] \<or> stage = [] then None
          else map_option (\<lambda>n. \<lparr>tk_task_id = task, tk_stage_id = stage, tk_attempt = n\<rparr>) (parse_u32 att)
      | _ \<Rightarrow> None)"

definition Ticket_to_string :: "Ticket \<Rightarrow> string" where
  "Ticket_to_string t = tk_task_id t @ ''/'' @ tk_stage_id t @ ''/'' @ show_nat (unat (tk_attempt t))"

section \<open>Message ids\<close>

definition is_uuid_v4 :: "string \<Rightarrow> bool" where
  "is_uuid_v4 ident \<longleftrightarrow>
     length ident = 36
     \<and> list_all (\<lambda>(i, b). if i \<in> {8, 13, 18, 23} then b = CHR ''-'' else is_ascii_digit b \<or> char_in 97 102 b)
         (enumerate 0 ident)
     \<and> ident ! 14 = CHR ''4'' \<and> ident ! 19 \<in> set ''89ab''"

definition hex_char :: "nat \<Rightarrow> char" where
  "hex_char n = (if n < 10 then char_of (48 + n) else char_of (87 + n))"

definition hex_byte :: "u8 \<Rightarrow> string" where
  "hex_byte x = [hex_char (unat x div 16), hex_char (unat x mod 16)]"

definition stamp_version :: "u8 list \<Rightarrow> u8 list" where
  "stamp_version b = b[6 := or (and (b ! 6) 0x0F) 0x40, 8 := or (and (b ! 8) 0x3F) 0x80]"

definition uuid_v4 :: "u8 list \<Rightarrow> string" where
  "uuid_v4 b =
     concat (map (\<lambda>(i, x). (if i \<in> {4, 6, 8, 10} then ''-'' else []) @ hex_byte x) (enumerate 0 (stamp_version b)))"

section \<open>Asks\<close>

datatype AskReply = Choice string | Text string | UnknownReply

datatype AnswerSource = Tui | Telegram | Cli | UnknownSource

datatype AskEntry = Question string string "string list" | Answer string AnswerSource AskReply
  | FollowUp string string "string list" | Resolution string string | UnknownEntry

record AskThread =
  at_ask_id :: string
  at_task_id :: "string option"
  at_entries :: "AskEntry list"

definition is_resolved :: "AskThread \<Rightarrow> bool" where
  "is_resolved th = list_ex (\<lambda>e. case e of Resolution _ _ \<Rightarrow> True | _ \<Rightarrow> False) (at_entries th)"

definition ask_options :: "AskThread \<Rightarrow> string list option" where
  "ask_options th =
     (if at_entries th = [] then None
      else case last (at_entries th) of Question _ _ os \<Rightarrow> Some os | FollowUp _ _ os \<Rightarrow> Some os | _ \<Rightarrow> None)"

definition ask_accepts :: "AskThread \<Rightarrow> AskReply \<Rightarrow> bool" where
  "ask_accepts th reply =
     (if is_resolved th then False
      else case ask_options th of
        None \<Rightarrow> False
      | Some os \<Rightarrow> (case reply of Choice opt \<Rightarrow> opt \<in> set os | Text t \<Rightarrow> trim t \<noteq> [] | UnknownReply \<Rightarrow> False))"

section \<open>Negotiation finds the best common version\<close>

lemma set_shared_versions:
  "set (shared_versions ours theirs) =
     {ProtocolVersion (major a) (min (minor a) (minor b)) |a b. a \<in> set ours \<and> b \<in> set theirs \<and> major a = major b}"
  by (auto simp: shared_versions_def List.map_filter_def image_iff) metis

lemma foldl_max:
  "foldl max v vs \<in> set (v # vs)" "w \<in> set (v # vs) \<Longrightarrow> w \<le> foldl max (v :: 'a :: linorder) vs"
proof (induction vs arbitrary: v w)
  case (Cons x vs)
  { case 1 from Cons.IH(1) [of "max v x"] show ?case by (auto simp: max_def split: if_splits)
  next
    case 2
    have "max v x \<le> foldl max (max v x) vs" by (rule Cons.IH(2)) simp
    with 2 Cons.IH(2) [of w "max v x"] show ?case by auto }
qed simp_all

lemma negotiate_cases:
  obtains (agreed) v where "negotiate p ours theirs = Inr v" "v \<in> set (shared_versions ours theirs)"
      "\<And>w. w \<in> set (shared_versions ours theirs) \<Longrightarrow> w \<le> v"
  | (none) "negotiate p ours theirs = Inl \<lparr>vm_protocol = p, vm_local = ours, vm_remote = theirs\<rparr>"
      "shared_versions ours theirs = []"
proof (cases "shared_versions ours theirs")
  case Nil
  with none show thesis by (simp add: negotiate_def)
next
  case (Cons v vs)
  then show thesis using agreed foldl_max [where v = v and vs = vs] by (auto simp: negotiate_def)
qed

lemma shared_versions_swap: "set (shared_versions ours theirs) = set (shared_versions theirs ours)"
  unfolding set_shared_versions by auto (metis min.commute)+

text \<open>Both peers compute the same version, whoever asks.\<close>

lemma negotiate_symmetric: "negotiate p ours theirs = Inr v \<longleftrightarrow> negotiate q theirs ours = Inr v"
  by (cases p ours theirs rule: negotiate_cases; cases q theirs ours rule: negotiate_cases)
    (use shared_versions_swap [of ours theirs] in \<open>auto intro: antisym\<close>)

section \<open>Tickets round trip\<close>

lemma digit_char_props:
  assumes "d < 10"
  shows "is_ascii_digit (digit_char d)" "digit_value (digit_char d) = d" "digit_char d \<notin> set ''/+''"
proof -
  have "of_char (digit_char d) = 48 + d" using assms by (simp add: digit_char_def)
  then show "is_ascii_digit (digit_char d)" "digit_value (digit_char d) = d" "digit_char d \<notin> set ''/+''"
    using assms by (auto simp: is_ascii_digit_def char_in_def digit_value_def)
qed

lemma digits_value_snoc: "digits_value (s @ [c]) = digits_value s * 10 + digit_value c"
  by (simp add: digits_value_def)

lemma show_nat_digits:
  "show_nat n \<noteq> []" "list_all is_ascii_digit (show_nat n)" "digits_value (show_nat n) = n"
  "set (show_nat n) \<inter> set ''/+'' = {}"
proof (induction n rule: show_nat.induct)
  case (1 n)
  { case 1 show ?case by (subst show_nat.simps) simp
  next
    case 2 show ?case using "1.IH"(2) digit_char_props(1) by (subst show_nat.simps) simp
  next
    case 3 show ?case
    proof (cases "n < 10")
      case True
      then show ?thesis using digit_char_props(2) by (subst show_nat.simps) (simp add: digits_value_def)
    next
      case False
      then show ?thesis using "1.IH"(3) digit_char_props(2) [of "n mod 10"]
        by (subst show_nat.simps) (simp add: digits_value_snoc)
    qed
  next
    case 4 show ?case
      using "1.IH"(4) digit_char_props(3) [of n] digit_char_props(3) [of "n mod 10"]
      by (subst show_nat.simps) auto }
qed

lemma parse_show_u32: "parse_u32 (show_nat (unat n)) = Some n"
proof -
  obtain c cs where s: "show_nat (unat n) = c # cs" using show_nat_digits(1) by (meson neq_Nil_conv)
  have "c \<noteq> CHR ''+''" using show_nat_digits(4) [of "unat n"] unfolding s by auto
  then show ?thesis using show_nat_digits(2,3) [of "unat n"] unsigned_less [of n, where ?'a = nat] unfolding s
    by (simp add: parse_u32_def)
qed

lemma split_on_plain: "c \<notin> set s \<Longrightarrow> split_on c s = [s]"
  by (induction s) auto

definition part_ok :: "string \<Rightarrow> bool" where
  "part_ok s \<longleftrightarrow> s \<noteq> [] \<and> CHR ''/'' \<notin> set s"

text \<open>C38: a ticket survives its text. Every ticket whose task and stage are non-empty and contain no
  slash is read back exactly from what is printed in the dispatch message, and the texts that are read
  as a ticket are exactly the three slash-free parts with a non-empty task, a non-empty stage and a
  32-bit number; so two different such tickets never print the same text.\<close>

theorem ticket_round_trip:
  "(part_ok (tk_task_id t) \<and> part_ok (tk_stage_id t) \<longleftrightarrow> Ticket_parse (Ticket_to_string t) = Some t)
   \<and> (Ticket_parse s = Some t \<longleftrightarrow>
        (\<exists>att. s = tk_task_id t @ ''/'' @ tk_stage_id t @ ''/'' @ att \<and> part_ok (tk_task_id t)
           \<and> part_ok (tk_stage_id t) \<and> CHR ''/'' \<notin> set att \<and> parse_u32 att = Some (tk_attempt t)))"
  (is "?A \<and> ?B")
proof -
  have parse: "Ticket_parse s = Some t \<longleftrightarrow>
        (\<exists>att. s = tk_task_id t @ ''/'' @ tk_stage_id t @ ''/'' @ att \<and> part_ok (tk_task_id t)
           \<and> part_ok (tk_stage_id t) \<and> CHR ''/'' \<notin> set att \<and> parse_u32 att = Some (tk_attempt t))" for s
  proof
    assume p: "Ticket_parse s = Some t"
    then obtain a b att where sp: "split_on (CHR ''/'') s = [a, b, att]"
      unfolding Ticket_parse_def by (auto split: list.splits)
    with p have t: "tk_task_id t = a" "tk_stage_id t = b" "a \<noteq> []" "b \<noteq> []" "parse_u32 att = Some (tk_attempt t)"
      unfolding Ticket_parse_def by (auto split: if_splits)
    have "s = a @ ''/'' @ b @ ''/'' @ att" using join_split_on [of "CHR ''/''" s] sp by simp
    moreover have "\<forall>p \<in> {a, b, att}. CHR ''/'' \<notin> set p" using split_on_no_sep [of _ "CHR ''/''" s] sp by auto
    ultimately show "\<exists>att. s = tk_task_id t @ ''/'' @ tk_stage_id t @ ''/'' @ att \<and> part_ok (tk_task_id t)
           \<and> part_ok (tk_stage_id t) \<and> CHR ''/'' \<notin> set att \<and> parse_u32 att = Some (tk_attempt t)"
      using t by (auto simp: part_ok_def)
  next
    assume "\<exists>att. s = tk_task_id t @ ''/'' @ tk_stage_id t @ ''/'' @ att \<and> part_ok (tk_task_id t)
           \<and> part_ok (tk_stage_id t) \<and> CHR ''/'' \<notin> set att \<and> parse_u32 att = Some (tk_attempt t)"
    then show "Ticket_parse s = Some t"
      by (auto simp: Ticket_parse_def part_ok_def split_on_snoc_no_sep split_on_plain)
  qed
  have "CHR ''/'' \<notin> set (show_nat (unat (tk_attempt t)))" using show_nat_digits(4) by auto
  then have ?A unfolding parse Ticket_to_string_def using parse_show_u32 by (auto simp: part_ok_def)
  with parse show ?thesis by blast
qed

section \<open>Generated message ids are message ids\<close>

lemma hex_char_props:
  assumes "n < 16"
  shows "is_ascii_digit (hex_char n) \<or> char_in 97 102 (hex_char n)" "of_char (hex_char n) = (if n < 10 then 48 + n else 87 + n)"
proof -
  show "of_char (hex_char n) = (if n < 10 then 48 + n else 87 + n)" using assms by (simp add: hex_char_def)
  then show "is_ascii_digit (hex_char n) \<or> char_in 97 102 (hex_char n)"
    using assms by (auto simp: is_ascii_digit_def char_in_def)
qed

lemma hex_char_inj:
  assumes "m < 16" and "n < 16"
  shows "hex_char m = hex_char n \<longleftrightarrow> m = n"
proof
  assume "hex_char m = hex_char n"
  then have "(if m < 10 then 48 + m else 87 + m) = (if n < 10 then 48 + n else 87 + n)"
    using hex_char_props(2) [OF assms(1)] hex_char_props(2) [OF assms(2)] by metis
  then show "m = n" using assms by (auto split: if_splits)
qed simp

lemma u8_div_16: "unat (x :: u8) div 16 < 16"
  using unsigned_less [of x, where ?'a = nat] by simp

lemma hex_byte_inj: "hex_byte x = hex_byte y \<longleftrightarrow> x = y"
proof
  assume "hex_byte x = hex_byte y"
  then have "unat x div 16 = unat y div 16" "unat x mod 16 = unat y mod 16"
    by (simp_all add: hex_byte_def hex_char_inj u8_div_16)
  then have "unat x = unat y" by (metis div_mult_mod_eq)
  then show "x = y" unfolding word_unat_eq_iff .
qed simp

lemma u8_high: "unat (x :: u8) div 16 = unat (drop_bit 4 x)"
  by (subst unat_drop_bit_eq) (simp add: drop_bit_eq_div)

lemma version_nibble: "unat (or (and x 0x0F) 0x40 :: u8) div 16 = 4"
proof -
  have "drop_bit 4 (or (and x 0x0F) 0x40 :: u8) = 4" by (simp add: drop_bit_or drop_bit_and)
  then show ?thesis by (simp only: u8_high) simp
qed

lemma variant_nibble: "hex_char (unat (or (and x 0x3F) 0x80 :: u8) div 16) \<in> set ''89ab''"
proof -
  let ?k = "unat (and (drop_bit 4 x) 3 :: u8)"
  have "and (drop_bit 4 x) 3 \<le> (3 :: u8)" by (rule word_and_le1)
  then have "?k \<in> {0, 1, 2, 3}" by (auto simp: word_le_nat_alt)
  moreover have "and (drop_bit 4 x) 3 = (word_of_nat ?k :: u8)" by simp
  ultimately have "and (drop_bit 4 x) 3 \<in> {0, 1, 2, 3 :: u8}" by (elim insertE) simp_all
  moreover have "drop_bit 4 (or (and x 0x3F) 0x80 :: u8) = or (and (drop_bit 4 x) 3) 8"
    by (simp add: drop_bit_or drop_bit_and)
  ultimately have "drop_bit 4 (or (and x 0x3F) 0x80 :: u8) \<in> {8, 9, 10, 11}" by auto
  then have "unat (or (and x 0x3F) 0x80 :: u8) div 16 \<in> {8, 9, 10, 11}" unfolding u8_high by auto
  moreover have "hex_char 8 \<in> set ''89ab''" "hex_char 9 \<in> set ''89ab''" "hex_char 10 \<in> set ''89ab''" "hex_char 11 \<in> set ''89ab''"
    by code_simp+
  ultimately show ?thesis by (elim insertE) (simp_all only: empty_iff)
qed

text \<open>The shape of the text: sixteen bytes in five groups.\<close>

lemma sixteen:
  assumes "length (b :: 'a list) = 16"
  obtains b0 b1 b2 b3 b4 b5 b6 b7 b8 b9 b10 b11 b12 b13 b14 b15
    where "b = [b0, b1, b2, b3, b4, b5, b6, b7, b8, b9, b10, b11, b12, b13, b14, b15]"
  using assms by (auto simp: numeral_eq_Suc length_Suc_conv)

lemma hex_byte_chars:
  "hex_byte x = [hex_char (unat x div 16), hex_char (unat x mod 16)]"
  "is_ascii_digit (hex_char (unat (x :: u8) div 16)) \<or> char_in 97 102 (hex_char (unat x div 16))"
  "is_ascii_digit (hex_char (unat (x :: u8) mod 16)) \<or> char_in 97 102 (hex_char (unat x mod 16))"
  using hex_char_props(1) [OF u8_div_16] hex_char_props(1) [of "unat x mod 16"] by (simp_all add: hex_byte_def)

lemma uuid_groups:
  "uuid_v4 [b0, b1, b2, b3, b4, b5, b6, b7, b8, b9, b10, b11, b12, b13, b14, b15] =
     hex_byte b0 @ hex_byte b1 @ hex_byte b2 @ hex_byte b3 @ ''-'' @ hex_byte b4 @ hex_byte b5 @ ''-''
     @ hex_byte (or (and b6 0x0F) 0x40) @ hex_byte b7 @ ''-'' @ hex_byte (or (and b8 0x3F) 0x80) @ hex_byte b9 @ ''-''
     @ hex_byte b10 @ hex_byte b11 @ hex_byte b12 @ hex_byte b13 @ hex_byte b14 @ hex_byte b15"
  by (simp add: uuid_v4_def stamp_version_def)

lemma hex_char_4: "hex_char 4 = CHR ''4''" "is_ascii_digit (CHR ''4'')"
  by code_simp+

lemma uuid_v4_is_uuid:
  assumes "length b = 16"
  shows "is_uuid_v4 (uuid_v4 b)"
proof -
  obtain b0 b1 b2 b3 b4 b5 b6 b7 b8 b9 b10 b11 b12 b13 b14 b15
    where b: "b = [b0, b1, b2, b3, b4, b5, b6, b7, b8, b9, b10, b11, b12, b13, b14, b15]"
    using assms by (rule sixteen)
  show ?thesis unfolding b uuid_groups is_uuid_v4_def
    using hex_byte_chars(2,3) variant_nibble [of b8]
    by (simp add: hex_byte_chars(1) version_nibble hex_char_4 del: set_simps)
qed

lemma uuid_v4_inj:
  assumes "length a = 16" and "length b = 16"
  shows "uuid_v4 a = uuid_v4 b \<longleftrightarrow> stamp_version a = stamp_version b"
proof -
  obtain a0 a1 a2 a3 a4 a5 a6 a7 a8 a9 a10 a11 a12 a13 a14 a15
    where a: "a = [a0, a1, a2, a3, a4, a5, a6, a7, a8, a9, a10, a11, a12, a13, a14, a15]"
    using assms(1) by (rule sixteen)
  obtain b0 b1 b2 b3 b4 b5 b6 b7 b8 b9 b10 b11 b12 b13 b14 b15
    where b: "b = [b0, b1, b2, b3, b4, b5, b6, b7, b8, b9, b10, b11, b12, b13, b14, b15]"
    using assms(2) by (rule sixteen)
  have len: "length (hex_byte x) = 2" for x by (simp add: hex_byte_def)
  show ?thesis unfolding a b uuid_groups by (simp add: hex_byte_inj len stamp_version_def)
qed

end
