(* ===== verification/Task_Store.thy ===== *)
theory Task_Store
  imports Pipeline_Snapshot Task_Relations Assignment Agent_Policies Github_Ledger Client_Protocol
begin

text \<open>
  The tables of the daemon that the pipeline writes, \<^verbatim>\<open>crates/agend-daemon/src/store.rs\<close>, \<^verbatim>\<open>store/task_row.rs\<close>,
  \<^verbatim>\<open>store/pipeline.rs\<close> and \<^verbatim>\<open>store/messages.rs\<close>, with the records of \<^verbatim>\<open>agend-core/src/runtime_records.rs\<close>. Rows
  are kept in the order of insertion, and the readers sort them by key. Columns with an encoded value hold the value; the text
  \<^verbatim>\<open>{}\<close>, which decodes to nothing, is a value of its own. A store operation is one transaction: it
  returns the new tables or an error and changes nothing.
\<close>

section \<open>Rows\<close>

datatype PipelineText = Encoded PipelineSnapshot | EmptyObject

record TaskProgress =
  pg_pipeline :: PipelineText
  pg_stage_entered :: u64
  pg_merge_intent :: "string option"
  pg_block_reason :: "string option"

record TaskRow =
  tr_task :: Task
  tr_version :: u64
  tr_pipeline :: "PipelineText option"
  tr_stage_entered :: u64
  tr_merge_intent :: "string option"
  tr_block_reason :: "string option"
  tr_attention_reason :: "string option"
  tr_acknowledged :: bool
  tr_attention_revision :: u64

record Progress =
  pr_data :: TaskProgress
  pr_block_reason :: "string option"
  pr_attention_reason :: "string option"
  pr_acknowledged :: bool
  pr_attention_revision :: u64

text \<open>The detail of a stored event is a text; of a pipeline event it is the event itself and more text.\<close>

datatype EventDetail = PipelineDetail PipelineEvent "string option" | TextDetail string

record StoredEvent =
  se_id :: string
  se_occurred_at :: u64
  se_kind :: string
  se_detail :: EventDetail

record Team =
  tm_id :: string
  tm_repo :: "string option"
  tm_default_workflow :: string

record Member =
  mb_id :: string
  mb_team :: string
  mb_role :: string
  mb_delivery :: string

datatype InstanceStatus = NewInstance | RunningInstance | FailedInstance

text \<open>A row of the table of instances; a \<open>Member\<close> is a view of the same row.\<close>

record Instance =
  is_id :: string
  is_backend :: Backend
  is_status :: InstanceStatus
  is_team :: string
  is_role :: string
  is_delivery :: string

record BindingRow =
  bn_instance :: string
  bn_task :: string
  bn_kind :: string
  bn_worktree :: string
  bn_branch :: "string option"
  bn_head :: "string option"
  bn_ticket :: string
  bn_status :: string

record NewMessage =
  nm_id :: string
  nm_from :: string
  nm_to :: string
  nm_task_id :: "string option"
  nm_body :: string
  nm_level :: BusyLevel

record Message = NewMessage +
  ms_state :: DeliveryState
  ms_turn_id :: "string option"
  ms_created_at :: u64
  ms_updated_at :: u64
  ms_attempted_at :: "u64 option"

record AskRow =
  ak_instance :: string
  ak_created :: u64
  ak_thread :: AskThread

record AskTurn =
  tu_seq :: nat
  tu_ask :: string
  tu_entry :: AskEntry
  tu_delivered :: bool

record Reminder =
  rm_seq :: nat
  rm_task :: string
  rm_due :: u64

text \<open>\<open>db_turn_seq\<close> and \<open>db_reminder_seq\<close> are the last numbers that were given out.\<close>

record Db =
  db_tasks :: "TaskRow list"
  db_workflows :: "Workflow list"
  db_events :: "(string \<times> StoredEvent) list"
  db_messages :: "Message list"
  db_claude :: "string list"
  db_bindings :: "BindingRow list"
  db_teams :: "Team list"
  db_instances :: "Instance list"
  db_asks :: "AskRow list"
  db_turns :: "AskTurn list"
  db_turn_seq :: nat
  db_reminders :: "Reminder list"
  db_reminder_seq :: nat

datatype StoreError = Exists | UnknownTask | InvalidValue | ConstraintFailed

section \<open>Tasks\<close>

definition to_i64 :: "u64 \<Rightarrow> StoreError + u64" where
  "to_i64 n = (if n \<le> I64_MAX then Inr n else Inl InvalidValue)"

definition has_task :: "string \<Rightarrow> TaskRow \<Rightarrow> bool" where
  "has_task task r \<longleftrightarrow> t_id (tr_task r) = task"

definition find_task :: "Db \<Rightarrow> string \<Rightarrow> TaskRow option" where
  "find_task db task = List.find (has_task task) (db_tasks db)"

definition update_task :: "string \<Rightarrow> (TaskRow \<Rightarrow> TaskRow) \<Rightarrow> Db \<Rightarrow> Db" where
  "update_task task f db = db\<lparr>db_tasks := map (\<lambda>r. if has_task task r then f r else r) (db_tasks db)\<rparr>"

definition load_task :: "Db \<Rightarrow> string \<Rightarrow> (u64 \<times> Task) option" where
  "load_task db task = map_option (\<lambda>r. (tr_version r, tr_task r)) (find_task db task)"

definition tasks :: "Db \<Rightarrow> Task list" where
  "tasks db = sort_key t_id (map tr_task (db_tasks db))"

definition FIRST_VERSION :: u64 where
  "FIRST_VERSION = 1"

definition insert_task :: "Db \<Rightarrow> Task \<Rightarrow> StoreError + Db" where
  "insert_task db task =
     and_then (to_i64 (t_workflow_version task)) (\<lambda>_.
       if find_task db (t_id task) \<noteq> None then Inl Exists
       else Inr (db\<lparr>db_tasks := db_tasks db @
         [\<lparr>tr_task = task, tr_version = FIRST_VERSION, tr_pipeline = None, tr_stage_entered = 0,
           tr_merge_intent = None, tr_block_reason = None, tr_attention_reason = None,
           tr_acknowledged = False, tr_attention_revision = 0\<rparr>]\<rparr>))"

definition create_pipeline_task :: "Db \<Rightarrow> Task \<Rightarrow> PipelineText \<Rightarrow> u64 \<Rightarrow> StoreError + Db" where
  "create_pipeline_task db task pipeline now =
     and_then (insert_task db task) (\<lambda>db'.
       if I64_MAX < now then Inl ConstraintFailed
       else Inr (update_task (t_id task) (\<lambda>r. r\<lparr>tr_pipeline := Some pipeline, tr_stage_entered := now\<rparr>) db'))"

datatype CasResult = Written u64 | Conflict "u64 option"

definition compare_and_swap :: "Db \<Rightarrow> Task \<Rightarrow> u64 \<Rightarrow> StoreError + Db \<times> CasResult" where
  "compare_and_swap db task expected =
     (let current = map_option tr_version (find_task db (t_id task));
          conflict = Inr (db, Conflict current)
      in if I64_MAX < expected then conflict
         else if expected = I64_MAX then Inl InvalidValue
         else and_then (to_i64 (t_workflow_version task)) (\<lambda>_.
           if current = Some expected
           then Inr (update_task (t_id task) (\<lambda>r. r\<lparr>tr_task := task, tr_version := expected + 1\<rparr>) db,
                     Written (expected + 1))
           else conflict))"

definition append_event :: "Db \<Rightarrow> string \<Rightarrow> StoredEvent \<Rightarrow> StoreError + Db" where
  "append_event db task ev =
     and_then (to_i64 (se_occurred_at ev)) (\<lambda>_.
       if find_task db task = None then Inl UnknownTask
       else Inr (db\<lparr>db_events := db_events db @ [(task, ev)]\<rparr>))"

definition progress :: "Db \<Rightarrow> string \<Rightarrow> Progress option" where
  "progress db task =
     Option.bind (find_task db task) (\<lambda>r. map_option (\<lambda>text.
       \<lparr>pr_data = \<lparr>pg_pipeline = text, pg_stage_entered = tr_stage_entered r,
                   pg_merge_intent = tr_merge_intent r, pg_block_reason = tr_block_reason r\<rparr>,
        pr_block_reason = tr_block_reason r, pr_attention_reason = tr_attention_reason r,
        pr_acknowledged = tr_acknowledged r, pr_attention_revision = tr_attention_revision r\<rparr>) (tr_pipeline r))"

definition task_note :: "Db \<Rightarrow> string \<Rightarrow> string option \<Rightarrow> string option \<Rightarrow> bool \<Rightarrow> Db" where
  "task_note db task block attention ack =
     update_task task (\<lambda>r.
       r\<lparr>tr_attention_revision := tr_attention_revision r
           + (if tr_block_reason r \<noteq> block \<or> tr_attention_reason r \<noteq> attention \<or> tr_acknowledged r \<noteq> ack
              then 1 else 0),
         tr_block_reason := block, tr_attention_reason := attention, tr_acknowledged := ack\<rparr>) db"

section \<open>Messages\<close>

definition get_message :: "Db \<Rightarrow> string \<Rightarrow> Message option" where
  "get_message db ident = List.find (\<lambda>m. nm_id m = ident) (db_messages db)"

definition same_as :: "Message \<Rightarrow> NewMessage \<Rightarrow> bool" where
  "same_as m new \<longleftrightarrow> NewMessage.truncate m = new"

text \<open>The trigger on the table of messages: those for a pushed Claude instance go to its driver.\<close>

definition captured :: "Db \<Rightarrow> string \<Rightarrow> bool" where
  "captured db i = list_ex (\<lambda>x. is_id x = i \<and> is_backend x = Claude \<and> is_delivery x = ''push'') (db_instances db)"

datatype Claim = Inserted Message | Existing Message | Different Message

definition claim_message :: "Db \<Rightarrow> NewMessage \<Rightarrow> u64 \<Rightarrow> StoreError + Db \<times> Claim" where
  "claim_message db new now =
     (case get_message db (nm_id new) of
        Some found \<Rightarrow> Inr (db, if same_as found new then Existing found else Different found)
      | None \<Rightarrow>
          and_then (to_i64 now) (\<lambda>_.
            let m = NewMessage.extend new
                      (Message.fields Queued None now now None)
            in Inr (db\<lparr>db_messages := db_messages db @ [m],
                      db_claude := (if captured db (nm_to new) then db_claude db @ [nm_id new] else db_claude db)\<rparr>,
                    Inserted m)))"

definition update_message :: "string \<Rightarrow> (Message \<Rightarrow> Message) \<Rightarrow> Db \<Rightarrow> Db" where
  "update_message ident f db =
     db\<lparr>db_messages := map (\<lambda>m. if nm_id m = ident then f m else m) (db_messages db)\<rparr>"

definition advance_message :: "Db \<Rightarrow> string \<Rightarrow> DeliveryState \<Rightarrow> string option \<Rightarrow> u64 \<Rightarrow> StoreError + Db" where
  "advance_message db ident next turn_id now =
     (if ident \<in> set (db_claude db) then Inl InvalidValue
      else case get_message db ident of
        None \<Rightarrow> Inr db
      | Some m \<Rightarrow>
          if \<not> can_transition_to (ms_state m) next then Inr db
          else and_then (to_i64 now) (\<lambda>_.
            Inr (update_message ident (\<lambda>m. m\<lparr>ms_state := next, ms_turn_id := or_else turn_id (ms_turn_id m),
                                             ms_updated_at := now\<rparr>) db)))"

text \<open>The pipeline may only report what the driver of a Claude instance already recorded.\<close>

definition already_recorded :: "DeliveryState \<Rightarrow> DeliveryState \<Rightarrow> bool" where
  "already_recorded next st \<longleftrightarrow>
     next = st \<or> (next = Queued \<and> st \<in> {Sent, Confirmed, DeliveryState.Failed})
     \<or> (next = Sent \<and> st \<in> {Confirmed, DeliveryState.Failed})"

definition port_advance_message :: "Db \<Rightarrow> string \<Rightarrow> DeliveryState \<Rightarrow> string option \<Rightarrow> u64 \<Rightarrow> StoreError + Db" where
  "port_advance_message db ident next turn_id now =
     (if ident \<in> set (db_claude db)
      then case get_message db ident of
             None \<Rightarrow> Inl InvalidValue
           | Some m \<Rightarrow>
               if turn_id \<noteq> None \<or> \<not> already_recorded next (ms_state m) then Inl InvalidValue else Inr db
      else advance_message db ident next turn_id now)"

text \<open>A task result confirms the message that asked for it, unless a Claude helper acknowledges it.\<close>

definition confirm_dispatch :: "Db \<Rightarrow> string option \<Rightarrow> u64 \<Rightarrow> StoreError + Db" where
  "confirm_dispatch db confirmation now =
     (case Option.bind confirmation (get_message db) of
        None \<Rightarrow> Inr db
      | Some m \<Rightarrow>
          if ms_state m = DeliveryState.Failed then Inl InvalidValue
          else if nm_id m \<in> set (db_claude db) then Inr db
          else and_then (if ms_state m = Queued then advance_message db (nm_id m) Sent None now else Inr db) (\<lambda>db'.
            if ms_state m \<noteq> Confirmed then advance_message db' (nm_id m) Confirmed None now else Inr db'))"

definition advance_with_receipt ::
    "Db \<Rightarrow> Task \<Rightarrow> u64 \<Rightarrow> TaskProgress \<Rightarrow> StoredEvent \<Rightarrow> string option \<Rightarrow> bool \<Rightarrow> StoreError + Db \<times> CasResult" where
  "advance_with_receipt db task expected p ev confirmation clear_attention =
     and_then (compare_and_swap db task expected) (\<lambda>(db1, result).
       case result of
         Conflict _ \<Rightarrow> Inr (db, result)
       | Written _ \<Rightarrow>
           and_then (to_i64 (pg_stage_entered p)) (\<lambda>entered.
             let db2 = update_task (t_id task) (\<lambda>r.
                   r\<lparr>tr_pipeline := Some (pg_pipeline p), tr_stage_entered := entered,
                     tr_merge_intent := pg_merge_intent p, tr_block_reason := pg_block_reason p,
                     tr_attention_reason := (if clear_attention then None else tr_attention_reason r)\<rparr>) db1
             in and_then (append_event db2 (t_id task) ev) (\<lambda>db3.
                and_then (confirm_dispatch db3 confirmation (se_occurred_at ev)) (\<lambda>db4. Inr (db4, result)))))"

section \<open>Workflows\<close>

definition load_workflow :: "Db \<Rightarrow> string \<Rightarrow> u64 \<Rightarrow> Workflow option" where
  "load_workflow db wfl version =
     (if I64_MAX < version then None
      else List.find (\<lambda>w. wf_id w = wfl \<and> wf_version w = version) (db_workflows db))"

definition latest_workflow :: "Db \<Rightarrow> string \<Rightarrow> Workflow option" where
  "latest_workflow db wfl =
     (case filter (\<lambda>w. wf_id w = wfl) (db_workflows db) of
        [] \<Rightarrow> None
      | w # ws \<Rightarrow> Some (foldl (\<lambda>a b. if wf_version a < wf_version b then b else a) w ws))"

definition save_workflow :: "Db \<Rightarrow> Workflow \<Rightarrow> StoreError + Db" where
  "save_workflow db w =
     and_then (to_i64 (wf_version w)) (\<lambda>_.
       if load_workflow db (wf_id w) (wf_version w) \<noteq> None then Inl Exists
       else Inr (db\<lparr>db_workflows := db_workflows db @ [w]\<rparr>))"

section \<open>Bindings\<close>

text \<open>
  One row per instance; no two rows share a worktree. An instance keeps its row for the same task,
  kind and worktree; only ticket, status and head are updated.
\<close>

definition get_binding :: "Db \<Rightarrow> string \<Rightarrow> BindingRow option" where
  "get_binding db i = List.find (\<lambda>b. bn_instance b = i) (db_bindings db)"

definition put_binding :: "Db \<Rightarrow> BindingRow \<Rightarrow> StoreError + Db" where
  "put_binding db b =
     (case get_binding db (bn_instance b) of
        Some old \<Rightarrow>
          if bn_task old = bn_task b \<and> bn_kind old = bn_kind b \<and> bn_worktree old = bn_worktree b
          then Inr (db\<lparr>db_bindings := map (\<lambda>x. if bn_instance x = bn_instance b
                     then x\<lparr>bn_ticket := bn_ticket b, bn_status := bn_status b, bn_head := bn_head b\<rparr> else x)
                     (db_bindings db)\<rparr>)
          else Inl InvalidValue
      | None \<Rightarrow>
          if list_ex (\<lambda>x. bn_worktree x = bn_worktree b) (db_bindings db)
             \<or> \<not> list_ex (\<lambda>i. is_id i = bn_instance b) (db_instances db) \<or> find_task db (bn_task b) = None
          then Inl ConstraintFailed
          else Inr (db\<lparr>db_bindings := db_bindings db @ [b]\<rparr>))"

definition delete_binding :: "Db \<Rightarrow> string \<Rightarrow> Db" where
  "delete_binding db i = db\<lparr>db_bindings := filter (\<lambda>b. bn_instance b \<noteq> i) (db_bindings db)\<rparr>"

definition bindings :: "Db \<Rightarrow> BindingRow list" where
  "bindings db = sort_key bn_instance (db_bindings db)"

section \<open>Teams and instances\<close>

definition instances :: "Db \<Rightarrow> Instance list" where
  "instances db = sort_key is_id (db_instances db)"

definition get_instance :: "Db \<Rightarrow> string \<Rightarrow> Instance option" where
  "get_instance db i = List.find (\<lambda>x. is_id x = i) (db_instances db)"

definition members :: "Db \<Rightarrow> Member list" where
  "members db = map (\<lambda>i. \<lparr>mb_id = is_id i, mb_team = is_team i, mb_role = is_role i, mb_delivery = is_delivery i\<rparr>) (instances db)"

definition teams :: "Db \<Rightarrow> Team list" where
  "teams db = sort_key tm_id (db_teams db)"

definition add_team :: "Db \<Rightarrow> Team \<Rightarrow> StoreError + Db" where
  "add_team db t =
     (if list_ex (\<lambda>x. tm_id x = tm_id t) (db_teams db) then Inl ConstraintFailed
      else Inr (db\<lparr>db_teams := db_teams db @ [t]\<rparr>))"

definition busy_instance :: "Db \<Rightarrow> string \<Rightarrow> bool" where
  "busy_instance db i \<longleftrightarrow>
     list_ex (\<lambda>r. t_assignee (tr_task r) = Some i \<and> \<not> closed_status (t_status (tr_task r))) (db_tasks db)
     \<or> list_ex (\<lambda>b. bn_instance b = i) (db_bindings db)"

definition join_team :: "Db \<Rightarrow> string \<Rightarrow> string \<Rightarrow> string \<Rightarrow> StoreError + Db" where
  "join_team db tm i role =
     (if busy_instance db i then Inl InvalidValue
      else if \<not> list_ex (\<lambda>x. is_id x = i) (db_instances db) then Inl InvalidValue
      else if \<not> list_ex (\<lambda>x. tm_id x = tm) (db_teams db) then Inl ConstraintFailed
      else Inr (db\<lparr>db_instances := map (\<lambda>x. if is_id x = i then x\<lparr>is_team := tm, is_role := role\<rparr> else x) (db_instances db)\<rparr>))"

definition set_team_workflow :: "Db \<Rightarrow> string \<Rightarrow> string \<Rightarrow> StoreError + Db" where
  "set_team_workflow db tm wfl =
     (if \<not> list_ex (\<lambda>x. tm_id x = tm) (db_teams db) then Inl InvalidValue
      else Inr (db\<lparr>db_teams := map (\<lambda>x. if tm_id x = tm then x\<lparr>tm_default_workflow := wfl\<rparr> else x) (db_teams db)\<rparr>))"

text \<open>The union of both queries is sorted, so the smallest id is the one that is returned.\<close>

definition held_task :: "Db \<Rightarrow> string \<Rightarrow> string option" where
  "held_task db i =
     (case sort (map (\<lambda>r. t_id (tr_task r)) (filter (\<lambda>r. t_assignee (tr_task r) = Some i \<and> \<not> closed_status (t_status (tr_task r))) (db_tasks db))
                 @ map bn_task (filter (\<lambda>b. bn_instance b = i) (db_bindings db))) of
        [] \<Rightarrow> None
      | t # _ \<Rightarrow> Some t)"

section \<open>Asks and reminders\<close>

definition asks :: "Db \<Rightarrow> AskRow list" where
  "asks db = sort_key (\<lambda>r. at_ask_id (ak_thread r)) (db_asks db)"

text \<open>Only the thread of a known ask is replaced; turns beyond those already stored are appended.\<close>

definition put_ask :: "AskRow \<Rightarrow> AskRow list \<Rightarrow> AskRow list" where
  "put_ask row rows =
     (if list_ex (\<lambda>r. at_ask_id (ak_thread r) = at_ask_id (ak_thread row)) rows
      then map (\<lambda>r. if at_ask_id (ak_thread r) = at_ask_id (ak_thread row) then r\<lparr>ak_thread := ak_thread row\<rparr> else r) rows
      else rows @ [row])"

definition new_turns :: "nat \<Rightarrow> string \<Rightarrow> AskEntry list \<Rightarrow> AskTurn list" where
  "new_turns seq ident es =
     map (\<lambda>(n, e). \<lparr>tu_seq = n, tu_ask = ident, tu_entry = e, tu_delivered = False\<rparr>) (enumerate (Suc seq) es)"

definition save_ask :: "Db \<Rightarrow> AskRow \<Rightarrow> StoreError + Db" where
  "save_ask db row =
     (let ident = at_ask_id (ak_thread row);
          stored = length (filter (\<lambda>t. tu_ask t = ident) (db_turns db));
          fresh = drop stored (at_entries (ak_thread row))
      in if I64_MAX < ak_created row then Inl ConstraintFailed
         else Inr (db\<lparr>db_asks := put_ask row (db_asks db),
                      db_turns := db_turns db @ new_turns (db_turn_seq db) ident fresh,
                      db_turn_seq := db_turn_seq db + length fresh\<rparr>))"

definition turn_number :: "Db \<Rightarrow> AskTurn \<Rightarrow> nat" where
  "turn_number db t = length (filter (\<lambda>x. tu_ask x = tu_ask t \<and> tu_seq x \<le> tu_seq t) (db_turns db))"

record PendingAnswer =
  pa_seq :: nat
  pa_id :: string
  pa_instance :: string
  pa_task :: "string option"
  pa_entry :: AskEntry

fun is_answer :: "AskEntry \<Rightarrow> bool" where
  "is_answer (Answer _ _ _) = True"
| "is_answer _ = False"

definition pending_answers :: "Db \<Rightarrow> PendingAnswer list" where
  "pending_answers db =
     List.map_filter (\<lambda>t.
       if tu_delivered t \<or> \<not> is_answer (tu_entry t) then None
       else map_option (\<lambda>q.
         \<lparr>pa_seq = tu_seq t, pa_id = ''ask:'' @ tu_ask t @ ''/'' @ show_nat (turn_number db t),
          pa_instance = ak_instance q, pa_task = at_task_id (ak_thread q), pa_entry = tu_entry t\<rparr>)
         (List.find (\<lambda>q. at_ask_id (ak_thread q) = tu_ask t) (db_asks db)))
     (sort_key tu_seq (db_turns db))"

definition mark_answer_sent :: "Db \<Rightarrow> nat \<Rightarrow> Db" where
  "mark_answer_sent db seq =
     db\<lparr>db_turns := map (\<lambda>t. if tu_seq t = seq then t\<lparr>tu_delivered := True\<rparr> else t) (db_turns db)\<rparr>"

definition reminders :: "Db \<Rightarrow> Reminder list" where
  "reminders db = sort_key rm_seq (db_reminders db)"

definition add_reminder :: "Db \<Rightarrow> string \<Rightarrow> u64 \<Rightarrow> StoreError + Db" where
  "add_reminder db task due =
     and_then (to_i64 due) (\<lambda>_.
       if find_task db task = None then Inl ConstraintFailed
       else Inr (db\<lparr>db_reminders := db_reminders db @ [\<lparr>rm_seq = Suc (db_reminder_seq db), rm_task = task, rm_due = due\<rparr>],
                    db_reminder_seq := Suc (db_reminder_seq db)\<rparr>))"

definition delete_reminder :: "Db \<Rightarrow> nat \<Rightarrow> Db" where
  "delete_reminder db seq = db\<lparr>db_reminders := filter (\<lambda>r. rm_seq r \<noteq> seq) (db_reminders db)\<rparr>"

section \<open>What the store promises\<close>

lemma find_map_other:
  assumes "\<And>x. P (g x) \<longleftrightarrow> P x" and "\<And>x. P x \<Longrightarrow> g x = x"
  shows "List.find P (map g xs) = List.find P xs"
  using assms by (induction xs) auto

lemma find_map_same:
  assumes "\<And>x. P (g x) \<longleftrightarrow> P x"
  shows "List.find P (map g xs) = map_option g (List.find P xs)"
  using assms by (induction xs) auto

lemma find_update_task:
  assumes "\<And>r. t_id (tr_task (f r)) = i"
  shows "find_task (update_task i f db) j = (if j = i then map_option f (find_task db i) else find_task db j)"
proof -
  let ?g = "\<lambda>x. if has_task i x then f x else x"
  have g: "has_task j (?g x) \<longleftrightarrow> has_task j x" for x j using assms by (auto simp: has_task_def)
  show ?thesis
  proof (cases "j = i")
    case True
    have "has_task i r" if "find_task db i = Some r" for r using that by (auto simp: find_task_def find_Some_iff)
    moreover have "find_task (update_task i f db) i = map_option ?g (find_task db i)"
      using g by (simp add: find_task_def update_task_def find_map_same)
    ultimately show ?thesis using True by (cases "find_task db i") auto
  next
    case False
    have "List.find (has_task j) (map ?g (db_tasks db)) = List.find (has_task j) (db_tasks db)"
      by (rule find_map_other, rule g) (use False in \<open>auto simp: has_task_def\<close>)
    with False show ?thesis by (simp add: find_task_def update_task_def)
  qed
qed

text \<open>C12: Optimistic concurrency of task rows. A write against the version a caller read either replaces exactly that
  version by its successor, without wrapping, and leaves every other row alone, or it changes nothing at all
  and reports the version that is there; so of two writers that read the same version the second one always
  learns that it came too late and no update is lost.\<close>

theorem no_lost_update:
  assumes "compare_and_swap db t e = Inr (db1, r)"
  shows "(case r of
      Written v \<Rightarrow> (\<exists>row. find_task db (t_id t) = Some row \<and> tr_version row = e \<and> unat v = unat e + 1
        \<and> find_task db1 (t_id t) = Some (row\<lparr>tr_task := t, tr_version := v\<rparr>)
        \<and> (\<forall>i. i \<noteq> t_id t \<longrightarrow> find_task db1 i = find_task db i))
    | Conflict found \<Rightarrow> db1 = db \<and> found = map_option tr_version (find_task db (t_id t)))
    \<and> (\<forall>u v db2 r'. r = Written v \<longrightarrow> t_id u = t_id t \<longrightarrow> compare_and_swap db1 u e = Inr (db2, r') \<longrightarrow>
        db2 = db1 \<and> r' = Conflict (Some v))"
proof (cases r)
  case (Conflict found)
  with assms show ?thesis
    by (auto simp: compare_and_swap_def Let_def and_then_def to_i64_def split: if_splits)
next
  case (Written v)
  then obtain row where row: "find_task db (t_id t) = Some row" "tr_version row = e" and e: "e < I64_MAX" "v = e + 1"
    and db1: "db1 = update_task (t_id t) (\<lambda>r. r\<lparr>tr_task := t, tr_version := e + 1\<rparr>) db"
    using assms by (auto simp: compare_and_swap_def Let_def and_then_def to_i64_def not_less order_le_less split: if_splits)
  have f: "find_task db1 j = (if j = t_id t then map_option (\<lambda>r. r\<lparr>tr_task := t, tr_version := e + 1\<rparr>) (find_task db (t_id t))
      else find_task db j)" for j
    unfolding db1 by (rule find_update_task) simp
  have "unat e < unat I64_MAX" using e(1) by (simp add: word_less_nat_alt)
  also have "\<dots> < 2 ^ 64 - 1" by (simp add: I64_MAX_def)
  finally have s: "unat (e + 1) = unat e + 1" by (simp add: unat_word_ariths)
  then have ne: "e + 1 \<noteq> e" by (metis n_not_Suc_n Suc_eq_plus1)
  then show ?thesis
    using row e f s Written by (auto simp: compare_and_swap_def Let_def and_then_def to_i64_def split: if_splits)
qed

definition sample_db :: Db where
  "sample_db = \<lparr>db_tasks = [\<lparr>tr_task = Task_new ''t-1'' ''x'' ''t'' ''w'' 1, tr_version = 4, tr_pipeline = None,
       tr_stage_entered = 0, tr_merge_intent = None, tr_block_reason = None, tr_attention_reason = None,
       tr_acknowledged = False, tr_attention_revision = 0\<rparr>],
     db_workflows = [], db_events = [], db_messages = [], db_claude = [], db_bindings = [],
     db_teams = [], db_instances = [], db_asks = [], db_turns = [], db_turn_seq = 0, db_reminders = [], db_reminder_seq = 0\<rparr>"

definition swapped :: Db where
  "swapped = update_task ''t-1'' (\<lambda>r. r\<lparr>tr_task := Task_new ''t-1'' ''y'' ''t'' ''w'' 1, tr_version := 5\<rparr>) sample_db"

theorem no_lost_update_witness:
  "compare_and_swap sample_db (Task_new ''t-1'' ''y'' ''t'' ''w'' 1) 4 = Inr (swapped, Written 5)
    \<and> compare_and_swap swapped (Task_new ''t-1'' ''z'' ''t'' ''w'' 1) 4 = Inr (swapped, Conflict (Some 5))"
proof -
  have a: "compare_and_swap sample_db (Task_new ''t-1'' ''y'' ''t'' ''w'' 1) 4 = Inr (swapped, Written 5)"
    by code_simp
  have "compare_and_swap swapped (Task_new ''t-1'' ''z'' ''t'' ''w'' 1) 4 \<noteq> Inl x" for x
    by (cases x) code_simp+
  then obtain db2 r where b: "compare_and_swap swapped (Task_new ''t-1'' ''z'' ''t'' ''w'' 1) 4 = Inr (db2, r)"
    by (metis old.sum.exhaust surj_pair)
  have "t_id (Task_new ''t-1'' ''z'' ''t'' ''w'' 1) = t_id (Task_new ''t-1'' ''y'' ''t'' ''w'' 1)" by (simp add: Task_new_def)
  with conjunct2 [OF no_lost_update [OF a]] b have "db2 = swapped \<and> r = Conflict (Some 5)" by blast
  with a b show ?thesis by simp
qed

text \<open>A message is inserted once. After an insertion every further claim of its id, whatever its content, leaves the
  tables alone and returns the stored message, as the same one or as a different one; so a dispatch that is
  sent again after a crash is never stored twice.\<close>

theorem claim_is_idempotent:
  assumes "claim_message db new now = Inr (db1, Inserted m)" and "nm_id other = nm_id new"
  shows "claim_message db1 other later = Inr (db1, if same_as m other then Existing m else Different m)
    \<and> same_as m new \<and> get_message db1 (nm_id new) = Some m \<and> ms_state m = Queued"
proof -
  have none: "get_message db (nm_id new) = None"
    and m: "m = NewMessage.extend new (Message.fields Queued None now now None)"
    and db1: "db_messages db1 = db_messages db @ [m]"
    using assms(1) by (auto simp: claim_message_def and_then_def to_i64_def Let_def split: option.splits if_splits)
  have id: "nm_id m = nm_id new" by (simp add: m NewMessage.defs Message.defs)
  have "List.find P (xs @ [y]) = Some y" if "List.find P xs = None" "P y" for P xs and y :: Message
    using that by (induction xs) (auto split: if_splits)
  then have "get_message db1 (nm_id new) = Some m"
    using none id unfolding get_message_def db1 by simp
  then show ?thesis using assms(2) by (simp add: claim_message_def same_as_def m NewMessage.defs Message.defs)
qed

theorem claim_is_idempotent_witness:
  "\<exists>db m. claim_message sample_db \<lparr>nm_id = ''a'', nm_from = ''f'', nm_to = ''g'', nm_task_id = None, nm_body = ''b'', nm_level = BusyLevel.Queue\<rparr> 7
      = Inr (db, Inserted m)
    \<and> claim_message db \<lparr>nm_id = ''a'', nm_from = ''f'', nm_to = ''g'', nm_task_id = None, nm_body = ''c'', nm_level = BusyLevel.Queue\<rparr> 9
      = Inr (db, Different m)"
proof -
  let ?new = "\<lambda>b. \<lparr>nm_id = ''a'', nm_from = ''f'', nm_to = ''g'', nm_task_id = None, nm_body = b, nm_level = BusyLevel.Queue\<rparr>"
  have "\<exists>db m. claim_message sample_db (?new ''b'') 7 = Inr (db, Inserted m)"
    by (simp add: claim_message_def get_message_def sample_db_def and_then_def to_i64_def I64_MAX_def captured_def Let_def)
  then obtain db m where c: "claim_message sample_db (?new ''b'') 7 = Inr (db, Inserted m)" by blast
  from claim_is_idempotent [OF c, of "?new ''c''" 9] have i: "claim_message db (?new ''c'') 9 =
      Inr (db, if same_as m (?new ''c'') then Existing m else Different m)" "same_as m (?new ''b'')" by simp_all
  then have "\<not> same_as m (?new ''c'')" by (auto simp: same_as_def)
  with c i(1) show ?thesis by auto
qed

end
