(* ===== verification/Daemon_Ops.thy ===== *)
theory Daemon_Ops
  imports Task_Store Shim_Hooks Rust_Path
begin

text \<open>
  The operations of the pipeline engine of the daemon on its store and the outside world:
  \<^verbatim>\<open>crates/agend-daemon/src/pipeline.rs\<close>, \<^verbatim>\<open>pipeline/lifecycle.rs\<close>, \<^verbatim>\<open>pipeline/terminal.rs\<close> and \<^verbatim>\<open>bindings.rs\<close>. An
  operation takes the daemon's state and returns a result or a refusal with the state it left; work done
  before an error stays done. Every call outside (git, the forge, a driver, the clock, the
  database file) is answered by a function of a counter that grows with each call, so the same question
  may be answered differently later, and a store call may fail. The view that clients see is outside, too.
  Refusals are their codes.
\<close>

section \<open>The outside world\<close>

datatype ExecutionError = ExecBlocked string | Sandbox string | ExecFailed string

datatype MergeResult = Merged string | HeadChanged string

datatype BindingRelease = Abandoned | MergedRelease | Handoff

datatype AttentionAction = Retry | Approve | RequestChanges | Acknowledge | Abandon | UnknownAction

record ContextRecap =
  cr_goal :: string
  cr_decisions :: "string list"
  cr_asking :: string
  cr_next :: string

record AttentionRequiredData =
  ad_reason :: string
  ad_task_id :: "string option"
  ad_ask :: "AskThread option"
  ad_recap :: "ContextRecap option"
  ad_attention_id :: "string option"
  ad_unblocks :: "u32 option"
  ad_waiting_since :: "u64 option"
  ad_if_ignored :: "string option"
  ad_actions :: "AttentionAction list"
  ad_instance_id :: "string option"

definition same_attention :: "AttentionRequiredData \<Rightarrow> AttentionRequiredData \<Rightarrow> bool" where
  "same_attention a b =
     (if (case ad_attention_id a of Some i \<Rightarrow> starts_with i ''instance-failed:'' | None \<Rightarrow> False) then a = b
      else a\<lparr>ad_waiting_since := None\<rparr> = b\<lparr>ad_waiting_since := None\<rparr>)"

record Env =
  ev_home :: string
  ev_store_fails :: "nat \<Rightarrow> bool"
  ev_now :: "nat \<Rightarrow> u64"
  ev_new_id :: "nat \<Rightarrow> string option"
  ev_head :: "nat \<Rightarrow> string \<Rightarrow> string \<Rightarrow> string option"
  ev_patch_id :: "nat \<Rightarrow> string \<Rightarrow> string \<Rightarrow> string option"
  ev_ancestor :: "nat \<Rightarrow> string \<Rightarrow> string \<Rightarrow> string \<Rightarrow> bool option"
  ev_exists :: "nat \<Rightarrow> string \<Rightarrow> bool"
  ev_ensure :: "nat \<Rightarrow> string \<Rightarrow> BindingRow \<Rightarrow> bool"
  ev_release :: "nat \<Rightarrow> string \<Rightarrow> BindingRow \<Rightarrow> BindingRelease \<Rightarrow> string option option"
  ev_submit :: "nat \<Rightarrow> string \<Rightarrow> string \<Rightarrow> string \<Rightarrow> ExecutionError + string option \<times> string"
  ev_find_merge :: "nat \<Rightarrow> string \<Rightarrow> string \<Rightarrow> string \<Rightarrow> string \<Rightarrow> string + bool"
  ev_prepare_main :: "nat \<Rightarrow> string \<Rightarrow> string \<Rightarrow> string + string"
  ev_clean :: "nat \<Rightarrow> string \<Rightarrow> bool option"
  ev_rebase :: "nat \<Rightarrow> string \<Rightarrow> bool"
  ev_worktree_head :: "nat \<Rightarrow> string \<Rightarrow> string option"
  ev_merge :: "nat \<Rightarrow> string \<Rightarrow> string \<Rightarrow> string \<Rightarrow> ExecutionError + MergeResult"
  ev_cleanup_remote :: "nat \<Rightarrow> string \<Rightarrow> string \<Rightarrow> bool \<Rightarrow> string + unit"
  ev_deliver :: "nat \<Rightarrow> string \<Rightarrow> string \<Rightarrow> (DeliveryState \<times> string option) option"
  ev_git_version :: "nat \<Rightarrow> string \<Rightarrow> string option"
  ev_main_exists :: "nat \<Rightarrow> string \<Rightarrow> bool"
  ev_canonical :: "nat \<Rightarrow> string \<Rightarrow> string option"
  ev_projections :: "nat \<Rightarrow> bool"
  ev_orphans :: "nat \<Rightarrow> bool"
  ev_attention :: "nat \<Rightarrow> string \<Rightarrow> AttentionRequiredData option"
  ev_toml :: "string \<Rightarrow> Workflow option"
  ev_show_toml :: "Workflow \<Rightarrow> string option"
  ev_turn_json :: "AskEntry \<Rightarrow> string"

text \<open>
  What the daemon started in the background: a timer, a check, or an event that it sent to its own queue.
\<close>

datatype Spawned = SentEvent string PipelineEvent | Timer string string u32 u64 | CheckRun string string u32 "string option" string u64

record Daemon =
  dm_db :: Db
  dm_git :: bool
  dm_running :: "string list"
  dm_timers :: "string list"
  dm_last_day :: u64
  dm_spawned :: "Spawned list"
  dm_tick :: nat

type_synonym DaemonRefusal = string

type_synonym 'a op = "Daemon \<Rightarrow> (DaemonRefusal + 'a) \<times> Daemon"

definition ret :: "'a \<Rightarrow> 'a op" where
  "ret x d = (Inr x, d)"

definition refuse :: "DaemonRefusal \<Rightarrow> 'a op" where
  "refuse e d = (Inl e, d)"

definition bind_op :: "'a op \<Rightarrow> ('a \<Rightarrow> 'b op) \<Rightarrow> 'b op" where
  "bind_op m f d = (case m d of (Inl e, d') \<Rightarrow> (Inl e, d') | (Inr x, d') \<Rightarrow> f x d')"

text \<open>The result of an operation as a value, for a caller that goes on after an error.\<close>

definition try_op :: "'a op \<Rightarrow> (DaemonRefusal + 'a) op" where
  "try_op m d = (case m d of (r, d') \<Rightarrow> (Inr r, d'))"

primrec for_each :: "('a \<Rightarrow> unit op) \<Rightarrow> 'a list \<Rightarrow> unit op" where
  "for_each f [] = ret ()"
| "for_each f (x # xs) = bind_op (f x) (\<lambda>_. for_each f xs)"

definition modify :: "(Daemon \<Rightarrow> Daemon) \<Rightarrow> unit op" where
  "modify f d = (Inr (), f d)"

definition gets :: "(Daemon \<Rightarrow> 'a) \<Rightarrow> 'a op" where
  "gets f d = (Inr (f d), d)"

definition ask :: "(nat \<Rightarrow> 'a) \<Rightarrow> 'a op" where
  "ask f d = (Inr (f (dm_tick d)), d\<lparr>dm_tick := Suc (dm_tick d)\<rparr>)"

definition INVALID :: DaemonRefusal where
  "INVALID = ''invalid_request''"

definition require :: "'a option \<Rightarrow> 'a op" where
  "require x = (case x of Some y \<Rightarrow> ret y | None \<Rightarrow> refuse INVALID)"

definition spawn :: "Spawned \<Rightarrow> unit op" where
  "spawn s = modify (\<lambda>d. d\<lparr>dm_spawned := dm_spawned d @ [s]\<rparr>)"

section \<open>Store calls\<close>

definition store_read :: "Env \<Rightarrow> (Db \<Rightarrow> 'a) \<Rightarrow> 'a op" where
  "store_read w f =
     bind_op (ask (ev_store_fails w)) (\<lambda>failed.
       if failed then refuse INVALID else gets (\<lambda>d. f (dm_db d)))"

definition store_write :: "Env \<Rightarrow> (Db \<Rightarrow> StoreError + Db \<times> 'a) \<Rightarrow> 'a op" where
  "store_write w f =
     bind_op (ask (ev_store_fails w)) (\<lambda>failed.
       if failed then refuse INVALID
       else (\<lambda>d. case f (dm_db d) of
               Inl _ \<Rightarrow> (Inl INVALID, d)
             | Inr (db', x) \<Rightarrow> (Inr x, d\<lparr>dm_db := db'\<rparr>)))"

definition wrote :: "(StoreError + Db) \<Rightarrow> StoreError + Db \<times> unit" where
  "wrote r = map_sum id (\<lambda>db. (db, ())) r"

definition now :: "Env \<Rightarrow> u64 op" where
  "now w = ask (ev_now w)"

definition new_id :: "Env \<Rightarrow> string op" where
  "new_id w = bind_op (ask (ev_new_id w)) require"

definition require_git :: "unit op" where
  "require_git = bind_op (gets dm_git) (\<lambda>available. if available then ret () else refuse INVALID)"

definition written :: "CasResult \<Rightarrow> bool" where
  "written r = (case r of Written _ \<Rightarrow> True | Conflict _ \<Rightarrow> False)"

definition advance_task :: "Env \<Rightarrow> Task \<Rightarrow> u64 \<Rightarrow> TaskProgress \<Rightarrow> StoredEvent \<Rightarrow> unit op" where
  "advance_task w task version p ev =
     bind_op (store_write w (\<lambda>db. advance_with_receipt db task version p ev None False)) (\<lambda>r.
       if written r then ret () else refuse INVALID)"

definition swap_task :: "Env \<Rightarrow> Task \<Rightarrow> u64 \<Rightarrow> unit op" where
  "swap_task w task version =
     bind_op (store_write w (\<lambda>db. compare_and_swap db task version)) (\<lambda>r.
       if written r then ret () else refuse INVALID)"

section \<open>Reading a task\<close>

definition closed :: "Task \<Rightarrow> bool" where
  "closed t = closed_status (t_status t)"

definition stage_unsupported :: "WorkflowStage \<Rightarrow> bool" where
  "stage_unsupported w \<longleftrightarrow>
     (case ws_stage w of Stage.Approval Human n _ \<Rightarrow> n \<noteq> 1 | _ \<Rightarrow> False)
     \<or> (case ws_stage w of Stage.Fanout _ _ \<Rightarrow> True | _ \<Rightarrow> False) \<or> ws_on_timeout w = Some TimeoutAction.Reassign
     \<or> (case ws_stage w of Stage.Command _ \<Rightarrow> ws_on_timeout w \<noteq> None | _ \<Rightarrow> False)"

definition stage_role :: "WorkflowStage \<Rightarrow> string option" where
  "stage_role w =
     (case ws_stage w of Stage.Work role _ _ \<Rightarrow> Some role | Stage.Approval (Role role) _ _ \<Rightarrow> Some role | _ \<Rightarrow> None)"

definition daemon_validate :: "Workflow \<Rightarrow> Workflow option" where
  "daemon_validate wfl =
     (if list_ex stage_unsupported (wf_stages wfl) then None
      else case validated wfl (List.map_filter stage_role (wf_stages wfl)) of Inl _ \<Rightarrow> None | Inr v \<Rightarrow> Some v)"

record Loaded =
  ld_version :: u64
  ld_task :: Task
  ld_state :: PipelineState
  ld_progress :: Progress

definition pinned_to :: "Workflow \<Rightarrow> Task \<Rightarrow> bool" where
  "pinned_to wfl t \<longleftrightarrow>
     wf_id wfl = t_workflow_id t \<and> wf_version wfl = t_workflow_version t \<and> requires_repo wfl = t_requires_repo t"

definition restore_text :: "PipelineText \<Rightarrow> Workflow \<Rightarrow> PipelineState option" where
  "restore_text text wfl =
     (case text of
        EmptyObject \<Rightarrow> None
      | Encoded snap \<Rightarrow> Option.bind (daemon_validate wfl) (\<lambda>v.
          case restore snap v of Inl _ \<Rightarrow> None | Inr st \<Rightarrow> Some st))"

definition belongs :: "string \<Rightarrow> PipelineState \<Rightarrow> bool" where
  "belongs task st \<longleftrightarrow>
     task_id st = task \<and> (case branch st of Some b \<Rightarrow> task_id_of_branch b = Some task | None \<Rightarrow> True)"

definition load_pipeline :: "Env \<Rightarrow> string \<Rightarrow> Loaded op" where
  "load_pipeline w task =
     bind_op (bind_op (store_read w (\<lambda>db. load_task db task)) require) (\<lambda>(version, t).
     bind_op (bind_op (store_read w (\<lambda>db. load_workflow db (t_workflow_id t) (t_workflow_version t))) require) (\<lambda>wfl.
       if \<not> pinned_to wfl t then refuse INVALID
       else bind_op (bind_op (store_read w (\<lambda>db. progress db task)) require) (\<lambda>p.
            bind_op (require (restore_text (pg_pipeline (pr_data p)) wfl)) (\<lambda>st.
              if belongs task st
              then ret \<lparr>ld_version = version, ld_task = t, ld_state = st, ld_progress = p\<rparr>
              else refuse INVALID))))"

definition team :: "Env \<Rightarrow> string \<Rightarrow> Team op" where
  "team w ident = bind_op (store_read w (\<lambda>db. List.find (\<lambda>t. tm_id t = ident) (teams db))) require"

definition note_task :: "Env \<Rightarrow> string \<Rightarrow> string option \<Rightarrow> unit op" where
  "note_task w task reason =
     bind_op (bind_op (store_read w (\<lambda>db. progress db task)) require) (\<lambda>p.
       store_write w (\<lambda>db. Inr (task_note db task (pr_block_reason p) reason (pr_acknowledged p), ())))"

definition ticket :: "PipelineState \<Rightarrow> string" where
  "ticket st =
     task_id st @ ''/'' @ (case current_stage st of Some s \<Rightarrow> ws_id s | None \<Rightarrow> ''done'') @ ''/'' @ show_nat (unat (attempt st))"

end
