(* ===== verification/Daemon_Lifecycle.thy ===== *)
theory Daemon_Lifecycle
  imports Daemon_Ops
begin

text \<open>
  What the daemon does for an action of the engine, \<^verbatim>\<open>crates/agend-daemon/src/pipeline/lifecycle.rs\<close>,
  \<^verbatim>\<open>pipeline/terminal.rs\<close>, \<^verbatim>\<open>pipeline/context.rs\<close> and \<^verbatim>\<open>bindings.rs\<close>: deliver messages, bind and release
  worktrees, choose and assign instances, run checks and merges, and clean up after a task. The view for
  clients and the log are left out.
\<close>

section \<open>Messages and bindings\<close>

definition deliver :: "Env \<Rightarrow> string \<Rightarrow> string \<Rightarrow> string option \<Rightarrow> string \<Rightarrow> unit op" where
  "deliver w to ident task body =
     bind_op (bind_op (store_read w (\<lambda>db. List.find (\<lambda>m. mb_id m = to) (members db))) require) (\<lambda>member.
     bind_op (now w) (\<lambda>t.
     bind_op (store_write w (\<lambda>db. claim_message db
       \<lparr>nm_id = ident, nm_from = ''daemon'', nm_to = to, nm_task_id = task, nm_body = body, nm_level = BusyLevel.Queue\<rparr> t)) (\<lambda>claim.
       case claim of
         Different _ \<Rightarrow> refuse INVALID
       | _ \<Rightarrow>
           if (case claim of Existing m \<Rightarrow> ms_state m \<in> {Sent, Confirmed} | _ \<Rightarrow> False) then ret ()
           else bind_op (if mb_delivery member = ''inbox'' then ret (Sent, None)
                         else bind_op (ask (\<lambda>n. ev_deliver w n to ident)) require) (\<lambda>(st, turn).
                bind_op (now w) (\<lambda>t.
                  store_write w (\<lambda>db. wrote (port_advance_message db ident st turn t)))))))"

definition release_binding :: "Env \<Rightarrow> string \<Rightarrow> BindingRow \<Rightarrow> BindingRelease \<Rightarrow> string option op" where
  "release_binding w repo b mode =
     bind_op (bind_op (ask (\<lambda>n. ev_release w n repo b mode)) require) (\<lambda>patch.
     bind_op (store_write w (\<lambda>db. Inr (delete_binding db (bn_instance b), ()))) (\<lambda>_. ret patch))"

definition release_mode :: "Env \<Rightarrow> BindingRow \<Rightarrow> BindingRelease \<Rightarrow> unit op" where
  "release_mode w b mode =
     bind_op (bind_op (store_read w (\<lambda>db. load_task db (bn_task b))) require) (\<lambda>(_, t).
     bind_op (team w (t_team_id t)) (\<lambda>tm.
       case (if bn_kind b \<noteq> ''review'' \<or> bn_head b \<noteq> None then tm_repo tm else None) of
         None \<Rightarrow> store_write w (\<lambda>db. Inr (delete_binding db (bn_instance b), ()))
       | Some repo \<Rightarrow>
           bind_op require_git (\<lambda>_.
           bind_op (release_binding w repo b mode) (\<lambda>patch.
             case patch of
               None \<Rightarrow> ret ()
             | Some p \<Rightarrow>
                 bind_op (now w) (\<lambda>t. store_write w (\<lambda>db. wrote (append_event db (bn_task b)
                   \<lparr>se_id = ''wip:'' @ p, se_occurred_at = t, se_kind = ''wip_archived'', se_detail = TextDetail p\<rparr>)))))))"

definition release :: "Env \<Rightarrow> BindingRow \<Rightarrow> bool \<Rightarrow> unit op" where
  "release w b merged = release_mode w b (if merged then MergedRelease else Abandoned)"

text \<open>The checks of \<open>bindings::ensure\<close>; git and the hooks answer through \<open>ev_ensure\<close>.\<close>

definition bindable :: "BindingRow \<Rightarrow> bool" where
  "bindable b \<longleftrightarrow>
     (if bn_kind b = ''work''
      then (case bn_branch b of Some br \<Rightarrow> task_id_of_branch br = Some (bn_task b) | None \<Rightarrow> False)
      else bn_head b \<noteq> None)"

definition bound_value :: "BindingRow \<Rightarrow> bool" where
  "bound_value b \<longleftrightarrow> (if bn_kind b = ''work'' then bn_branch b \<noteq> None else bn_head b \<noteq> None)"

definition ensure_binding :: "Env \<Rightarrow> string \<Rightarrow> BindingRow \<Rightarrow> unit op" where
  "ensure_binding w repo b =
     (if \<not> starts_with (components (bn_worktree b)) (components (path_join (ev_home w) ''worktrees'')) then refuse INVALID
      else bind_op (ask (\<lambda>n. ev_exists w n (bn_worktree b))) (\<lambda>exists_wt.
        if \<not> exists_wt \<and> \<not> bindable b then refuse INVALID
        else bind_op (ask (\<lambda>n. ev_ensure w n repo b)) (\<lambda>ok.
          if \<not> ok \<or> \<not> bound_value b then refuse INVALID
          else store_write w (\<lambda>db. wrote (put_binding db (b\<lparr>bn_status := ''ready''\<rparr>))))))"

section \<open>Assignment\<close>

definition stored_event :: "string \<Rightarrow> u64 \<Rightarrow> string \<Rightarrow> string \<Rightarrow> StoredEvent" where
  "stored_event ident t kd detail =
     \<lparr>se_id = ident, se_occurred_at = t, se_kind = kd, se_detail = TextDetail detail\<rparr>"

text \<open>Writes the stored row of a task again with another assignee.\<close>

definition set_assignee :: "Env \<Rightarrow> string \<Rightarrow> string option \<Rightarrow> string \<Rightarrow> string \<Rightarrow> string \<Rightarrow> Task op" where
  "set_assignee w task who ident kd detail =
     bind_op (bind_op (store_read w (\<lambda>db. load_task db task)) require) (\<lambda>(version, t).
     bind_op (bind_op (store_read w (\<lambda>db. progress db task)) require) (\<lambda>p.
     bind_op (now w) (\<lambda>time.
     bind_op (advance_task w (t\<lparr>t_assignee := who\<rparr>) version (pr_data p) (stored_event ident time kd detail)) (\<lambda>_.
       ret (t\<lparr>t_assignee := who\<rparr>)))))"

definition hand_off :: "Env \<Rightarrow> Task \<Rightarrow> PipelineState \<Rightarrow> string \<Rightarrow> Task op" where
  "hand_off w task st role =
     bind_op (store_read w bindings) (\<lambda>bs.
     bind_op (for_each (\<lambda>b. release_mode w b (if branch st \<noteq> None then Handoff else Abandoned))
                (filter (\<lambda>b. bn_task b = t_id task \<and> bn_kind b = ''work'') bs)) (\<lambda>_.
       set_assignee w (t_id task) None (''handoff:'' @ ticket st) ''role_handoff'' role))"

definition needs_hand_off :: "Member list \<Rightarrow> Task \<Rightarrow> PipelineState \<Rightarrow> string \<Rightarrow> bool \<Rightarrow> bool" where
  "needs_hand_off ms task st role review \<longleftrightarrow>
     \<not> review \<and> pending_work_reason st = None
     \<and> (case t_assignee task of
          Some holder \<Rightarrow> list_ex (\<lambda>m. mb_id m = holder \<and> mb_role m \<noteq> role) ms
        | None \<Rightarrow> False)"

definition held_by :: "Task list \<Rightarrow> BindingRow list \<Rightarrow> string \<Rightarrow> string option" where
  "held_by ts bs i =
     or_else (map_option t_id (List.find (\<lambda>t. t_assignee t = Some i \<and> \<not> closed t) ts))
       (map_option bn_task (List.find (\<lambda>b. bn_instance b = i) bs))"

definition candidates_for ::
    "Instance list \<Rightarrow> Member list \<Rightarrow> Task list \<Rightarrow> BindingRow list \<Rightarrow> Task \<Rightarrow> PipelineState \<Rightarrow> Candidate list" where
  "candidates_for insts ms ts bs task st =
     List.map_filter (\<lambda>i. map_option (\<lambda>m.
         \<lparr>c_instance_id = is_id i, c_team_id = mb_team m, c_role = mb_role m, c_backend = is_backend i,
          c_held_task = held_by ts bs (is_id i), c_ephemeral = False,
          c_usage_available = (is_id i \<notin> set (approval_reviewers st))\<rparr>)
       (List.find (\<lambda>m. mb_id m = is_id i \<and> mb_team m = t_team_id task) ms))
     (filter (\<lambda>i. is_status i = RunningInstance) insts)"

definition assignment_request :: "Instance list \<Rightarrow> Member list \<Rightarrow> Task \<Rightarrow> PipelineState \<Rightarrow> string \<Rightarrow> bool \<Rightarrow> AssignmentRequest" where
  "assignment_request insts ms task st role review =
     (let capacity = length (filter (\<lambda>m. mb_team m = t_team_id task \<and> mb_role m = role) ms);
          holder_backend = (case List.find (\<lambda>i. Some (is_id i) = t_assignee task) insts of
                              Some i \<Rightarrow> is_backend i | None \<Rightarrow> Claude)
      in \<lparr>rq_team_id = t_team_id task, rq_role = role, rq_allowed_backends = Backend_ALL, rq_available_backends = [],
          rq_role_capacity = (if capacity > 0
            then Some \<lparr>minimum_instances = 0, maximum_instances = capacity, current_instances = capacity\<rparr> else None),
          rq_purpose =
            (if review then Purpose.Review (case t_assignee task of Some h \<Rightarrow> h | None \<Rightarrow> []) holder_backend
             else case t_assignee task of
               Some holder \<Rightarrow> Rework (t_id task) holder (branch st) []
             | None \<Rightarrow> NewTask)\<rparr>)"

text \<open>One dash per character that is no ASCII letter or digit: bytes that continue a character are skipped.\<close>

definition slug :: "string \<Rightarrow> string" where
  "slug title =
     (let s = take 40 (trim_while (\<lambda>c. c = CHR ''-'')
                (map (\<lambda>c. if is_ascii_alphanumeric c then ascii_lower c else CHR ''-'')
                  (filter (\<lambda>c. \<not> char_in 128 191 c) title)))
      in if s = [] then ''task'' else s)"

fun work_product_text :: "WorkProduct option \<Rightarrow> string option \<Rightarrow> string" where
  "work_product_text (Some (ResultProduct summary out)) _ =
     ''Result:'' @ [CHR 0x0A] @ summary
     @ (case out of Some x \<Rightarrow> [CHR 0x0A] @ ''Output:'' @ [CHR 0x0A] @ x | None \<Rightarrow> [])"
| "work_product_text (Some (PlanProduct items)) _ = ''Plan:'' @ [CHR 0x0A] @ join [CHR 0x0A] items"
| "work_product_text (Some (BranchProduct br h0 p)) cur =
     ''Branch: '' @ br @ [CHR 0x0A] @ ''Head: '' @ (case cur of Some h \<Rightarrow> h | None \<Rightarrow> h0)"
| "work_product_text None _ = []"

definition dispatch_body :: "Task \<Rightarrow> PipelineState \<Rightarrow> string \<Rightarrow> bool \<Rightarrow> string" where
  "dispatch_body task st worktree review =
     (let nl = [CHR 0x0A];
          instructions = (case current_stage st of
             Some s \<Rightarrow> (case ws_stage s of Stage.Work _ ins _ \<Rightarrow> ins | _ \<Rightarrow> ''Review the committed changes'')
           | None \<Rightarrow> []);
          command = (if review then ''review approve''
             else if (case current_stage st of
                        Some s \<Rightarrow> (case ws_stage s of Stage.Work _ _ WorkOutput.Branch \<Rightarrow> True | _ \<Rightarrow> False)
                      | None \<Rightarrow> False)
             then ''done'' else ''result'')
      in ''dispatch '' @ ticket st @ nl @ ''kind: '' @ (if review then ''review'' else ''work'') @ nl
         @ ''title: '' @ t_title task @ nl @ ''worktree: '' @ worktree @ nl @ instructions @ nl
         @ work_product_text (work_product st) (current_head st) @ nl
         @ ''reason: '' @ (case pending_work_reason st of Some r \<Rightarrow> r | None \<Rightarrow> ''initial assignment'') @ nl
         @ ''next: agend '' @ command @ '' '' @ ticket st)"

definition take_task :: "Env \<Rightarrow> Task \<Rightarrow> PipelineState \<Rightarrow> bool \<Rightarrow> string \<Rightarrow> unit op" where
  "take_task w task st review who =
     (if \<not> review \<and> t_assignee task = None
      then bind_op (set_assignee w (t_id task) (Some who) (''assigned:'' @ ticket st) ''assigned'' who) (\<lambda>_. ret ())
      else ret ())"

definition dispatch_binding :: "Env \<Rightarrow> Task \<Rightarrow> PipelineState \<Rightarrow> bool \<Rightarrow> string \<Rightarrow> string \<Rightarrow> BindingRow" where
  "dispatch_binding w task st review who worktree =
     \<lparr>bn_instance = who, bn_task = t_id task, bn_kind = (if review then ''review'' else ''work''), bn_worktree = worktree,
      bn_branch = (if review then None
        else Some (case branch st of Some br \<Rightarrow> br | None \<Rightarrow> work_branch (t_id task) (slug (t_title task)))),
      bn_head = (if review then current_head st else None), bn_ticket = ticket st, bn_status = ''pending''\<rparr>"

text \<open>A review without a head has no worktree of its own.\<close>

definition headless_review :: "Task \<Rightarrow> PipelineState \<Rightarrow> string \<Rightarrow> string \<Rightarrow> BindingRow" where
  "headless_review task st who worktree =
     \<lparr>bn_instance = who, bn_task = t_id task, bn_kind = ''review'', bn_worktree = worktree,
      bn_branch = None, bn_head = None, bn_ticket = ticket st, bn_status = ''ready''\<rparr>"

definition send_dispatch :: "Env \<Rightarrow> Task \<Rightarrow> PipelineState \<Rightarrow> bool \<Rightarrow> string \<Rightarrow> string \<Rightarrow> unit op" where
  "send_dispatch w task st review who worktree =
     deliver w who (''dispatch:'' @ ticket st @ (if review then ''/'' @ who else [])) (Some (t_id task))
       (dispatch_body task st worktree review)"

text \<open>Makes the chosen instance the holder, binds its worktree and sends it the dispatch.\<close>

definition dispatch_to :: "Env \<Rightarrow> Task \<Rightarrow> PipelineState \<Rightarrow> bool \<Rightarrow> string \<Rightarrow> unit op" where
  "dispatch_to w task st review who =
     bind_op (take_task w task st review who) (\<lambda>_.
     bind_op (team w (t_team_id task)) (\<lambda>tm.
       let workspace = path_join (path_join (ev_home w) ''workspace'') who;
           managed = path_join (path_join (ev_home w) ''worktrees'') (t_id task @ (if review then ''-review'' else []));
           b = dispatch_binding w task st review who managed
       in case (if \<not> review \<or> current_head st \<noteq> None then tm_repo tm else None) of
            Some repo \<Rightarrow>
              bind_op (store_write w (\<lambda>db. wrote (put_binding db b))) (\<lambda>_.
              bind_op require_git (\<lambda>_.
              bind_op (ensure_binding w repo b) (\<lambda>_. send_dispatch w task st review who managed)))
          | None \<Rightarrow>
              bind_op (if review then store_write w (\<lambda>db. wrote (put_binding db (headless_review task st who workspace)))
                       else ret ()) (\<lambda>_. send_dispatch w task st review who workspace)))"

definition holder_waits :: "Env \<Rightarrow> Task \<Rightarrow> bool \<Rightarrow> bool op" where
  "holder_waits w task review =
     (case t_assignee task of
        Some holder \<Rightarrow>
          if review then ret False
          else bind_op (store_read w (\<lambda>db. get_instance db holder)) (\<lambda>i.
            ret (case i of Some x \<Rightarrow> is_status x \<noteq> RunningInstance | None \<Rightarrow> False))
      | None \<Rightarrow> ret False)"

definition existing_reviewer :: "BindingRow list \<Rightarrow> Task \<Rightarrow> PipelineState \<Rightarrow> bool \<Rightarrow> string option" where
  "existing_reviewer bs task st review =
     map_option bn_instance (List.find (\<lambda>b. review \<and> bn_task b = t_id task \<and> bn_kind b = ''review'' \<and> bn_ticket b = ticket st) bs)"

definition decide ::
    "Instance list \<Rightarrow> Member list \<Rightarrow> Task list \<Rightarrow> BindingRow list \<Rightarrow> Task \<Rightarrow> PipelineState \<Rightarrow> string \<Rightarrow> bool
       \<Rightarrow> AssignmentDecision" where
  "decide insts ms ts bs task st role review =
     (case existing_reviewer bs task st review of
        Some i \<Rightarrow> Assigned i
      | None \<Rightarrow> choose_decision (assignment_request insts ms task st role review) (candidates_for insts ms ts bs task st))"

text \<open>A missing role is shown to the operator, other queued tasks wait for the next wake-up.\<close>

definition follow :: "Env \<Rightarrow> Task \<Rightarrow> PipelineState \<Rightarrow> bool \<Rightarrow> AssignmentDecision \<Rightarrow> unit op" where
  "follow w task st review decision =
     (case decision of
        Assigned who \<Rightarrow> dispatch_to w task st review who
      | AskForRole _ \<Rightarrow> bind_op (store_read w (\<lambda>db. progress db (t_id task))) (\<lambda>_. ret ())
      | AssignmentDecision.Queue reason \<Rightarrow>
          if reason = NoEligibleReviewer then bind_op (store_read w (\<lambda>db. progress db (t_id task))) (\<lambda>_. ret ()) else ret ()
      | _ \<Rightarrow> ret ())"

definition assign :: "Env \<Rightarrow> Task \<Rightarrow> PipelineState \<Rightarrow> string \<Rightarrow> bool \<Rightarrow> unit op" where
  "assign w task0 st role review =
     bind_op (store_read w members) (\<lambda>ms.
     bind_op (if needs_hand_off ms task0 st role review then hand_off w task0 st role else ret task0) (\<lambda>task.
     bind_op (store_read w bindings) (\<lambda>bs.
     bind_op (holder_waits w task review) (\<lambda>waits.
       if waits then ret ()
       else bind_op (store_read w tasks) (\<lambda>ts.
            bind_op (store_read w instances) (\<lambda>insts.
              follow w task st review (decide insts ms ts bs task st role review)))))))"

section \<open>Cleaning up\<close>

definition release_all :: "Env \<Rightarrow> Task \<Rightarrow> bool \<Rightarrow> unit op" where
  "release_all w task report =
     bind_op (store_read w bindings) (\<lambda>bs.
       for_each (\<lambda>b.
         if bn_task b = t_id task
         then bind_op (try_op (release w b (t_merge_commit task \<noteq> None))) (\<lambda>r.
                case r of Inl e \<Rightarrow> if report then refuse e else ret () | Inr _ \<Rightarrow> ret ())
         else ret ()) bs)"

definition clean_remote :: "Env \<Rightarrow> Task \<Rightarrow> unit op" where
  "clean_remote w task =
     bind_op (store_read w (\<lambda>db. progress db (t_id task))) (\<lambda>p.
       if (case Option.bind p pr_attention_reason of
             Some reason \<Rightarrow> starts_with reason ''cleanup-remote:'' | None \<Rightarrow> False)
       then ret ()
       else bind_op (team w (t_team_id task)) (\<lambda>tm.
         case tm_repo tm of
           None \<Rightarrow> ret ()
         | Some repo \<Rightarrow>
             bind_op (ask (\<lambda>n. ev_cleanup_remote w n repo (t_id task) (t_merge_commit task \<noteq> None))) (\<lambda>r.
               case r of
                 Inl reason \<Rightarrow> note_task w (t_id task) (Some (''cleanup-remote:'' @ reason))
               | Inr _ \<Rightarrow> ret ())))"

definition free_assignee :: "Env \<Rightarrow> string \<Rightarrow> unit op" where
  "free_assignee w task =
     bind_op (bind_op (store_read w (\<lambda>db. load_task db task)) require) (\<lambda>(version, t).
       if t_assignee t = None then ret () else swap_task w (t\<lparr>t_assignee := None\<rparr>) version)"

definition cleanup_terminal :: "Env \<Rightarrow> bool \<Rightarrow> Task \<Rightarrow> unit op" where
  "cleanup_terminal w report task =
     (if \<not> closed task then ret ()
      else bind_op (clean_remote w task) (\<lambda>_.
           bind_op (release_all w task report) (\<lambda>_.
           bind_op (store_read w bindings) (\<lambda>bs.
             if list_ex (\<lambda>b. bn_task b = t_id task) bs then ret () else free_assignee w (t_id task)))))"

section \<open>Actions\<close>

definition add_once :: "string \<Rightarrow> string list \<Rightarrow> string list" where
  "add_once k ks = (if k \<in> set ks then ks else ks @ [k])"

definition attempt_key :: "string \<Rightarrow> string \<Rightarrow> u32 \<Rightarrow> string" where
  "attempt_key task stage att = task @ ''/'' @ stage @ ''/'' @ show_nat (unat att)"

definition saturating_add :: "u64 \<Rightarrow> u64 \<Rightarrow> u64" where
  "saturating_add a b = (if a + b < a then - 1 else a + b)"

definition schedule_timer :: "Env \<Rightarrow> Task \<Rightarrow> PipelineState \<Rightarrow> u64 \<Rightarrow> string \<Rightarrow> u32 \<Rightarrow> u64 \<Rightarrow> unit op" where
  "schedule_timer w task st since stage att timeout =
     (if (case current_stage st of Some s \<Rightarrow> stage_kind s \<in> {StageKind.Command, StageKind.Merge} | None \<Rightarrow> False)
      then ret ()
      else let k = attempt_key (t_id task) stage att in
        bind_op (gets dm_timers) (\<lambda>ks.
          if k \<in> set ks then ret ()
          else bind_op (modify (\<lambda>d. d\<lparr>dm_timers := add_once k (dm_timers d)\<rparr>)) (\<lambda>_.
               bind_op (now w) (\<lambda>t.
                 spawn (Timer (t_id task) stage att (saturating_sub (saturating_add since timeout) t))))))"

definition submit_change :: "Env \<Rightarrow> Task \<Rightarrow> PipelineState \<Rightarrow> string \<Rightarrow> u32 \<Rightarrow> string \<Rightarrow> unit op" where
  "submit_change w task st stage att forge =
     bind_op (team w (t_team_id task)) (\<lambda>tm.
     bind_op (require (tm_repo tm)) (\<lambda>repo.
     bind_op require_git (\<lambda>_.
     bind_op (ask (\<lambda>n. ev_submit w n repo forge (case branch st of Some b \<Rightarrow> b | None \<Rightarrow> []))) (\<lambda>r.
       case r of
         Inr (change, _) \<Rightarrow> spawn (SentEvent (t_id task) (Submitted stage att change))
       | Inl (ExecBlocked reason) \<Rightarrow> note_task w (t_id task) (Some (''submit-blocked:'' @ reason))
       | Inl (Sandbox reason) \<Rightarrow> spawn (SentEvent (t_id task) (StageFailed stage att reason))
       | Inl (ExecFailed reason) \<Rightarrow> spawn (SentEvent (t_id task) (StageFailed stage att reason))))))"

definition stop_check :: "string \<Rightarrow> unit op" where
  "stop_check k = modify (\<lambda>d. d\<lparr>dm_running := filter (\<lambda>x. x \<noteq> k) (dm_running d)\<rparr>)"

fun error_text :: "ExecutionError \<Rightarrow> string" where
  "error_text (ExecBlocked s) = s"
| "error_text (Sandbox s) = s"
| "error_text (ExecFailed s) = s"

definition run_checks :: "Env \<Rightarrow> Task \<Rightarrow> PipelineState \<Rightarrow> string \<Rightarrow> u32 \<Rightarrow> string \<Rightarrow> string option \<Rightarrow> u64 \<Rightarrow> unit op" where
  "run_checks w task st stage att command head timeout =
     (let k = attempt_key (t_id task) stage att; forge = forge_kind (workflow st) in
      bind_op (gets dm_running) (\<lambda>ks.
        if k \<in> set ks then ret ()
        else bind_op (modify (\<lambda>d. d\<lparr>dm_running := add_once k (dm_running d)\<rparr>)) (\<lambda>_.
             bind_op (team w (t_team_id task)) (\<lambda>tm.
             bind_op (gets dm_git) (\<lambda>git.
               case (tm_repo tm, git, head) of
                 (Some repo, True, Some h) \<Rightarrow>
                   (if forge = ''github''
                    then bind_op (ask (\<lambda>n. ev_submit w n repo forge (case branch st of Some b \<Rightarrow> b | None \<Rightarrow> []))) (\<lambda>r.
                      case r of
                        Inr (_, submitted) \<Rightarrow>
                          if submitted = h then spawn (CheckRun (t_id task) stage att head command timeout)
                          else bind_op (stop_check k) (\<lambda>_.
                            note_task w (t_id task) (Some (''checks-blocked:GitHub check head changed'')))
                      | Inl e \<Rightarrow> bind_op (stop_check k) (\<lambda>_.
                            note_task w (t_id task) (Some (''checks-blocked:'' @ error_text e))))
                    else spawn (CheckRun (t_id task) stage att head command timeout))
               | _ \<Rightarrow> bind_op (stop_check k) (\<lambda>_. refuse INVALID))))))"

text \<open>Main moved: the work branch is rebased in its worktree and the engine hears of both facts.\<close>

definition rebase_work :: "Env \<Rightarrow> string \<Rightarrow> string \<Rightarrow> string \<Rightarrow> u32 \<Rightarrow> string \<Rightarrow> unit op" where
  "rebase_work w repo task stage att head =
     bind_op (bind_op (store_read w (\<lambda>db. List.find (\<lambda>b. bn_task b = task \<and> bn_kind b = ''work'') (bindings db))) require) (\<lambda>b.
     bind_op (bind_op (ask (\<lambda>n. ev_clean w n (bn_worktree b))) require) (\<lambda>clean.
     bind_op (if clean then ask (\<lambda>n. \<not> ev_rebase w n (bn_worktree b)) else ret True) (\<lambda>conflict.
     bind_op (bind_op (ask (\<lambda>n. ev_worktree_head w n (bn_worktree b))) require) (\<lambda>rebased.
     bind_op (bind_op (ask (\<lambda>n. ev_patch_id w n repo rebased)) require) (\<lambda>patch.
     bind_op (spawn (SentEvent task (MainAdvanced rebased patch conflict))) (\<lambda>_.
       spawn (SentEvent task (MergeFailed stage att head ''main advanced''))))))))"

definition merge_head :: "Env \<Rightarrow> string \<Rightarrow> string \<Rightarrow> string \<Rightarrow> string \<Rightarrow> string \<Rightarrow> u32 \<Rightarrow> string \<Rightarrow> unit op" where
  "merge_head w repo forge task br stage att head =
     bind_op (ask (\<lambda>n. ev_merge w n repo br head)) (\<lambda>r.
       case r of
         Inr (Merged commit) \<Rightarrow> spawn (SentEvent task (MergeCompleted stage att head commit))
       | Inr (HeadChanged actual) \<Rightarrow>
           if forge = ''github''
           then note_task w task (Some (''merge-blocked:remote head moved to '' @ actual
                  @ ''; reconcile the task branch before retrying''))
           else bind_op (bind_op (ask (\<lambda>n. ev_patch_id w n repo actual)) require) (\<lambda>patch.
                bind_op (spawn (SentEvent task (CommitCreated actual patch))) (\<lambda>_.
                  spawn (SentEvent task (MergeFailed stage att head ''branch head moved''))))
       | Inl (ExecBlocked reason) \<Rightarrow> note_task w task (Some (''merge-blocked:'' @ reason))
       | Inl e \<Rightarrow> spawn (SentEvent task (MergeFailed stage att head (error_text e))))"

definition merge_change :: "Env \<Rightarrow> Task \<Rightarrow> PipelineState \<Rightarrow> string \<Rightarrow> u32 \<Rightarrow> string \<Rightarrow> unit op" where
  "merge_change w task st stage att head =
     bind_op (team w (t_team_id task)) (\<lambda>tm.
     bind_op (require (tm_repo tm)) (\<lambda>repo.
     bind_op require_git (\<lambda>_.
       let forge = forge_kind (workflow st); blocked = (\<lambda>reason. note_task w (t_id task) (Some (''merge-blocked:'' @ reason)))
       in bind_op (ask (\<lambda>n. ev_find_merge w n repo forge (t_id task) head)) (\<lambda>found.
          case found of
            Inl reason \<Rightarrow> if forge = ''github'' then blocked reason else refuse INVALID
          | Inr recovered \<Rightarrow>
              bind_op (ask (\<lambda>n. ev_prepare_main w n repo forge)) (\<lambda>prepared.
                case prepared of
                  Inl reason \<Rightarrow> blocked reason
                | Inr main \<Rightarrow>
                    bind_op (if recovered then ret True
                             else bind_op (ask (\<lambda>n. ev_ancestor w n repo main head)) require) (\<lambda>contained.
                      if \<not> contained then rebase_work w repo (t_id task) stage att head
                      else merge_head w repo forge (t_id task)
                             (case branch st of Some b \<Rightarrow> b | None \<Rightarrow> []) stage att head))))))"

definition request_review :: "Env \<Rightarrow> Task \<Rightarrow> PipelineState \<Rightarrow> unit op" where
  "request_review w task st =
     (case map_option ws_stage (current_stage st) of
        Some (Stage.Approval (Role role) _ _) \<Rightarrow> assign w task st role True
      | _ \<Rightarrow> ret ())"

text \<open>One branch per action; the fanout actions and reassignment are refused.\<close>

fun action :: "Env \<Rightarrow> Task \<Rightarrow> PipelineState \<Rightarrow> u64 \<Rightarrow> PipelineAction \<Rightarrow> unit op" where
  "action w task st since (ScheduleTimeout stage att timeout _) = schedule_timer w task st since stage att timeout"
| "action w task st since (AssignWork _ _ role) = assign w task st role False"
| "action w task st since (ReturnToWork _ _ role _) = assign w task st role False"
| "action w task st since (RequestApproval _ _ _ _ _) = request_review w task st"
| "action w task st since (Submit stage att forge) = submit_change w task st stage att forge"
| "action w task st since (RunCommand stage att command head _ _ timeout _) =
     run_checks w task st stage att command head timeout"
| "action w task st since (PipelineAction.Merge stage att head) = merge_change w task st stage att head"
| "action w task st since (TaskDone _) = cleanup_terminal w True task"
| "action w task st since (TaskCancelled _ _) = cleanup_terminal w True task"
| "action w task st since (TaskFailed _ _) = cleanup_terminal w True task"
| "action w task st since (NotifyTimeout _) = ret ()"
| "action w task st since (PipelineAction.Fanout _ _ _ _ _ _) = refuse INVALID"
| "action w task st since (CancelFanoutSiblings _ _) = refuse INVALID"
| "action w task st since (ReassignStage _) = refuse INVALID"

end
