(* ===== verification/Daemon_Engine.thy ===== *)
theory Daemon_Engine
  imports Daemon_Lifecycle
begin

text \<open>
  How the daemon takes an event to the store and acts on it, \<^verbatim>\<open>crates/agend-daemon/src/pipeline.rs\<close>,
  \<^verbatim>\<open>pipeline/transition.rs\<close>, \<^verbatim>\<open>pipeline/reconcile.rs\<close> and the wake-up of \<^verbatim>\<open>pipeline/lifecycle.rs\<close>: the new state is
  committed with compare-and-swap first, then the actions run; a failing action marks the task as failed.
  The text of a refusal, which the source keeps in the event of a failed task, is left out of that event.
\<close>

section \<open>Transitions\<close>

definition STALE_RESULT :: DaemonRefusal where
  "STALE_RESULT = ''stale_result''"

definition MERGE_IN_FLIGHT :: DaemonRefusal where
  "MERGE_IN_FLIGHT = ''merge_in_flight''"

definition PANIC :: DaemonRefusal where
  "PANIC = ''panic''"

definition fail_restore :: "Env \<Rightarrow> string \<Rightarrow> string \<Rightarrow> unit op" where
  "fail_restore w task reason =
     bind_op (bind_op (store_read w (\<lambda>db. load_task db task)) require) (\<lambda>(version, t).
     bind_op (new_id w) (\<lambda>ident.
     bind_op (now w) (\<lambda>time.
     bind_op (store_read w (\<lambda>db. progress db task)) (\<lambda>p.
     bind_op (now w) (\<lambda>time'.
       let failed = t\<lparr>t_status := TaskStatus.Failed\<rparr>;
           data = (case p of
             Some q \<Rightarrow> pr_data q
           | None \<Rightarrow> \<lparr>pg_pipeline = EmptyObject, pg_stage_entered = time', pg_merge_intent = None, pg_block_reason = None\<rparr>)
       in bind_op (advance_task w failed version data
            (stored_event (''restore-failed:'' @ ident) time ''restore_failed'' reason)) (\<lambda>_.
          cleanup_terminal w False failed))))))"

definition by_role :: "PipelineState \<Rightarrow> bool" where
  "by_role st = (case map_option ws_stage (current_stage st) of Some (Stage.Approval (Role _) _ _) \<Rightarrow> True | _ \<Rightarrow> False)"

fun confirmation_for :: "PipelineState \<Rightarrow> PipelineEvent \<Rightarrow> string option" where
  "confirmation_for st (WorkCompleted _ _ _) = Some (''dispatch:'' @ ticket st)"
| "confirmation_for st (ApprovalGranted _ _ reviewer _ _) =
     (if by_role st then Some (''dispatch:'' @ ticket st @ ''/'' @ reviewer) else None)"
| "confirmation_for st (ChangesRequested _ _ reviewer _ _) =
     (if by_role st then Some (''dispatch:'' @ ticket st @ ''/'' @ reviewer) else None)"
| "confirmation_for st _ = None"

fun task_status_of :: "PipelineStatus \<Rightarrow> TaskStatus" where
  "task_status_of PipelineStatus.Pending = TaskStatus.Open"
| "task_status_of PipelineStatus.Running = TaskStatus.Running"
| "task_status_of PipelineStatus.Done = TaskStatus.Done"
| "task_status_of PipelineStatus.Failed = TaskStatus.Failed"
| "task_status_of PipelineStatus.Cancelled = TaskStatus.Cancelled"

definition step_refusal :: "StepFailure \<Rightarrow> DaemonRefusal" where
  "step_refusal e =
     (case e of Panic \<Rightarrow> PANIC | Rejected r \<Rightarrow> if r = MergeInFlight then MERGE_IN_FLIGHT else STALE_RESULT)"

definition stage_time :: "PipelineState \<Rightarrow> PipelineState \<Rightarrow> u64 \<Rightarrow> u64 \<Rightarrow> u64" where
  "stage_time st next old time =
     (if (stage_index next, attempt next) \<noteq> (stage_index st, attempt st) then time else old)"

definition advance_pipeline :: "Env \<Rightarrow> Loaded \<Rightarrow> PipelineEvent \<Rightarrow> string option \<Rightarrow> string
    \<Rightarrow> (Task \<times> PipelineState \<times> u64 \<times> PipelineAction list) op" where
  "advance_pipeline w l ev detail ident =
     (case step (ld_state l) ev of
        Inl e \<Rightarrow> refuse (step_refusal e)
      | Inr (next, acts) \<Rightarrow>
          bind_op (now w) (\<lambda>time.
            let task = (ld_task l)\<lparr>t_status := task_status_of (status next), t_merge_commit := merge_commit next\<rparr>;
                data = pr_data (ld_progress l);
                since = stage_time (ld_state l) next (pg_stage_entered data) time;
                p = \<lparr>pg_pipeline = Encoded (snapshot next), pg_stage_entered = since,
                     pg_merge_intent = pg_merge_intent data, pg_block_reason = None\<rparr>;
                rec = \<lparr>se_id = ident, se_occurred_at = time, se_kind = ''pipeline'', se_detail = PipelineDetail ev detail\<rparr>
            in bind_op (store_write w (\<lambda>db. advance_with_receipt db task (ld_version l) p rec
                         (confirmation_for (ld_state l) ev) True)) (\<lambda>r.
                 if written r then ret (task, next, since, acts) else refuse INVALID)))"

definition obsolete_review :: "string \<Rightarrow> PipelineState \<Rightarrow> BindingRow \<Rightarrow> bool" where
  "obsolete_review task st b \<longleftrightarrow>
     bn_task b = task \<and> bn_kind b = ''review'' \<and> (bn_ticket b \<noteq> ticket st \<or> bn_instance b \<in> set (approval_reviewers st))"

definition perform :: "Env \<Rightarrow> Task \<Rightarrow> PipelineState \<Rightarrow> u64 \<Rightarrow> PipelineAction list \<Rightarrow> unit op" where
  "perform w task st since acts =
     bind_op (store_read w bindings) (\<lambda>bs.
     bind_op (for_each (\<lambda>b. release w b False) (filter (obsolete_review (t_id task) st) bs)) (\<lambda>_.
       for_each (action w task st since) acts))"

definition commit_transition :: "Env \<Rightarrow> Loaded \<Rightarrow> PipelineEvent \<Rightarrow> string option \<Rightarrow> unit op" where
  "commit_transition w l ev detail =
     bind_op (new_id w) (\<lambda>ident.
     bind_op (advance_pipeline w l ev detail ident) (\<lambda>(task, next, since, acts).
     bind_op (try_op (perform w task next since acts)) (\<lambda>r.
       case r of
         Inr _ \<Rightarrow> ret ()
       | Inl e \<Rightarrow> bind_op (fail_restore w (t_id task) ''execution failed: '') (\<lambda>_. refuse e))))"

section \<open>Events\<close>

fun is_cancel :: "PipelineEvent \<Rightarrow> bool" where
  "is_cancel (Cancel _) = True"
| "is_cancel _ = False"

fun observes_head :: "PipelineEvent \<Rightarrow> bool" where
  "observes_head Start = False"
| "observes_head (Cancel _) = False"
| "observes_head (CommitCreated _ _) = False"
| "observes_head (MainAdvanced _ _ _) = False"
| "observes_head (MergeCompleted _ _ _ _) = False"
| "observes_head _ = True"

definition head_pending :: "PipelineState \<Rightarrow> string \<Rightarrow> bool" where
  "head_pending st h =
     list_ex (\<lambda>c. case c of PendingHeadChange.CommitCreated x _ \<Rightarrow> x = h | PendingHeadChange.MainAdvanced x _ _ \<Rightarrow> x = h)
       (pending_head_changes st)"

text \<open>The head of the work branch is read before a result counts; a head nobody reported is an event of its own.\<close>

definition observe_head :: "Env \<Rightarrow> string \<Rightarrow> Loaded \<Rightarrow> Loaded op" where
  "observe_head w task l =
     (case branch (ld_state l) of
        None \<Rightarrow> ret l
      | Some br \<Rightarrow>
          bind_op (gets dm_git) (\<lambda>git.
            if \<not> git then ret l
            else bind_op (team w (t_team_id (ld_task l))) (\<lambda>tm.
              case tm_repo tm of
                None \<Rightarrow> ret l
              | Some repo \<Rightarrow>
                  bind_op (bind_op (ask (\<lambda>n. ev_head w n repo br)) require) (\<lambda>h.
                    if current_head (ld_state l) = Some h \<or> head_pending (ld_state l) h then ret l
                    else bind_op (bind_op (ask (\<lambda>n. ev_patch_id w n repo h)) require) (\<lambda>patch.
                         bind_op (commit_transition w l (CommitCreated h patch) None) (\<lambda>_.
                           load_pipeline w task))))))"

definition repo_unavailable :: "Env \<Rightarrow> Task \<Rightarrow> bool op" where
  "repo_unavailable w t =
     bind_op (gets dm_git) (\<lambda>git.
       if git then ret False else bind_op (team w (t_team_id t)) (\<lambda>tm. ret (tm_repo tm \<noteq> None)))"

definition event_detail :: "Env \<Rightarrow> string \<Rightarrow> PipelineEvent \<Rightarrow> string option \<Rightarrow> unit op" where
  "event_detail w task ev detail =
     bind_op (load_pipeline w task) (\<lambda>l.
       if t_status (ld_task l) = TaskStatus.Blocked \<and> \<not> is_cancel ev then refuse INVALID
       else if closed (ld_task l) then refuse STALE_RESULT
       else bind_op (repo_unavailable w (ld_task l)) (\<lambda>unavailable.
         if unavailable \<and> \<not> is_cancel ev then refuse INVALID
         else bind_op (if observes_head ev then observe_head w task l else ret l) (\<lambda>l'.
           commit_transition w l' ev detail)))"

section \<open>Waking up\<close>

definition outstanding :: "PipelineState \<Rightarrow> PipelineAction list op" where
  "outstanding st = (case outstanding_actions st of Inr acts \<Rightarrow> ret acts | Inl _ \<Rightarrow> refuse PANIC)"

fun is_dispatch :: "PipelineAction \<Rightarrow> bool" where
  "is_dispatch (AssignWork _ _ _) = True"
| "is_dispatch (ReturnToWork _ _ _ _) = True"
| "is_dispatch (RequestApproval _ _ _ _ _) = True"
| "is_dispatch _ = False"

fun is_work_dispatch :: "PipelineAction \<Rightarrow> bool" where
  "is_work_dispatch (AssignWork _ _ _) = True"
| "is_work_dispatch (ReturnToWork _ _ _ _) = True"
| "is_work_dispatch _ = False"

text \<open>Returns after the first action that failed, with the task marked as failed.\<close>

primrec redispatch :: "Env \<Rightarrow> Task \<Rightarrow> Loaded \<Rightarrow> PipelineAction list \<Rightarrow> unit op" where
  "redispatch w task l [] = ret ()"
| "redispatch w task l (act # acts) =
     (if \<not> is_dispatch act then redispatch w task l acts
      else bind_op (if t_assignee task = None then ret False
                    else store_read w (\<lambda>db. get_message db (''dispatch:'' @ ticket (ld_state l)) \<noteq> None)) (\<lambda>sent.
        if sent \<and> is_work_dispatch act then redispatch w task l acts
        else bind_op (try_op (action w task (ld_state l) (pg_stage_entered (pr_data (ld_progress l))) act)) (\<lambda>r.
          case r of
            Inr _ \<Rightarrow> redispatch w task l acts
          | Inl _ \<Rightarrow> fail_restore w (t_id task) ''dispatch failed: '')))"

definition active :: "Task \<Rightarrow> bool" where
  "active t \<longleftrightarrow> t_status t \<in> {TaskStatus.Running, TaskStatus.Open}"

definition wake_task :: "Env \<Rightarrow> Task \<Rightarrow> unit op" where
  "wake_task w t =
     (if \<not> active t then ret ()
      else bind_op (repo_unavailable w t) (\<lambda>unavailable.
        if unavailable then ret ()
        else bind_op (load_pipeline w (t_id t)) (\<lambda>l.
          if pr_attention_reason (ld_progress l) \<noteq> None then ret ()
          else bind_op (outstanding (ld_state l)) (redispatch w t l))))"

definition send_reminder :: "Env \<Rightarrow> Reminder \<Rightarrow> unit op" where
  "send_reminder w r =
     bind_op (now w) (\<lambda>time.
       if time < rm_due r then ret ()
       else bind_op (store_read w (\<lambda>db. load_task db (rm_task r))) (\<lambda>row.
         let task = rm_task r in
         bind_op (case row of
             Some (_, t) \<Rightarrow>
               (case t_assignee t of
                  Some holder \<Rightarrow> deliver w holder (''remind:'' @ task @ ''/'' @ show_nat (rm_seq r)) (Some task)
                                   (''Reminder for '' @ task @ '': '' @ t_title t)
                | None \<Rightarrow> ret ())
           | None \<Rightarrow> ret ()) (\<lambda>_.
         store_write w (\<lambda>db. Inr (delete_reminder db (rm_seq r), ())))))"

definition wake :: "Env \<Rightarrow> unit op" where
  "wake w =
     bind_op (bind_op (store_read w tasks) (for_each (cleanup_terminal w False))) (\<lambda>_.
     bind_op (bind_op (store_read w tasks) (for_each (wake_task w))) (\<lambda>_.
       bind_op (store_read w reminders) (for_each (send_reminder w))))"

section \<open>Reconciling and booting\<close>

definition release_or_fail :: "Env \<Rightarrow> BindingRow \<Rightarrow> unit op" where
  "release_or_fail w b =
     bind_op (try_op (release w b False)) (\<lambda>r.
       case r of Inr _ \<Rightarrow> ret () | Inl _ \<Rightarrow> fail_restore w (bn_task b) ''binding cleanup failed: '')"

definition ensure_or_fail :: "Env \<Rightarrow> string \<Rightarrow> BindingRow \<Rightarrow> unit op" where
  "ensure_or_fail w repo b =
     bind_op (try_op (ensure_binding w repo b)) (\<lambda>r.
       case r of
         Inr _ \<Rightarrow> ret ()
       | Inl _ \<Rightarrow> bind_op (fail_restore w (bn_task b) []) (\<lambda>_.
                  bind_op (try_op (release w b False)) (\<lambda>_. ret ())))"

definition reconcile_merge :: "Env \<Rightarrow> string \<Rightarrow> BindingRow \<Rightarrow> PipelineState \<Rightarrow> unit op" where
  "reconcile_merge w repo b st =
     (let forge = forge_kind (workflow st) in
      bind_op (ask (\<lambda>n. ev_find_merge w n repo forge (bn_task b) (case current_head st of Some h \<Rightarrow> h | None \<Rightarrow> []))) (\<lambda>found.
        case found of
          Inr True \<Rightarrow> ret ()
        | Inr False \<Rightarrow> ensure_or_fail w repo b
        | Inl reason \<Rightarrow>
            if forge = ''github'' then note_task w (bn_task b) (Some (''merge-blocked:'' @ reason))
            else fail_restore w (bn_task b) (''merge recovery failed: '' @ reason)))"

definition reconcile_binding :: "Env \<Rightarrow> Task list \<Rightarrow> BindingRow \<Rightarrow> unit op" where
  "reconcile_binding w ts b =
     (case List.find (\<lambda>t. t_id t = bn_task b) ts of
        None \<Rightarrow> ret ()
      | Some t \<Rightarrow>
          if closed t then cleanup_terminal w False t
          else bind_op (team w (t_team_id t)) (\<lambda>tm.
               bind_op (gets dm_git) (\<lambda>git.
                 case (tm_repo tm, git) of
                   (Some repo, True) \<Rightarrow>
                     bind_op (try_op (load_pipeline w (t_id t))) (\<lambda>r.
                       case r of
                         Inl _ \<Rightarrow> ensure_or_fail w repo b
                       | Inr l \<Rightarrow>
                           if obsolete_review (bn_task b) (ld_state l) b then release_or_fail w b
                           else if bn_kind b = ''review'' \<and> bn_head b = None then ret ()
                           else if merge_in_flight (ld_state l) then reconcile_merge w repo b (ld_state l)
                           else ensure_or_fail w repo b)
                 | _ \<Rightarrow> ret ())))"

definition free_closed :: "Env \<Rightarrow> BindingRow list \<Rightarrow> Task \<Rightarrow> unit op" where
  "free_closed w bs t =
     (if closed t \<and> t_assignee t \<noteq> None \<and> \<not> list_ex (\<lambda>b. bn_task b = t_id t) bs
      then bind_op (bind_op (store_read w (\<lambda>db. load_task db (t_id t))) require) (\<lambda>(version, row).
             swap_task w (row\<lparr>t_assignee := None\<rparr>) version)
      else ret ())"

definition succeeds :: "(nat \<Rightarrow> bool) \<Rightarrow> unit op" where
  "succeeds f = bind_op (ask f) (\<lambda>ok. if ok then ret () else refuse INVALID)"

definition reconcile_bindings :: "Env \<Rightarrow> unit op" where
  "reconcile_bindings w =
     bind_op (store_read w tasks) (\<lambda>ts.
     bind_op (bind_op (store_read w bindings) (for_each (reconcile_binding w ts))) (\<lambda>_.
     bind_op (store_read w members) (\<lambda>_.
     bind_op (store_read w bindings) (\<lambda>bs.
     bind_op (for_each (free_closed w bs) ts) (\<lambda>_.
     bind_op (store_read w teams) (\<lambda>_.
     bind_op (succeeds (ev_projections w)) (\<lambda>_. succeeds (ev_orphans w))))))))"

definition deliver_answer :: "Env \<Rightarrow> PendingAnswer \<Rightarrow> unit op" where
  "deliver_answer w a =
     bind_op (deliver w (pa_instance a) (pa_id a) (pa_task a) (ev_turn_json w (pa_entry a))) (\<lambda>_.
       store_write w (\<lambda>db. Inr (mark_answer_sent db (pa_seq a), ())))"

definition deliver_answers :: "Env \<Rightarrow> unit op" where
  "deliver_answers w = bind_op (store_read w pending_answers) (for_each (deliver_answer w))"

definition save_builtin :: "Env \<Rightarrow> Workflow \<Rightarrow> unit op" where
  "save_builtin w wfl =
     bind_op (store_read w (\<lambda>db. latest_workflow db (wf_id wfl))) (\<lambda>found.
       if found = None then store_write w (\<lambda>db. wrote (save_workflow db wfl)) else ret ())"

definition check_task :: "Env \<Rightarrow> Task \<Rightarrow> unit op" where
  "check_task w t =
     (if closed t then ret ()
      else bind_op (try_op (load_pipeline w (t_id t))) (\<lambda>r.
        case r of Inl _ \<Rightarrow> fail_restore w (t_id t) [] | Inr _ \<Rightarrow> ret ()))"

definition resume_actions :: "Env \<Rightarrow> Task \<Rightarrow> unit op" where
  "resume_actions w t =
     bind_op (load_pipeline w (t_id t)) (\<lambda>l.
       if status (ld_state l) = PipelineStatus.Pending then commit_transition w l Start None
       else bind_op (outstanding (ld_state l))
              (for_each (action w t (ld_state l) (pg_stage_entered (pr_data (ld_progress l))))))"

definition resume_task :: "Env \<Rightarrow> Task \<Rightarrow> unit op" where
  "resume_task w t =
     (if \<not> active t then ret ()
      else bind_op (repo_unavailable w t) (\<lambda>unavailable.
        if unavailable then ret ()
        else bind_op (try_op (resume_actions w t)) (\<lambda>r.
          case r of
            Inr _ \<Rightarrow> ret ()
          | Inl _ \<Rightarrow>
              bind_op (store_read w (\<lambda>db. load_task db (t_id t))) (\<lambda>row.
                if (case row of Some (_, now_t) \<Rightarrow> t_status now_t \<noteq> TaskStatus.Failed | None \<Rightarrow> False)
                then fail_restore w (t_id t) ''boot execution failed: ''
                else ret ()))))"

definition boot :: "Env \<Rightarrow> unit op" where
  "boot w =
     bind_op (for_each (save_builtin w) [builtin_code, builtin_research, builtin_planned, builtin_epic]) (\<lambda>_.
     bind_op (bind_op (store_read w tasks) (for_each (check_task w))) (\<lambda>_.
     bind_op (reconcile_bindings w) (\<lambda>_.
     bind_op (bind_op (store_read w tasks) (for_each (cleanup_terminal w False))) (\<lambda>_.
     bind_op (deliver_answers w) (\<lambda>_.
     bind_op (bind_op (store_read w tasks) (for_each (resume_task w))) (\<lambda>_.
       bind_op (store_read w reminders) (\<lambda>_. ret ())))))))"

end
