(* ===== verification/Daemon_Commands.thy ===== *)
theory Daemon_Commands
  imports Daemon_Engine
begin

text \<open>
  The commands of agents and of the operator, \<^verbatim>\<open>crates/agend-daemon/src/pipeline/commands.rs\<close>, the human's answers
  (\<open>resolve_attention\<close> of \<^verbatim>\<open>pipeline/attention.rs\<close>) and the worker's loop over its inputs (\<open>start_with\<close> of
  \<^verbatim>\<open>pipeline.rs\<close>). Events that clients only read are left out. The version of git is read with
  \<^verbatim>\<open>agend-core/src/setup.rs\<close>; reading and printing of TOML is a parameter.
\<close>

section \<open>The version of git\<close>

fun first_word :: "nat list \<Rightarrow> nat list" where
  "first_word [] = []"
| "first_word (x # xs) = (if strip_blank (x # xs) \<noteq> None then [] else x # first_word xs)"

definition split_whitespace_next :: "string \<Rightarrow> string option" where
  "split_whitespace_next s =
     (let word = first_word (trim_start_bytes (map of_char s)) in if word = [] then None else Some (map char_of word))"

definition parse_git_version :: "string \<Rightarrow> (u32 \<times> u32 \<times> u32) option" where
  "parse_git_version out =
     Option.bind (strip_prefix ''git version '' (trim out)) (\<lambda>s.
     Option.bind (split_whitespace_next s) (\<lambda>v.
       let parts = split_on (CHR ''.'') v in
       Option.bind (Option.bind (slice_get parts 0) parse_u32) (\<lambda>maj.
       Option.bind (Option.bind (slice_get parts 1) parse_u32) (\<lambda>mnr.
         let patch = Option.bind (slice_get parts 2) (\<lambda>p. parse_u32 (takeWhile is_ascii_digit p))
         in Some (maj, mnr, case patch of Some n \<Rightarrow> n | None \<Rightarrow> 0)))))"

definition git_is_new_enough :: "u32 \<times> u32 \<times> u32 \<Rightarrow> bool" where
  "git_is_new_enough v \<longleftrightarrow> (case v of (maj, mnr, _) \<Rightarrow> 2 < maj \<or> maj = 2 \<and> 38 \<le> mnr)"

section \<open>Commands\<close>

record ResultIdentity =
  ri_stage_id :: string
  ri_attempt :: u32

datatype AgentCommand =
    Status
  | Done string "ResultIdentity option"
  | Result string string "string option" "ResultIdentity option"
  | ReviewApprove string "ResultIdentity option"
  | ReviewChanges string string "ResultIdentity option"
  | Block string string
  | Unblock string
  | Remind string u64
  | Ask string "string list"
  | AskFollowUp string string "string list"
  | AskResolve string string
  | TaskCreate string string "string option" "string option"
  | OtherCommand

datatype OperatorCommand =
    OpTaskCreate string string string "string option"
  | TaskCancel string "string option"
  | TeamAdd string "string option" "string option"
  | TeamList
  | TeamJoin string string string
  | TeamSetWorkflow string string
  | WorkflowList
  | WorkflowShow string
  | WorkflowCheck string
  | WorkflowApply string
  | OtherOperatorCommand

datatype CommandResult =
    Accepted
  | TaskCreated string
  | AskCreated string
  | StatusResult "string option" string string "ResultIdentity option"
  | TextResult string

definition FORBIDDEN :: DaemonRefusal where
  "FORBIDDEN = ''forbidden''"

definition UNKNOWN_INSTANCE :: DaemonRefusal where
  "UNKNOWN_INSTANCE = ''unknown_instance''"

definition UNKNOWN_ASK :: DaemonRefusal where
  "UNKNOWN_ASK = ''unknown_ask''"

definition UNKNOWN_ATTENTION :: DaemonRefusal where
  "UNKNOWN_ATTENTION = ''unknown_attention''"

definition accepted :: "unit op \<Rightarrow> CommandResult op" where
  "accepted m = bind_op m (\<lambda>_. ret Accepted)"

definition guard_op :: "bool \<Rightarrow> DaemonRefusal \<Rightarrow> unit op" where
  "guard_op b e = (if b then ret () else refuse e)"

section \<open>Results\<close>

definition owned :: "Env \<Rightarrow> string \<Rightarrow> string \<Rightarrow> Loaded op" where
  "owned w caller task =
     bind_op (load_pipeline w task) (\<lambda>l.
       if t_assignee (ld_task l) \<noteq> Some caller then refuse FORBIDDEN else ret l)"

definition result_identity :: "PipelineState \<Rightarrow> ResultIdentity option" where
  "result_identity st = map_option (\<lambda>s. \<lparr>ri_stage_id = ws_id s, ri_attempt = attempt st\<rparr>) (current_stage st)"

definition may_report :: "Env \<Rightarrow> string \<Rightarrow> string \<Rightarrow> bool \<Rightarrow> Loaded \<Rightarrow> bool op" where
  "may_report w caller task review l =
     (if review
      then store_read w (\<lambda>db. list_ex (\<lambda>b. bn_instance b = caller \<and> bn_task b = task \<and> bn_kind b = ''review''
             \<and> bn_ticket b = ticket (ld_state l)) (bindings db))
      else ret (t_assignee (ld_task l) = Some caller))"

definition owned_result :: "Env \<Rightarrow> string \<Rightarrow> string \<Rightarrow> ResultIdentity option \<Rightarrow> bool \<Rightarrow> Loaded op" where
  "owned_result w caller task ident review =
     bind_op (load_pipeline w task) (\<lambda>l.
       if closed (ld_task l) then refuse STALE_RESULT
       else if ident = None \<or> ident \<noteq> result_identity (ld_state l) \<or> status (ld_state l) \<noteq> PipelineStatus.Running
       then refuse STALE_RESULT
       else bind_op (may_report w caller task review l) (\<lambda>ok. if ok then ret l else refuse FORBIDDEN))"

definition done_command :: "Env \<Rightarrow> string \<Rightarrow> string \<Rightarrow> ResultIdentity option \<Rightarrow> unit op" where
  "done_command w caller task ident =
     bind_op (owned_result w caller task ident False) (\<lambda>l.
     bind_op (team w (t_team_id (ld_task l))) (\<lambda>tm.
     bind_op (require (tm_repo tm)) (\<lambda>repo.
     bind_op (bind_op (store_read w (\<lambda>db. List.find (\<lambda>b. bn_instance b = caller \<and> bn_task b = task \<and> bn_kind b = ''work'')
                (bindings db))) require) (\<lambda>b.
     bind_op (require (bn_branch b)) (\<lambda>br.
     bind_op require_git (\<lambda>_.
     bind_op (bind_op (ask (\<lambda>n. ev_head w n repo br)) require) (\<lambda>h.
     bind_op (bind_op (ask (\<lambda>n. ev_ancestor w n repo h ''main'')) require) (\<lambda>merged.
       if merged then refuse INVALID
       else bind_op (bind_op (ask (\<lambda>n. ev_patch_id w n repo h)) require) (\<lambda>patch.
            bind_op (require (current_stage (ld_state l))) (\<lambda>s.
              event_detail w task (WorkCompleted (ws_id s) (attempt (ld_state l)) (BranchProduct br h patch)) None))))))))))"

definition result_product :: "WorkflowStage \<Rightarrow> string \<Rightarrow> string option \<Rightarrow> WorkProduct" where
  "result_product s summary out =
     (case ws_stage s of
        Stage.Work _ _ WorkOutput.Plan \<Rightarrow> PlanProduct (lines summary)
      | _ \<Rightarrow> ResultProduct summary out)"

definition result_command :: "Env \<Rightarrow> string \<Rightarrow> string \<Rightarrow> string \<Rightarrow> string option \<Rightarrow> ResultIdentity option \<Rightarrow> unit op" where
  "result_command w caller task summary out ident =
     bind_op (owned_result w caller task ident False) (\<lambda>l.
     bind_op (require (current_stage (ld_state l))) (\<lambda>s.
       event_detail w task (WorkCompleted (ws_id s) (attempt (ld_state l)) (result_product s summary out)) None))"

definition binds_head :: "WorkflowStage \<Rightarrow> bool" where
  "binds_head s = (case ws_stage s of Stage.Approval _ _ bd \<Rightarrow> bd | _ \<Rightarrow> False)"

definition review_event :: "WorkflowStage \<Rightarrow> u32 \<Rightarrow> string \<Rightarrow> string option \<Rightarrow> string option \<Rightarrow> PipelineEvent" where
  "review_event s att reviewer head reason =
     (case reason of
        None \<Rightarrow> ApprovalGranted (ws_id s) att reviewer head None
      | Some r \<Rightarrow> ChangesRequested (ws_id s) att reviewer head r)"

definition review :: "Env \<Rightarrow> string \<Rightarrow> string \<Rightarrow> ResultIdentity option \<Rightarrow> string option \<Rightarrow> unit op" where
  "review w caller task ident reason =
     bind_op (owned_result w caller task ident True) (\<lambda>l.
     bind_op (bind_op (store_read w (\<lambda>db. List.find (\<lambda>b. bn_instance b = caller \<and> bn_task b = task \<and> bn_kind b = ''review'')
                (bindings db))) require) (\<lambda>b.
     bind_op (require (current_stage (ld_state l))) (\<lambda>s.
     bind_op (event_detail w task (review_event s (attempt (ld_state l)) caller
                (if binds_head s then bn_head b else None) reason) None) (\<lambda>_.
     bind_op (store_read w (\<lambda>db. b \<in> set (bindings db))) (\<lambda>still.
       if still then release w b False else ret ())))))"

definition block :: "Env \<Rightarrow> string \<Rightarrow> string \<Rightarrow> string option \<Rightarrow> unit op" where
  "block w caller task reason =
     bind_op (owned w caller task) (\<lambda>l.
       if merge_in_flight (ld_state l) then refuse MERGE_IN_FLIGHT
       else if (case reason of Some r \<Rightarrow> trim r = [] | None \<Rightarrow> False) then refuse INVALID
       else case task_apply (ld_task l) (if reason \<noteq> None then TaskOperation.Block else TaskOperation.Unblock) of
         Inl _ \<Rightarrow> refuse INVALID
       | Inr t \<Rightarrow>
           let data = (pr_data (ld_progress l))\<lparr>pg_block_reason := reason\<rparr> in
           bind_op (new_id w) (\<lambda>ident.
           bind_op (now w) (\<lambda>time.
           bind_op (advance_task w t (ld_version l) data
              (stored_event ident time ''block'' (case reason of Some r \<Rightarrow> r | None \<Rightarrow> ''unblocked''))) (\<lambda>_.
             if reason \<noteq> None then ret ()
             else bind_op (modify (\<lambda>d. d\<lparr>dm_timers := filter (\<lambda>k. k \<noteq> ticket (ld_state l)) (dm_timers d)\<rparr>)) (\<lambda>_.
                  bind_op (outstanding (ld_state l))
                    (for_each (action w t (ld_state l) (pg_stage_entered data))))))))"

section \<open>Creating a task\<close>

definition first_role_is :: "string \<Rightarrow> Workflow \<Rightarrow> bool" where
  "first_role_is role wfl =
     (case wf_stages wfl of s # _ \<Rightarrow> (case ws_stage s of Stage.Work r _ _ \<Rightarrow> r = role | _ \<Rightarrow> False) | [] \<Rightarrow> False)"

definition git_ready :: "Env \<Rightarrow> string option \<Rightarrow> unit op" where
  "git_ready w repo =
     bind_op require_git (\<lambda>_.
     bind_op (bind_op (ask (\<lambda>n. ev_git_version w n (case repo of Some r \<Rightarrow> r | None \<Rightarrow> []))) require) (\<lambda>out.
       case parse_git_version out of
         Some v \<Rightarrow> guard_op (git_is_new_enough v) INVALID
       | None \<Rightarrow> refuse INVALID))"

definition create_task :: "Env \<Rightarrow> string \<Rightarrow> string \<Rightarrow> string \<Rightarrow> string option \<Rightarrow> CommandResult op" where
  "create_task w title role team_id wfl_id =
     (if trim title = [] \<or> trim role = [] then refuse INVALID
      else bind_op (team w team_id) (\<lambda>tm.
           bind_op (bind_op (store_read w (\<lambda>db. latest_workflow db
             (case wfl_id of Some i \<Rightarrow> i | None \<Rightarrow> tm_default_workflow tm))) require) (\<lambda>wfl.
             if \<not> first_role_is role wfl \<or> requires_repo wfl \<and> tm_repo tm = None then refuse INVALID
             else bind_op (if requires_repo wfl then git_ready w (tm_repo tm) else ret ()) (\<lambda>_.
                  bind_op (store_read w tasks) (\<lambda>ts.
                    let ident = ''t-'' @ show_nat (length ts + 1);
                        t = set_requires_repo (requires_repo wfl)
                              (Task_new ident title team_id (wf_id wfl) (wf_version wfl))
                    in bind_op (require (daemon_validate wfl)) (\<lambda>v.
                       bind_op (now w) (\<lambda>time.
                       bind_op (store_write w (\<lambda>db. wrote (create_pipeline_task db t
                                  (Encoded (snapshot (state_unchecked ident v))) time))) (\<lambda>_.
                       bind_op (event_detail w ident Start None) (\<lambda>_. ret (TaskCreated ident))))))))))"

section \<open>Asks\<close>

definition owned_ask :: "Env \<Rightarrow> string \<Rightarrow> string \<Rightarrow> AskRow op" where
  "owned_ask w caller ident =
     bind_op (store_read w (\<lambda>db. List.find (\<lambda>r. at_ask_id (ak_thread r) = ident \<and> \<not> is_resolved (ak_thread r)) (asks db))) (\<lambda>row.
       case row of
         None \<Rightarrow> refuse UNKNOWN_ASK
       | Some r \<Rightarrow> if ak_instance r \<noteq> caller then refuse FORBIDDEN else ret r)"

definition add_ask_entry :: "AskEntry \<Rightarrow> AskRow \<Rightarrow> AskRow" where
  "add_ask_entry e r = r\<lparr>ak_thread := (ak_thread r)\<lparr>at_entries := at_entries (ak_thread r) @ [e]\<rparr>\<rparr>"

definition store_ask :: "Env \<Rightarrow> AskRow \<Rightarrow> unit op" where
  "store_ask w r = store_write w (\<lambda>db. wrote (save_ask db r))"

definition ask_command :: "Env \<Rightarrow> string \<Rightarrow> string \<Rightarrow> string list \<Rightarrow> CommandResult op" where
  "ask_command w caller question opts =
     (if trim question = [] then refuse INVALID
      else bind_op (store_read w (\<lambda>db. held_task db caller)) (\<lambda>task.
           bind_op (new_id w) (\<lambda>n.
           bind_op (now w) (\<lambda>time.
             let ident = ''A-'' @ n in
             bind_op (store_ask w \<lparr>ak_instance = caller, ak_created = time,
               ak_thread = \<lparr>at_ask_id = ident, at_task_id = task, at_entries = [Question caller question opts]\<rparr>\<rparr>) (\<lambda>_.
               ret (AskCreated ident))))))"

definition follow_up_command :: "Env \<Rightarrow> string \<Rightarrow> string \<Rightarrow> string \<Rightarrow> string list \<Rightarrow> unit op" where
  "follow_up_command w caller ident question opts =
     bind_op (owned_ask w caller ident) (\<lambda>r.
       if trim question = [] \<or> at_entries (ak_thread r) = [] \<or> \<not> is_answer (last (at_entries (ak_thread r)))
       then refuse INVALID else store_ask w (add_ask_entry (FollowUp caller question opts) r))"

definition ask_resolve_command :: "Env \<Rightarrow> string \<Rightarrow> string \<Rightarrow> string \<Rightarrow> unit op" where
  "ask_resolve_command w caller ident summary =
     bind_op (owned_ask w caller ident) (\<lambda>r.
       if trim summary = [] then refuse INVALID else store_ask w (add_ask_entry (Resolution caller summary) r))"

definition answer :: "Env \<Rightarrow> string \<Rightarrow> AnswerSource \<Rightarrow> AskReply \<Rightarrow> unit op" where
  "answer w ident source reply =
     bind_op (store_read w (\<lambda>db. List.find (\<lambda>r. at_ask_id (ak_thread r) = ident) (asks db))) (\<lambda>row.
       case row of
         None \<Rightarrow> refuse UNKNOWN_ASK
       | Some r \<Rightarrow>
           if \<not> ask_accepts (ak_thread r) reply then refuse UNKNOWN_ASK
           else bind_op (store_ask w (add_ask_entry (Answer ''operator'' source reply) r)) (\<lambda>_. deliver_answers w))"

section \<open>Status and reminders\<close>

definition status_command :: "Env \<Rightarrow> string \<Rightarrow> CommandResult op" where
  "status_command w caller =
     bind_op (store_read w (\<lambda>db. held_task db caller)) (\<lambda>held.
       case held of
         None \<Rightarrow>
           bind_op (bind_op (store_read w (\<lambda>db. get_instance db caller)) require) (\<lambda>i.
             ret (StatusResult None caller (caller @ '' ('' @ Backend_as_str (is_backend i) @ ''): no task'' @ [CHR 0x0A]
               @ ''next: agend inbox | agend send <name> '' @ [CHR 0x22] @ ''<message>'' @ [CHR 0x22]) None))
       | Some task \<Rightarrow>
           bind_op (load_pipeline w task) (\<lambda>l.
           bind_op (require (current_stage (ld_state l))) (\<lambda>s.
             let dot = '' '' @ [CHR 0xC2, CHR 0xB7] @ '' '' in
             ret (StatusResult (Some task) caller
               (task @ dot @ ws_id s @ '' (attempt '' @ show_nat (unat (attempt (ld_state l))) @ '')'' @ dot
                @ ''ticket '' @ ticket (ld_state l)
                @ (case pr_block_reason (ld_progress l) of Some r \<Rightarrow> [CHR 0x0A] @ ''blocked: '' @ r | None \<Rightarrow> []))
               (result_identity (ld_state l))))))"

text \<open>\<open>checked_mul\<close> and \<open>checked_add\<close>, and the bound of the column.\<close>

definition reminder_due :: "u64 \<Rightarrow> u64 \<Rightarrow> u64 option" where
  "reminder_due delay time =
     (if uint delay * 1000 + uint time \<le> uint I64_MAX then Some (delay * 1000 + time) else None)"

definition remind_command :: "Env \<Rightarrow> string \<Rightarrow> string \<Rightarrow> u64 \<Rightarrow> unit op" where
  "remind_command w caller task delay =
     bind_op (owned w caller task) (\<lambda>_.
     bind_op (now w) (\<lambda>time.
     bind_op (require (reminder_due delay time)) (\<lambda>due.
       store_write w (\<lambda>db. wrote (add_reminder db task due)))))"

section \<open>Agents\<close>

fun agent_command :: "Env \<Rightarrow> string \<Rightarrow> AgentCommand \<Rightarrow> CommandResult op" where
  "agent_command w caller (TaskCreate title role tm wfl) =
     bind_op (bind_op (store_read w (\<lambda>db. List.find (\<lambda>m. mb_id m = caller) (members db))) require) (\<lambda>m.
       create_task w title role (case tm of Some t \<Rightarrow> t | None \<Rightarrow> mb_team m) wfl)"
| "agent_command w caller Status = status_command w caller"
| "agent_command w caller (AgentCommand.Done task ident) = accepted (done_command w caller task ident)"
| "agent_command w caller (Result task summary out ident) = accepted (result_command w caller task summary out ident)"
| "agent_command w caller (ReviewApprove task ident) = accepted (review w caller task ident None)"
| "agent_command w caller (ReviewChanges task summary ident) =
     (if trim summary = [] then refuse INVALID else accepted (review w caller task ident (Some summary)))"
| "agent_command w caller (AgentCommand.Block task reason) = accepted (block w caller task (Some reason))"
| "agent_command w caller (AgentCommand.Unblock task) = accepted (block w caller task None)"
| "agent_command w caller (Remind task delay) = accepted (remind_command w caller task delay)"
| "agent_command w caller (Ask question opts) = ask_command w caller question opts"
| "agent_command w caller (AskFollowUp ident question opts) = accepted (follow_up_command w caller ident question opts)"
| "agent_command w caller (AskResolve ident summary) = accepted (ask_resolve_command w caller ident summary)"
| "agent_command w caller OtherCommand = refuse INVALID"

definition agent :: "Env \<Rightarrow> string option \<Rightarrow> AgentCommand \<Rightarrow> CommandResult op" where
  "agent w caller cmd =
     (case caller of
        None \<Rightarrow> refuse FORBIDDEN
      | Some c \<Rightarrow>
          bind_op (store_read w (\<lambda>db. get_instance db c)) (\<lambda>i.
            if i = None then refuse UNKNOWN_INSTANCE else agent_command w c cmd))"

section \<open>The operator\<close>

definition MAX_ID :: nat where
  "MAX_ID = 24"

definition validate_id :: "string \<Rightarrow> bool" where
  "validate_id ident \<longleftrightarrow>
     ident \<noteq> [] \<and> length ident \<le> MAX_ID
     \<and> list_all (\<lambda>c. is_ascii_lower c \<or> is_ascii_digit c \<or> c = CHR ''-'') ident"

definition team_add :: "Env \<Rightarrow> string \<Rightarrow> string option \<Rightarrow> string option \<Rightarrow> unit op" where
  "team_add w ident repo wfl =
     bind_op (guard_op (validate_id ident) INVALID) (\<lambda>_.
     let wid = (case wfl of Some i \<Rightarrow> i | None \<Rightarrow> if repo \<noteq> None then ''code'' else ''research'') in
     bind_op (bind_op (store_read w (\<lambda>db. latest_workflow db wid)) require) (\<lambda>_.
     bind_op (case repo of
         None \<Rightarrow> ret None
       | Some r \<Rightarrow>
           bind_op (bind_op (ask (\<lambda>n. ev_canonical w n r)) require) (\<lambda>c.
           bind_op require_git (\<lambda>_.
           bind_op (succeeds (\<lambda>n. ev_main_exists w n c)) (\<lambda>_. ret (Some c))))) (\<lambda>canonical.
       store_write w (\<lambda>db. wrote (add_team db \<lparr>tm_id = ident, tm_repo = canonical, tm_default_workflow = wid\<rparr>)))))"

definition team_list :: "Env \<Rightarrow> string op" where
  "team_list w =
     bind_op (store_read w teams) (\<lambda>ts. ret (join [CHR 0x0A] (map (\<lambda>t.
       tm_id t @ [CHR 0x09] @ tm_default_workflow t @ [CHR 0x09]
       @ (case tm_repo t of Some r \<Rightarrow> r | None \<Rightarrow> ''no repo'')) ts)))"

definition team_join :: "Env \<Rightarrow> string \<Rightarrow> string \<Rightarrow> string \<Rightarrow> unit op" where
  "team_join w tm i role =
     bind_op (team w tm) (\<lambda>_.
     bind_op (guard_op (validate_id role) INVALID) (\<lambda>_.
       store_write w (\<lambda>db. wrote (join_team db tm i role))))"

definition team_set_workflow :: "Env \<Rightarrow> string \<Rightarrow> string \<Rightarrow> unit op" where
  "team_set_workflow w tm wid =
     bind_op (team w tm) (\<lambda>_.
     bind_op (bind_op (store_read w (\<lambda>db. latest_workflow db wid)) require) (\<lambda>wfl.
     bind_op (require (daemon_validate wfl)) (\<lambda>_.
       store_write w (\<lambda>db. wrote (set_team_workflow db tm wid)))))"

definition workflow_ids :: "Db \<Rightarrow> string list" where
  "workflow_ids db = sort (remdups (map wf_id (db_workflows db)))"

definition BUILTIN_IDS :: "string list" where
  "BUILTIN_IDS = [''code'', ''research'', ''planned'', ''epic'']"

definition workflow_apply :: "Env \<Rightarrow> string \<Rightarrow> string op" where
  "workflow_apply w toml =
     bind_op (require (ev_toml w toml)) (\<lambda>wfl.
     bind_op (guard_op (wf_id wfl \<notin> set BUILTIN_IDS \<and> validate_id (wf_id wfl)) INVALID) (\<lambda>_.
     bind_op (store_read w (\<lambda>db. latest_workflow db (wf_id wfl))) (\<lambda>found.
       let next = wfl\<lparr>wf_version := (case found of Some old \<Rightarrow> wf_version old + 1 | None \<Rightarrow> 1)\<rparr> in
       bind_op (require (daemon_validate next)) (\<lambda>_.
       bind_op (store_write w (\<lambda>db. wrote (save_workflow db next))) (\<lambda>_.
         ret (''saved '' @ wf_id next @ '' v'' @ show_nat (unat (wf_version next))))))))"

fun operator_command :: "Env \<Rightarrow> OperatorCommand \<Rightarrow> CommandResult op" where
  "operator_command w (OpTaskCreate title role tm wfl) = create_task w title role tm wfl"
| "operator_command w (TaskCancel task reason) =
     accepted (event_detail w task (Cancel (case reason of Some r \<Rightarrow> r | None \<Rightarrow> ''cancelled by operator'')) None)"
| "operator_command w (TeamAdd tm repo wfl) = accepted (team_add w tm repo wfl)"
| "operator_command w TeamList = bind_op (team_list w) (\<lambda>s. ret (TextResult s))"
| "operator_command w (TeamJoin tm i role) = accepted (team_join w tm i role)"
| "operator_command w (TeamSetWorkflow tm wfl) = accepted (team_set_workflow w tm wfl)"
| "operator_command w WorkflowList = bind_op (store_read w workflow_ids) (\<lambda>ids. ret (TextResult (join [CHR 0x0A] ids)))"
| "operator_command w (WorkflowShow wfl) =
     bind_op (bind_op (store_read w (\<lambda>db. latest_workflow db wfl)) require) (\<lambda>v.
     bind_op (require (ev_show_toml w v)) (\<lambda>s. ret (TextResult s)))"
| "operator_command w (WorkflowCheck toml) =
     bind_op (require (Option.bind (ev_toml w toml) daemon_validate)) (\<lambda>_. ret (TextResult ''workflow: valid''))"
| "operator_command w (WorkflowApply toml) = bind_op (workflow_apply w toml) (\<lambda>s. ret (TextResult s))"
| "operator_command w OtherOperatorCommand = refuse INVALID"

section \<open>The human\<close>

definition human_event :: "WorkflowStage \<Rightarrow> PipelineState \<Rightarrow> AttentionAction \<Rightarrow> string option \<Rightarrow> PipelineEvent option" where
  "human_event s st act comment =
     (case ws_stage s of
        Stage.Approval Human _ bd \<Rightarrow>
          let head = (if bd then current_head st else None) in
          if act = Approve then Some (ApprovalGranted (ws_id s) (attempt st) ''operator'' head None)
          else (case comment of
                  Some r \<Rightarrow> if trim r = [] then None else Some (ChangesRequested (ws_id s) (attempt st) ''operator'' head r)
                | None \<Rightarrow> None)
      | _ \<Rightarrow> None)"

definition resolve_approval :: "Env \<Rightarrow> string \<Rightarrow> string \<Rightarrow> AttentionAction \<Rightarrow> string option \<Rightarrow> unit op" where
  "resolve_approval w task attention act comment =
     bind_op (load_pipeline w task) (\<lambda>l.
       if attention \<noteq> ''approval:'' @ ticket (ld_state l) then refuse UNKNOWN_ATTENTION
       else bind_op (require (current_stage (ld_state l))) (\<lambda>s.
            bind_op (require (human_event s (ld_state l) act comment)) (\<lambda>ev. event_detail w task ev None)))"

definition acknowledge :: "Env \<Rightarrow> string \<Rightarrow> unit op" where
  "acknowledge w task =
     bind_op (bind_op (store_read w (\<lambda>db. progress db task)) require) (\<lambda>p.
       store_write w (\<lambda>db. Inr (task_note db task (pr_block_reason p) (pr_attention_reason p) True, ())))"

definition retry :: "Env \<Rightarrow> string \<Rightarrow> unit op" where
  "retry w task =
     bind_op (note_task w task None) (\<lambda>_.
     bind_op (load_pipeline w task) (\<lambda>l.
     bind_op (cleanup_terminal w False (ld_task l)) (\<lambda>_.
     bind_op (outstanding (ld_state l))
       (for_each (action w (ld_task l) (ld_state l) (pg_stage_entered (pr_data (ld_progress l))))))))"

definition resolve_attention :: "Env \<Rightarrow> string \<Rightarrow> AttentionAction \<Rightarrow> string option \<Rightarrow> unit op" where
  "resolve_attention w attention act comment =
     bind_op (ask (\<lambda>n. ev_attention w n attention)) (\<lambda>found.
       case found of
         None \<Rightarrow> refuse UNKNOWN_ATTENTION
       | Some item \<Rightarrow>
           if act \<notin> set (ad_actions item) then refuse UNKNOWN_ATTENTION
           else bind_op (require (ad_task_id item)) (\<lambda>task.
             case act of
               Approve \<Rightarrow> resolve_approval w task attention act comment
             | RequestChanges \<Rightarrow> resolve_approval w task attention act comment
             | Acknowledge \<Rightarrow> acknowledge w task
             | Retry \<Rightarrow> retry w task
             | _ \<Rightarrow> refuse INVALID))"

section \<open>Inputs\<close>

datatype GuardedRequest = GuardedResolve string AttentionAction "string option" | GuardedAnswer string AnswerSource AskReply | OtherRequest

datatype EngineInput =
    Agent "string option" AgentCommand
  | Operator OperatorCommand
  | Guarded AttentionRequiredData "(u64 \<times> u64) option" GuardedRequest
  | Resolve string AttentionAction "string option"
  | AnswerInput string AnswerSource AskReply
  | Event string PipelineEvent
  | Check string string u32 "string option" "ExecutionError + int option \<times> string"
  | Wake
  | Daily

definition version_matches :: "Db \<Rightarrow> string option \<Rightarrow> (u64 \<times> u64) option \<Rightarrow> bool" where
  "version_matches db task expected =
     (case (task, expected) of
        (Some t, Some (version, revision)) \<Rightarrow>
          (case load_task db t of Some (v, _) \<Rightarrow> v = version | None \<Rightarrow> False)
          \<and> (case progress db t of Some p \<Rightarrow> pr_attention_revision p = revision | None \<Rightarrow> False)
      | (None, None) \<Rightarrow> True
      | _ \<Rightarrow> False)"

text \<open>A request that answers a notification counts only while the item and the task are as notified.\<close>

definition guarded :: "Env \<Rightarrow> AttentionRequiredData \<Rightarrow> (u64 \<times> u64) option \<Rightarrow> GuardedRequest \<Rightarrow> unit op" where
  "guarded w expected version req =
     bind_op (try_op (store_read w (\<lambda>db. version_matches db (ad_task_id expected) version))) (\<lambda>r.
     bind_op (case ad_attention_id expected of None \<Rightarrow> ret None | Some i \<Rightarrow> ask (\<lambda>n. ev_attention w n i)) (\<lambda>current.
       if r \<noteq> Inr True \<or> \<not> (case current of Some c \<Rightarrow> same_attention c expected | None \<Rightarrow> False) then refuse INVALID
       else case req of
         GuardedResolve attention act comment \<Rightarrow>
           if ad_attention_id expected = Some attention then resolve_attention w attention act comment else refuse INVALID
       | GuardedAnswer ident source reply \<Rightarrow>
           if map_option at_ask_id (ad_ask expected) = Some ident then answer w ident source reply else refuse INVALID
       | OtherRequest \<Rightarrow> refuse INVALID))"

definition current_check :: "string \<Rightarrow> string \<Rightarrow> u32 \<Rightarrow> Loaded \<Rightarrow> bool" where
  "current_check task stage att l \<longleftrightarrow>
     t_status (ld_task l) = TaskStatus.Running \<and> ticket (ld_state l) = attempt_key task stage att"

definition check_result :: "Env \<Rightarrow> string \<Rightarrow> string \<Rightarrow> u32 \<Rightarrow> string option \<Rightarrow> ExecutionError + int option \<times> string \<Rightarrow> unit op" where
  "check_result w task stage att head result =
     bind_op (stop_check (attempt_key task stage att)) (\<lambda>_.
     bind_op (load_pipeline w task) (\<lambda>l.
       if \<not> current_check task stage att l then ret ()
       else case result of
         Inl (ExecBlocked reason) \<Rightarrow> note_task w task (Some (''checks-blocked:'' @ reason))
       | Inl (Sandbox reason) \<Rightarrow> note_task w task (Some (''sandbox-missing:'' @ reason))
       | Inl (ExecFailed reason) \<Rightarrow> event_detail w task (CommandFinished stage att head (Some 1)) (Some reason)
       | Inr (exit, detail) \<Rightarrow> event_detail w task (CommandFinished stage att head exit) (Some detail)))"

definition daily :: "Env \<Rightarrow> unit op" where
  "daily w =
     bind_op (now w) (\<lambda>time.
     bind_op (gets dm_last_day) (\<lambda>day.
       if time div 86400000 = day then ret ()
       else bind_op (modify (\<lambda>d. d\<lparr>dm_last_day := time div 86400000\<rparr>)) (\<lambda>_. reconcile_bindings w)))"

fun handle :: "Env \<Rightarrow> EngineInput \<Rightarrow> unit op" where
  "handle w (Agent caller cmd) = bind_op (agent w caller cmd) (\<lambda>_. ret ())"
| "handle w (Operator cmd) = bind_op (operator_command w cmd) (\<lambda>_. ret ())"
| "handle w (Guarded expected version req) = guarded w expected version req"
| "handle w (Resolve attention act comment) = resolve_attention w attention act comment"
| "handle w (AnswerInput ident source reply) = answer w ident source reply"
| "handle w (Event task ev) = event_detail w task ev None"
| "handle w (Check task stage att head result) = check_result w task stage att head result"
| "handle w Wake = wake w"
| "handle w Daily = daily w"

text \<open>Every input is followed by a wake-up; no refusal stops the worker.\<close>

definition turn :: "Env \<Rightarrow> EngineInput \<Rightarrow> Daemon \<Rightarrow> Daemon" where
  "turn w inp d = snd (wake w (snd (handle w inp d)))"

end
