(* ===== verification/Daemon_Logic.thy ===== *)
theory Daemon_Logic
  imports Daemon_Commands
begin

text \<open>
  A program logic for the operations of the daemon. An assertion speaks of the tables and of what was started
  in the background; \<open>spec P m Q E\<close> says that \<open>m\<close> from \<open>P\<close> ends in \<open>Q\<close> with its result or in \<open>E\<close> when it refuses.
  \<open>keeps J m\<close> is the case of an invariant. The rules for the building blocks of operations are collected in
  \<open>keeps\<close>, so that an operation that only calls others is checked by applying them.
\<close>

named_theorems keeps \<open>operations that keep an invariant\<close>

definition spec :: "(Db \<Rightarrow> Spawned list \<Rightarrow> bool) \<Rightarrow> 'a op \<Rightarrow> ('a \<Rightarrow> Db \<Rightarrow> Spawned list \<Rightarrow> bool)
    \<Rightarrow> (Db \<Rightarrow> Spawned list \<Rightarrow> bool) \<Rightarrow> bool" where
  "spec P m Q E \<longleftrightarrow> (\<forall>d. P (dm_db d) (dm_spawned d) \<longrightarrow>
     (case m d of
        (Inr x, d') \<Rightarrow> Q x (dm_db d') (dm_spawned d')
      | (Inl _, d') \<Rightarrow> E (dm_db d') (dm_spawned d')))"

definition keeps :: "(Db \<Rightarrow> Spawned list \<Rightarrow> bool) \<Rightarrow> 'a op \<Rightarrow> bool" where
  "keeps J m \<longleftrightarrow> spec J m (\<lambda>_. J) J"

section \<open>Rules\<close>

lemma spec_conseq:
  assumes "spec P m Q E" and "\<And>db sp. P' db sp \<Longrightarrow> P db sp" and "\<And>x db sp. Q x db sp \<Longrightarrow> Q' x db sp"
    and "\<And>db sp. E db sp \<Longrightarrow> E' db sp"
  shows "spec P' m Q' E'"
  unfolding spec_def
proof (intro allI impI)
  fix d :: Daemon
  assume "P' (dm_db d) (dm_spawned d)"
  then have "case m d of (Inr x, d') \<Rightarrow> Q x (dm_db d') (dm_spawned d') | (Inl _, d') \<Rightarrow> E (dm_db d') (dm_spawned d')"
    using assms(1,2) by (simp add: spec_def)
  then show "case m d of (Inr x, d') \<Rightarrow> Q' x (dm_db d') (dm_spawned d') | (Inl _, d') \<Rightarrow> E' (dm_db d') (dm_spawned d')"
    using assms(3,4) by (auto split: prod.splits sum.splits)
qed

lemma spec_bind:
  assumes "spec P m R E" and "\<And>x. spec (R x) (f x) Q E"
  shows "spec P (bind_op m f) Q E"
  unfolding spec_def
proof (intro allI impI)
  fix d :: Daemon
  assume p: "P (dm_db d) (dm_spawned d)"
  obtain r d1 where m: "m d = (r, d1)" by (cases "m d")
  have 1: "case r of Inl _ \<Rightarrow> E (dm_db d1) (dm_spawned d1) | Inr x \<Rightarrow> R x (dm_db d1) (dm_spawned d1)"
    using assms(1) [unfolded spec_def, rule_format, OF p] m by simp
  show "case bind_op m f d of (Inr x, d') \<Rightarrow> Q x (dm_db d') (dm_spawned d') | (Inl _, d') \<Rightarrow> E (dm_db d') (dm_spawned d')"
  proof (cases r)
    case (Inl e)
    with m 1 show ?thesis by (simp add: bind_op_def)
  next
    case (Inr x)
    with m 1 assms(2) [of x, unfolded spec_def, rule_format, of d1] show ?thesis by (simp add: bind_op_def)
  qed
qed

lemma spec_ret: "(\<And>db sp. P db sp \<Longrightarrow> Q x db sp) \<Longrightarrow> spec P (ret x) Q E"
  by (simp add: spec_def ret_def)

lemma spec_refuse: "(\<And>db sp. P db sp \<Longrightarrow> E db sp) \<Longrightarrow> spec P (refuse e) Q E"
  by (simp add: spec_def refuse_def)

lemma spec_read:
  assumes "\<And>db sp. P db sp \<Longrightarrow> E db sp"
  shows "spec P (store_read w f) (\<lambda>x db sp. P db sp \<and> x = f db) E"
  using assms by (auto simp: spec_def store_read_def bind_op_def ask_def gets_def refuse_def)

lemma spec_ask:
  "(\<And>x db sp. P db sp \<Longrightarrow> Q x db sp) \<Longrightarrow> spec P (ask f) Q E"
  by (simp add: spec_def ask_def)

lemma spec_require:
  assumes "\<And>db sp. P db sp \<Longrightarrow> E db sp" and "\<And>y db sp. P db sp \<Longrightarrow> x = Some y \<Longrightarrow> Q y db sp"
  shows "spec P (require x) Q E"
  using assms by (cases x) (auto simp: spec_def require_def ret_def refuse_def)

lemma spec_write:
  assumes "\<And>db sp. P db sp \<Longrightarrow> E db sp" and "\<And>db sp db' x. P db sp \<Longrightarrow> f db = Inr (db', x) \<Longrightarrow> Q x db' sp"
  shows "spec P (store_write w f) Q E"
  using assms
  by (auto simp: spec_def store_write_def bind_op_def ask_def refuse_def split: sum.splits prod.splits)

lemma spec_now: "(\<And>x db sp. P db sp \<Longrightarrow> Q x db sp) \<Longrightarrow> spec P (now w) Q E"
  unfolding now_def by (rule spec_ask)

lemma spec_new_id:
  assumes "\<And>db sp. P db sp \<Longrightarrow> E db sp" and "\<And>x db sp. P db sp \<Longrightarrow> Q x db sp"
  shows "spec P (new_id w) Q E"
  unfolding new_id_def
  by (rule spec_bind [OF spec_ask [where Q = "\<lambda>_. P"]]) (auto intro!: spec_require assms)

lemma spec_if: "spec P a Q E \<Longrightarrow> spec P b Q E \<Longrightarrow> spec P (if c then a else b) Q E"
  by simp

lemma spec_option:
  "spec P a Q E \<Longrightarrow> (\<And>x. spec P (f x) Q E) \<Longrightarrow> spec P (case o' of None \<Rightarrow> a | Some x \<Rightarrow> f x) Q E"
  by (cases o') auto

lemma spec_sum:
  "(\<And>x. s = Inl x \<Longrightarrow> spec P (f x) Q E) \<Longrightarrow> (\<And>x. s = Inr x \<Longrightarrow> spec P (g x) Q E) \<Longrightarrow>
   spec P (case s of Inl x \<Rightarrow> f x | Inr x \<Rightarrow> g x) Q E"
  by (cases s) auto

text \<open>Reading a value that has to be there.\<close>

lemma spec_read_some:
  assumes "\<And>db sp. P db sp \<Longrightarrow> E db sp"
  shows "spec P (bind_op (store_read w f) require) (\<lambda>x db sp. P db sp \<and> f db = Some x) E"
  by (rule spec_bind [OF spec_read [OF assms]]) (auto intro!: spec_require assms)

section \<open>Invariants\<close>

lemma keepsD: "keeps J m \<Longrightarrow> J (dm_db d) (dm_spawned d) \<Longrightarrow> J (dm_db (snd (m d))) (dm_spawned (snd (m d)))"
  by (cases "m d") (auto simp: keeps_def spec_def split: sum.splits)

lemma keepsI: "(\<And>d. J (dm_db d) (dm_spawned d) \<Longrightarrow> J (dm_db (snd (m d))) (dm_spawned (snd (m d)))) \<Longrightarrow> keeps J m"
  by (auto simp: keeps_def spec_def split: prod.splits sum.splits) (metis snd_conv)+

lemma keeps_pure: "(\<And>d. dm_db (snd (m d)) = dm_db d \<and> dm_spawned (snd (m d)) = dm_spawned d) \<Longrightarrow> keeps J m"
  by (rule keepsI) simp

lemma keeps_ret [keeps]: "keeps J (ret x)"
  by (rule keeps_pure) (simp add: ret_def)

lemma keeps_refuse [keeps]: "keeps J (refuse e)"
  by (rule keeps_pure) (simp add: refuse_def)

lemma keeps_bind [keeps]: "keeps J m \<Longrightarrow> (\<And>x. keeps J (f x)) \<Longrightarrow> keeps J (bind_op m f)"
  unfolding keeps_def by (rule spec_bind)

lemma keeps_try [keeps]: "keeps J m \<Longrightarrow> keeps J (try_op m)"
  by (rule keepsI) (drule keepsD, auto simp: try_op_def split: prod.splits)

lemma keeps_for_each [keeps]: "(\<And>x. x \<in> set xs \<Longrightarrow> keeps J (f x)) \<Longrightarrow> keeps J (for_each f xs)"
  by (induction xs) (auto intro!: keeps)

lemma keeps_gets [keeps]: "keeps J (gets f)"
  by (rule keeps_pure) (simp add: gets_def)

lemma keeps_ask [keeps]: "keeps J (ask f)"
  by (rule keeps_pure) (simp add: ask_def)

lemma keeps_require [keeps]: "keeps J (require x)"
  by (cases x) (auto simp: require_def intro: keeps)

lemma keeps_read [keeps]: "keeps J (store_read w f)"
  unfolding store_read_def by (intro keeps_bind keeps_ask) (simp add: keeps_refuse keeps_gets)

lemma keeps_modify_timers [keeps]: "keeps J (modify (\<lambda>d. d\<lparr>dm_timers := f d\<rparr>))"
  by (rule keeps_pure) (simp add: modify_def)

lemma keeps_modify_running [keeps]: "keeps J (modify (\<lambda>d. d\<lparr>dm_running := f d\<rparr>))"
  by (rule keeps_pure) (simp add: modify_def)

lemma keeps_modify_day [keeps]: "keeps J (modify (\<lambda>d. d\<lparr>dm_last_day := x\<rparr>))"
  by (rule keeps_pure) (simp add: modify_def)

lemma keeps_write:
  "(\<And>db sp db' x. J db sp \<Longrightarrow> f db = Inr (db', x) \<Longrightarrow> J db' sp) \<Longrightarrow> keeps J (store_write w f)"
  unfolding keeps_def by (rule spec_write)

lemma keeps_spawn: "(\<And>db sp. J db sp \<Longrightarrow> J db (sp @ [s])) \<Longrightarrow> keeps J (spawn s)"
  by (rule keepsI) (simp add: spawn_def modify_def)

lemma keeps_if [keeps]: "keeps J a \<Longrightarrow> keeps J b \<Longrightarrow> keeps J (if c then a else b)"
  by simp

lemma keeps_option [keeps]:
  "keeps J a \<Longrightarrow> (\<And>x. keeps J (f x)) \<Longrightarrow> keeps J (case o' of None \<Rightarrow> a | Some x \<Rightarrow> f x)"
  by (cases o') auto

lemma keeps_sum [keeps]:
  "(\<And>x. keeps J (f x)) \<Longrightarrow> (\<And>x. keeps J (g x)) \<Longrightarrow> keeps J (case s of Inl x \<Rightarrow> f x | Inr x \<Rightarrow> g x)"
  by (cases s) auto

lemma keeps_prod [keeps]: "(\<And>x y. keeps J (f x y)) \<Longrightarrow> keeps J (case p of (x, y) \<Rightarrow> f x y)"
  by (cases p) auto

lemma keeps_bool [keeps]: "keeps J a \<Longrightarrow> keeps J b \<Longrightarrow> keeps J (case c of True \<Rightarrow> a | False \<Rightarrow> b)"
  by (cases c) auto

lemma keeps_Let [keeps]: "(\<And>x. keeps J (f x)) \<Longrightarrow> keeps J (let x = v in f x)"
  by simp

lemma keeps_execution_error [keeps]:
  "(\<And>x. keeps J (f x)) \<Longrightarrow> (\<And>x. keeps J (g x)) \<Longrightarrow> (\<And>x. keeps J (h x)) \<Longrightarrow>
   keeps J (case e of ExecBlocked x \<Rightarrow> f x | Sandbox x \<Rightarrow> g x | ExecFailed x \<Rightarrow> h x)"
  by (cases e) auto

lemma keeps_merge_result [keeps]:
  "(\<And>x. keeps J (f x)) \<Longrightarrow> (\<And>x. keeps J (g x)) \<Longrightarrow> keeps J (case r of Merged x \<Rightarrow> f x | HeadChanged x \<Rightarrow> g x)"
  by (cases r) auto

lemma keeps_claim [keeps]:
  "(\<And>x. keeps J (f x)) \<Longrightarrow> (\<And>x. keeps J (g x)) \<Longrightarrow> (\<And>x. keeps J (h x)) \<Longrightarrow>
   keeps J (case c of Inserted x \<Rightarrow> f x | Existing x \<Rightarrow> g x | Different x \<Rightarrow> h x)"
  by (cases c) auto

lemma keeps_decision [keeps]:
  "(\<And>x. keeps J (f x)) \<Longrightarrow> (\<And>x y. keeps J (g x y)) \<Longrightarrow> (\<And>x y. keeps J (h x y)) \<Longrightarrow> (\<And>x. keeps J (k x)) \<Longrightarrow>
   (\<And>x. keeps J (l x)) \<Longrightarrow>
   keeps J (case c of Assigned x \<Rightarrow> f x | Reassigned x y \<Rightarrow> g x y | SpawnEphemeral x y \<Rightarrow> h x y
     | AssignmentDecision.Queue x \<Rightarrow> k x | AskForRole x \<Rightarrow> l x)"
  by (cases c) auto

lemma keeps_small [keeps]:
  "keeps J (now w)" "keeps J (new_id w)" "keeps J require_git" "keeps J (team w t)" "keeps J (load_pipeline w t)"
  "keeps J (repo_unavailable w task)" "keeps J (outstanding st)" "keeps J (succeeds g)" "keeps J (stop_check k)"
  "keeps J (guard_op b e)" "keeps J (holder_waits w task r)"
  unfolding now_def new_id_def require_git_def team_def load_pipeline_def repo_unavailable_def outstanding_def
    succeeds_def stop_check_def guard_op_def holder_waits_def
  by (intro keeps)+

end
