(* ===== verification/Pipeline_Frame.thy ===== *)
theory Pipeline_Frame
  imports Pipeline_Safety
begin

text \<open>
  What no event changes, whatever the state: the workflow and the task of a state stay, a started task is
  never pending again, and only the branch of a completed work stage becomes the branch of the task.
\<close>

definition stays_put :: "PipelineState \<Rightarrow> step_result \<Rightarrow> bool" where
  "stays_put st r \<longleftrightarrow> (\<forall>st' acts. r = Inr (st', acts) \<longrightarrow>
     workflow st' = workflow st \<and> task_id st' = task_id st \<and> branch st' = branch st
     \<and> (status st \<noteq> PipelineStatus.Pending \<longrightarrow> status st' \<noteq> PipelineStatus.Pending))"

lemma staysD:
  assumes "stays_put st (Inr (st', acts))"
  shows "workflow st' = workflow st" "task_id st' = task_id st" "branch st' = branch st"
    "status st \<noteq> PipelineStatus.Pending \<Longrightarrow> status st' \<noteq> PipelineStatus.Pending"
  using assms by (auto simp: stays_put_def)

lemma stays_Inl [simp]: "stays_put st (Inl e)"
  by (simp add: stays_put_def)

lemma stays_same [simp]: "stays_put st (Inr (st, acts))"
  by (simp add: stays_put_def)

lemma stays_and_then:
  "(\<And>x. r = Inr x \<Longrightarrow> stays_put st (f x)) \<Longrightarrow> stays_put st (and_then r f)"
  by (cases r) simp_all

lemma stays_trans:
  assumes "stays_put s r" and "workflow s = workflow st" and "task_id s = task_id st" and "branch s = branch st"
    and "status st \<noteq> PipelineStatus.Pending \<Longrightarrow> status s \<noteq> PipelineStatus.Pending"
  shows "stays_put st r"
  unfolding stays_put_def
proof (intro allI impI)
  fix st' acts
  assume r: "r = Inr (st', acts)"
  note d = staysD [OF assms(1) [unfolded r]]
  show "workflow st' = workflow st \<and> task_id st' = task_id st \<and> branch st' = branch st
    \<and> (status st \<noteq> PipelineStatus.Pending \<longrightarrow> status st' \<noteq> PipelineStatus.Pending)"
    using d(1-3) d(4) [OF assms(5)] assms(2-4) by simp
qed

lemma stays_request_stage: "stays_put st (request_stage i w st)"
  by (auto simp: stays_put_def request_stage_def bump_attempt_def fail_task_def split: option.splits sum.splits)

lemma stays_enter_stage: "stays_put st (enter_stage i st)"
proof (induction i st rule: enter_stage.induct)
  case (1 i st)
  let ?s = "reset_fanout_at i st"
  show ?case
  proof (cases "slice_get (stages ?s) i")
    case None
    then show ?thesis by (subst enter_stage.simps) (simp add: stays_put_def Let_def)
  next
    case (Some w)
    let ?p = "prepare_stage i ?s"
    show ?thesis
    proof (cases "approval_for_stage ?p w")
      case True
      have "stays_put ?p (enter_stage (i + 1) ?p)" by (rule 1 [OF refl Some refl True])
      then have "stays_put st (enter_stage (i + 1) ?p)" by (rule stays_trans) simp_all
      with Some True show ?thesis by (subst enter_stage.simps) (simp add: Let_def)
    next
      case False
      have "stays_put st (request_stage i w ?p)"
        by (rule stays_trans [OF stays_request_stage]) simp_all
      with Some False show ?thesis by (subst enter_stage.simps) (simp add: Let_def)
    qed
  qed
qed

lemma stays_enter:
  assumes "workflow s = workflow st" and "task_id s = task_id st" and "branch s = branch st"
    and "status st \<noteq> PipelineStatus.Pending \<Longrightarrow> status s \<noteq> PipelineStatus.Pending"
  shows "stays_put st (enter_stage i s)"
  by (rule stays_trans [OF stays_enter_stage]) (use assms in auto)

lemma stays_return_to_work: "stays_put st (return_to_work t reason st)"
proof -
  let ?f = "forget_from t st"
  let ?s = "(if fanout_at_or_after ?f t then clear_fanout ?f else ?f)\<lparr>work_product := None, pending_work_reason := Some reason\<rparr>"
  have s: "workflow ?s = workflow st" "task_id ?s = task_id st" "branch ?s = branch st" "status ?s = status st"
    by simp_all
  have "stays_put st (case ws_stage w of
      Stage.Work role _ _ \<Rightarrow> and_then (bump_attempt t (?s\<lparr>stage_index := t\<rparr>)) (\<lambda>(st4, a).
        Inr (st4, [schedule w a, PipelineAction.ReturnToWork (ws_id w) a role reason]))
    | _ \<Rightarrow> reject WrongStage)" for w
    using s by (cases "ws_stage w") (auto simp: stays_put_def result_split)
  then show ?thesis unfolding return_to_work_def Let_def by (intro stays_and_then)
qed

lemma stays_fail_stage: "stays_put st (fail_stage i reason st)"
  unfolding fail_stage_def
  by (rule stays_and_then)
    (auto split: option.splits simp: stays_return_to_work fail_task_def, simp_all add: stays_put_def)

lemma stays_recheck: "stays_put st (recheck_for_new_head st)"
  by (auto simp: recheck_for_new_head_def restart_if_collected_def stays_enter_stage split: option.splits)

lemma stays_recheck_new:
  assumes "workflow s = workflow st" and "task_id s = task_id st" and "branch s = branch st" and "status s = status st"
  shows "stays_put st (recheck_for_new_head s)"
  by (rule stays_trans [OF stays_recheck]) (use assms in auto)

lemma stays_rebase_to_work: "stays_put st (rebase_to_work h p c st)"
proof -
  let ?s = "if \<not> c then record_new_head h p st else invalidate_head_bound st"
  have "stays_put st (return_to_work t r ?s)" for t r
    by (rule stays_trans [OF stays_return_to_work]) simp_all
  then show ?thesis
    by (auto simp: rebase_to_work_def Let_def fail_task_def stays_put_def split: option.splits)
qed

lemma stays_main_advanced: "stays_put st (main_advanced h p c st)"
proof -
  have "stays_put st (recheck_for_new_head (record_new_head h p st))"
    "stays_put st (recheck_for_new_head (record_new_head n p (carry_approvals a b n st)))" for n a b
    by (rule stays_recheck_new; simp)+
  then show ?thesis
    unfolding main_advanced_def
    by (auto intro!: stays_and_then simp: stays_rebase_to_work split: ApprovalAfterRebase.split)
qed

lemma stays_head_change: "stays_put st (apply_head_change c st)"
proof (cases c)
  case (CommitCreated h p)
  have "stays_put st (recheck_for_new_head (record_new_head h p st))" by (rule stays_recheck_new) simp_all
  with CommitCreated show ?thesis by (simp add: stays_put_def)
next
  case (MainAdvanced h p cf)
  then show ?thesis using stays_main_advanced [of st h p cf] by (simp add: stays_put_def)
qed

lemma stays_apply_pending: "stays_put st (apply_pending cs acts st)"
proof (induction cs arbitrary: st acts)
  case Nil
  then show ?case by (simp add: stays_put_def)
next
  case (Cons c cs)
  show ?case
    unfolding apply_pending.simps
  proof (rule stays_and_then)
    fix x
    assume x: "apply_head_change c st = Inr x"
    obtain s as where s: "x = (s, as)" by (cases x)
    have "stays_put s (apply_pending cs (if as \<noteq> [] then as else acts) s)" by (rule Cons.IH)
    then show "stays_put st (case x of (st', as) \<Rightarrow> apply_pending cs (if as \<noteq> [] then as else acts) st')"
      using stays_head_change [of st c] x s by (auto intro: stays_trans dest: staysD)
  qed
qed

lemma stays_merge_failed: "stays_put st (merge_failed st)"
  unfolding merge_failed_def
proof (rule stays_and_then)
  fix x
  assume x: "apply_pending (pending_head_changes st) [] (st\<lparr>pending_head_changes := []\<rparr>) = Inr x"
  obtain s as where s: "x = (s, as)" by (cases x)
  let ?c = "st\<lparr>pending_head_changes := []\<rparr>"
  note d = staysD [of ?c s as] stays_apply_pending [of ?c "pending_head_changes st" "[]"]
  have s': "workflow s = workflow st" "task_id s = task_id st" "branch s = branch st"
    "status st \<noteq> PipelineStatus.Pending \<Longrightarrow> status s \<noteq> PipelineStatus.Pending"
    using d x s by auto
  have "stays_put st (enter_stage t s)" for t using s' by (intro stays_enter) auto
  then show "stays_put st (case x of (st1, acts) \<Rightarrow> if merge_in_flight st1
      then and_then (ok_or (recheck_target st1 (stage_index st1)) (Rejected MergeGateClosed)) (\<lambda>target.
        and_then (enter_stage target st1) (\<lambda>(st2, acts2). Inr (st2, acts @ acts2)))
      else Inr (st1, acts))"
    using s s' by (auto simp: stays_put_def result_split)
qed

fun product_branch :: "PipelineEvent \<Rightarrow> string option" where
  "product_branch (WorkCompleted _ _ (BranchProduct b _ _)) = Some b"
| "product_branch _ = None"

lemma stays_append:
  "stays_put st (and_then (enter_stage i s) (\<lambda>(u, as). Inr (u, bs @ as)))" if "stays_put st (enter_stage i s)"
  using that by (cases "enter_stage i s") (auto simp: stays_put_def)

lemma stays_approval_granted: "stays_put st (on_approval_granted sid rv h sel st)"
proof -
  have pick: "workflow s = workflow st \<and> task_id s = task_id st \<and> branch s = branch st \<and> status s = status st"
    if "tentative_pick sel st = Inr s" for s
    using that by (auto simp: tentative_pick_def result_split split: if_splits)
  have settle: "workflow u = workflow s \<and> task_id u = task_id s \<and> branch u = branch s \<and> status u = status s"
    if "settle_pick s = Inr (u, as)" for s u as
    using that by (auto simp: settle_pick_def keep_only_winner_def result_split Let_def split: if_splits)
  let ?late = "\<lambda>b n st1. let st2 = st1\<lparr>approval_reviewers := approval_reviewers st1 @ [rv]\<rparr> in
      if length (approval_reviewers st2) < unat (n :: u8) then Inr (st2, [])
      else and_then (settle_pick (record_approval sid b h st2)) (\<lambda>(st3, acts).
        and_then (enter_stage (stage_index st + 1) st3) (\<lambda>(st4, acts2). Inr (st4, acts @ acts2)))"
  have "stays_put st (?late b n s)" if s: "tentative_pick sel st = Inr s" for b n s
  proof -
    let ?s = "s\<lparr>approval_reviewers := approval_reviewers s @ [rv]\<rparr>"
    have "stays_put st (Inr (?s, []))" using pick [OF s] by (simp add: stays_put_def)
    moreover have "stays_put st (and_then (settle_pick (record_approval sid b h ?s)) (\<lambda>(st3, acts).
        and_then (enter_stage (stage_index st + 1) st3) (\<lambda>(st4, acts2). Inr (st4, acts @ acts2))))"
    proof (rule stays_and_then)
      fix x
      assume x: "settle_pick (record_approval sid b h ?s) = Inr x"
      obtain u as where u: "x = (u, as)" by (cases x)
      have "stays_put st (enter_stage (stage_index st + 1) u)"
        using settle [of "record_approval sid b h ?s" u as] pick [OF s] x u by (intro stays_enter) simp_all
      then show "stays_put st (case x of (st3, acts) \<Rightarrow>
          and_then (enter_stage (stage_index st + 1) st3) (\<lambda>(st4, acts2). Inr (st4, acts @ acts2)))"
        using u by (simp add: stays_append)
    qed
    ultimately show ?thesis unfolding Let_def by (simp split: if_split)
  qed
  then have "stays_put st (and_then (tentative_pick sel st) (?late b n))" for b n by (intro stays_and_then)
  then show ?thesis
    unfolding on_approval_granted_def by (intro stays_and_then) (auto split: prod.split)
qed

lemma stays_fanout_completed: "stays_put st (on_fanout_completed cs sel st)"
proof -
  have join: "workflow u = workflow s \<and> task_id u = task_id s \<and> branch u = branch s \<and> status u = status s"
    if "join_children j sel s = Inr (u, as)" for j s u as
    using that by (cases j) (auto simp: join_children_def keep_only_winner_def result_split Let_def split: if_splits)
  let ?s = "st\<lparr>selected_fanout_child := None, fanout_child_task_ids := cs\<rparr>"
  have "stays_put st (and_then (join_children j sel ?s) (\<lambda>(st1, acts).
      and_then (enter_stage (stage_index st + 1) st1) (\<lambda>(st2, acts2). Inr (st2, acts @ acts2))))" for j
  proof (rule stays_and_then)
    fix x
    assume x: "join_children j sel ?s = Inr x"
    obtain u as where u: "x = (u, as)" by (cases x)
    have "stays_put st (enter_stage (stage_index st + 1) u)"
      using join [of j ?s u as] x u by (intro stays_enter) simp_all
    then show "stays_put st (case x of (st1, acts) \<Rightarrow>
        and_then (enter_stage (stage_index st + 1) st1) (\<lambda>(st2, acts2). Inr (st2, acts @ acts2)))"
      using u by (simp add: stays_append)
  qed
  then show ?thesis
    unfolding on_fanout_completed_def
    by (intro stays_and_then) (simp split: option.split Stage.split)
qed

lemma stays_timed_out: "stays_put st (on_stage_timed_out sid st)"
proof -
  have "stays_put st (and_then (enter_stage (stage_index st) st) (\<lambda>(u, as). Inr (u, ReassignStage sid # as)))"
    using stays_append [OF stays_enter_stage, of st "stage_index st" "[ReassignStage sid]"] by simp
  moreover have "stays_put st (Inr (st\<lparr>notified_timeout := x\<rparr>, as))" for x as by (simp add: stays_put_def)
  moreover have "stays_put st (Inr (cancel i r st))" for i r by (simp add: stays_put_def cancel_def)
  ultimately show ?thesis
    unfolding on_stage_timed_out_def
    by (intro stays_and_then) (simp add: Let_def split: TimeoutAction.split)
qed

text \<open>Starting a task and completing a work stage are the two events that do more.\<close>

lemma stays_handle_event:
  assumes "ev \<noteq> PipelineEvent.Start" and "product_branch ev = None"
  shows "stays_put st (handle_event st ev)"
  using assms
proof (cases ev)
  case (WorkCompleted sid a product)
  have "workflow (record_product product st) = workflow st \<and> task_id (record_product product st) = task_id st
      \<and> branch (record_product product st) = branch st \<and> status (record_product product st) = status st"
    using assms(2) WorkCompleted by (cases product) simp_all
  then have "stays_put st (enter_stage i ((record_product product st)\<lparr>work_product := Some product\<rparr>))" for i
    by (intro stays_enter) simp_all
  with WorkCompleted show ?thesis by (simp add: on_work_completed_def split: option.split Stage.split)
next
  case (Submitted sid a cid)
  have "stays_put st (enter_stage i (st\<lparr>change_id := cid\<rparr>))" for i by (intro stays_enter) simp_all
  with Submitted show ?thesis by (auto simp: on_submitted_def intro: stays_and_then)
next
  case (CommandFinished sid a h e)
  have "stays_put st (enter_stage i (push_check sid h st))" for i by (intro stays_enter) simp_all
  with CommandFinished show ?thesis by (auto simp: on_command_finished_def stays_fail_stage intro: stays_and_then)
next
  case (ChangesRequested sid a rv h r)
  then show ?thesis by (auto simp: on_changes_requested_def stays_fail_stage intro: stays_and_then)
next
  case (CommitCreated h p)
  have "stays_put st (Inr (st\<lparr>pending_head_changes := x\<rparr>, as))" for x as by (simp add: stays_put_def)
  with CommitCreated show ?thesis
    using stays_head_change [of st "PendingHeadChange.CommitCreated h p"]
    by (auto simp: on_commit_created_def simp del: apply_head_change.simps intro!: stays_and_then)
next
  case (MainAdvanced h p c)
  have "stays_put st (Inr (st\<lparr>pending_head_changes := x\<rparr>, as))" for x as by (simp add: stays_put_def)
  with MainAdvanced show ?thesis
    using stays_head_change [of st "PendingHeadChange.MainAdvanced h p c"]
    by (auto simp: on_main_advanced_def simp del: apply_head_change.simps intro!: stays_and_then)
next
  case (Cancel reason)
  have "stays_put st (Inr (cancel i reason st))" for i by (simp add: stays_put_def cancel_def)
  with Cancel show ?thesis by (auto simp: on_cancel_def intro!: stays_and_then split: PipelineStatus.split)
next
  case (MergeCompleted sid a h c)
  have "stays_put st (Inr (st\<lparr>merge_commit := Some c, pending_head_changes := [], status := PipelineStatus.Done\<rparr>, as))" for as
    by (simp add: stays_put_def)
  with MergeCompleted show ?thesis by (auto simp: on_merge_completed_def intro!: stays_and_then)
next
  case (MergeFailed sid a h r)
  then show ?thesis by (auto simp: on_merge_failed_def stays_merge_failed intro: stays_and_then)
qed (simp_all add: stays_approval_granted stays_fanout_completed stays_timed_out stays_fail_stage)

lemma step_frame:
  assumes "step st ev = Inr (st', acts)"
  shows "workflow st' = workflow st" "task_id st' = task_id st" "status st' \<noteq> PipelineStatus.Pending"
    "branch st' = or_else (product_branch ev) (branch st)"
proof -
  have h: "handle_event st ev = Inr (st', acts)" using assms by (rule step_InrE)
  consider (start) "ev = PipelineEvent.Start" | (cancel) r where "ev = PipelineEvent.Cancel r"
    | (work) sid a b hd p where "ev = WorkCompleted sid a (BranchProduct b hd p)"
    | (other) "ev \<noteq> PipelineEvent.Start" "\<And>r. ev \<noteq> PipelineEvent.Cancel r" "product_branch ev = None"
    by (cases ev rule: product_branch.cases) auto
  then have "workflow st' = workflow st \<and> task_id st' = task_id st \<and> status st' \<noteq> PipelineStatus.Pending
    \<and> branch st' = or_else (product_branch ev) (branch st)"
  proof cases
    case start
    then have "enter_stage 0 (st\<lparr>status := PipelineStatus.Running\<rparr>) = Inr (st', acts)"
      using h by (auto simp: on_start_def split: if_splits)
    then have "stays_put (st\<lparr>status := PipelineStatus.Running\<rparr>) (Inr (st', acts))" by (metis stays_enter_stage)
    from staysD [OF this] start show ?thesis by (simp add: or_else_def)
  next
    case cancel
    then show ?thesis using h
      by (auto simp: on_cancel_def cancel_def result_split or_else_def split: PipelineStatus.splits)
  next
    case work
    let ?s = "(record_product (BranchProduct b hd p) st)\<lparr>work_product := Some (BranchProduct b hd p)\<rparr>"
    have "enter_stage (stage_index st + 1) ?s = Inr (st', acts)"
      using h work by (auto simp: on_work_completed_def split: option.splits Stage.splits if_splits)
    then have "stays_put ?s (Inr (st', acts))" by (metis stays_enter_stage)
    from staysD [OF this]
    have "workflow st' = workflow st" "task_id st' = task_id st" "branch st' = Some b"
      "status ?s \<noteq> PipelineStatus.Pending \<Longrightarrow> status st' \<noteq> PipelineStatus.Pending" by simp_all
    moreover have "status st = PipelineStatus.Running" using assms work by (auto elim!: step_InrE simp: result_split)
    ultimately show ?thesis using work by (simp add: or_else_def)
  next
    case other
    have "status st = PipelineStatus.Running"
      using assms other(1,2)
      by (cases ev; auto elim!: step_InrE simp: result_split on_commit_created_def on_main_advanced_def)
    with staysD [OF stays_handle_event [OF other(1,3), of st, unfolded h]] other(3) show ?thesis
      by (simp add: or_else_def)
  qed
  then show "workflow st' = workflow st" "task_id st' = task_id st" "status st' \<noteq> PipelineStatus.Pending"
    "branch st' = or_else (product_branch ev) (branch st)" by simp_all
qed

end
