(* ===== verification/Daemon_Invariant.thy ===== *)
theory Daemon_Invariant
  imports Daemon_Logic Pipeline_Frame
begin

text \<open>
  The invariant of the daemon's tables. A row of a task holds the snapshot of a state that the engine reaches
  by an accepted run of the workflow version the task is pinned to, with fewer events than the row's version;
  its status agrees with that state; no instance is the assignee of two unfinished tasks; the branch of a
  work binding names its task. Of a row whose version left the 32 bits of an attempt counter nothing is
  claimed about the run.
\<close>

section \<open>The invariant\<close>

type_synonym CoreRow = "Task \<times> u64 \<times> PipelineText option"

definition core_rows :: "Db \<Rightarrow> CoreRow list" where
  "core_rows db = map (\<lambda>r. (tr_task r, tr_version r, tr_pipeline r)) (db_tasks db)"

definition LIMIT :: nat where
  "LIMIT = 2 ^ 32 - 2"

definition status_ok :: "Task \<Rightarrow> PipelineState \<Rightarrow> bool" where
  "status_ok t st \<longleftrightarrow>
     t_merge_commit t = merge_commit st
     \<and> (if is_terminal (status st) then t_status t \<in> {task_status_of (status st), TaskStatus.Failed}
        else t_status t \<in> {TaskStatus.Open, TaskStatus.Running, TaskStatus.Blocked, TaskStatus.Failed})"

definition run_ok :: "Workflow \<Rightarrow> Task \<Rightarrow> u64 \<Rightarrow> PipelineSnapshot \<Rightarrow> bool" where
  "run_ok wfl t v snap \<longleftrightarrow> (unat v < LIMIT \<longrightarrow>
     (\<exists>evs st. run_of (t_id t) wfl evs st \<and> length evs < unat v \<and> snap = snapshot st
        \<and> belongs (t_id t) st \<and> status_ok t st))"

definition id_ok :: "string \<Rightarrow> bool" where
  "id_ok task \<longleftrightarrow> (\<exists>k. task = ''t-'' @ show_nat k)"

definition row_id :: "CoreRow \<Rightarrow> string" where
  "row_id x = t_id (fst x)"

definition task_row_ok :: "Db \<Rightarrow> Task \<Rightarrow> u64 \<Rightarrow> PipelineText option \<Rightarrow> bool" where
  "task_row_ok db t v p \<longleftrightarrow> id_ok (t_id t) \<and> (\<exists>wfl snap.
     load_workflow db (t_workflow_id t) (t_workflow_version t) = Some wfl \<and> pinned_to wfl t
     \<and> daemon_validate wfl = Some wfl \<and> p = Some (Encoded snap)
     \<and> (snap_status snap = PipelineStatus.Pending \<longrightarrow> t_assignee t = None) \<and> run_ok wfl t v snap)"

definition holder_free :: "CoreRow list \<Rightarrow> Task \<Rightarrow> bool" where
  "holder_free rows t' \<longleftrightarrow> (\<forall>t v p. (t, v, p) \<in> set rows \<longrightarrow>
     t_id t \<noteq> t_id t' \<longrightarrow> \<not> closed t \<longrightarrow> \<not> closed t' \<longrightarrow> t_assignee t' \<noteq> None \<longrightarrow> t_assignee t \<noteq> t_assignee t')"

definition binding_ok :: "BindingRow \<Rightarrow> bool" where
  "binding_ok b \<longleftrightarrow> (bn_kind b = ''work'' \<longrightarrow> (\<exists>br. bn_branch b = Some br \<and> task_id_of_branch br = Some (bn_task b)))"

definition db_inv :: "Db \<Rightarrow> bool" where
  "db_inv db \<longleftrightarrow>
     distinct (map row_id (core_rows db))
     \<and> (\<forall>t v p. (t, v, p) \<in> set (core_rows db) \<longrightarrow> task_row_ok db t v p \<and> holder_free (core_rows db) t)
     \<and> (\<forall>b \<in> set (db_bindings db). binding_ok b) \<and> [] \<notin> is_id ` set (db_instances db)
     \<and> (\<forall>w \<in> set (db_workflows db). load_workflow db (wf_id w) (wf_version w) = Some w)"

text \<open>A merge is earned when a run of the task's workflow brought the head into its merge stage.\<close>

definition earned :: "Db \<Rightarrow> string \<Rightarrow> string \<Rightarrow> bool" where
  "earned db task h \<longleftrightarrow> (\<exists>t v p. (t, v, p) \<in> set (core_rows db) \<and> t_id t = task \<and>
     (LIMIT \<le> unat v \<or> (\<exists>wfl evs st. load_workflow db (t_workflow_id t) (t_workflow_version t) = Some wfl
        \<and> daemon_validate wfl = Some wfl
        \<and> run_of task wfl evs st \<and> merge_in_flight st \<and> current_head st = Some h)))"

fun internal :: "PipelineEvent \<Rightarrow> bool" where
  "internal Start = False"
| "internal (WorkCompleted _ _ _) = False"
| "internal (ApprovalGranted _ _ _ _ _) = False"
| "internal (ChangesRequested _ _ _ _ _) = False"
| "internal (FanoutCompleted _ _ _ _) = False"
| "internal (Cancel _) = False"
| "internal _ = True"

fun sent_ok :: "Db \<Rightarrow> Spawned \<Rightarrow> bool" where
  "sent_ok db (SentEvent task ev) \<longleftrightarrow>
     internal ev \<and> (\<forall>sid a h c. ev = MergeCompleted sid a h c \<longrightarrow> earned db task h)"
| "sent_ok db _ \<longleftrightarrow> True"

definition ok :: "Db \<Rightarrow> Spawned list \<Rightarrow> bool" where
  "ok db sp \<longleftrightarrow> db_inv db \<and> list_all (sent_ok db) sp"

section \<open>How rows change\<close>

definition evolves :: "Db \<Rightarrow> Db \<Rightarrow> bool" where
  "evolves db db' \<longleftrightarrow>
     (\<forall>t v p. (t, v, p) \<in> set (core_rows db) \<longrightarrow> (\<exists>t' v' p'. (t', v', p') \<in> set (core_rows db')
        \<and> t_id t' = t_id t \<and> t_workflow_id t' = t_workflow_id t \<and> t_workflow_version t' = t_workflow_version t
        \<and> unat v \<le> unat v'))
     \<and> (\<forall>i v wfl. load_workflow db i v = Some wfl \<longrightarrow> load_workflow db' i v = Some wfl)"

lemma evolves_earned:
  assumes "evolves db db'" and "earned db task h"
  shows "earned db' task h"
proof -
  from assms(2) obtain t v p where r: "(t, v, p) \<in> set (core_rows db)" "t_id t = task"
    and c: "LIMIT \<le> unat v \<or> (\<exists>wfl evs st. load_workflow db (t_workflow_id t) (t_workflow_version t) = Some wfl
      \<and> daemon_validate wfl = Some wfl
      \<and> run_of task wfl evs st \<and> merge_in_flight st \<and> current_head st = Some h)"
    unfolding earned_def by blast
  from assms(1) r(1) obtain t' v' p' where r': "(t', v', p') \<in> set (core_rows db')" "t_id t' = t_id t"
    "t_workflow_id t' = t_workflow_id t" "t_workflow_version t' = t_workflow_version t" "unat v \<le> unat v'"
    unfolding evolves_def by blast
  have "\<forall>i v wfl. load_workflow db i v = Some wfl \<longrightarrow> load_workflow db' i v = Some wfl"
    using assms(1) by (simp add: evolves_def)
  with c r'(3-5) have "LIMIT \<le> unat v' \<or> (\<exists>wfl evs st. load_workflow db' (t_workflow_id t') (t_workflow_version t') = Some wfl
      \<and> daemon_validate wfl = Some wfl
      \<and> run_of task wfl evs st \<and> merge_in_flight st \<and> current_head st = Some h)" by (metis le_trans)
  with r'(1,2) r(2) show ?thesis unfolding earned_def by blast
qed

lemma evolves_sent: "evolves db db' \<Longrightarrow> sent_ok db s \<Longrightarrow> sent_ok db' s"
  by (cases s) (auto intro: evolves_earned)

lemma ok_evolves: "ok db sp \<Longrightarrow> db_inv db' \<Longrightarrow> evolves db db' \<Longrightarrow> ok db' sp"
  by (auto simp: ok_def list_all_iff intro: evolves_sent)

lemma invD:
  assumes "db_inv db"
  shows "distinct (map row_id (core_rows db))" "(t, v, p) \<in> set (core_rows db) \<Longrightarrow> task_row_ok db t v p"
    "(t, v, p) \<in> set (core_rows db) \<Longrightarrow> holder_free (core_rows db) t" "b \<in> set (db_bindings db) \<Longrightarrow> binding_ok b"
    "i \<in> set (db_instances db) \<Longrightarrow> is_id i \<noteq> []"
    "w \<in> set (db_workflows db) \<Longrightarrow> load_workflow db (wf_id w) (wf_version w) = Some w"
  using assms unfolding db_inv_def by (blast, blast, blast, blast, force, blast)

lemma same_row:
  assumes "distinct (map row_id rows)" and "(t, v, p) \<in> set rows" and "(t', v', p') \<in> set rows" and "t_id t = t_id t'"
  shows "t' = t" "v' = v" "p' = p"
  using inj_onD [of row_id "set rows" "(t, v, p)" "(t', v', p')"] assms by (auto simp: distinct_map row_id_def)

section \<open>Writes that leave the core alone\<close>

definition same_core :: "Db \<Rightarrow> Db \<Rightarrow> bool" where
  "same_core db db' \<longleftrightarrow> core_rows db' = core_rows db \<and> db_workflows db' = db_workflows db
     \<and> db_bindings db' = db_bindings db \<and> is_id ` set (db_instances db') = is_id ` set (db_instances db)"

lemma load_workflow_cong: "db_workflows db' = db_workflows db \<Longrightarrow> load_workflow db' = load_workflow db"
  by (intro ext) (simp add: load_workflow_def)

lemma row_ok_cong: "load_workflow db' = load_workflow db \<Longrightarrow> task_row_ok db' = task_row_ok db"
  by (intro ext) (simp add: task_row_ok_def)

lemma same_core_inv: "same_core db db' \<Longrightarrow> db_inv db \<Longrightarrow> db_inv db'"
  using row_ok_cong [OF load_workflow_cong, of db' db] load_workflow_cong [of db' db]
  by (simp add: db_inv_def same_core_def)

lemma same_core_evolves: "same_core db db' \<Longrightarrow> evolves db db'"
  using load_workflow_cong [of db' db] unfolding evolves_def same_core_def by auto

section \<open>Replacing a row\<close>

definition set_row :: "Task \<Rightarrow> u64 \<Rightarrow> PipelineText option \<Rightarrow> CoreRow \<Rightarrow> CoreRow" where
  "set_row t' v' p' x = (if row_id x = t_id t' then (t', v', p') else x)"

definition replaces :: "Db \<Rightarrow> Task \<Rightarrow> u64 \<Rightarrow> PipelineText option \<Rightarrow> Db \<Rightarrow> bool" where
  "replaces db t' v' p' db' \<longleftrightarrow> core_rows db' = map (set_row t' v' p') (core_rows db)
     \<and> db_workflows db' = db_workflows db \<and> db_bindings db' = db_bindings db
     \<and> is_id ` set (db_instances db') = is_id ` set (db_instances db)"

lemma replacesE:
  assumes "replaces db t' v' p' db'" and "(t, v, p) \<in> set (core_rows db')"
  obtains "(t, v, p) = (t', v', p')" | "(t, v, p) \<in> set (core_rows db)" "t_id t \<noteq> t_id t'"
  using assms by (auto simp: replaces_def set_row_def row_id_def split: if_splits)

lemma replacesD:
  assumes "replaces db t' v' p' db'"
  shows "map row_id (core_rows db') = map row_id (core_rows db)" "load_workflow db' = load_workflow db"
    "db_bindings db' = db_bindings db" "is_id ` set (db_instances db') = is_id ` set (db_instances db)"
    "(t, v, p) \<in> set (core_rows db) \<Longrightarrow> t_id t = t_id t' \<Longrightarrow> (t', v', p') \<in> set (core_rows db')"
    "(t, v, p) \<in> set (core_rows db) \<Longrightarrow> t_id t \<noteq> t_id t' \<Longrightarrow> (t, v, p) \<in> set (core_rows db')"
proof -
  have c: "core_rows db' = map (set_row t' v' p') (core_rows db)" using assms by (simp add: replaces_def)
  show "map row_id (core_rows db') = map row_id (core_rows db)" "db_bindings db' = db_bindings db"
    "is_id ` set (db_instances db') = is_id ` set (db_instances db)" "load_workflow db' = load_workflow db"
    using assms load_workflow_cong [of db' db] by (auto simp: replaces_def set_row_def row_id_def)
  show "(t', v', p') \<in> set (core_rows db')" if "(t, v, p) \<in> set (core_rows db)" "t_id t = t_id t'"
    using that c by (force simp: set_row_def row_id_def)
  show "(t, v, p) \<in> set (core_rows db')" if "(t, v, p) \<in> set (core_rows db)" "t_id t \<noteq> t_id t'"
    using that c by (force simp: set_row_def row_id_def)
qed

lemma replaces_inv:
  assumes inv: "db_inv db" and rep: "replaces db t' v' p' db'" and row: "task_row_ok db t' v' p'"
    and free: "holder_free (core_rows db) t'"
  shows "db_inv db'"
proof -
  note d = invD [OF inv] and r = replacesD [OF rep]
  have "task_row_ok db' t v p \<and> holder_free (core_rows db') t" if m: "(t, v, p) \<in> set (core_rows db')" for t v p
  proof
    show "task_row_ok db' t v p"
      using m row d(2) row_ok_cong [OF r(2)] by (auto elim: replacesE [OF rep])
    show "holder_free (core_rows db') t"
      unfolding holder_free_def
    proof (intro allI impI)
      fix a b c
      assume a: "(a, b, c) \<in> set (core_rows db')" "t_id a \<noteq> t_id t" "\<not> closed a" "\<not> closed t" "t_assignee t \<noteq> None"
      from m show "t_assignee a \<noteq> t_assignee t"
      proof (rule replacesE [OF rep])
        assume "(t, v, p) = (t', v', p')"
        then have t: "t = t'" by simp
        from a(1) show ?thesis
          by (rule replacesE [OF rep]) (use a(2-) t free in \<open>auto simp: holder_free_def\<close>)
      next
        assume t: "(t, v, p) \<in> set (core_rows db)" "t_id t \<noteq> t_id t'"
        from a(1) show ?thesis
        proof (rule replacesE [OF rep])
          assume "(a, b, c) = (t', v', p')"
          with a t free show ?thesis unfolding holder_free_def by (metis Pair_inject)
        next
          assume "(a, b, c) \<in> set (core_rows db)"
          with a d(3) [OF t(1)] show ?thesis unfolding holder_free_def by blast
        qed
      qed
    qed
  qed
  moreover have "db_workflows db' = db_workflows db" using rep by (simp add: replaces_def)
  ultimately show ?thesis using inv r(1-4) unfolding db_inv_def by simp
qed

lemma replaces_evolves:
  assumes inv: "db_inv db" and rep: "replaces db t' v' p' db'" and row: "(t, v, p) \<in> set (core_rows db)"
    and same: "t_id t = t_id t'" "t_workflow_id t' = t_workflow_id t" "t_workflow_version t' = t_workflow_version t"
      "unat v \<le> unat v'"
  shows "evolves db db'"
proof -
  note r = replacesD [OF rep]
  have "\<exists>t1 v1 p1. (t1, v1, p1) \<in> set (core_rows db') \<and> t_id t1 = t_id s \<and> t_workflow_id t1 = t_workflow_id s
      \<and> t_workflow_version t1 = t_workflow_version s \<and> unat u \<le> unat v1"
    if s: "(s, u, q) \<in> set (core_rows db)" for s u q
  proof (cases "t_id s = t_id t'")
    case True
    then have "s = t" "u = v" using same_row [OF invD(1) [OF inv] row s] same(1) by simp_all
    with r(5) [OF row same(1)] same show ?thesis by force
  next
    case False
    with r(6) [OF s] show ?thesis by blast
  qed
  then show ?thesis using r(2) by (simp add: evolves_def)
qed

section \<open>What the store operations do to the core\<close>

lemma core_rows_cong: "db_tasks db' = db_tasks db \<Longrightarrow> core_rows db' = core_rows db"
  by (simp add: core_rows_def)

lemma same_coreI:
  assumes "db_tasks db' = db_tasks db" and "db_workflows db' = db_workflows db" and "db_bindings db' = db_bindings db"
    and "db_instances db' = db_instances db"
  shows "same_core db db'"
  using assms core_rows_cong [OF assms(1)] by (simp add: same_core_def)

lemma same_core_refl [simp]: "same_core db db"
  by (simp add: same_core_def)

lemma same_core_trans: "same_core a b \<Longrightarrow> same_core b c \<Longrightarrow> same_core a c"
  by (simp add: same_core_def)

lemma to_i64_Inr [result_split]: "to_i64 n = Inr m \<longleftrightarrow> n \<le> I64_MAX \<and> m = n"
  by (auto simp: to_i64_def)

lemma append_event_core: "append_event db task e = Inr db' \<Longrightarrow> same_core db db'"
  by (auto simp: append_event_def result_split intro!: same_coreI split: if_splits)

lemma claim_message_core: "claim_message db new t = Inr (db', c) \<Longrightarrow> same_core db db'"
  by (auto simp: claim_message_def result_split Let_def intro!: same_coreI split: option.splits)

lemma advance_message_core: "advance_message db i next tn t = Inr db' \<Longrightarrow> same_core db db'"
  by (auto simp: advance_message_def update_message_def result_split intro!: same_coreI split: option.splits if_splits)

lemma port_advance_message_core: "port_advance_message db i next tn t = Inr db' \<Longrightarrow> same_core db db'"
  by (auto simp: port_advance_message_def split: option.splits if_splits dest: advance_message_core)

lemma confirm_dispatch_core: "confirm_dispatch db c t = Inr db' \<Longrightarrow> same_core db db'"
  by (auto simp: confirm_dispatch_def result_split split: option.splits if_splits
      dest: advance_message_core intro: same_core_trans)

lemma update_task_core:
  assumes "\<And>r. tr_task (f r) = tr_task r \<and> tr_version (f r) = tr_version r \<and> tr_pipeline (f r) = tr_pipeline r"
  shows "same_core db (update_task task f db)"
  using assms by (auto simp: same_core_def core_rows_def update_task_def)

lemma task_note_core: "same_core db (task_note db task b a k)"
  unfolding task_note_def by (rule update_task_core) simp

lemma ids_map: "(\<And>x. is_id (f x) = is_id x) \<Longrightarrow> is_id ` set (map f xs) = is_id ` set xs"
  by (simp add: image_image)

lemma team_core:
  "add_team db t = Inr db' \<Longrightarrow> same_core db db'" "set_team_workflow db tm wfl = Inr db' \<Longrightarrow> same_core db db'"
  by (auto simp: add_team_def set_team_workflow_def intro!: same_coreI split: if_splits)

lemma join_team_core: "join_team db tm i role = Inr db' \<Longrightarrow> same_core db db'"
proof -
  assume "join_team db tm i role = Inr db'"
  then have d: "db' = db\<lparr>db_instances := map (\<lambda>x. if is_id x = i then x\<lparr>is_team := tm, is_role := role\<rparr> else x)
      (db_instances db)\<rparr>" by (simp add: join_team_def split: if_splits)
  show ?thesis unfolding same_core_def d by (intro conjI) (simp_all add: core_rows_def ids_map del: set_map)
qed

lemma ask_core: "save_ask db row = Inr db' \<Longrightarrow> same_core db db'" "same_core db (mark_answer_sent db n)"
  by (auto simp: save_ask_def mark_answer_sent_def Let_def intro!: same_coreI split: if_splits)

lemma reminder_core: "add_reminder db task due = Inr db' \<Longrightarrow> same_core db db'" "same_core db (delete_reminder db n)"
  by (auto simp: add_reminder_def delete_reminder_def result_split intro!: same_coreI split: if_splits)

lemma find_task_SomeD:
  "find_task db task = Some r \<Longrightarrow> (tr_task r, tr_version r, tr_pipeline r) \<in> set (core_rows db) \<and> t_id (tr_task r) = task"
  by (auto simp: find_task_def find_Some_iff has_task_def core_rows_def intro!: image_eqI nth_mem)

lemma load_task_SomeD:
  "load_task db task = Some (v, t) \<Longrightarrow> \<exists>p. (t, v, p) \<in> set (core_rows db) \<and> t_id t = task"
  unfolding load_task_def using find_task_SomeD [of db task] by auto

lemma find_task_ex:
  assumes "distinct (map row_id (core_rows db))" and "(t, v, p) \<in> set (core_rows db)"
  obtains r where "find_task db (t_id t) = Some r" "tr_task r = t" "tr_version r = v" "tr_pipeline r = p"
proof (cases "find_task db (t_id t)")
  case None
  then show thesis using assms(2) by (auto simp: find_task_def find_None_iff has_task_def core_rows_def)
next
  case (Some r)
  note f = find_task_SomeD [OF Some]
  have "tr_task r = t" "tr_version r = v" "tr_pipeline r = p"
    using same_row [OF assms conjunct1 [OF f]] f by simp_all
  then show thesis using that [OF Some] by blast
qed

lemma progress_row:
  assumes "distinct (map row_id (core_rows db))" and "(t, v, p) \<in> set (core_rows db)" and "progress db (t_id t) = Some q"
  shows "p = Some (pg_pipeline (pr_data q))"
proof -
  obtain r where "find_task db (t_id t) = Some r" "tr_pipeline r = p" by (rule find_task_ex [OF assms(1,2)])
  with assms(3) show ?thesis by (auto simp: progress_def)
qed

lemma update_task_replaces:
  assumes d: "distinct (map row_id (core_rows db))" and r: "find_task db (t_id t') = Some r"
    and f: "tr_task (f r) = t'" "tr_version (f r) = v'" "tr_pipeline (f r) = p'"
  shows "replaces db t' v' p' (update_task (t_id t') f db)"
proof -
  have "(tr_task (if has_task (t_id t') x then f x else x), tr_version (if has_task (t_id t') x then f x else x),
      tr_pipeline (if has_task (t_id t') x then f x else x)) = set_row t' v' p' (tr_task x, tr_version x, tr_pipeline x)"
    if x: "x \<in> set (db_tasks db)" for x
  proof (cases "has_task (t_id t') x")
    case True
    have "inj_on (\<lambda>r. t_id (tr_task r)) (set (db_tasks db))"
      using d by (simp add: core_rows_def comp_def row_id_def distinct_map)
    moreover have "r \<in> set (db_tasks db)" "t_id (tr_task r) = t_id t'"
      using r by (auto simp: find_task_def find_Some_iff has_task_def)
    ultimately have "x = r" using x True inj_onD [of "\<lambda>r. t_id (tr_task r)" "set (db_tasks db)" x r]
      by (simp add: has_task_def)
    with True f show ?thesis by (simp add: set_row_def row_id_def has_task_def)
  next
    case False
    then show ?thesis by (simp add: set_row_def row_id_def has_task_def)
  qed
  then show ?thesis by (simp add: replaces_def update_task_def core_rows_def comp_def)
qed

lemma same_core_replaces: "replaces db t v p db1 \<Longrightarrow> same_core db1 db2 \<Longrightarrow> replaces db t v p db2"
  by (simp add: replaces_def same_core_def)

lemma suc_version:
  assumes "v < I64_MAX"
  shows "unat (v + 1) = unat v + 1"
proof -
  have "unat v < unat I64_MAX" using assms by (simp add: word_less_nat_alt)
  also have "\<dots> < 2 ^ 64 - 1" by (simp add: I64_MAX_def)
  finally show ?thesis by (simp add: unat_word_ariths)
qed

lemma compare_and_swap_core:
  assumes "db_inv db" and "compare_and_swap db t' e = Inr (db', r)"
  shows "db' = db \<or> (\<exists>t p. (t, e, p) \<in> set (core_rows db) \<and> t_id t = t_id t' \<and> unat (e + 1) = unat e + 1
    \<and> replaces db t' (e + 1) p db')"
proof (cases r)
  case (Conflict c)
  then show ?thesis using assms(2) by (auto simp: compare_and_swap_def Let_def result_split split: if_splits)
next
  case (Written v)
  then obtain row where row: "find_task db (t_id t') = Some row" "tr_version row = e" and e: "e < I64_MAX"
    and db': "db' = update_task (t_id t') (\<lambda>r. r\<lparr>tr_task := t', tr_version := e + 1\<rparr>) db"
    using assms(2) by (auto simp: compare_and_swap_def Let_def result_split not_less order_le_less split: if_splits)
  have "replaces db t' (e + 1) (tr_pipeline row) db'"
    unfolding db' by (rule update_task_replaces [OF invD(1) [OF assms(1)] row(1)]) simp_all
  with find_task_SomeD [OF row(1)] row(2) suc_version [OF e] show ?thesis by auto
qed

lemma advance_with_receipt_core:
  assumes "db_inv db" and "advance_with_receipt db t' e data ev conf clear = Inr (db', r)"
  shows "\<not> written r \<and> db' = db \<or> written r \<and> (\<exists>t p. (t, e, p) \<in> set (core_rows db) \<and> t_id t = t_id t' \<and> unat (e + 1) = unat e + 1
    \<and> replaces db t' (e + 1) (Some (pg_pipeline data)) db')"
proof (cases r)
  case (Conflict c)
  then show ?thesis using assms(2)
    by (auto simp: advance_with_receipt_def result_split Let_def written_def split: CasResult.splits) (metis CasResult.exhaust)+
next
  case (Written v)
  let ?f = "\<lambda>r. r\<lparr>tr_pipeline := Some (pg_pipeline data), tr_stage_entered := pg_stage_entered data,
      tr_merge_intent := pg_merge_intent data, tr_block_reason := pg_block_reason data,
      tr_attention_reason := (if clear then None else tr_attention_reason r)\<rparr>"
  obtain db1 db3 where c: "compare_and_swap db t' e = Inr (db1, Written v)"
    and a: "append_event (update_task (t_id t') ?f db1) (t_id t') ev = Inr db3"
    and f: "confirm_dispatch db3 conf (se_occurred_at ev) = Inr db'"
    using assms(2) Written
    by (auto simp: advance_with_receipt_def result_split Let_def split: CasResult.splits) (metis CasResult.exhaust)
  obtain row where row: "find_task db (t_id t') = Some row" "tr_version row = e" and e: "e < I64_MAX"
    and db1: "db1 = update_task (t_id t') (\<lambda>r. r\<lparr>tr_task := t', tr_version := e + 1\<rparr>) db"
    using c by (auto simp: compare_and_swap_def Let_def result_split not_less order_le_less split: if_splits)
  have "update_task (t_id t') ?f db1 = update_task (t_id t') (\<lambda>r. ?f (r\<lparr>tr_task := t', tr_version := e + 1\<rparr>)) db"
    by (simp add: db1 update_task_def has_task_def comp_def cong: if_cong)
  then have "replaces db t' (e + 1) (Some (pg_pipeline data)) (update_task (t_id t') ?f db1)"
    by (simp only:) (rule update_task_replaces [OF invD(1) [OF assms(1)] row(1)]; simp)
  then have "replaces db t' (e + 1) (Some (pg_pipeline data)) db'"
    using same_core_replaces append_event_core [OF a] confirm_dispatch_core [OF f] by blast
  with find_task_SomeD [OF row(1)] row(2) suc_version [OF e] Written show ?thesis by (auto simp: written_def)
qed

end
