(* ===== verification/Daemon_Quiet.thy ===== *)
theory Daemon_Quiet
  imports Daemon_Invariant
begin

text \<open>
  Operations that leave the status and the stored state of every task alone: messages, bindings, assignment,
  cleaning up and everything an action of the engine starts. They keep the invariant together with the view of
  statuses and states, and with the merges known to be earned.
\<close>

section \<open>The view that stays\<close>

definition view :: "Db \<Rightarrow> (string \<times> TaskStatus \<times> PipelineText option) list" where
  "view db = map (\<lambda>(t, _, p). (t_id t, t_status t, p)) (core_rows db)"

definition quiet :: "(string \<times> TaskStatus \<times> PipelineText option) list \<Rightarrow> (string \<times> string) set \<Rightarrow> Db \<Rightarrow> Spawned list \<Rightarrow> bool" where
  "quiet vw hs db sp \<longleftrightarrow> ok db sp \<and> view db = vw \<and> (\<forall>t h. (t, h) \<in> hs \<longrightarrow> earned db t h)"

definition started :: "(string \<times> TaskStatus \<times> PipelineText option) list \<Rightarrow> string \<Rightarrow> bool" where
  "started vw task \<longleftrightarrow> (\<forall>s p. (task, s, p) \<in> set vw \<longrightarrow>
     (\<exists>snap. p = Some (Encoded snap) \<and> snap_status snap \<noteq> PipelineStatus.Pending))"

lemma quietD:
  assumes "quiet vw hs db sp"
  shows "ok db sp" "db_inv db" "view db = vw" "(t, h) \<in> hs \<Longrightarrow> earned db t h"
  using assms by (auto simp: quiet_def ok_def)

lemma quiet_self: "ok db sp \<Longrightarrow> quiet (view db) {} db sp"
  by (simp add: quiet_def)

lemma quiet_evolves:
  assumes "quiet vw hs db sp" and "db_inv db'" and "view db' = vw" and "evolves db db'"
  shows "quiet vw hs db' sp"
  using assms ok_evolves evolves_earned unfolding quiet_def by blast

lemma quiet_same_core:
  assumes q: "quiet vw hs db sp" and s: "same_core db db'"
  shows "quiet vw hs db' sp"
proof (rule quiet_evolves [OF q])
  show "db_inv db'" by (rule same_core_inv [OF s quietD(2) [OF q]])
  have "core_rows db' = core_rows db" using s by (simp add: same_core_def)
  then show "view db' = vw" unfolding quietD(3) [OF q, symmetric] by (simp add: view_def)
  show "evolves db db'" by (rule same_core_evolves [OF s])
qed

lemma view_row: "(t, v, p) \<in> set (core_rows db) \<Longrightarrow> (t_id t, t_status t, p) \<in> set (view db)"
  by (force simp: view_def)

lemma replaces_view:
  assumes "replaces db t' v' p db'" and "distinct (map row_id (core_rows db))" and "(t, v, p) \<in> set (core_rows db)"
    and "t_id t = t_id t'" and "t_status t' = t_status t"
  shows "view db' = view db"
proof -
  have "(\<lambda>(t, _, p). (t_id t, t_status t, p)) (set_row t' v' p x) = (\<lambda>(t, _, p). (t_id t, t_status t, p)) x"
    if x: "x \<in> set (core_rows db)" for x
  proof (cases "row_id x = t_id t'")
    case True
    obtain a b c where a: "x = (a, b, c)" by (cases x)
    have "a = t" "c = p" using same_row [OF assms(2,3), of a b c] x a True assms(4) by (simp_all add: row_id_def)
    with True a assms(4,5) show ?thesis by (simp add: set_row_def)
  qed (simp add: set_row_def)
  then show ?thesis using assms(1) by (simp add: view_def replaces_def comp_def)
qed

lemma row_ok_assignee:
  assumes "task_row_ok db t v p" and "unat v \<le> unat v'"
    and "who \<noteq> None \<Longrightarrow> \<exists>snap. p = Some (Encoded snap) \<and> snap_status snap \<noteq> PipelineStatus.Pending"
  shows "task_row_ok db (t\<lparr>t_assignee := who\<rparr>) v' p"
proof -
  have "run_ok wfl (t\<lparr>t_assignee := who\<rparr>) v' snap" if "run_ok wfl t v snap" for wfl snap
    using that assms(2) by (fastforce simp: run_ok_def status_ok_def)
  moreover have "pinned_to wfl (t\<lparr>t_assignee := who\<rparr>) = pinned_to wfl t" for wfl by (simp add: pinned_to_def)
  moreover have "who = None" if "p = Some (Encoded snap)" "snap_status snap = PipelineStatus.Pending" for snap
    using assms(3) that by (cases who) auto
  ultimately show ?thesis using assms(1) unfolding task_row_ok_def by simp blast
qed

text \<open>The assignee of one row changes.\<close>

lemma quiet_assignee:
  assumes q: "quiet vw hs db sp" and row: "(t, v, p) \<in> set (core_rows db)" and le: "unat (v + 1) = unat v + 1"
    and rep: "replaces db (t\<lparr>t_assignee := who\<rparr>) (v + 1) p db'"
    and who: "who \<noteq> None \<Longrightarrow> started vw (t_id t) \<and> holder_free (core_rows db) (t\<lparr>t_assignee := who\<rparr>)"
  shows "quiet vw hs db' sp"
proof (rule quiet_evolves [OF q])
  note i = quietD(2) [OF q] and vw = quietD(3) [OF q]
  have "task_row_ok db (t\<lparr>t_assignee := who\<rparr>) (v + 1) p"
    using invD(2) [OF i row] le who view_row [OF row] vw by (intro row_ok_assignee) (auto simp: started_def)
  moreover have "holder_free (core_rows db) (t\<lparr>t_assignee := who\<rparr>)"
    using who by (cases who) (auto simp: holder_free_def)
  ultimately show "db_inv db'" by (rule replaces_inv [OF i rep])
  show "view db' = vw" using replaces_view [OF rep invD(1) [OF i] row] vw by simp
  show "evolves db db'" by (rule replaces_evolves [OF i rep row]) (use le in simp_all)
qed

section \<open>Messages and notes\<close>

abbreviation quietly where
  "quietly vw hs \<equiv> keeps (quiet vw hs)"

lemma quietly_write:
  assumes "\<And>db db' x. f db = Inr (db', x) \<Longrightarrow> same_core db db'"
  shows "quietly vw hs (store_write w f)"
  by (rule keeps_write) (use assms quiet_same_core in blast)

lemma wrote_Inr: "wrote r = Inr (db', x) \<longleftrightarrow> r = Inr db'"
  by (cases r) (auto simp: wrote_def)

lemma quietly_note [keeps]: "quietly vw hs (note_task w task reason)"
  unfolding note_task_def by (intro keeps quietly_write) (use task_note_core in auto)

lemma quietly_deliver [keeps]: "quietly vw hs (deliver w to i task body)"
  unfolding deliver_def
  by (intro keeps quietly_write) (auto simp: wrote_Inr dest: claim_message_core port_advance_message_core)

section \<open>Bindings\<close>

lemma quiet_bindings:
  assumes q: "quiet vw hs db sp" and "\<forall>b \<in> set bs. binding_ok b"
  shows "quiet vw hs (db\<lparr>db_bindings := bs\<rparr>) sp"
proof (rule quiet_evolves [OF q])
  let ?d = "db\<lparr>db_bindings := bs\<rparr>"
  have c: "core_rows ?d = core_rows db" "load_workflow ?d = load_workflow db"
    by (simp_all add: core_rows_def load_workflow_cong [of ?d db])
  show "db_inv ?d" using quietD(2) [OF q] assms(2) c row_ok_cong [OF c(2)] by (simp add: db_inv_def)
  show "view ?d = vw" using quietD(3) [OF q] c by (simp add: view_def)
  show "evolves db ?d" unfolding evolves_def c by blast
qed

lemma quiet_delete_binding: "quiet vw hs db sp \<Longrightarrow> quiet vw hs (delete_binding db i) sp"
  unfolding delete_binding_def using invD(4) [OF quietD(2), of vw hs db sp] by (intro quiet_bindings) auto

lemma quiet_put_binding:
  assumes q: "quiet vw hs db sp" and b: "binding_ok b" and "put_binding db b = Inr db'"
  shows "quiet vw hs db' sp"
proof -
  have old: "\<forall>x \<in> set (db_bindings db). binding_ok x" using invD(4) [OF quietD(2) [OF q]] by blast
  let ?f = "\<lambda>x. if bn_instance x = bn_instance b
      then x\<lparr>bn_ticket := bn_ticket b, bn_status := bn_status b, bn_head := bn_head b\<rparr> else x"
  have "binding_ok (?f x)" if "binding_ok x" for x using that by (simp add: binding_ok_def)
  then have "\<forall>x \<in> set (map ?f (db_bindings db)). binding_ok x" using old unfolding set_map by blast
  moreover have "\<forall>x \<in> set (db_bindings db @ [b]). binding_ok x" using old b by simp
  moreover have "db' = db\<lparr>db_bindings := map ?f (db_bindings db)\<rparr> \<or> db' = db\<lparr>db_bindings := db_bindings db @ [b]\<rparr>"
    using assms(3) by (auto simp: put_binding_def split: option.splits if_splits)
  ultimately show ?thesis using quiet_bindings [OF q] by blast
qed

lemma quietly_delete_binding [keeps]: "quietly vw hs (store_write w (\<lambda>db. Inr (delete_binding db i, ())))"
  by (rule keeps_write) (auto intro: quiet_delete_binding)

lemma quietly_put_binding: "binding_ok b \<Longrightarrow> quietly vw hs (store_write w (\<lambda>db. wrote (put_binding db b)))"
  by (rule keeps_write) (auto simp: wrote_Inr intro: quiet_put_binding)

lemma quietly_release_mode [keeps]: "quietly vw hs (release_mode w b mode)"
  unfolding release_mode_def release_binding_def
  by (intro keeps quietly_write) (auto simp: wrote_Inr dest: append_event_core)

lemma quietly_release [keeps]: "quietly vw hs (release w b merged)"
  unfolding release_def by (rule quietly_release_mode)

lemma quietly_ensure_binding: "binding_ok b \<Longrightarrow> quietly vw hs (ensure_binding w repo b)"
  unfolding ensure_binding_def by (intro keeps quietly_put_binding) (simp_all add: binding_ok_def)

section \<open>Assignees\<close>

lemma spec_advance_task:
  assumes inv: "\<And>db sp. P db sp \<Longrightarrow> db_inv db" and P: "\<And>db sp. P db sp \<Longrightarrow> E db sp"
    and rep: "\<And>db sp t p db'. P db sp \<Longrightarrow> (t, v, p) \<in> set (core_rows db) \<Longrightarrow> t_id t = t_id t' \<Longrightarrow> unat (v + 1) = unat v + 1
      \<Longrightarrow> replaces db t' (v + 1) (Some (pg_pipeline data)) db' \<Longrightarrow> Q () db' sp"
  shows "spec P (advance_task w t' v data ev) Q E"
  unfolding advance_task_def
proof (rule spec_bind)
  show "spec P (store_write w (\<lambda>db. advance_with_receipt db t' v data ev None False))
    (\<lambda>r db sp. if written r then Q () db sp else E db sp) E"
  proof (rule spec_write)
    fix db sp db' r
    assume p: "P db sp" and a: "advance_with_receipt db t' v data ev None False = Inr (db', r)"
    from advance_with_receipt_core [OF inv [OF p] a] P [OF p] rep [OF p]
    show "if written r then Q () db' sp else E db' sp" by auto
  qed (use P in blast)
  show "spec (\<lambda>db sp. if written x then Q () db sp else E db sp) (if written x then ret () else refuse INVALID) Q E" for x
    by (auto intro!: spec_ret spec_refuse)
qed

lemma quietly_set_assignee:
  assumes "\<And>db sp t v p. quiet vw hs db sp \<Longrightarrow> G db \<Longrightarrow> (t, v, p) \<in> set (core_rows db) \<Longrightarrow> t_id t = task \<Longrightarrow> who \<noteq> None
    \<Longrightarrow> started vw task \<and> holder_free (core_rows db) (t\<lparr>t_assignee := who\<rparr>)"
  shows "spec (\<lambda>db sp. quiet vw hs db sp \<and> G db) (set_assignee w task who i k dt) (\<lambda>t db sp. quiet vw hs db sp \<and> t_id t = task)
    (quiet vw hs)"
  unfolding set_assignee_def
proof (rule spec_bind [OF spec_read_some], simp, clarify)
  fix v t
  let ?P = "\<lambda>db sp. (quiet vw hs db sp \<and> G db) \<and> load_task db task = Some (v, t)"
  show "spec ?P (bind_op (bind_op (store_read w (\<lambda>db. progress db task)) require) (\<lambda>p. bind_op (now w) (\<lambda>time.
      bind_op (advance_task w (t\<lparr>t_assignee := who\<rparr>) v (pr_data p) (stored_event i time k dt)) (\<lambda>_.
        ret (t\<lparr>t_assignee := who\<rparr>))))) (\<lambda>t db sp. quiet vw hs db sp \<and> t_id t = task) (quiet vw hs)"
  proof (rule spec_bind [OF spec_read_some], simp)
    fix p
    let ?R = "\<lambda>db sp. ?P db sp \<and> progress db task = Some p"
    have "spec ?R (advance_task w (t\<lparr>t_assignee := who\<rparr>) v (pr_data p) e) (\<lambda>_ db sp. quiet vw hs db sp \<and> t_id t = task) (quiet vw hs)" for e
    proof (rule spec_advance_task)
      fix db sp
      assume r: "?R db sp"
      then show "db_inv db" by (auto dest: quietD)
      from r show "quiet vw hs db sp" by simp
      fix t0 p0 db'
      assume m: "(t0, v, p0) \<in> set (core_rows db)" "unat (v + 1) = unat v + 1" "t_id t0 = t_id (t\<lparr>t_assignee := who\<rparr>)"
        and rep: "replaces db (t\<lparr>t_assignee := who\<rparr>) (v + 1) (Some (pg_pipeline (pr_data p))) db'"
      from r obtain q where q: "(t, v, q) \<in> set (core_rows db)" "t_id t = task" by (auto dest: load_task_SomeD)
      have qd: "quiet vw hs db sp" "G db" using r by simp_all
      have "q = Some (pg_pipeline (pr_data p))"
        using progress_row [OF invD(1) [OF quietD(2) [OF qd(1)]] q(1)] r q(2) by simp
      then show "quiet vw hs db' sp \<and> t_id t = task"
        using quiet_assignee [OF qd(1) q(1) m(2)] rep assms [OF qd q] q(2) by simp
    qed
    then show "spec ?R (bind_op (now w) (\<lambda>time.
        bind_op (advance_task w (t\<lparr>t_assignee := who\<rparr>) v (pr_data p) (stored_event i time k dt)) (\<lambda>_.
          ret (t\<lparr>t_assignee := who\<rparr>)))) (\<lambda>t db sp. quiet vw hs db sp \<and> t_id t = task) (quiet vw hs)"
      by (intro spec_bind [OF spec_now [where Q = "\<lambda>_. ?R"]] spec_bind [where R = "\<lambda>_ db sp. quiet vw hs db sp \<and> t_id t = task"])
        (auto intro!: spec_ret)
  qed
qed

lemma spec_keeps: "keeps J m \<Longrightarrow> spec J m (\<lambda>_. J) J"
  by (simp add: keeps_def)

lemma keeps_spec: "spec J m (\<lambda>_. J) J \<Longrightarrow> keeps J m"
  by (simp add: keeps_def)

lemma spec_pure:
  assumes "\<And>d. dm_db (snd (m d)) = dm_db d \<and> dm_spawned (snd (m d)) = dm_spawned d" and "\<And>db sp. P db sp \<Longrightarrow> E db sp"
  shows "spec P m (\<lambda>_. P) E"
  unfolding spec_def
proof (intro allI impI)
  fix d :: Daemon
  assume "P (dm_db d) (dm_spawned d)"
  then show "case m d of (Inr x, d') \<Rightarrow> P (dm_db d') (dm_spawned d') | (Inl _, d') \<Rightarrow> E (dm_db d') (dm_spawned d')"
    using assms(1) [of d] assms(2) by (cases "m d") (auto split: sum.split)
qed

text \<open>An operation that keeps every predicate changes nothing that predicates speak of.\<close>

lemma spec_still:
  assumes "\<And>J :: Db \<Rightarrow> Spawned list \<Rightarrow> bool. keeps J m" and "\<And>db sp. P db sp \<Longrightarrow> E db sp"
  shows "spec P m (\<lambda>_. P) E"
proof (rule spec_pure [OF _ assms(2)])
  fix d :: Daemon
  from keepsD [OF assms(1) [of "\<lambda>db sp. db = dm_db d \<and> sp = dm_spawned d"], of d]
  show "dm_db (snd (m d)) = dm_db d \<and> dm_spawned (snd (m d)) = dm_spawned d" by simp
qed

lemma quietly_hand_off:
  "spec (quiet vw hs) (hand_off w task st role) (\<lambda>t db sp. quiet vw hs db sp \<and> t_id t = t_id task) (quiet vw hs)"
  unfolding hand_off_def
proof (rule spec_bind [OF spec_keeps [OF keeps_read]], rule spec_bind [OF spec_keeps])
  show "spec (quiet vw hs) (set_assignee w (t_id task) None i k dt) (\<lambda>t db sp. quiet vw hs db sp \<and> t_id t = t_id task)
      (quiet vw hs)" for i k dt
    using quietly_set_assignee [where G = "\<lambda>_. True" and who = None] by (rule spec_conseq) auto
qed (intro keeps)

definition unheld :: "Db \<Rightarrow> string \<Rightarrow> bool" where
  "unheld db who \<longleftrightarrow> (\<forall>t v p. (t, v, p) \<in> set (core_rows db) \<longrightarrow> \<not> closed t \<longrightarrow> t_assignee t \<noteq> Some who)"

lemma slug_nonempty: "slug title \<noteq> []"
  by (simp add: slug_def Let_def)

lemma id_ok_chars:
  assumes "id_ok task"
  shows "task \<noteq> []" "CHR ''/'' \<notin> set task" "valid_task_id task"
proof -
  from assms obtain k where k: "task = ''t-'' @ show_nat k" by (auto simp: id_ok_def)
  have "CHR ''/'' \<notin> set (show_nat k)" using show_nat_digits(4) [of k] by auto
  moreover have "\<not> is_ascii_digit (CHR 0x00)" by (simp add: is_ascii_digit_def char_in_def)
  then have "CHR 0x00 \<notin> set (show_nat k)" using show_nat_digits(2) [of k] by (auto simp: list_all_iff)
  ultimately show "task \<noteq> []" "CHR ''/'' \<notin> set task" "valid_task_id task"
    using k by (auto simp: valid_task_id_def)
qed

lemma dispatch_branch:
  assumes "id_ok (t_id task)" and "belongs (t_id task) st"
  shows "task_id_of_branch (case branch st of Some br \<Rightarrow> br | None \<Rightarrow> work_branch (t_id task) (slug (t_title task)))
    = Some (t_id task)"
  using assms(2) id_ok_chars [OF assms(1)] slug_nonempty [of "t_title task"]
  by (auto simp: belongs_def task_id_of_branch_eq_Some split: option.splits)

lemma quietly_take_task:
  assumes "started vw (t_id task)"
  shows "spec (\<lambda>db sp. quiet vw hs db sp \<and> (\<not> rv \<and> t_assignee task = None \<longrightarrow> unheld db who))
    (take_task w task st rv who) (\<lambda>_. quiet vw hs) (quiet vw hs)"
proof (cases "\<not> rv \<and> t_assignee task = None")
  case True
  have "spec (\<lambda>db sp. quiet vw hs db sp \<and> unheld db who) (set_assignee w (t_id task) (Some who) i k dt)
      (\<lambda>t db sp. quiet vw hs db sp \<and> t_id t = t_id task) (quiet vw hs)" for i k dt
    by (rule quietly_set_assignee) (use assms in \<open>auto simp: holder_free_def unheld_def\<close>)
  then have "spec (\<lambda>db sp. quiet vw hs db sp \<and> unheld db who)
      (bind_op (set_assignee w (t_id task) (Some who) i k dt) (\<lambda>_. ret ())) (\<lambda>_. quiet vw hs) (quiet vw hs)" for i k dt
    by (rule spec_bind) (auto intro!: spec_ret)
  with True show ?thesis by (simp add: take_task_def)
next
  case False
  then show ?thesis unfolding take_task_def by (simp only: if_False) (auto intro!: spec_ret)
qed

lemma quietly_dispatch_to:
  assumes st: "started vw (t_id task)" and task: "id_ok (t_id task)" "belongs (t_id task) st"
  shows "spec (\<lambda>db sp. quiet vw hs db sp \<and> (\<not> rv \<and> t_assignee task = None \<longrightarrow> unheld db who))
    (dispatch_to w task st rv who) (\<lambda>_. quiet vw hs) (quiet vw hs)"
  unfolding dispatch_to_def
proof (rule spec_bind [OF quietly_take_task [OF st]])
  have "binding_ok (dispatch_binding w task st rv who wt)" for wt
    using dispatch_branch [OF task] by (simp add: binding_ok_def dispatch_binding_def)
  moreover have "binding_ok (headless_review task st who wt)" for wt
    by (simp add: binding_ok_def headless_review_def)
  ultimately show "spec (quiet vw hs) (bind_op (team w (t_team_id task)) (\<lambda>tm.
       let workspace = path_join (path_join (ev_home w) ''workspace'') who;
           managed = path_join (path_join (ev_home w) ''worktrees'') (t_id task @ (if rv then ''-review'' else []));
           b = dispatch_binding w task st rv who managed
       in case (if \<not> rv \<or> current_head st \<noteq> None then tm_repo tm else None) of
            Some repo \<Rightarrow>
              bind_op (store_write w (\<lambda>db. wrote (put_binding db b))) (\<lambda>_.
              bind_op require_git (\<lambda>_.
              bind_op (ensure_binding w repo b) (\<lambda>_. send_dispatch w task st rv who managed)))
          | None \<Rightarrow>
              bind_op (if rv then store_write w (\<lambda>db. wrote (put_binding db (headless_review task st who workspace)))
                       else ret ()) (\<lambda>_. send_dispatch w task st rv who workspace)))
      (\<lambda>_. quiet vw hs) (quiet vw hs)"
    unfolding keeps_def [symmetric] Let_def send_dispatch_def
    by (intro keeps quietly_put_binding quietly_ensure_binding)
qed

lemma choose_new_task:
  assumes "choose_decision rq cs = Assigned i" and "rq_purpose rq = NewTask"
  obtains c where "c \<in> set cs" "c_instance_id c = i" "c_held_task c = None"
  using assms choose_fresh_spec [where rq = rq and cap = "the (rq_role_capacity rq)" and cs = cs]
  by (auto simp: choose_decision_def set_eligible may_take_def split: option.splits if_splits)

lemma candidates_unheld:
  assumes "c \<in> set (candidates_for insts ms (tasks db) bs task st)" and "c_held_task c = None"
  shows "unheld db (c_instance_id c)"
proof -
  have "held_by (tasks db) bs (c_instance_id c) = None"
    using assms by (auto simp: candidates_for_def List.map_filter_def split: option.splits)
  then have "List.find (\<lambda>t. t_assignee t = Some (c_instance_id c) \<and> \<not> closed t) (tasks db) = None"
    by (auto simp: held_by_def or_else_def split: option.splits)
  then show ?thesis by (auto simp: unheld_def find_None_iff tasks_def core_rows_def)
qed

lemma decide_unheld:
  assumes "decide insts ms (tasks db) bs task st role False = Assigned who" and "t_assignee task = None"
  shows "unheld db who"
proof -
  have "existing_reviewer bs task st False = None" by (simp add: existing_reviewer_def find_None_iff)
  then have c: "choose_decision (assignment_request insts ms task st role False) (candidates_for insts ms (tasks db) bs task st)
      = Assigned who" using assms(1) by (simp add: decide_def)
  have "rq_purpose (assignment_request insts ms task st role False) = NewTask"
    using assms(2) by (simp add: assignment_request_def Let_def)
  from choose_new_task [OF c this] candidates_unheld show ?thesis by metis
qed

lemma quietly_assign:
  assumes st: "started vw (t_id task0)" and task0: "id_ok (t_id task0)" "belongs (t_id task0) st"
  shows "quietly vw hs (assign w task0 st role rv)"
  unfolding assign_def
proof (rule keeps_spec, rule spec_bind [OF spec_keeps [OF keeps_read]], rule spec_bind)
  fix ms
  show "spec (quiet vw hs) (if needs_hand_off ms task0 st role rv then hand_off w task0 st role else ret task0)
      (\<lambda>t db sp. quiet vw hs db sp \<and> t_id t = t_id task0) (quiet vw hs)"
    using quietly_hand_off by (auto intro!: spec_ret)
  fix task :: Task
  let ?Q = "\<lambda>db sp. quiet vw hs db sp \<and> t_id task = t_id task0"
  have "spec (\<lambda>db sp. ?Q db sp \<and> ts = tasks db) (follow w task st rv (decide insts ms ts bs task st role rv))
      (\<lambda>_. quiet vw hs) (quiet vw hs)" for ts insts bs
  proof (cases "t_id task = t_id task0 \<and> (\<exists>who. decide insts ms ts bs task st role rv = Assigned who)")
    case True
    then obtain who where t: "t_id task = t_id task0" and d: "decide insts ms ts bs task st role rv = Assigned who" by blast
    have "spec (\<lambda>db sp. quiet vw hs db sp \<and> (\<not> rv \<and> t_assignee task = None \<longrightarrow> unheld db who))
        (dispatch_to w task st rv who) (\<lambda>_. quiet vw hs) (quiet vw hs)"
      using st task0 t by (intro quietly_dispatch_to) simp_all
    then show ?thesis unfolding follow_def d AssignmentDecision.case
      by (rule spec_conseq) (use decide_unheld d in \<open>cases rv; auto\<close>)
  next
    case False
    show ?thesis
    proof (cases "t_id task = t_id task0")
      case True
      with False have "quietly vw hs (follow w task st rv (decide insts ms ts bs task st role rv))"
        unfolding follow_def
        by (cases "decide insts ms ts bs task st role rv") (auto intro!: keeps simp del: keeps_def)
      then show ?thesis unfolding keeps_def by (rule spec_conseq) auto
    qed (simp add: spec_def)
  qed
  note f = this
  show "spec ?Q (bind_op (store_read w bindings) (\<lambda>bs. bind_op (holder_waits w task rv) (\<lambda>waits.
       if waits then ret ()
       else bind_op (store_read w tasks) (\<lambda>ts. bind_op (store_read w instances) (\<lambda>insts.
              follow w task st rv (decide insts ms ts bs task st role rv)))))) (\<lambda>_. quiet vw hs) (quiet vw hs)"
  proof (rule spec_bind [OF spec_still [where P = ?Q] spec_bind [OF spec_still [where P = ?Q]]])
    fix bs waits
    have "spec ?Q (bind_op (store_read w tasks) (\<lambda>ts. bind_op (store_read w instances) (\<lambda>insts.
        follow w task st rv (decide insts ms ts bs task st role rv)))) (\<lambda>_. quiet vw hs) (quiet vw hs)"
      by (rule spec_bind [OF spec_read spec_bind [OF spec_read spec_conseq [OF f]]]) auto
    then show "spec ?Q (if waits then ret () else bind_op (store_read w tasks) (\<lambda>ts. bind_op (store_read w instances) (\<lambda>insts.
        follow w task st rv (decide insts ms ts bs task st role rv)))) (\<lambda>_. quiet vw hs) (quiet vw hs)"
      by (auto intro!: spec_ret)
  qed (auto intro: keeps)
qed

section \<open>Cleaning up\<close>

lemma quietly_swap_assignee:
  "quietly vw hs (bind_op (bind_op (store_read w (\<lambda>db. load_task db task)) require) (\<lambda>(v, t).
     if c v t then ret () else swap_task w (t\<lparr>t_assignee := None\<rparr>) v))"
proof (rule keeps_spec, rule spec_bind [OF spec_read_some], simp, clarify)
  fix v t
  let ?P = "\<lambda>db sp. quiet vw hs db sp \<and> load_task db task = Some (v, t)"
  have "spec ?P (store_write w (\<lambda>db. compare_and_swap db (t\<lparr>t_assignee := None\<rparr>) v)) (\<lambda>_. quiet vw hs) (quiet vw hs)"
  proof (rule spec_write)
    fix db sp db' r
    assume p: "?P db sp" and c: "compare_and_swap db (t\<lparr>t_assignee := None\<rparr>) v = Inr (db', r)"
    obtain q where q: "(t, v, q) \<in> set (core_rows db)" using p by (auto dest: load_task_SomeD)
    have i: "db_inv db" using p by (auto dest: quietD)
    from compare_and_swap_core [OF i c] show "quiet vw hs db' sp"
    proof (elim disjE exE conjE)
      assume "db' = db"
      with p show ?thesis by simp
    next
      fix t0 q0
      assume m: "(t0, v, q0) \<in> set (core_rows db)" "t_id t0 = t_id (t\<lparr>t_assignee := None\<rparr>)"
        "unat (v + 1) = unat v + 1" "replaces db (t\<lparr>t_assignee := None\<rparr>) (v + 1) q0 db'"
      have "q0 = q" using same_row [OF invD(1) [OF i] q m(1)] m(2) by simp
      with quiet_assignee [OF _ q m(3), of vw hs sp None db'] p m(4) show ?thesis by simp
    qed
  qed simp
  then have "spec ?P (swap_task w (t\<lparr>t_assignee := None\<rparr>) v) (\<lambda>_. quiet vw hs) (quiet vw hs)"
    unfolding swap_task_def by (rule spec_bind) (auto intro!: spec_ret spec_refuse)
  then show "spec ?P (if c v t then ret () else swap_task w (t\<lparr>t_assignee := None\<rparr>) v) (\<lambda>_. quiet vw hs) (quiet vw hs)"
    by (auto intro!: spec_ret)
qed

lemma quietly_free_assignee [keeps]: "quietly vw hs (free_assignee w task)"
  using quietly_swap_assignee [of vw hs w task "\<lambda>v t. t_assignee t = None"] by (simp add: free_assignee_def)

lemma quietly_cleanup [keeps]: "quietly vw hs (cleanup_terminal w report task)"
  unfolding cleanup_terminal_def clean_remote_def release_all_def by (intro keeps)

section \<open>Actions\<close>

definition merge_heads :: "string \<Rightarrow> PipelineAction list \<Rightarrow> (string \<times> string) set" where
  "merge_heads task acts = {(task, h) |h. \<exists>sid a. PipelineAction.Merge sid a h \<in> set acts}"

lemma quietly_spawn:
  assumes "\<And>db. (\<forall>t h. (t, h) \<in> hs \<longrightarrow> earned db t h) \<Longrightarrow> sent_ok db s"
  shows "quietly vw hs (spawn s)"
  by (rule keeps_spawn) (use assms in \<open>auto simp: quiet_def ok_def\<close>)

lemma quietly_timer [keeps]: "quietly vw hs (schedule_timer w task st since stage att timeout)"
  unfolding schedule_timer_def by (intro keeps quietly_spawn) simp

lemma quietly_submit [keeps]: "quietly vw hs (submit_change w task st stage att forge)"
  unfolding submit_change_def by (intro keeps quietly_spawn) simp_all

lemma quietly_checks [keeps]: "quietly vw hs (run_checks w task st stage att command h timeout)"
  unfolding run_checks_def by (intro keeps quietly_spawn) simp_all

lemma quietly_merge_change:
  assumes "(t_id task, h) \<in> hs"
  shows "quietly vw hs (merge_change w task st stage att h)"
  unfolding merge_change_def rebase_work_def merge_head_def Let_def
  by (intro keeps quietly_spawn) (use assms in auto)

lemma quietly_action:
  assumes "started vw (t_id task)" and "id_ok (t_id task)" and "belongs (t_id task) st"
    and "merge_heads (t_id task) [act] \<subseteq> hs"
  shows "quietly vw hs (action w task st since act)"
proof (cases act)
  case (RequestApproval x1 x2 x3 x4 x5)
  have "quietly vw hs (request_review w task st)"
    unfolding request_review_def
    by (cases "current_stage st"; simp add: keeps_ret split: Stage.split Approver.split)
      (use quietly_assign [OF assms(1-3)] keeps_ret in blast)+
  with RequestApproval show ?thesis by simp
next
  case (Merge sid a h)
  then have "(t_id task, h) \<in> hs" using assms(4) by (auto simp: merge_heads_def)
  with Merge show ?thesis by (simp add: quietly_merge_change)
qed (use quietly_assign [OF assms(1-3)] in \<open>simp_all add: keeps\<close>)

lemma quietly_actions:
  assumes "started vw (t_id task)" and "id_ok (t_id task)" and "belongs (t_id task) st"
    and "merge_heads (t_id task) acts \<subseteq> hs"
  shows "quietly vw hs (for_each (action w task st since) acts)"
  by (intro keeps quietly_action) (use assms in \<open>auto simp: merge_heads_def\<close>)

lemma quietly_perform:
  assumes "started vw (t_id task)" and "id_ok (t_id task)" and "belongs (t_id task) st"
    and "merge_heads (t_id task) acts \<subseteq> hs"
  shows "quietly vw hs (perform w task st since acts)"
  unfolding perform_def by (intro keeps quietly_actions [OF assms])

end
