(* ===== verification/Daemon_Transitions.thy ===== *)
theory Daemon_Transitions
  imports Daemon_Quiet
begin

text \<open>
  Loading a task, committing an event and marking a task as failed keep the invariant: a committed event
  extends the run that the row records.
\<close>

section \<open>Loading\<close>

definition loaded :: "Db \<Rightarrow> string \<Rightarrow> Loaded \<Rightarrow> bool" where
  "loaded db task l \<longleftrightarrow> (\<exists>snap wfl.
     (ld_task l, ld_version l, Some (Encoded snap)) \<in> set (core_rows db) \<and> t_id (ld_task l) = task
     \<and> load_workflow db (t_workflow_id (ld_task l)) (t_workflow_version (ld_task l)) = Some wfl
     \<and> ld_state l = state_of_snapshot snap wfl \<and> belongs task (ld_state l)
     \<and> pg_pipeline (pr_data (ld_progress l)) = Encoded snap)"

lemma daemon_validateD:
  assumes "daemon_validate wfl = Some v"
  shows "v = wfl" "\<exists>roles. validate wfl roles = []"
  using assms by (auto simp: daemon_validate_def validated_def Let_def split: if_splits)

lemma restore_textD:
  assumes "restore_text body wfl = Some st"
  obtains snap where "body = Encoded snap" "st = state_of_snapshot snap wfl"
proof (cases body)
  case (Encoded snap)
  with assms obtain v where v: "daemon_validate wfl = Some v"
    and r: "(case restore snap v of Inl _ \<Rightarrow> None | Inr st \<Rightarrow> Some st) = Some st"
    by (auto simp: restore_text_def bind_eq_Some_conv)
  from r have "restore snap v = Inr st" by (cases "restore snap v") simp_all
  from restore_Inr(1) [OF this] daemon_validateD(1) [OF v] that Encoded show thesis by blast
next
  case EmptyObject
  with assms show thesis by (simp add: restore_text_def)
qed

lemma spec_load:
  assumes "\<And>db sp. P db sp \<Longrightarrow> E db sp"
  shows "spec P (load_pipeline w task) (\<lambda>l db sp. P db sp \<and> loaded db task l) E"
  unfolding load_pipeline_def
proof (rule spec_bind [OF spec_read_some [OF assms]], assumption, clarsimp, rule spec_bind [OF spec_read_some])
  fix v t
  show "\<And>db sp. P db sp \<and> load_task db task = Some (v, t) \<Longrightarrow> E db sp" using assms by blast
  fix wfl
  let ?P = "\<lambda>db sp. (P db sp \<and> load_task db task = Some (v, t))
    \<and> load_workflow db (t_workflow_id t) (t_workflow_version t) = Some wfl"
  have "loaded db task \<lparr>ld_version = v, ld_task = t, ld_state = st, ld_progress = p\<rparr>"
    if h: "?P db sp" "progress db task = Some p" "restore_text (pg_pipeline (pr_data p)) wfl = Some st" "belongs task st"
    for db sp p st
  proof -
    from h(1) obtain r where r: "find_task db task = Some r" "v = tr_version r" "t = tr_task r"
      by (auto simp: load_task_def)
    from h(3) obtain snap where s: "pg_pipeline (pr_data p) = Encoded snap" "st = state_of_snapshot snap wfl"
      by (rule restore_textD)
    have "tr_pipeline r = Some (Encoded snap)" using h(2) r(1) s(1) by (auto simp: progress_def)
    with find_task_SomeD [OF r(1)] r h s show ?thesis by (auto simp: loaded_def)
  qed
  note ld = this
  have "spec ?P (bind_op (bind_op (store_read w (\<lambda>db. progress db task)) require) (\<lambda>p.
      bind_op (require (restore_text (pg_pipeline (pr_data p)) wfl)) (\<lambda>st.
        if belongs task st then ret \<lparr>ld_version = v, ld_task = t, ld_state = st, ld_progress = p\<rparr> else refuse INVALID)))
      (\<lambda>l db sp. P db sp \<and> loaded db task l) E"
  proof (rule spec_bind [OF spec_read_some], use assms in blast)
    fix p
    let ?R = "\<lambda>db sp. ?P db sp \<and> progress db task = Some p"
    show "spec ?R (bind_op (require (restore_text (pg_pipeline (pr_data p)) wfl)) (\<lambda>st.
        if belongs task st then ret \<lparr>ld_version = v, ld_task = t, ld_state = st, ld_progress = p\<rparr> else refuse INVALID))
      (\<lambda>l db sp. P db sp \<and> loaded db task l) E"
    proof (rule spec_bind [OF spec_require [where Q = "\<lambda>st db sp. ?R db sp \<and> restore_text (pg_pipeline (pr_data p)) wfl = Some st"]])
      fix st
      show "spec (\<lambda>db sp. ?R db sp \<and> restore_text (pg_pipeline (pr_data p)) wfl = Some st)
          (if belongs task st then ret \<lparr>ld_version = v, ld_task = t, ld_state = st, ld_progress = p\<rparr> else refuse INVALID)
          (\<lambda>l db sp. P db sp \<and> loaded db task l) E"
        using ld assms by (auto intro!: spec_ret spec_refuse)
    qed (use assms in auto)
  qed
  then show "spec ?P (if \<not> pinned_to wfl t then refuse INVALID
       else bind_op (bind_op (store_read w (\<lambda>db. progress db task)) require) (\<lambda>p.
      bind_op (require (restore_text (pg_pipeline (pr_data p)) wfl)) (\<lambda>st.
        if belongs task st then ret \<lparr>ld_version = v, ld_task = t, ld_state = st, ld_progress = p\<rparr> else refuse INVALID)))
      (\<lambda>l db sp. P db sp \<and> loaded db task l) E"
    using assms by (auto intro!: spec_refuse)
qed

lemma loaded_run:
  assumes inv: "db_inv db" and l: "loaded db task l"
  obtains wfl p where "id_ok task" "(ld_task l, ld_version l, p) \<in> set (core_rows db)" "t_id (ld_task l) = task"
    "load_workflow db (t_workflow_id (ld_task l)) (t_workflow_version (ld_task l)) = Some wfl"
    "pinned_to wfl (ld_task l)" "daemon_validate wfl = Some wfl" "belongs task (ld_state l)"
    "p = Some (pg_pipeline (pr_data (ld_progress l)))"
    "unat (ld_version l) < LIMIT \<longrightarrow> (\<exists>evs. run_of task wfl evs (ld_state l) \<and> length evs < unat (ld_version l)
       \<and> status_ok (ld_task l) (ld_state l))"
    "status (ld_state l) = PipelineStatus.Pending \<longrightarrow> t_assignee (ld_task l) = None"
    "\<exists>snap. p = Some (Encoded snap) \<and> snap_status snap = status (ld_state l)"
proof -
  from l obtain snap wfl where s: "(ld_task l, ld_version l, Some (Encoded snap)) \<in> set (core_rows db)"
    "t_id (ld_task l) = task" "load_workflow db (t_workflow_id (ld_task l)) (t_workflow_version (ld_task l)) = Some wfl"
    "ld_state l = state_of_snapshot snap wfl" "belongs task (ld_state l)"
    "pg_pipeline (pr_data (ld_progress l)) = Encoded snap"
    by (auto simp: loaded_def)
  have r: "id_ok task" "pinned_to wfl (ld_task l)" "daemon_validate wfl = Some wfl"
    "snap_status snap = PipelineStatus.Pending \<longrightarrow> t_assignee (ld_task l) = None" "run_ok wfl (ld_task l) (ld_version l) snap"
    using invD(2) [OF inv s(1)] s(2,3) by (auto simp: task_row_ok_def)
  have st: "status (ld_state l) = snap_status snap" using s(4) by (simp add: state_of_snapshot_def)
  have run: "\<exists>evs. run_of task wfl evs (ld_state l) \<and> length evs < unat (ld_version l) \<and> status_ok (ld_task l) (ld_state l)"
    if "unat (ld_version l) < LIMIT"
  proof -
    from r(5) that obtain evs st where e: "run_of (t_id (ld_task l)) wfl evs st" "length evs < unat (ld_version l)"
      "snap = snapshot st" "status_ok (ld_task l) st" by (auto simp: run_ok_def)
    obtain roles where "validate wfl roles = []" using daemon_validateD(2) [OF r(3)] by blast
    from run_state(2) [OF this e(1)] have "ld_state l = st"
      using s(4) e(3) state_of_snapshot_snapshot [of st] by simp
    with e s(2) show ?thesis by auto
  qed
  show thesis by (rule that [OF r(1) s(1,2,3) r(2,3) s(5)]) (use r(4) st s(6) run in auto)
qed

section \<open>Failing a task\<close>

lemma spec_ex: "(\<And>x. spec (P x) m Q E) \<Longrightarrow> spec (\<lambda>db sp. \<exists>x. P x db sp) m Q E"
  unfolding spec_def by (meson)

lemma ok_inv: "ok db sp \<Longrightarrow> db_inv db"
  by (simp add: ok_def)

lemma quietly_ok:
  assumes "\<And>vw hs. quietly vw hs m"
  shows "keeps ok m"
proof (rule keepsI)
  fix d :: Daemon
  assume "ok (dm_db d) (dm_spawned d)"
  from keepsD [OF assms quiet_self [OF this]] show "ok (dm_db (snd (m d))) (dm_spawned (snd (m d)))"
    by (simp add: quiet_def)
qed

lemma ok_replaces:
  assumes "ok db sp" and rep: "replaces db t' (v + 1) p' db'" and row: "(t, v, p) \<in> set (core_rows db)"
    and "t_id t = t_id t'" "t_workflow_id t' = t_workflow_id t" "t_workflow_version t' = t_workflow_version t"
    and "unat (v + 1) = unat v + 1" and "task_row_ok db t' (v + 1) p'" and "holder_free (core_rows db) t'"
  shows "ok db' sp"
  using replaces_inv [OF ok_inv [OF assms(1)] rep assms(8,9)] replaces_evolves [OF ok_inv [OF assms(1)] rep row] assms
  by (intro ok_evolves [OF assms(1)]) simp_all

lemma row_ok_failed:
  assumes "task_row_ok db t v p" and "unat v \<le> unat v'"
  shows "task_row_ok db (t\<lparr>t_status := TaskStatus.Failed\<rparr>) v' p"
proof -
  have "run_ok wfl (t\<lparr>t_status := TaskStatus.Failed\<rparr>) v' snap" if "run_ok wfl t v snap" for wfl snap
    using that assms(2) by (fastforce simp: run_ok_def status_ok_def)
  moreover have "pinned_to wfl (t\<lparr>t_status := TaskStatus.Failed\<rparr>) = pinned_to wfl t" for wfl by (simp add: pinned_to_def)
  ultimately show ?thesis using assms(1) unfolding task_row_ok_def by simp blast
qed

lemma closed_holder_free: "closed t \<Longrightarrow> holder_free rows t"
  by (simp add: holder_free_def)

lemma closed_failed: "closed (t\<lparr>t_status := TaskStatus.Failed\<rparr>)"
  by (simp add: closed_def closed_status_def)

lemma keeps_fail_restore [keeps]: "keeps ok (fail_restore w task reason)"
  unfolding fail_restore_def
proof (rule keeps_spec, rule spec_bind [OF spec_read_some], simp, clarify)
  fix v t
  let ?P = "\<lambda>db sp. ok db sp \<and> load_task db task = Some (v, t)"
  let ?t = "t\<lparr>t_status := TaskStatus.Failed\<rparr>"
  have "spec (\<lambda>db sp. ?P db sp \<and> p = progress db task) (advance_task w ?t v (case p of Some q \<Rightarrow> pr_data q | None \<Rightarrow> data) ev)
      (\<lambda>_. ok) ok" for p data ev
  proof (rule spec_advance_task)
    fix db sp
    assume r: "?P db sp \<and> p = progress db task"
    then have i: "db_inv db" using ok_inv by blast
    then show "db_inv db" .
    from r show "ok db sp" by simp
    fix t0 p0 db'
    assume m: "unat (v + 1) = unat v + 1"
      and rep: "replaces db ?t (v + 1) (Some (pg_pipeline (case p of Some q \<Rightarrow> pr_data q | None \<Rightarrow> data))) db'"
    from r obtain q where q: "(t, v, q) \<in> set (core_rows db)" "t_id t = task" by (auto dest: load_task_SomeD)
    have row: "task_row_ok db t v q" by (rule invD(2) [OF i q(1)])
    obtain r0 where r0: "find_task db task = Some r0" "tr_pipeline r0 = q"
      using find_task_ex [OF invD(1) [OF i] q(1)] q(2) by metis
    from row obtain snap where "q = Some (Encoded snap)" by (auto simp: task_row_ok_def)
    then have "q = Some (pg_pipeline (case p of Some x \<Rightarrow> pr_data x | None \<Rightarrow> data))"
      using r r0 by (auto simp: progress_def)
    with rep have rep': "replaces db ?t (v + 1) q db'" by simp
    show "ok db' sp"
      by (rule ok_replaces [OF _ rep' q(1)])
        (use r m row_ok_failed [OF row] closed_holder_free [OF closed_failed] in simp_all)
  qed
  note a = this
  let ?R = "\<lambda>p db sp. ?P db sp \<and> p = progress db task"
  show "spec ?P (bind_op (new_id w) (\<lambda>ident. bind_op (now w) (\<lambda>time.
     bind_op (store_read w (\<lambda>db. progress db task)) (\<lambda>p. bind_op (now w) (\<lambda>time'.
       let failed = ?t;
           data = (case p of
             Some q \<Rightarrow> pr_data q
           | None \<Rightarrow> \<lparr>pg_pipeline = EmptyObject, pg_stage_entered = time', pg_merge_intent = None, pg_block_reason = None\<rparr>)
       in bind_op (advance_task w failed v data
            (stored_event (''restore-failed:'' @ ident) time ''restore_failed'' reason)) (\<lambda>_.
          cleanup_terminal w False failed)))))) (\<lambda>_. ok) ok"
    unfolding Let_def
    by (rule spec_bind [OF spec_still [where P = ?P]], simp add: keeps, simp,
        rule spec_bind [OF spec_still [where P = ?P]], simp add: keeps, simp,
        rule spec_bind [OF spec_read], simp,
        rule spec_bind [OF spec_still [where P = "?R _"]], simp add: keeps, simp,
        rule spec_bind [OF a], rule spec_keeps, rule quietly_ok, rule quietly_cleanup)
qed

section \<open>Committing an event\<close>

definition ev_fine :: "string \<Rightarrow> PipelineEvent \<Rightarrow> bool" where
  "ev_fine task ev \<longleftrightarrow> event_ok ev \<and> (\<forall>br. product_branch ev = Some br \<longrightarrow> task_id_of_branch br = Some task)"

definition ready :: "Db \<Rightarrow> string \<Rightarrow> Loaded \<Rightarrow> bool" where
  "ready db task l \<longleftrightarrow> loaded db task l
     \<and> (closed (ld_task l) \<longrightarrow> t_assignee (ld_task l) = None \<or> is_terminal (status (ld_state l)))"

definition row_settled :: "(string \<times> TaskStatus \<times> PipelineText option) list \<Rightarrow> string \<Rightarrow> bool" where
  "row_settled vw task \<longleftrightarrow> (\<forall>s p. (task, s, p) \<in> set vw \<longrightarrow>
     (\<exists>snap. p = Some (Encoded snap) \<and> s = task_status_of (snap_status snap)))"


definition next_task :: "Task \<Rightarrow> PipelineState \<Rightarrow> Task" where
  "next_task t st = t\<lparr>t_status := task_status_of (status st), t_merge_commit := merge_commit st\<rparr>"

lemma next_task_simps [simp]:
  "t_id (next_task t st) = t_id t" "t_workflow_id (next_task t st) = t_workflow_id t"
  "t_workflow_version (next_task t st) = t_workflow_version t" "t_assignee (next_task t st) = t_assignee t"
  "t_status (next_task t st) = task_status_of (status st)" "t_merge_commit (next_task t st) = merge_commit st"
  by (simp_all add: next_task_def)

lemma belongs_step:
  assumes "belongs task st" and "step st ev = Inr (st', acts)" and "ev_fine task ev"
  shows "belongs task st'"
  using assms(1,3) step_frame(2,4) [OF assms(2)]
  by (cases "product_branch ev") (auto simp: belongs_def ev_fine_def or_else_def)

lemma next_status_ok: "status_ok (next_task t st) st"
  by (cases "status st") (auto simp: status_ok_def)

lemma advance_row:
  assumes inv: "db_inv db" and l: "loaded db task l" and step: "step (ld_state l) ev = Inr (next, acts)"
    and fine: "ev_fine task ev" and le: "unat (ld_version l + 1) = unat (ld_version l) + 1"
  shows "task_row_ok db (next_task (ld_task l) next) (ld_version l + 1) (Some (Encoded (snapshot next)))"
    and "\<lbrakk>PipelineAction.Merge sid a h \<in> set acts; unat (ld_version l + 1) < LIMIT\<rbrakk> \<Longrightarrow>
      \<exists>wfl evs. load_workflow db (t_workflow_id (ld_task l)) (t_workflow_version (ld_task l)) = Some wfl
        \<and> daemon_validate wfl = Some wfl \<and> run_of task wfl evs next \<and> merge_in_flight next \<and> current_head next = Some h"
proof -
  from inv l obtain wfl p where w: "id_ok task" "t_id (ld_task l) = task"
    "load_workflow db (t_workflow_id (ld_task l)) (t_workflow_version (ld_task l)) = Some wfl"
    "pinned_to wfl (ld_task l)" "daemon_validate wfl = Some wfl" "belongs task (ld_state l)"
    and run: "unat (ld_version l) < LIMIT \<longrightarrow> (\<exists>evs. run_of task wfl evs (ld_state l) \<and> length evs < unat (ld_version l)
       \<and> status_ok (ld_task l) (ld_state l))" by (rule loaded_run)
  obtain roles where valid: "validate wfl roles = []" using daemon_validateD(2) [OF w(5)] by blast
  have ok: "event_ok ev" using fine by (simp add: ev_fine_def)
  have more: "\<exists>evs. run_of task wfl (evs @ [ev]) next \<and> length (evs @ [ev]) < unat (ld_version l + 1)
      \<and> merge_requested next acts" if v: "unat (ld_version l + 1) < LIMIT"
  proof -
    from run v le obtain evs where e: "run_of task wfl evs (ld_state l)" "length evs < unat (ld_version l)" by auto
    have "Suc (length evs) < 2 ^ 32 - 2" using e(2) v le by (simp add: LIMIT_def)
    from run_snoc [OF e(1) step ok this] have r: "run_of task wfl (evs @ [ev]) next" .
    note s = run_state [OF valid e(1)]
    have "merge_requested next acts"
      using s(2,4) by (intro step_requested [OF _ s(5) _ step, of 0]) (use s(6) in simp_all)
    with r e(2) le show ?thesis by auto
  qed
  have "run_ok wfl (next_task (ld_task l) next) (ld_version l + 1) (snapshot next)"
    unfolding run_ok_def using more belongs_step [OF w(6) step fine] w(2) next_status_ok by fastforce
  moreover have "pinned_to wfl (next_task (ld_task l) next)" using w(4) by (simp add: pinned_to_def next_task_def)
  moreover have "snap_status (snapshot next) \<noteq> PipelineStatus.Pending"
    using step_frame(3) [OF step] by (simp add: snapshot_def)
  ultimately show "task_row_ok db (next_task (ld_task l) next) (ld_version l + 1) (Some (Encoded (snapshot next)))"
    using w by (simp add: task_row_ok_def)
  show "\<exists>wfl evs. load_workflow db (t_workflow_id (ld_task l)) (t_workflow_version (ld_task l)) = Some wfl
        \<and> daemon_validate wfl = Some wfl \<and> run_of task wfl evs next \<and> merge_in_flight next \<and> current_head next = Some h"
    if "PipelineAction.Merge sid a h \<in> set acts" "unat (ld_version l + 1) < LIMIT"
    using more [OF that(2)] that(1) w(3,5) by (auto simp: merge_requested_def)
qed

lemma ready_free:
  assumes inv: "db_inv db" and r: "ready db task l" and step: "step (ld_state l) ev = Inr (next, acts)"
  shows "holder_free (core_rows db) (next_task (ld_task l) next)"
proof (cases "closed (ld_task l)")
  case True
  moreover have "\<not> is_terminal (status (ld_state l))" using step machine.terminal_rejects [of "ld_state l" ev] by auto
  ultimately have "t_assignee (ld_task l) = None" using r by (simp add: ready_def)
  then show ?thesis by (simp add: holder_free_def)
next
  case False
  from r have "loaded db task l" by (simp add: ready_def)
  with inv obtain p where "(ld_task l, ld_version l, p) \<in> set (core_rows db)" by (rule loaded_run)
  from invD(3) [OF inv this] False show ?thesis by (auto simp: holder_free_def)
qed

definition advanced :: "string \<Rightarrow> PipelineState \<Rightarrow> PipelineAction list \<Rightarrow> Db \<Rightarrow> Spawned list \<Rightarrow> bool" where
  "advanced task next acts db sp \<longleftrightarrow> quiet (view db) (merge_heads task acts) db sp \<and> started (view db) task
     \<and> row_settled (view db) task \<and> id_ok task \<and> belongs task next"

lemma snapshot_status: "snap_status (snapshot st) = status st"
  by (simp add: snapshot_def)

lemma row_settledD:
  assumes "row_settled vw task" and "(task, s, Some (Encoded snap)) \<in> set vw"
  shows "s = task_status_of (snap_status snap)"
  using assms unfolding row_settled_def by blast

lemma advanced_write:
  assumes k: "ok db sp" and r: "ready db task l" and step: "step (ld_state l) ev = Inr (next, acts)"
    and fine: "ev_fine task ev" and le: "unat (ld_version l + 1) = unat (ld_version l) + 1"
    and rep: "replaces db (next_task (ld_task l) next) (ld_version l + 1) (Some (Encoded (snapshot next))) db'"
  shows "advanced task next acts db' sp"
proof -
  note inv = ok_inv [OF k]
  have ld: "loaded db task l" using r by (simp add: ready_def)
  with inv obtain p wfl where w: "(ld_task l, ld_version l, p) \<in> set (core_rows db)" "t_id (ld_task l) = task" "id_ok task"
    "belongs task (ld_state l)" by (rule loaded_run)
  have ok': "ok db' sp"
    by (rule ok_replaces [OF k rep w(1)])
      (use le advance_row(1) [OF inv ld step fine le] ready_free [OF inv r step] in simp_all)
  have row: "(next_task (ld_task l) next, ld_version l + 1, Some (Encoded (snapshot next))) \<in> set (core_rows db')"
    using replacesD(5) [OF rep w(1)] by simp
  have only: "s = task_status_of (status next) \<and> q = Some (Encoded (snapshot next))" if "(task, s, q) \<in> set (view db')" for s q
  proof -
    from that obtain t v where t: "(t, v, q) \<in> set (core_rows db')" "t_id t = task" "t_status t = s"
      by (auto simp: view_def)
    from same_row [OF invD(1) [OF ok_inv [OF ok']] row t(1)] t w(2) show ?thesis by simp
  qed
  have "earned db' task h" if m: "PipelineAction.Merge sid a h \<in> set acts" for sid a h
  proof (cases "unat (ld_version l + 1) < LIMIT")
    case True
    from advance_row(2) [OF inv ld step fine le m True] replacesD(2) [OF rep] row w(2)
    show ?thesis unfolding earned_def by fastforce
  next
    case False
    with row w(2) show ?thesis unfolding earned_def by fastforce
  qed
  then have "quiet (view db') (merge_heads task acts) db' sp" using ok' by (auto simp: quiet_def merge_heads_def)
  moreover have "started (view db') task" "row_settled (view db') task"
    unfolding started_def row_settled_def using only step_frame(3) [OF step] snapshot_status by metis+
  ultimately show ?thesis using w(3) belongs_step [OF w(4) step fine] by (simp add: advanced_def)
qed

lemma spec_advance:
  assumes "ev_fine task ev"
  shows "spec (\<lambda>db sp. ok db sp \<and> ready db task l) (advance_pipeline w l ev detail ident)
    (\<lambda>(t', next, since, acts) db sp. advanced task next acts db sp \<and> t_id t' = task) ok"
proof (cases "step (ld_state l) ev")
  case (Inl e)
  then show ?thesis by (auto simp: advance_pipeline_def intro!: spec_refuse)
next
  case (Inr x)
  obtain next' acts where x: "step (ld_state l) ev = Inr (next', acts)" using Inr by (cases x) simp
  let ?P = "\<lambda>db sp. ok db sp \<and> ready db task l" and ?t = "next_task (ld_task l) next'"
  let ?Q = "\<lambda>(t', nx, since, as) db sp. advanced task nx as db sp \<and> t_id t' = task"
  have "spec ?P (bind_op (store_write w (\<lambda>db. advance_with_receipt db ?t (ld_version l) p rec conf True)) (\<lambda>r.
      if written r then ret (?t, next', since, acts) else refuse INVALID)) ?Q ok"
    if p: "pg_pipeline p = Encoded (snapshot next')" for p rec conf since
  proof (rule spec_bind)
    show "spec ?P (store_write w (\<lambda>db. advance_with_receipt db ?t (ld_version l) p rec conf True))
        (\<lambda>r db sp. if written r then advanced task next' acts db sp \<and> t_id ?t = task else ok db sp) ok"
    proof (rule spec_write)
      fix db sp db' r
      assume P: "?P db sp" and a: "advance_with_receipt db ?t (ld_version l) p rec conf True = Inr (db', r)"
      have t: "t_id ?t = task" using P by (auto simp: ready_def loaded_def)
      have k: "ok db sp" "ready db task l" using P by simp_all
      from advance_with_receipt_core [OF ok_inv [OF k(1)] a] k t p advanced_write [OF k x assms]
      show "if written r then advanced task next' acts db' sp \<and> t_id ?t = task else ok db' sp" by auto
    qed simp
    show "spec (\<lambda>db sp. if written r then advanced task next' acts db sp \<and> t_id ?t = task else ok db sp)
        (if written r then ret (?t, next', since, acts) else refuse INVALID) ?Q ok" for r
      by (cases "written r") (auto intro!: spec_ret spec_refuse)
  qed
  note s = this
  show ?thesis
    unfolding advance_pipeline_def x sum.case prod.case
    by (rule spec_bind [OF spec_now [where Q = "\<lambda>_. ?P"]], assumption, unfold Let_def next_task_def [symmetric], rule s) simp
qed

lemma spec_assm: "(p \<Longrightarrow> spec P m Q E) \<Longrightarrow> spec (\<lambda>db sp. P db sp \<and> p) m Q E"
  by (auto simp: spec_def)

lemma spec_commit:
  assumes "ev_fine task ev"
  shows "spec (\<lambda>db sp. ok db sp \<and> ready db task l) (commit_transition w l ev detail)
    (\<lambda>_ db sp. ok db sp \<and> row_settled (view db) task) ok"
  unfolding commit_transition_def
proof (rule spec_bind [OF spec_new_id [where Q = "\<lambda>_ db sp. ok db sp \<and> ready db task l"]])
  fix ident
  show "spec (\<lambda>db sp. ok db sp \<and> ready db task l) (bind_op (advance_pipeline w l ev detail ident) (\<lambda>(t', next, since, acts).
      bind_op (try_op (perform w t' next since acts)) (\<lambda>r. case r of
         Inr _ \<Rightarrow> ret ()
       | Inl e \<Rightarrow> bind_op (fail_restore w (t_id t') ''execution failed: '') (\<lambda>_. refuse e))))
      (\<lambda>_ db sp. ok db sp \<and> row_settled (view db) task) ok"
  proof (rule spec_bind [OF spec_advance [OF assms]], unfold split_paired_all prod.case)
    fix t' :: Task and nx since acts
    let ?hs = "merge_heads task acts"
    let ?A = "\<lambda>vw db sp. quiet vw ?hs db sp \<and> started vw task \<and> row_settled vw task \<and> id_ok task \<and> belongs task nx \<and> t_id t' = task"
    have p: "spec (?A vw) (try_op (perform w t' nx since acts))
        (\<lambda>_ db sp. quiet vw ?hs db sp \<and> row_settled vw task) ok" for vw
    proof (cases "started vw task \<and> row_settled vw task \<and> id_ok task \<and> belongs task nx \<and> t_id t' = task")
      case True
      then have "quietly vw ?hs (try_op (perform w t' nx since acts))" by (intro keeps quietly_perform) auto
      with True show ?thesis unfolding keeps_def by (elim spec_conseq) (auto dest: quietD)
    qed (auto simp: spec_def)
    have q: "spec (\<lambda>db sp. quiet vw ?hs db sp \<and> row_settled vw task) (case r of
         Inr _ \<Rightarrow> ret ()
       | Inl e \<Rightarrow> bind_op (fail_restore w (t_id t') ''execution failed: '') (\<lambda>_. refuse e))
        (\<lambda>_ db sp. ok db sp \<and> row_settled (view db) task) ok" for vw and r :: "DaemonRefusal + unit"
    proof (cases r)
      case (Inl e)
      have "spec ok (bind_op (fail_restore w (t_id t') ''execution failed: '') (\<lambda>_. refuse e))
          (\<lambda>_ db sp. ok db sp \<and> row_settled (view db) task) ok"
        by (rule spec_bind [OF spec_keeps [OF keeps_fail_restore]]) (auto intro!: spec_refuse)
      then show ?thesis unfolding Inl sum.case by (rule spec_conseq) (auto dest: quietD)
    next
      case (Inr u)
      then show ?thesis by (auto intro!: spec_ret dest: quietD simp: quiet_def)
    qed
    have "spec (\<lambda>db sp. \<exists>vw. ?A vw db sp) (bind_op (try_op (perform w t' nx since acts)) (\<lambda>r. case r of
         Inr _ \<Rightarrow> ret ()
       | Inl e \<Rightarrow> bind_op (fail_restore w (t_id t') ''execution failed: '') (\<lambda>_. refuse e)))
        (\<lambda>_ db sp. ok db sp \<and> row_settled (view db) task) ok"
      by (rule spec_ex, rule spec_bind [OF p q])
    then show "spec (\<lambda>db sp. advanced task nx acts db sp \<and> t_id t' = task)
        (bind_op (try_op (perform w t' nx since acts)) (\<lambda>r. case r of
         Inr _ \<Rightarrow> ret ()
       | Inl e \<Rightarrow> bind_op (fail_restore w (t_id t') ''execution failed: '') (\<lambda>_. refuse e)))
        (\<lambda>_ db sp. ok db sp \<and> row_settled (view db) task) ok"
      by (rule spec_conseq) (auto simp: advanced_def)
  qed
qed auto

section \<open>Events\<close>

lemma spec_observe_head:
  "spec (\<lambda>db sp. ok db sp \<and> ready db task l) (observe_head w task l) (\<lambda>l' db sp. ok db sp \<and> ready db task l') ok"
proof -
  let ?P = "\<lambda>db sp. ok db sp \<and> ready db task l"
  let ?Q = "\<lambda>l' db sp. ok db sp \<and> ready db task l'"
  have "spec ?P (bind_op (commit_transition w l (CommitCreated h patch) None) (\<lambda>_. load_pipeline w task)) ?Q ok" for h patch
  proof (rule spec_bind [OF spec_commit])
    show "spec (\<lambda>db sp. ok db sp \<and> row_settled (view db) task) (load_pipeline w task) ?Q ok" for x :: unit
    proof (rule spec_conseq [OF spec_load [of "\<lambda>db sp. ok db sp \<and> row_settled (view db) task" ok]])
      fix l' db sp
      assume a: "(ok db sp \<and> row_settled (view db) task) \<and> loaded db task l'"
      then have "db_inv db" "loaded db task l'" using ok_inv by auto
      then obtain p where p: "(ld_task l', ld_version l', p) \<in> set (core_rows db)" "t_id (ld_task l') = task"
        "\<exists>snap. p = Some (Encoded snap) \<and> snap_status snap = status (ld_state l')" by (rule loaded_run)
      from p(3) obtain snap where snap: "p = Some (Encoded snap)" "snap_status snap = status (ld_state l')" by blast
      have "(task, t_status (ld_task l'), Some (Encoded snap)) \<in> set (view db)" using view_row [OF p(1)] p(2) snap by simp
      with a have "t_status (ld_task l') = task_status_of (status (ld_state l'))"
        using row_settledD snap(2) by metis
      then have "closed (ld_task l') \<Longrightarrow> is_terminal (status (ld_state l'))"
        by (cases "status (ld_state l')") (simp_all add: closed_def closed_status_def)
      with a show "?Q l' db sp" by (simp add: ready_def)
    qed auto
  qed (simp add: ev_fine_def)
  note c = this
  have r: "spec ?P (ret l) ?Q ok" by (rule spec_ret)
  have h: "spec ?P (bind_op (bind_op (ask f) require) g) ?Q ok" if "\<And>x. spec ?P (g x) ?Q ok" for f :: "nat \<Rightarrow> string option" and g
    by (rule spec_bind [OF spec_still that]) (auto intro!: keeps)
  have g: "spec ?P (bind_op (gets f) k) ?Q ok" if "\<And>x. spec ?P (k x) ?Q ok" for f :: "Daemon \<Rightarrow> bool" and k
    by (rule spec_bind [OF spec_still that]) (auto intro: keeps)
  have t: "spec ?P (bind_op (team w i) k) ?Q ok" if "\<And>x. spec ?P (k x) ?Q ok" for i k
    by (rule spec_bind [OF spec_still that]) (auto intro: keeps)
  show ?thesis unfolding observe_head_def by (intro spec_option spec_if r g t h c)
qed

end
