(* ===== verification/Daemon_Events.thy ===== *)
theory Daemon_Events
  imports Daemon_Transitions
begin

text \<open>
  Events, the requests that are sent again, blocking, recovery and the boot keep the invariant. A merge
  request that is sent again is for the head that the stored state has in its merge stage.
\<close>

section \<open>Events\<close>

lemma spec_still_bind:
  assumes "\<And>J :: Db \<Rightarrow> Spawned list \<Rightarrow> bool. keeps J m" and "\<And>db sp. P db sp \<Longrightarrow> E db sp"
    and "\<And>x. spec P (f x) Q E"
  shows "spec P (bind_op m f) Q E"
  by (rule spec_bind [OF spec_still [OF assms(1,2)] assms(3)])

lemma keeps_event:
  assumes "ev_fine task ev"
  shows "keeps ok (event_detail w task ev detail)"
  unfolding event_detail_def
proof (rule keeps_spec, rule spec_bind [OF spec_load], assumption)
  fix l
  let ?P = "\<lambda>db sp. ok db sp \<and> loaded db task l"
  let ?R = "\<lambda>l db sp. ok db sp \<and> ready db task l"
  have "spec (?R l) (bind_op (repo_unavailable w (ld_task l)) (\<lambda>unavailable.
         if unavailable \<and> \<not> is_cancel ev then refuse INVALID
         else bind_op (if observes_head ev then observe_head w task l else ret l) (\<lambda>l'.
           commit_transition w l' ev detail))) (\<lambda>_. ok) ok"
  proof (rule spec_still_bind, simp add: keeps, simp, rule spec_if)
    have "spec (?R l) (if observes_head ev then observe_head w task l else ret l) ?R ok"
      by (rule spec_if [OF spec_observe_head spec_ret])
    then show "spec (?R l) (bind_op (if observes_head ev then observe_head w task l else ret l) (\<lambda>l'.
           commit_transition w l' ev detail)) (\<lambda>_. ok) ok"
      by (rule spec_bind) (rule spec_conseq [OF spec_commit [OF assms]], auto)
  qed (rule spec_refuse, simp)
  then have "spec ?P (bind_op (repo_unavailable w (ld_task l)) (\<lambda>unavailable.
         if unavailable \<and> \<not> is_cancel ev then refuse INVALID
         else bind_op (if observes_head ev then observe_head w task l else ret l) (\<lambda>l'.
           commit_transition w l' ev detail))) (\<lambda>_. ok) ok" if "\<not> closed (ld_task l)"
    using that by (elim spec_conseq) (auto simp: ready_def)
  then show "spec ?P (if t_status (ld_task l) = TaskStatus.Blocked \<and> \<not> is_cancel ev then refuse INVALID
       else if closed (ld_task l) then refuse STALE_RESULT
       else bind_op (repo_unavailable w (ld_task l)) (\<lambda>unavailable.
         if unavailable \<and> \<not> is_cancel ev then refuse INVALID
         else bind_op (if observes_head ev then observe_head w task l else ret l) (\<lambda>l'.
           commit_transition w l' ev detail))) (\<lambda>_. ok) ok"
    by (auto intro!: spec_refuse)
qed

lemma internal_fine: "internal ev \<Longrightarrow> ev_fine task ev"
  by (cases ev) (simp_all add: ev_fine_def)

section \<open>Requests that are sent again\<close>

lemma as_return_to_work_merge: "as_return_to_work r act = PipelineAction.Merge sid a h \<longleftrightarrow> act = PipelineAction.Merge sid a h"
    "PipelineAction.Merge sid a h = as_return_to_work r act \<longleftrightarrow> act = PipelineAction.Merge sid a h"
  by (cases act; auto)+

lemma outstanding_merge:
  assumes wf: "well_formed (workflow st)" and inv: "state_inv st" and out: "outstanding_actions st = Inr acts"
    and m: "PipelineAction.Merge sid a h \<in> set acts"
  shows "merge_in_flight st" "current_head st = Some h"
proof -
  have run: "status st = PipelineStatus.Running"
    using out m by (cases "status st = PipelineStatus.Running") (simp_all add: outstanding_actions_def)
  note r = state_inv_runningD [OF inv run]
  let ?w = "stages st ! stage_index st"
  have stage: "current_stage st = Some ?w" using r(1) by simp
  have len: "length (attempts st) = length (stages st)" by (rule base_invD(1) [OF r(8)])
  note re = reentry_result [OF wf inv run]
  have "ws_stage ?w = Stage.Merge \<and> current_head st = Some h"
  proof (cases "stage_request st (stage_index st) ?w (attempt st)")
    case (Inr act)
    from outstanding_requests [OF wf inv run Inr] out have "acts = requests st act" by simp
    with m have "act = PipelineAction.Merge sid a h"
      by (auto simp: requests_def as_return_to_work_merge split: option.splits if_splits)
    with stage_request_merge [of st "stage_index st" ?w "attempt st"] Inr show ?thesis by simp
  next
    case (Inl e)
    have False
    proof (cases e)
      case (Inl reason)
      with \<open>stage_request _ _ _ _ = Inl e\<close> re run stage out r(1) len m show False
        by (auto simp: outstanding_actions_def fail_task_def as_return_to_work_merge Let_def split: option.splits if_splits)
    next
      case (Inr f)
      with \<open>stage_request _ _ _ _ = Inl e\<close> re run stage out r(1) len m show False
        by (cases f) (auto simp: outstanding_actions_def Let_def)
    qed
    then show ?thesis ..
  qed
  then show "merge_in_flight st" "current_head st = Some h" using run r(1) by (simp_all add: merge_in_flight_iff kind_simps)
qed

definition due :: "string \<Rightarrow> PipelineState \<Rightarrow> PipelineAction list \<Rightarrow> (string \<times> TaskStatus \<times> PipelineText option) list \<Rightarrow> bool" where
  "due task st acts vw \<longleftrightarrow> (acts = [] \<or> started vw task) \<and> id_ok task \<and> belongs task st"

lemma loaded_view:
  assumes inv: "db_inv db" and l: "loaded db task l" and v: "(task, s, q) \<in> set (view db)"
  shows "\<exists>snap. q = Some (Encoded snap) \<and> snap_status snap = status (ld_state l)" "s = t_status (ld_task l)"
proof -
  from inv l obtain p where p: "(ld_task l, ld_version l, p) \<in> set (core_rows db)" "t_id (ld_task l) = task"
    "\<exists>snap. p = Some (Encoded snap) \<and> snap_status snap = status (ld_state l)" by (rule loaded_run)
  from v obtain t u where t: "(t, u, q) \<in> set (core_rows db)" "t_id t = task" "t_status t = s" by (auto simp: view_def)
  have "t = ld_task l" "q = p" using same_row [OF invD(1) [OF inv] p(1) t(1)] t(2) p(2) by simp_all
  then show "\<exists>snap. q = Some (Encoded snap) \<and> snap_status snap = status (ld_state l)" "s = t_status (ld_task l)"
    using p(3) t(3) by simp_all
qed

lemma outstanding_due:
  assumes ok: "ok db sp" and l: "loaded db task l" and out: "outstanding_actions (ld_state l) = Inr acts"
  shows "quiet (view db) (merge_heads task acts) db sp" "due task (ld_state l) acts (view db)"
proof -
  note inv = ok_inv [OF ok]
  from inv l obtain wfl p where w: "id_ok task" "(ld_task l, ld_version l, p) \<in> set (core_rows db)"
    "t_id (ld_task l) = task" "load_workflow db (t_workflow_id (ld_task l)) (t_workflow_version (ld_task l)) = Some wfl"
    "daemon_validate wfl = Some wfl" "belongs task (ld_state l)"
    and run: "unat (ld_version l) < LIMIT \<longrightarrow> (\<exists>evs. run_of task wfl evs (ld_state l) \<and> length evs < unat (ld_version l)
       \<and> status_ok (ld_task l) (ld_state l))" by (rule loaded_run)
  obtain roles where valid: "validate wfl roles = []" using daemon_validateD(2) [OF w(5)] by blast
  have "earned db task h" if m: "PipelineAction.Merge sid a h \<in> set acts" for sid a h
  proof (cases "unat (ld_version l) < LIMIT")
    case True
    with run obtain evs where e: "run_of task wfl evs (ld_state l)" by blast
    note s = run_state [OF valid e]
    have "well_formed (workflow (ld_state l))" using s(2,4) by simp
    from outstanding_merge [OF this s(5) out m] e w show ?thesis unfolding earned_def by blast
  next
    case False
    with w(2,3) show ?thesis unfolding earned_def by (metis not_less)
  qed
  then show "quiet (view db) (merge_heads task acts) db sp" using ok by (auto simp: quiet_def merge_heads_def)
  have "started (view db) task" if "acts \<noteq> []"
  proof -
    have "status (ld_state l) = PipelineStatus.Running"
      using out that by (cases "status (ld_state l) = PipelineStatus.Running") (simp_all add: outstanding_actions_def)
    then show ?thesis unfolding started_def using loaded_view(1) [OF inv l] by fastforce
  qed
  then show "due task (ld_state l) acts (view db)" using w by (auto simp: due_def)
qed

lemma spec_outstanding:
  assumes "\<And>vw acts. due task (ld_state l) acts vw \<Longrightarrow> spec (quiet vw (merge_heads task acts)) (f acts) (\<lambda>_. ok) ok"
  shows "spec (\<lambda>db sp. ok db sp \<and> loaded db task l) (bind_op (outstanding (ld_state l)) f) (\<lambda>_. ok) ok"
proof (cases "outstanding_actions (ld_state l)")
  case (Inl e)
  have "bind_op (outstanding (ld_state l)) f = refuse PANIC"
    by (intro ext) (simp add: outstanding_def Inl bind_op_def refuse_def)
  then show ?thesis by (auto intro: spec_refuse)
next
  case (Inr acts)
  have eq: "bind_op (outstanding (ld_state l)) f = f acts"
    by (intro ext) (simp add: outstanding_def Inr bind_op_def ret_def)
  have "spec (\<lambda>db sp. quiet vw (merge_heads task acts) db sp \<and> due task (ld_state l) acts vw) (f acts) (\<lambda>_. ok) ok" for vw
    by (rule spec_assm) (rule assms)
  then have "spec (\<lambda>db sp. \<exists>vw. quiet vw (merge_heads task acts) db sp \<and> due task (ld_state l) acts vw) (f acts) (\<lambda>_. ok) ok"
    by (rule spec_ex)
  then show ?thesis unfolding eq
  proof (rule spec_conseq)
    fix db sp
    assume "ok db sp \<and> loaded db task l"
    with outstanding_due [OF _ _ Inr] show "\<exists>vw. quiet vw (merge_heads task acts) db sp \<and> due task (ld_state l) acts vw" by blast
  qed
qed

lemma quietly_due:
  assumes "due (t_id t) st acts vw"
  shows "quietly vw (merge_heads (t_id t) acts) (for_each (action w t st since) acts)"
proof (cases "acts = []")
  case False
  with assms show ?thesis by (intro quietly_actions) (auto simp: due_def)
qed (simp add: keeps)

lemma spec_quietly: "quietly vw hs m \<Longrightarrow> spec (quiet vw hs) m (\<lambda>_. ok) ok"
  unfolding keeps_def by (erule spec_conseq) (auto dest: quietD)

lemma spec_quietly_bind:
  assumes "quietly vw hs m" and "\<And>x. spec (quiet vw hs) (f x) Q ok"
  shows "spec (quiet vw hs) (bind_op m f) Q ok"
proof (rule spec_bind [OF _ assms(2)])
  show "spec (quiet vw hs) m (\<lambda>_. quiet vw hs) ok"
    using assms(1) unfolding keeps_def by (rule spec_conseq) (auto dest: quietD)
qed

lemma spec_resend:
  assumes "t_id t = task"
  shows "spec (\<lambda>db sp. ok db sp \<and> loaded db task l)
    (bind_op (outstanding (ld_state l)) (for_each (action w t (ld_state l) since))) (\<lambda>_. ok) ok"
  by (rule spec_outstanding, rule spec_quietly) (use assms quietly_due in blast)

section \<open>Keeping the invariant\<close>

lemma ok_ops [keeps]:
  "keeps ok (note_task w task reason)" "keeps ok (deliver w to i task' body)" "keeps ok (release w b m)"
  "keeps ok (cleanup_terminal w report t)"
  by (rule quietly_ok, intro keeps)+

lemma ok_ensure_binding: "binding_ok b \<Longrightarrow> keeps ok (ensure_binding w repo b)"
  by (rule quietly_ok) (rule quietly_ensure_binding)

lemma ok_same_core: "ok db sp \<Longrightarrow> same_core db db' \<Longrightarrow> ok db' sp"
  using quiet_same_core [OF quiet_self] by (auto simp: quiet_def)

lemma ok_write: "(\<And>db db' x. f db = Inr (db', x) \<Longrightarrow> same_core db db') \<Longrightarrow> keeps ok (store_write w f)"
  by (rule quietly_ok) (rule quietly_write)

lemma ok_read:
  assumes "\<And>db. db_inv db \<Longrightarrow> keeps ok (g (f db))"
  shows "keeps ok (bind_op (store_read w f) g)"
proof (rule keeps_spec, rule spec_bind [OF spec_read], assumption)
  fix x
  show "spec (\<lambda>db sp. ok db sp \<and> x = f db) (g x) (\<lambda>_. ok) ok"
  proof (cases "\<exists>db. db_inv db \<and> x = f db")
    case True
    then have "spec ok (g x) (\<lambda>_. ok) ok" using assms by (auto simp: keeps_def)
    then show ?thesis by (rule spec_conseq) auto
  next
    case False
    then show ?thesis unfolding spec_def by (metis ok_inv)
  qed
qed

lemma ok_load:
  assumes "\<And>l. spec (\<lambda>db sp. ok db sp \<and> loaded db task l) (g l) (\<lambda>_. ok) ok"
  shows "keeps ok (bind_op (load_pipeline w task) g)"
  by (rule keeps_spec, rule spec_bind [OF spec_load assms])

lemma spec_ok: "keeps ok m \<Longrightarrow> (\<And>db sp. P db sp \<Longrightarrow> ok db sp) \<Longrightarrow> spec P m (\<lambda>_. ok) ok"
  unfolding keeps_def by (erule spec_conseq)

section \<open>Waking up\<close>

lemma spec_redispatch:
  assumes "due (t_id t) (ld_state l) acts vw" and "merge_heads (t_id t) acts \<subseteq> hs"
  shows "spec (quiet vw hs) (redispatch w t l acts) (\<lambda>_. ok) ok"
  using assms
proof (induction acts)
  case Nil
  then show ?case by (auto intro: spec_ret dest: quietD)
next
  case (Cons act acts)
  have d: "started vw (t_id t)" "id_ok (t_id t)" "belongs (t_id t) (ld_state l)" using Cons.prems(1) by (auto simp: due_def)
  have rest: "spec (quiet vw hs) (redispatch w t l acts) (\<lambda>_. ok) ok"
    using Cons.IH Cons.prems(2) d by (auto simp: due_def merge_heads_def)
  have act: "quietly vw hs (try_op (action w t (ld_state l) since act))" for since
    using Cons.prems(2) d by (intro keeps_try quietly_action) (auto simp: merge_heads_def)
  have "spec (quiet vw hs) (case r of Inr _ \<Rightarrow> redispatch w t l acts | Inl _ \<Rightarrow> fail_restore w (t_id t) reason) (\<lambda>_. ok) ok"
    for r :: "DaemonRefusal + unit" and reason
    using rest by (cases r) (auto intro!: spec_ok keeps dest: quietD)
  with act have "spec (quiet vw hs) (bind_op (try_op (action w t (ld_state l) since act)) (\<lambda>r.
      case r of Inr _ \<Rightarrow> redispatch w t l acts | Inl _ \<Rightarrow> fail_restore w (t_id t) reason)) (\<lambda>_. ok) ok" for since reason
    by (intro spec_quietly_bind)
  then show ?case
    unfolding redispatch.simps
    by (intro spec_if [OF rest spec_still_bind [OF _ _ spec_if [OF rest]]]) (auto intro!: keeps dest: quietD)
qed

lemma keeps_wake_task [keeps]: "keeps ok (wake_task w t)"
  unfolding wake_task_def
proof (rule keeps_if [OF keeps_ret keeps_bind [OF keeps_small(6) keeps_if [OF keeps_ret ok_load]]])
  fix l
  have "spec (\<lambda>db sp. ok db sp \<and> loaded db (t_id t) l) (bind_op (outstanding (ld_state l)) (redispatch w t l)) (\<lambda>_. ok) ok"
    by (rule spec_outstanding) (rule spec_redispatch, auto)
  then show "spec (\<lambda>db sp. ok db sp \<and> loaded db (t_id t) l) (if pr_attention_reason (ld_progress l) \<noteq> None then ret ()
      else bind_op (outstanding (ld_state l)) (redispatch w t l)) (\<lambda>_. ok) ok"
    by (intro spec_if spec_ret) auto
qed

lemma keeps_send_reminder [keeps]: "keeps ok (send_reminder w r)"
  unfolding send_reminder_def by (intro keeps ok_write) (use reminder_core in auto)

lemma keeps_wake [keeps]: "keeps ok (wake w)"
  unfolding wake_def by (intro keeps)

section \<open>Recovery\<close>

lemma keeps_release_or_fail [keeps]: "keeps ok (release_or_fail w b)"
  unfolding release_or_fail_def by (intro keeps)

lemma keeps_ensure_or_fail: "binding_ok b \<Longrightarrow> keeps ok (ensure_or_fail w repo b)"
  unfolding ensure_or_fail_def by (intro keeps ok_ensure_binding)

lemma keeps_reconcile_merge: "binding_ok b \<Longrightarrow> keeps ok (reconcile_merge w repo b st)"
  unfolding reconcile_merge_def Let_def by (intro keeps keeps_ensure_or_fail)

lemma keeps_reconcile_binding: "binding_ok b \<Longrightarrow> keeps ok (reconcile_binding w ts b)"
  unfolding reconcile_binding_def by (intro keeps keeps_ensure_or_fail keeps_reconcile_merge)

lemma keeps_free_closed [keeps]: "keeps ok (free_closed w bs t)"
  unfolding free_closed_def
  using quietly_ok [OF quietly_swap_assignee [where c = "\<lambda>_ _. False"]] by (intro keeps_if keeps_ret) simp

lemma bindings_ok: "db_inv db \<Longrightarrow> b \<in> set (bindings db) \<Longrightarrow> binding_ok b"
  using invD(4) by (simp add: bindings_def)

lemma keeps_reconcile_bindings [keeps]: "keeps ok (reconcile_bindings w)"
proof -
  have "keeps ok (bind_op (store_read w bindings) (for_each (reconcile_binding w ts)))" for ts
    by (rule ok_read, rule keeps_for_each, rule keeps_reconcile_binding) (rule bindings_ok)
  then show ?thesis unfolding reconcile_bindings_def
    by (rule keeps_bind [OF keeps_read keeps_bind]) (intro keeps)
qed

lemma keeps_deliver_answers [keeps]: "keeps ok (deliver_answers w)"
  unfolding deliver_answers_def deliver_answer_def by (intro keeps ok_write) (use ask_core in auto)

lemma keeps_check_task [keeps]: "keeps ok (check_task w t)"
  unfolding check_task_def by (intro keeps)

lemma keeps_resume_actions [keeps]: "keeps ok (resume_actions w t)"
  unfolding resume_actions_def
proof (rule ok_load)
  fix l
  let ?P = "\<lambda>db sp. ok db sp \<and> loaded db (t_id t) l"
  have again: "spec ?P (bind_op (outstanding (ld_state l)) (for_each (action w t (ld_state l) since))) (\<lambda>_. ok) ok" for since
    by (rule spec_resend) (rule refl)
  have first: "spec ?P (commit_transition w l PipelineEvent.Start None) (\<lambda>_. ok) ok"
    if p: "status (ld_state l) = PipelineStatus.Pending"
  proof (rule spec_conseq [OF spec_commit])
    show "ev_fine (t_id t) PipelineEvent.Start" by (simp add: ev_fine_def)
    fix db sp
    assume a: "?P db sp"
    then have "db_inv db" "loaded db (t_id t) l" using ok_inv by auto
    then have "status (ld_state l) = PipelineStatus.Pending \<longrightarrow> t_assignee (ld_task l) = None" by (rule loaded_run)
    with a p show "ok db sp \<and> ready db (t_id t) l" by (simp add: ready_def)
  qed auto
  from first again show "spec ?P (if status (ld_state l) = PipelineStatus.Pending then commit_transition w l PipelineEvent.Start None
       else bind_op (outstanding (ld_state l))
              (for_each (action w t (ld_state l) (pg_stage_entered (pr_data (ld_progress l)))))) (\<lambda>_. ok) ok"
    by (cases "status (ld_state l) = PipelineStatus.Pending") simp_all
qed

lemma keeps_resume_task [keeps]: "keeps ok (resume_task w t)"
  unfolding resume_task_def by (intro keeps)

section \<open>Workflows\<close>

lemma find_append: "List.find P (xs @ ys) = (case List.find P xs of Some x \<Rightarrow> Some x | None \<Rightarrow> List.find P ys)"
  by (induction xs) simp_all

lemma row_ok_mono:
  assumes "task_row_ok db t v p" and "\<And>i u wfl. load_workflow db i u = Some wfl \<Longrightarrow> load_workflow db' i u = Some wfl"
  shows "task_row_ok db' t v p"
  using assms unfolding task_row_ok_def by blast

lemma save_workflow_ok:
  assumes "ok db sp" and "save_workflow db wfl = Inr db'"
  shows "ok db' sp"
proof -
  from assms(2) have db': "db' = db\<lparr>db_workflows := db_workflows db @ [wfl]\<rparr>"
    and new: "load_workflow db (wf_id wfl) (wf_version wfl) = None" "wf_version wfl \<le> I64_MAX"
    by (auto simp: save_workflow_def result_split split: if_splits)
  note inv = ok_inv [OF assms(1)]
  have mono: "load_workflow db' i u = Some x" if "load_workflow db i u = Some x" for i u x
    using that by (auto simp: load_workflow_def db' find_append split: if_splits)
  have "load_workflow db' (wf_id wfl) (wf_version wfl) = Some wfl"
    using new by (auto simp: load_workflow_def db' find_append split: if_splits)
  moreover have core: "core_rows db' = core_rows db" by (simp add: core_rows_def db')
  ultimately have "db_inv db'"
    using inv row_ok_mono [OF invD(2) [OF inv] mono] mono [OF invD(6) [OF inv]] unfolding db_inv_def by (simp add: db')
  moreover have "evolves db db'" unfolding evolves_def core using mono by blast
  ultimately show ?thesis by (rule ok_evolves [OF assms(1)])
qed

lemma keeps_save_workflow [keeps]: "keeps ok (store_write w (\<lambda>db. wrote (save_workflow db wfl)))"
  by (rule keeps_write) (auto simp: wrote_Inr intro: save_workflow_ok)

lemma keeps_boot [keeps]: "keeps ok (boot w)"
  unfolding boot_def save_builtin_def by (intro keeps)

end
