(* ===== verification/Daemon_Inputs.thy ===== *)
theory Daemon_Inputs
  imports Daemon_Events
begin

text \<open>
  Every input of the worker keeps the invariant: the commands of agents and of the operator, the answers of
  the human, the events the daemon sent to itself, the results of checks, the wake-up and the daily round.
\<close>

section \<open>Blocking\<close>

lemma apply_block:
  assumes "task_apply t (if b then TaskOperation.Block else TaskOperation.Unblock) = Inr t'"
  obtains s where "t' = t\<lparr>t_status := s\<rparr>" "s \<in> {TaskStatus.Open, TaskStatus.Running, TaskStatus.Blocked}" "\<not> closed t"
  using assms by (cases b) (auto simp: closed_def closed_status_def split: if_splits)

lemma row_ok_status:
  assumes row: "task_row_ok db t v p" and "\<not> closed t" and le: "unat v \<le> unat v'"
    and s: "s \<in> {TaskStatus.Open, TaskStatus.Running, TaskStatus.Blocked}"
  shows "task_row_ok db (t\<lparr>t_status := s\<rparr>) v' p"
proof -
  have nt: "\<not> is_terminal (status st)" if "status_ok t st" for st
    using that assms(2) by (cases "status st") (auto simp: status_ok_def closed_def closed_status_def)
  have "run_ok wfl (t\<lparr>t_status := s\<rparr>) v' snap" if "run_ok wfl t v snap" for wfl snap
    using that le s nt unfolding run_ok_def by (fastforce simp: status_ok_def)
  moreover have "pinned_to wfl (t\<lparr>t_status := s\<rparr>) = pinned_to wfl t" for wfl by (simp add: pinned_to_def)
  ultimately show ?thesis using row unfolding task_row_ok_def by simp blast
qed

lemma spec_block_write:
  assumes t': "t' = (ld_task l)\<lparr>t_status := s\<rparr>" and s: "s \<in> {TaskStatus.Open, TaskStatus.Running, TaskStatus.Blocked}"
    and open': "\<not> closed (ld_task l)" and data: "pg_pipeline data = pg_pipeline (pr_data (ld_progress l))"
  shows "spec (\<lambda>db sp. ok db sp \<and> loaded db task l) (advance_task w t' (ld_version l) data ev)
    (\<lambda>_ db sp. ok db sp \<and> loaded db task (l\<lparr>ld_task := t', ld_version := ld_version l + 1\<rparr>)) ok"
proof (rule spec_advance_task)
  fix db sp
  assume r: "ok db sp \<and> loaded db task l"
  then show inv: "db_inv db" and "ok db sp" using ok_inv by auto
  fix t0 p0 db'
  assume le: "unat (ld_version l + 1) = unat (ld_version l) + 1"
    and rep: "replaces db t' (ld_version l + 1) (Some (pg_pipeline data)) db'"
  from r obtain snap wfl where ld: "(ld_task l, ld_version l, Some (Encoded snap)) \<in> set (core_rows db)"
    "t_id (ld_task l) = task" "load_workflow db (t_workflow_id (ld_task l)) (t_workflow_version (ld_task l)) = Some wfl"
    "ld_state l = state_of_snapshot snap wfl" "belongs task (ld_state l)" "pg_pipeline (pr_data (ld_progress l)) = Encoded snap"
    by (auto simp: loaded_def)
  have rep': "replaces db t' (ld_version l + 1) (Some (Encoded snap)) db'" using rep data ld(6) by simp
  have "holder_free (core_rows db) t'"
    using invD(3) [OF inv ld(1)] open' unfolding holder_free_def t' by simp
  moreover have "task_row_ok db t' (ld_version l + 1) (Some (Encoded snap))"
    unfolding t' by (rule row_ok_status [OF invD(2) [OF inv ld(1)] open' _ s]) (use le in simp)
  ultimately have "ok db' sp" using r le t' by (intro ok_replaces [OF _ rep' ld(1)]) simp_all
  moreover have "(t', ld_version l + 1, Some (Encoded snap)) \<in> set (core_rows db')"
    using replacesD(5) [OF rep' ld(1)] t' by simp
  ultimately show "ok db' sp \<and> loaded db' task (l\<lparr>ld_task := t', ld_version := ld_version l + 1\<rparr>)"
    using ld replacesD(2) [OF rep'] t' unfolding loaded_def by simp
qed

lemma spec_timers:
  "(\<And>db sp. P db sp \<Longrightarrow> E db sp) \<Longrightarrow> spec P (modify (\<lambda>d. d\<lparr>dm_timers := f d\<rparr>)) (\<lambda>_. P) E"
  by (rule spec_still) (rule keeps_modify_timers)

lemma spec_block:
  assumes a: "task_apply (ld_task l) (if reason \<noteq> None then TaskOperation.Block else TaskOperation.Unblock) = Inr t"
  shows "spec (\<lambda>db sp. ok db sp \<and> loaded db task l) (bind_op (new_id w) (\<lambda>ident. bind_op (now w) (\<lambda>time.
      bind_op (advance_task w t (ld_version l) ((pr_data (ld_progress l))\<lparr>pg_block_reason := reason\<rparr>)
         (stored_event ident time k dt)) (\<lambda>_.
        if reason \<noteq> None then ret ()
        else bind_op (modify (\<lambda>d. d\<lparr>dm_timers := filter (\<lambda>k. k \<noteq> ticket (ld_state l)) (dm_timers d)\<rparr>)) (\<lambda>_.
             bind_op (outstanding (ld_state l)) (for_each (action w t (ld_state l) since))))))) (\<lambda>_. ok) ok"
proof -
  from a obtain s where s: "t = (ld_task l)\<lparr>t_status := s\<rparr>"
    "s \<in> {TaskStatus.Open, TaskStatus.Running, TaskStatus.Blocked}" "\<not> closed (ld_task l)" by (rule apply_block)
  let ?P = "\<lambda>l db sp. ok db sp \<and> loaded db task l"
  let ?l = "l\<lparr>ld_task := t, ld_version := ld_version l + 1\<rparr>"
  have again: "spec (?P ?l) (bind_op (outstanding (ld_state ?l)) (for_each (action w t (ld_state ?l) since))) (\<lambda>_. ok) ok"
    if "t_id t = task" using that by (rule spec_resend)
  have "spec (?P ?l) (if reason \<noteq> None then ret ()
        else bind_op (modify (\<lambda>d. d\<lparr>dm_timers := filter (\<lambda>k. k \<noteq> ticket (ld_state l)) (dm_timers d)\<rparr>)) (\<lambda>_.
             bind_op (outstanding (ld_state l)) (for_each (action w t (ld_state l) since)))) (\<lambda>_. ok) ok"
  proof (cases "t_id t = task")
    case True
    with again show ?thesis by (intro spec_if spec_bind [OF spec_timers]) (auto intro: spec_ret)
  next
    case False
    then show ?thesis by (auto simp: spec_def loaded_def)
  qed
  with spec_block_write [OF s] show ?thesis
    by (intro spec_still_bind [OF keeps_small(2)] spec_still_bind [OF keeps_small(1)] spec_bind) auto
qed

lemma spec_owned: "spec ok (owned w caller task) (\<lambda>l db sp. ok db sp \<and> loaded db task l) ok"
  unfolding owned_def by (rule spec_bind [OF spec_load]) (auto intro!: spec_refuse spec_ret)

lemma keeps_block [keeps]: "keeps ok (block w caller task reason)"
  unfolding block_def Let_def
  by (rule keeps_spec, rule spec_bind [OF spec_owned], intro spec_if spec_refuse spec_sum spec_block) simp_all

section \<open>Creating a task\<close>

lemma latest_in: "latest_workflow db i = Some wfl \<Longrightarrow> wfl \<in> set (db_workflows db)"
proof -
  have pick: "foldl (\<lambda>a b. if wf_version a < wf_version b then b else a) a xs \<in> set (a # xs)" for a xs
    by (induction xs arbitrary: a) (auto split: if_splits)
  assume "latest_workflow db i = Some wfl"
  then obtain x xs where "filter (\<lambda>w. wf_id w = i) (db_workflows db) = x # xs"
    and w: "wfl = foldl (\<lambda>a b. if wf_version a < wf_version b then b else a) x xs"
    by (auto simp: latest_workflow_def split: list.splits)
  then have "set (x # xs) \<subseteq> set (db_workflows db)" by (metis filter_is_subset)
  with pick [of x xs] w show ?thesis by blast
qed

definition fresh_task :: "Task \<Rightarrow> Workflow \<Rightarrow> bool" where
  "fresh_task t wfl \<longleftrightarrow> id_ok (t_id t) \<and> pinned_to wfl t \<and> daemon_validate wfl = Some wfl
     \<and> t_status t = TaskStatus.Open \<and> t_merge_commit t = None \<and> t_assignee t = None"

lemma fresh_row:
  assumes t: "fresh_task t wfl" and w: "load_workflow db (t_workflow_id t) (t_workflow_version t) = Some wfl"
  shows "task_row_ok db t FIRST_VERSION (Some (Encoded (snapshot (state_unchecked (t_id t) wfl))))"
proof -
  let ?s = "state_unchecked (t_id t) wfl"
  have "run_of (t_id t) wfl [] ?s" by (simp add: run_of_def accepts.intros)
  moreover have "belongs (t_id t) ?s" by (simp add: belongs_def state_unchecked_def)
  moreover have "status_ok t ?s" using t by (simp add: status_ok_def fresh_task_def state_unchecked_def)
  ultimately have "run_ok wfl t FIRST_VERSION (snapshot ?s)" unfolding run_ok_def by (fastforce simp: FIRST_VERSION_def)
  with t w show ?thesis by (simp add: task_row_ok_def fresh_task_def)
qed

lemma create_core:
  assumes "create_pipeline_task db t p time = Inr db'"
  shows "core_rows db' = core_rows db @ [(t, FIRST_VERSION, Some p)]" "t_id t \<notin> row_id ` set (core_rows db)"
    "db_workflows db' = db_workflows db" "db_bindings db' = db_bindings db" "db_instances db' = db_instances db"
proof -
  let ?r = "\<lparr>tr_task = t, tr_version = FIRST_VERSION, tr_pipeline = None, tr_stage_entered = 0,
           tr_merge_intent = None, tr_block_reason = None, tr_attention_reason = None,
           tr_acknowledged = False, tr_attention_revision = 0\<rparr>"
  have new: "find_task db (t_id t) = None"
    and db': "db' = update_task (t_id t) (\<lambda>r. r\<lparr>tr_pipeline := Some p, tr_stage_entered := time\<rparr>) (db\<lparr>db_tasks := db_tasks db @ [?r]\<rparr>)"
    using assms by (auto simp: create_pipeline_task_def insert_task_def result_split split: if_splits)
  from new have other: "\<forall>x \<in> set (db_tasks db). \<not> has_task (t_id t) x" by (simp add: find_task_def find_None_iff)
  then show "t_id t \<notin> row_id ` set (core_rows db)" by (auto simp: core_rows_def row_id_def has_task_def)
  show "core_rows db' = core_rows db @ [(t, FIRST_VERSION, Some p)]"
    using other by (auto simp: core_rows_def db' update_task_def has_task_def)
  show "db_workflows db' = db_workflows db" "db_bindings db' = db_bindings db" "db_instances db' = db_instances db"
    by (simp_all add: db' update_task_def)
qed

lemma create_ok:
  assumes ok: "ok db sp" and t: "fresh_task t wfl" and w: "load_workflow db (t_workflow_id t) (t_workflow_version t) = Some wfl"
    and c: "create_pipeline_task db t (Encoded (snapshot (state_unchecked (t_id t) wfl))) time = Inr db'"
  shows "ok db' sp"
proof -
  note inv = ok_inv [OF ok] and cc = create_core [OF c]
  let ?p = "Some (Encoded (snapshot (state_unchecked (t_id t) wfl)))"
  have load: "load_workflow db' = load_workflow db" by (rule load_workflow_cong [OF cc(3)])
  have none: "t_assignee t = None" using t by (simp add: fresh_task_def)
  have "task_row_ok db' t1 v1 p1 \<and> holder_free (core_rows db') t1" if "(t1, v1, p1) \<in> set (core_rows db')" for t1 v1 p1
  proof (cases "(t1, v1, p1) \<in> set (core_rows db)")
    case True
    have "holder_free (core_rows db') t1"
      using invD(3) [OF inv True] none unfolding holder_free_def cc(1) by auto
    then show ?thesis using invD(2) [OF inv True] row_ok_cong [OF load] by simp
  next
    case False
    then have "t1 = t" "v1 = FIRST_VERSION" "p1 = ?p" using that cc(1) by auto
    then show ?thesis using fresh_row [OF t w] row_ok_cong [OF load] none by (simp add: holder_free_def)
  qed
  moreover have "distinct (map row_id (core_rows db'))" using invD(1) [OF inv] cc(1,2) by (simp add: row_id_def)
  ultimately have "db_inv db'" using inv load cc(3-5) unfolding db_inv_def by simp
  moreover have "evolves db db'" unfolding evolves_def load cc(1) by auto
  ultimately show ?thesis by (rule ok_evolves [OF ok])
qed

lemma keeps_git_ready [keeps]: "keeps J (git_ready w r)"
  unfolding git_ready_def by (intro keeps)

lemma show_id_ok: "id_ok (''t-'' @ show_nat n)"
  by (auto simp: id_ok_def)

lemma keeps_create_task [keeps]: "keeps ok (create_task w title role tm wfl_id)"
  unfolding create_task_def Let_def
proof (intro keeps_if keeps_refuse keeps_bind [OF keeps_small(4)], rule keeps_spec, rule spec_bind [OF spec_read_some], assumption)
  fix tm' wfl
  let ?P = "\<lambda>db sp. ok db sp \<and> latest_workflow db (case wfl_id of Some i \<Rightarrow> i | None \<Rightarrow> tm_default_workflow tm') = Some wfl"
  let ?t = "\<lambda>n. set_requires_repo (requires_repo wfl) (Task_new (''t-'' @ show_nat n) title tm (wf_id wfl) (wf_version wfl))"
  have "spec ?P (store_write w (\<lambda>db. wrote (create_pipeline_task db (?t n)
      (Encoded (snapshot (state_unchecked (''t-'' @ show_nat n) v))) time))) (\<lambda>_. ok) ok"
    if v: "daemon_validate wfl = Some v" for n v time
  proof (rule spec_write)
    fix db sp db' x
    assume p: "?P db sp" and c: "wrote (create_pipeline_task db (?t n) (Encoded (snapshot (state_unchecked (''t-'' @ show_nat n) v))) time)
      = Inr (db', x)"
    have "v = wfl" by (rule daemon_validateD(1) [OF v])
    moreover have "fresh_task (?t n) wfl"
      using v show_id_ok by (simp add: fresh_task_def set_requires_repo_def Task_new_def pinned_to_def \<open>v = wfl\<close>)
    moreover have "load_workflow db (wf_id wfl) (wf_version wfl) = Some wfl"
      using invD(6) [OF ok_inv latest_in] p by blast
    ultimately show "ok db' sp"
      using p c by (intro create_ok [of db sp "?t n" wfl time db']) (simp_all add: wrote_Inr set_requires_repo_def Task_new_def)
  qed auto
  note write' = this
  have event: "keeps ok (bind_op (event_detail w ident PipelineEvent.Start None) (\<lambda>_. ret (TaskCreated ident)))" for ident
    by (intro keeps_bind keeps_event keeps_ret) (simp add: ev_fine_def)
  show "spec ?P (if \<not> first_role_is role wfl \<or> requires_repo wfl \<and> tm_repo tm' = None then refuse INVALID
      else bind_op (if requires_repo wfl then git_ready w (tm_repo tm') else ret ()) (\<lambda>_.
           bind_op (store_read w tasks) (\<lambda>ts.
             bind_op (require (daemon_validate wfl)) (\<lambda>v.
             bind_op (now w) (\<lambda>time.
             bind_op (store_write w (\<lambda>db. wrote (create_pipeline_task db (?t (length ts + 1))
                        (Encoded (snapshot (state_unchecked (''t-'' @ show_nat (length ts + 1)) v))) time))) (\<lambda>_.
             bind_op (event_detail w (''t-'' @ show_nat (length ts + 1)) PipelineEvent.Start None) (\<lambda>_.
               ret (TaskCreated (''t-'' @ show_nat (length ts + 1)))))))))) (\<lambda>_. ok) ok"
    apply (intro spec_if spec_refuse)
     apply simp
    apply (rule spec_still_bind, intro keeps, simp)
    apply (rule spec_still_bind, intro keeps, simp)
    apply (rule spec_bind [OF spec_require [where Q = "\<lambda>v db sp. ?P db sp \<and> daemon_validate wfl = Some v"]], simp, simp)
    apply (rule spec_assm)
    apply (rule spec_still_bind, intro keeps, simp)
    apply (rule spec_bind [OF write'], assumption)
    apply (rule spec_keeps [OF event])
    done
qed

section \<open>Results\<close>

lemma require_bind:
  assumes "\<And>x. v = Some x \<Longrightarrow> keeps J (f x)"
  shows "keeps J (bind_op (require v) f)"
proof (cases v)
  case (Some x)
  have "bind_op (require v) f = f x" by (intro ext) (simp add: Some require_def bind_op_def ret_def)
  with assms [OF Some] show ?thesis by simp
next
  case None
  then show ?thesis by (intro keeps_pure) (simp add: require_def bind_op_def refuse_def)
qed

lemma keeps_owned [keeps]:
  "keeps J (owned w caller task)" "keeps J (may_report w caller task rv l)" "keeps J (owned_result w caller task ident rv)"
  unfolding owned_def owned_result_def may_report_def by (intro keeps)+

lemma read_work_binding:
  assumes "\<And>b. binding_ok b \<Longrightarrow> bn_task b = task \<Longrightarrow> bn_kind b = ''work'' \<Longrightarrow> keeps ok (f b)"
  shows "keeps ok (bind_op (bind_op (store_read w (\<lambda>db. List.find (\<lambda>b. bn_instance b = caller \<and> bn_task b = task \<and> bn_kind b = ''work'')
    (bindings db))) require) f)"
proof (rule keeps_spec, rule spec_bind [OF spec_read_some], assumption)
  fix b
  let ?P = "\<lambda>db sp. ok db sp \<and> List.find (\<lambda>b. bn_instance b = caller \<and> bn_task b = task \<and> bn_kind b = ''work'') (bindings db) = Some b"
  show "spec ?P (f b) (\<lambda>_. ok) ok"
  proof (cases "binding_ok b \<and> bn_task b = task \<and> bn_kind b = ''work''")
    case True
    then show ?thesis by (intro spec_ok [OF assms]) auto
  next
    case False
    have "binding_ok b \<and> bn_task b = task \<and> bn_kind b = ''work''" if p: "?P db sp" for db sp
    proof -
      from p have "b \<in> set (bindings db)" "bn_task b = task" "bn_kind b = ''work''" by (auto simp: find_Some_iff)
      with bindings_ok [OF ok_inv] p show ?thesis by blast
    qed
    with False show ?thesis unfolding spec_def by blast
  qed
qed

lemma keeps_done_command [keeps]: "keeps ok (done_command w caller task ident)"
  unfolding done_command_def
proof (rule keeps_bind [OF keeps_owned(3) keeps_bind [OF keeps_small(4) keeps_bind [OF keeps_require read_work_binding]]])
  fix l tm repo b
  assume b: "binding_ok b" "bn_task b = task" "bn_kind b = ''work''"
  show "keeps ok (bind_op (require (bn_branch b)) (\<lambda>br. bind_op require_git (\<lambda>_.
     bind_op (bind_op (ask (\<lambda>n. ev_head w n repo br)) require) (\<lambda>h.
     bind_op (bind_op (ask (\<lambda>n. ev_ancestor w n repo h ''main'')) require) (\<lambda>merged.
       if merged then refuse INVALID
       else bind_op (bind_op (ask (\<lambda>n. ev_patch_id w n repo h)) require) (\<lambda>patch.
            bind_op (require (current_stage (ld_state l))) (\<lambda>s.
              event_detail w task (WorkCompleted (ws_id s) (attempt (ld_state l)) (BranchProduct br h patch)) None)))))))"
  proof (rule require_bind)
    fix br
    assume "bn_branch b = Some br"
    with b have "task_id_of_branch br = Some task" by (auto simp: binding_ok_def)
    then have "keeps ok (event_detail w task (WorkCompleted i a (BranchProduct br h patch)) None)" for i a h patch
      by (intro keeps_event) (simp add: ev_fine_def)
    then show "keeps ok (bind_op require_git (\<lambda>_.
     bind_op (bind_op (ask (\<lambda>n. ev_head w n repo br)) require) (\<lambda>h.
     bind_op (bind_op (ask (\<lambda>n. ev_ancestor w n repo h ''main'')) require) (\<lambda>merged.
       if merged then refuse INVALID
       else bind_op (bind_op (ask (\<lambda>n. ev_patch_id w n repo h)) require) (\<lambda>patch.
            bind_op (require (current_stage (ld_state l))) (\<lambda>s.
              event_detail w task (WorkCompleted (ws_id s) (attempt (ld_state l)) (BranchProduct br h patch)) None))))))"
      by (intro keeps)
  qed
qed

lemma keeps_result_command [keeps]: "keeps ok (result_command w caller task summary out ident)"
proof -
  have "product_branch (WorkCompleted i a (result_product s summary out)) = None" for i a s
    by (auto simp: result_product_def split: Stage.split WorkOutput.split)
  then show ?thesis unfolding result_command_def by (intro keeps keeps_event) (simp add: ev_fine_def)
qed

lemma review_event_fine: "caller \<noteq> [] \<Longrightarrow> ev_fine task (review_event s a caller h reason)"
  by (cases reason) (simp_all add: review_event_def ev_fine_def)

lemma keeps_review: "caller \<noteq> [] \<Longrightarrow> keeps ok (review w caller task ident reason)"
  unfolding review_def by (intro keeps keeps_event review_event_fine)

section \<open>Commands\<close>

lemma ok_ask [keeps]: "keeps ok (store_ask w r)"
  unfolding store_ask_def by (rule ok_write) (auto simp: wrote_Inr dest: ask_core(1))

lemma ok_asks [keeps]:
  "keeps ok (ask_command w caller q opts)" "keeps ok (follow_up_command w caller i q opts)"
  "keeps ok (ask_resolve_command w caller i summary)" "keeps ok (answer w i src reply)"
  unfolding ask_command_def follow_up_command_def ask_resolve_command_def answer_def owned_ask_def Let_def by (intro keeps)+

lemma ok_status [keeps]: "keeps ok (status_command w caller)"
  unfolding status_command_def Let_def by (intro keeps)

lemma ok_remind [keeps]: "keeps ok (remind_command w caller task delay)"
  unfolding remind_command_def by (intro keeps ok_write) (auto simp: wrote_Inr dest: reminder_core(1))

lemma keeps_accepted [keeps]: "keeps ok m \<Longrightarrow> keeps ok (accepted m)"
  unfolding accepted_def by (intro keeps)

lemma keeps_agent_command: "caller \<noteq> [] \<Longrightarrow> keeps ok (agent_command w caller cmd)"
  by (cases cmd) (auto intro!: keeps keeps_review)

lemma keeps_agent [keeps]: "keeps ok (agent w caller cmd)"
proof (cases caller)
  case (Some c)
  have "keeps ok (if get_instance db c = None then refuse UNKNOWN_INSTANCE else agent_command w c cmd)" if "db_inv db" for db
  proof (cases "get_instance db c")
    case (Some i)
    then have "i \<in> set (db_instances db)" "is_id i = c" by (auto simp: get_instance_def find_Some_iff)
    with invD(5) [OF that] show ?thesis by (auto intro!: keeps keeps_agent_command)
  qed (simp add: keeps)
  then show ?thesis unfolding agent_def Some option.case by (rule ok_read)
qed (simp add: agent_def keeps)

lemma keeps_teams [keeps]:
  "keeps ok (team_add w ident repo wfl)" "keeps ok (team_list w)" "keeps ok (team_join w tm i role)"
  "keeps ok (team_set_workflow w tm wid)" "keeps ok (workflow_apply w toml)"
  unfolding team_add_def team_list_def team_join_def team_set_workflow_def workflow_apply_def Let_def
  by (intro keeps ok_write; auto simp: wrote_Inr dest: team_core join_team_core)+

lemma keeps_cancel [keeps]: "keeps ok (event_detail w task (PipelineEvent.Cancel r) detail)"
  by (rule keeps_event) (simp add: ev_fine_def)

lemma keeps_operator [keeps]: "keeps ok (operator_command w cmd)"
  by (cases cmd) (auto intro!: keeps)

section \<open>The human\<close>

lemma human_event_fine: "human_event s st act comment = Some ev \<Longrightarrow> ev_fine task ev"
  by (auto simp: human_event_def ev_fine_def Let_def split: Stage.splits Approver.splits if_splits option.splits)

lemma keeps_resolve_approval [keeps]: "keeps ok (resolve_approval w task attention act comment)"
  unfolding resolve_approval_def
  by (intro keeps_bind [OF keeps_small(5)] keeps_if keeps_refuse keeps_bind [OF keeps_require] require_bind keeps_event)
    (rule human_event_fine)

lemma keeps_acknowledge [keeps]: "keeps ok (acknowledge w task)"
  unfolding acknowledge_def by (intro keeps ok_write) (use task_note_core in auto)

lemma spec_resend_after:
  assumes m: "\<And>vw hs. quietly vw hs m" and t: "t_id t = task"
  shows "spec (\<lambda>db sp. ok db sp \<and> loaded db task l)
    (bind_op m (\<lambda>_. bind_op (outstanding (ld_state l)) (for_each (action w t (ld_state l) since)))) (\<lambda>_. ok) ok"
proof (cases "outstanding_actions (ld_state l)")
  case (Inl e)
  have "keeps ok (bind_op m (\<lambda>_. bind_op (refuse PANIC) (for_each (action w t (ld_state l) since))))"
    by (rule keeps_bind [OF quietly_ok [OF m]], rule keeps_pure) (simp add: bind_op_def refuse_def)
  then show ?thesis unfolding outstanding_def Inl sum.case by (rule spec_ok) simp
next
  case (Inr acts)
  have "bind_op (ret acts) f = f acts" for f :: "PipelineAction list \<Rightarrow> unit op"
    by (intro ext) (simp add: bind_op_def ret_def)
  moreover have "spec (quiet vw (merge_heads task acts)) (bind_op m (\<lambda>_. for_each (action w t (ld_state l) since) acts)) (\<lambda>_. ok) ok"
    if "due task (ld_state l) acts vw" for vw
    using that t by (intro spec_quietly_bind [OF m] spec_quietly) (use quietly_due in blast)
  ultimately have "spec (\<lambda>db sp. \<exists>vw. quiet vw (merge_heads task acts) db sp \<and> due task (ld_state l) acts vw)
      (bind_op m (\<lambda>_. bind_op (outstanding (ld_state l)) (for_each (action w t (ld_state l) since)))) (\<lambda>_. ok) ok"
    unfolding outstanding_def Inr sum.case by (intro spec_ex spec_assm) simp
  then show ?thesis
  proof (rule spec_conseq)
    fix db sp
    assume "ok db sp \<and> loaded db task l"
    with outstanding_due [OF _ _ Inr] show "\<exists>vw. quiet vw (merge_heads task acts) db sp \<and> due task (ld_state l) acts vw" by blast
  qed
qed

lemma keeps_retry [keeps]: "keeps ok (retry w task)"
  unfolding retry_def
proof (rule keeps_bind [OF ok_ops(1) ok_load])
  fix l :: Loaded
  show "spec (\<lambda>db sp. ok db sp \<and> loaded db task l) (bind_op (cleanup_terminal w False (ld_task l)) (\<lambda>_.
      bind_op (outstanding (ld_state l)) (for_each (action w (ld_task l) (ld_state l) (pg_stage_entered (pr_data (ld_progress l)))))))
      (\<lambda>_. ok) ok"
  proof (cases "t_id (ld_task l) = task")
    case True
    then show ?thesis by (rule spec_resend_after [OF quietly_cleanup])
  qed (auto simp: spec_def loaded_def)
qed

lemma keeps_attention_action [keeps]:
  "keeps J a \<Longrightarrow> keeps J b \<Longrightarrow> keeps J c \<Longrightarrow> keeps J d \<Longrightarrow> keeps J e \<Longrightarrow> keeps J f \<Longrightarrow>
   keeps J (case x of Retry \<Rightarrow> a | Approve \<Rightarrow> b | RequestChanges \<Rightarrow> c | Acknowledge \<Rightarrow> d | Abandon \<Rightarrow> e | UnknownAction \<Rightarrow> f)"
  by (cases x) auto

lemma keeps_resolve [keeps]: "keeps ok (resolve_attention w attention act comment)"
  unfolding resolve_attention_def by (intro keeps)

lemma keeps_guarded [keeps]: "keeps ok (guarded w expected version req)"
proof -
  have "keeps ok (case req of
         GuardedResolve attention act comment \<Rightarrow>
           if ad_attention_id expected = Some attention then resolve_attention w attention act comment else refuse INVALID
       | GuardedAnswer ident source reply \<Rightarrow>
           if map_option at_ask_id (ad_ask expected) = Some ident then answer w ident source reply else refuse INVALID
       | OtherRequest \<Rightarrow> refuse INVALID)"
    by (cases req) (auto intro!: keeps)
  then show ?thesis unfolding guarded_def by (intro keeps)
qed

section \<open>Inputs\<close>

lemma keeps_command_finished [keeps]: "keeps ok (event_detail w task (CommandFinished i a h e) detail)"
  by (rule keeps_event) (simp add: ev_fine_def)

lemma keeps_check_result [keeps]: "keeps ok (check_result w task stage att head result)"
  unfolding check_result_def by (intro keeps)

lemma keeps_daily [keeps]: "keeps ok (daily w)"
  unfolding daily_def by (intro keeps)

definition internal_input :: "EngineInput \<Rightarrow> bool" where
  "internal_input inp = (case inp of Event _ ev \<Rightarrow> internal ev | _ \<Rightarrow> True)"

lemma keeps_handle: "internal_input inp \<Longrightarrow> keeps ok (handle w inp)"
  by (cases inp) (auto intro!: keeps keeps_event internal_fine simp: internal_input_def)

lemma turn_ok:
  assumes "ok (dm_db d) (dm_spawned d)" and "internal_input inp"
  shows "ok (dm_db (turn w inp d)) (dm_spawned (turn w inp d))"
  unfolding turn_def by (intro keepsD [OF keeps_wake] keepsD [OF keeps_handle] assms)

lemma boot_ok: "ok (dm_db d) (dm_spawned d) \<Longrightarrow> ok (dm_db (snd (boot w d))) (dm_spawned (snd (boot w d)))"
  by (rule keepsD [OF keeps_boot])

end
