(* ===== verification/Daemon_Properties.thy ===== *)
theory Daemon_Properties
  imports Daemon_Inputs
begin

text \<open>
  The runs of the daemon and what holds in all of them. A run starts with empty tables, boots, takes inputs,
  and may be stopped and booted again at any moment: a stop in the middle of an operation is an operation
  whose remaining store calls fail. The other parts of the daemon change instances, messages, asks and
  reminders as they like. An event comes only from the daemon itself or from a timer it set, the result of a
  check only from a check it started; neither is ever assumed to come only once.
\<close>

section \<open>Reachable daemons\<close>

fun may_arrive :: "Daemon \<Rightarrow> EngineInput \<Rightarrow> bool" where
  "may_arrive d (Event task ev) \<longleftrightarrow>
     list_ex (\<lambda>s. case s of
       SentEvent t e \<Rightarrow> t = task \<and> e = ev
     | Timer t stage att _ \<Rightarrow> t = task \<and> ev = StageTimedOut stage att
     | CheckRun _ _ _ _ _ _ \<Rightarrow> False) (dm_spawned d)"
| "may_arrive d (Check task stage att head _) \<longleftrightarrow>
     list_ex (\<lambda>s. case s of CheckRun t g a h _ _ \<Rightarrow> t = task \<and> g = stage \<and> a = att \<and> h = head | _ \<Rightarrow> False) (dm_spawned d)"
| "may_arrive d _ \<longleftrightarrow> True"

definition empty_db :: Db where
  "empty_db = \<lparr>db_tasks = [], db_workflows = [], db_events = [], db_messages = [], db_claude = [], db_bindings = [],
     db_teams = [], db_instances = [], db_asks = [], db_turns = [], db_turn_seq = 0, db_reminders = [], db_reminder_seq = 0\<rparr>"

definition new_daemon :: "bool \<Rightarrow> nat \<Rightarrow> Db \<Rightarrow> Daemon" where
  "new_daemon git n db = \<lparr>dm_db = db, dm_git = git, dm_running = [], dm_timers = [], dm_last_day = 0, dm_spawned = [], dm_tick = n\<rparr>"

definition others_change :: "Db \<Rightarrow> Db \<Rightarrow> bool" where
  "others_change db db' \<longleftrightarrow> db_tasks db' = db_tasks db \<and> db_workflows db' = db_workflows db
     \<and> db_bindings db' = db_bindings db \<and> [] \<notin> is_id ` set (db_instances db')"

inductive reachable :: "Daemon \<Rightarrow> bool" where
  first: "reachable (snd (boot w (new_daemon git n empty_db)))"
| again: "reachable d \<Longrightarrow> reachable (snd (boot w (new_daemon git n (dm_db d))))"
| input: "reachable d \<Longrightarrow> may_arrive d inp \<Longrightarrow> reachable (turn w inp d)"
| others: "reachable d \<Longrightarrow> others_change (dm_db d) db' \<Longrightarrow> reachable (d\<lparr>dm_db := db'\<rparr>)"

lemma sent_arrived:
  assumes "x \<in> X" and "case x of SentEvent t e \<Rightarrow> t = task \<and> e = MergeCompleted sid a h c
    | Timer _ _ _ _ \<Rightarrow> False | CheckRun _ _ _ _ _ _ \<Rightarrow> False"
  shows "SentEvent task (MergeCompleted sid a h c) \<in> X"
  using assms by (cases x) auto

lemma may_arrive_internal:
  assumes "ok db (dm_spawned d)" and "may_arrive d inp"
  shows "internal_input inp"
proof (cases inp)
  case (Event task ev)
  from assms(2) [unfolded Event] obtain s where s: "s \<in> set (dm_spawned d)" "case s of
       SentEvent t e \<Rightarrow> t = task \<and> e = ev
     | Timer t stage att _ \<Rightarrow> t = task \<and> ev = StageTimedOut stage att
     | CheckRun _ _ _ _ _ _ \<Rightarrow> False" by (auto simp: list_ex_iff)
  have "sent_ok db s" using assms(1) s(1) by (simp add: ok_def list_all_iff)
  with s(2) Event show ?thesis by (cases s) (simp_all add: internal_input_def)
qed (simp_all add: internal_input_def)

lemma others_ok:
  assumes ok: "ok db sp" and "others_change db db'"
  shows "ok db' sp"
proof -
  have c: "core_rows db' = core_rows db" "load_workflow db' = load_workflow db"
    using assms(2) core_rows_cong [of db' db] load_workflow_cong [of db' db] by (auto simp: others_change_def)
  have "db_inv db'"
    using ok_inv [OF ok] assms(2) row_ok_cong [OF c(2)] c unfolding db_inv_def others_change_def by simp
  moreover have "evolves db db'" unfolding evolves_def c by blast
  ultimately show ?thesis by (rule ok_evolves [OF ok])
qed

lemma reachable_ok: "reachable d \<Longrightarrow> ok (dm_db d) (dm_spawned d)"
proof (induction rule: reachable.induct)
  case (first w git n)
  show ?case by (rule boot_ok) (simp add: new_daemon_def ok_def db_inv_def empty_db_def core_rows_def)
next
  case (again d w git n)
  then show ?case by (intro boot_ok) (simp add: new_daemon_def ok_def)
next
  case (input d inp w)
  then show ?case by (intro turn_ok may_arrive_internal [of "dm_db d" d]) simp_all
next
  case (others d db')
  then show ?case by (simp add: others_ok)
qed

lemma reachable_row:
  assumes "reachable d" and "r \<in> set (db_tasks (dm_db d))"
  shows "db_inv (dm_db d)" "(tr_task r, tr_version r, tr_pipeline r) \<in> set (core_rows (dm_db d))"
    "task_row_ok (dm_db d) (tr_task r) (tr_version r) (tr_pipeline r)"
proof -
  show inv: "db_inv (dm_db d)" by (rule ok_inv [OF reachable_ok [OF assms(1)]])
  show row: "(tr_task r, tr_version r, tr_pipeline r) \<in> set (core_rows (dm_db d))"
    using assms(2) by (auto simp: core_rows_def)
  show "task_row_ok (dm_db d) (tr_task r) (tr_version r) (tr_pipeline r)" by (rule invD(2) [OF inv row])
qed

lemma reachable_run:
  assumes "reachable d" and "r \<in> set (db_tasks (dm_db d))" and "unat (tr_version r) < 2 ^ 32 - 2"
  obtains wfl evs st where
    "load_workflow (dm_db d) (t_workflow_id (tr_task r)) (t_workflow_version (tr_task r)) = Some wfl"
    "daemon_validate wfl = Some wfl" "pinned_to wfl (tr_task r)" "run_of (t_id (tr_task r)) wfl evs st"
    "length evs < unat (tr_version r)" "tr_pipeline r = Some (Encoded (snapshot st))" "belongs (t_id (tr_task r)) st"
    "status_ok (tr_task r) st" "id_ok (t_id (tr_task r))"
proof -
  have row: "task_row_ok (dm_db d) (tr_task r) (tr_version r) (tr_pipeline r)" by (rule reachable_row(3) [OF assms(1,2)])
  then obtain wfl snap where w: "load_workflow (dm_db d) (t_workflow_id (tr_task r)) (t_workflow_version (tr_task r)) = Some wfl"
    "pinned_to wfl (tr_task r)" "daemon_validate wfl = Some wfl" "tr_pipeline r = Some (Encoded snap)"
    "run_ok wfl (tr_task r) (tr_version r) snap" "id_ok (t_id (tr_task r))"
    by (auto simp: task_row_ok_def)
  from w(5) assms(3) obtain evs st where "run_of (t_id (tr_task r)) wfl evs st" "length evs < unat (tr_version r)"
    "snap = snapshot st" "belongs (t_id (tr_task r)) st" "status_ok (tr_task r) st"
    by (auto simp: run_ok_def LIMIT_def)
  with w that show thesis by blast
qed

section \<open>Two sample runs\<close>

text \<open>
  One run makes two tasks of a workflow without a repository for a team with one instance. The other takes a task
  from its creation over the work, the checks and the merge to its end. The world answers every call; at the
  boot the store does not, so the built-in workflows are missing. Names are short to keep the evaluation small.
\<close>

text \<open>An operation is unfolded in an evaluation only once it is applied to a daemon.\<close>

declare require_def [THEN fun_cong, code] spawn_def [THEN fun_cong, code] store_read_def [THEN fun_cong, code]
  store_write_def [THEN fun_cong, code] now_def [THEN fun_cong, code] new_id_def [THEN fun_cong, code]
  require_git_def [THEN fun_cong, code] advance_task_def [THEN fun_cong, code] swap_task_def [THEN fun_cong, code]
  load_pipeline_def [THEN fun_cong, code] team_def [THEN fun_cong, code] note_task_def [THEN fun_cong, code]
  deliver_def [THEN fun_cong, code] release_binding_def [THEN fun_cong, code] release_mode_def [THEN fun_cong, code]
  release_def [THEN fun_cong, code] ensure_binding_def [THEN fun_cong, code] set_assignee_def [THEN fun_cong, code]
  hand_off_def [THEN fun_cong, code] take_task_def [THEN fun_cong, code] send_dispatch_def [THEN fun_cong, code]
  dispatch_to_def [THEN fun_cong, code] holder_waits_def [THEN fun_cong, code] follow_def [THEN fun_cong, code]
  assign_def [THEN fun_cong, code] release_all_def [THEN fun_cong, code] clean_remote_def [THEN fun_cong, code]
  free_assignee_def [THEN fun_cong, code] cleanup_terminal_def [THEN fun_cong, code]
  schedule_timer_def [THEN fun_cong, code] submit_change_def [THEN fun_cong, code]
  stop_check_def [THEN fun_cong, code] run_checks_def [THEN fun_cong, code] rebase_work_def [THEN fun_cong, code]
  merge_head_def [THEN fun_cong, code] merge_change_def [THEN fun_cong, code] request_review_def [THEN fun_cong, code]
  fail_restore_def [THEN fun_cong, code] advance_pipeline_def [THEN fun_cong, code] perform_def [THEN fun_cong, code]
  commit_transition_def [THEN fun_cong, code] observe_head_def [THEN fun_cong, code]
  repo_unavailable_def [THEN fun_cong, code] event_detail_def [THEN fun_cong, code]
  outstanding_def [THEN fun_cong, code] wake_task_def [THEN fun_cong, code] send_reminder_def [THEN fun_cong, code]
  wake_def [THEN fun_cong, code] release_or_fail_def [THEN fun_cong, code] ensure_or_fail_def [THEN fun_cong, code]
  reconcile_merge_def [THEN fun_cong, code] reconcile_binding_def [THEN fun_cong, code]
  free_closed_def [THEN fun_cong, code] succeeds_def [THEN fun_cong, code]
  reconcile_bindings_def [THEN fun_cong, code] deliver_answer_def [THEN fun_cong, code]
  deliver_answers_def [THEN fun_cong, code] save_builtin_def [THEN fun_cong, code]
  check_task_def [THEN fun_cong, code] resume_actions_def [THEN fun_cong, code] resume_task_def [THEN fun_cong, code]
  boot_def [THEN fun_cong, code] accepted_def [THEN fun_cong, code] guard_op_def [THEN fun_cong, code]
  owned_def [THEN fun_cong, code] may_report_def [THEN fun_cong, code] owned_result_def [THEN fun_cong, code]
  done_command_def [THEN fun_cong, code] result_command_def [THEN fun_cong, code] review_def [THEN fun_cong, code]
  block_def [THEN fun_cong, code] git_ready_def [THEN fun_cong, code] create_task_def [THEN fun_cong, code]
  owned_ask_def [THEN fun_cong, code] store_ask_def [THEN fun_cong, code] ask_command_def [THEN fun_cong, code]
  follow_up_command_def [THEN fun_cong, code] ask_resolve_command_def [THEN fun_cong, code]
  answer_def [THEN fun_cong, code] status_command_def [THEN fun_cong, code] remind_command_def [THEN fun_cong, code]
  agent_def [THEN fun_cong, code] team_add_def [THEN fun_cong, code] team_list_def [THEN fun_cong, code]
  team_join_def [THEN fun_cong, code] team_set_workflow_def [THEN fun_cong, code]
  workflow_apply_def [THEN fun_cong, code] resolve_approval_def [THEN fun_cong, code]
  acknowledge_def [THEN fun_cong, code] retry_def [THEN fun_cong, code] resolve_attention_def [THEN fun_cong, code]
  guarded_def [THEN fun_cong, code] check_result_def [THEN fun_cong, code] daily_def [THEN fun_cong, code]

definition sample_plain :: Workflow where
  "sample_plain = \<lparr>wf_id = ''w'', wf_version = 0, wf_requires = [], wf_allow_unreviewed = True,
     wf_stages = [WorkflowStage_new ''a'' (Stage.Work ''d'' [] WorkOutput.Result)]\<rparr>"

definition sample_code :: Workflow where
  "sample_code = \<lparr>wf_id = ''w'', wf_version = 0, wf_requires = [Repo], wf_allow_unreviewed = True,
     wf_stages = [WorkflowStage_new ''a'' (Stage.Work ''d'' [] Branch), WorkflowStage_new ''b'' (Stage.Command ''x''),
       WorkflowStage_new ''m'' Stage.Merge]\<rparr>"

definition sample_env :: Env where
  "sample_env = \<lparr>ev_home = ''/'', ev_store_fails = (\<lambda>_. False), ev_now = (\<lambda>_. 7), ev_new_id = (\<lambda>n. Some (replicate n CHR ''i'')),
     ev_head = (\<lambda>_ _ _. Some ''h''), ev_patch_id = (\<lambda>_ _ _. Some ''p''),
     ev_ancestor = (\<lambda>_ _ a _. Some (a = ''m'')), ev_exists = (\<lambda>_ _. False), ev_ensure = (\<lambda>_ _ _. True),
     ev_release = (\<lambda>_ _ _ _. Some None), ev_submit = (\<lambda>_ _ _ _. Inr (None, ''h'')),
     ev_find_merge = (\<lambda>_ _ _ _ _. Inr False), ev_prepare_main = (\<lambda>_ _ _. Inr ''m''), ev_clean = (\<lambda>_ _. Some True),
     ev_rebase = (\<lambda>_ _. True), ev_worktree_head = (\<lambda>_ _. Some ''h''), ev_merge = (\<lambda>_ _ _ _. Inr (Merged ''n'')),
     ev_cleanup_remote = (\<lambda>_ _ _ _. Inr ()), ev_deliver = (\<lambda>_ _ _. Some (Sent, None)),
     ev_git_version = (\<lambda>_ _. Some ''git version 3.0''), ev_main_exists = (\<lambda>_ _. True),
     ev_canonical = (\<lambda>_ r. Some r), ev_projections = (\<lambda>_. True), ev_orphans = (\<lambda>_. True), ev_attention = (\<lambda>_ _. None),
     ev_toml = (\<lambda>s. Some (if s = [] then sample_plain else sample_code)),
     ev_show_toml = (\<lambda>_. None), ev_turn_json = (\<lambda>_. [])\<rparr>"

definition sample_start :: Daemon where
  "sample_start = snd (boot (sample_env\<lparr>ev_store_fails := \<lambda>_. True\<rparr>) (new_daemon True 0 empty_db))"

definition sample_member :: "Daemon \<Rightarrow> Daemon" where
  "sample_member d = d\<lparr>dm_db := (dm_db d)\<lparr>db_instances := [\<lparr>is_id = ''i'', is_backend = Claude, is_status = RunningInstance,
     is_team = ''t'', is_role = ''d'', is_delivery = ''inbox''\<rparr>]\<rparr>\<rparr>"

definition sample_create :: EngineInput where
  "sample_create = Operator (OpTaskCreate ''x'' ''d'' ''t'' None)"

definition sample_team :: "string \<Rightarrow> string option \<Rightarrow> Daemon" where
  "sample_team toml repo = fold (turn sample_env)
     [Operator (WorkflowApply toml), Operator (TeamAdd ''t'' repo (Some ''w'')), sample_create] (sample_member sample_start)"

definition sample_two :: Daemon where
  "sample_two = turn sample_env sample_create (sample_team [] None)"

definition sample_checks :: Daemon where
  "sample_checks = turn sample_env (Agent (Some ''i'') (AgentCommand.Done ''t-1'' (Some \<lparr>ri_stage_id = ''a'', ri_attempt = 1\<rparr>)))
     (sample_team ''c'' (Some ''/''))"

definition sample_done :: EngineInput where
  "sample_done = Event ''t-1'' (MergeCompleted ''m'' 1 ''h'' ''n'')"

definition sample_passed :: EngineInput where
  "sample_passed = Check ''t-1'' ''b'' 1 (Some ''h'') (Inr (Some 0, []))"

definition sample_merge :: Daemon where
  "sample_merge = turn sample_env sample_passed sample_checks"

definition sample_finished :: Daemon where
  "sample_finished = turn sample_env sample_done sample_merge"

text \<open>What the two runs reach, each evaluated once.\<close>

definition two_rows :: "Daemon \<Rightarrow> bool" where
  "two_rows d = (case db_tasks (dm_db d) of
     [r, r'] \<Rightarrow> tr_version r = 3 \<and> tr_version r' = 2 \<and> t_id (tr_task r) = ''t-1'' \<and> t_id (tr_task r') = ''t-2''
       \<and> t_workflow_id (tr_task r) = ''w'' \<and> t_workflow_version (tr_task r) = 1 \<and> t_assignee (tr_task r) = Some ''i'' \<and> \<not> closed (tr_task r) \<and> \<not> closed (tr_task r')
   | _ \<Rightarrow> False)"

definition end_row :: "Daemon \<Rightarrow> bool" where
  "end_row d = (case db_tasks (dm_db d) of
     [r] \<Rightarrow> tr_version r = 7 \<and> t_status (tr_task r) = TaskStatus.Done
       \<and> load_workflow (dm_db d) (t_workflow_id (tr_task r)) (t_workflow_version (tr_task r)) = Some (sample_code\<lparr>wf_version := 1\<rparr>)
   | _ \<Rightarrow> False)"

definition merge_row :: "Daemon \<Rightarrow> bool" where
  "merge_row d = (may_arrive d sample_done \<and> length (db_tasks (dm_db d)) = 1
     \<and> list_all (\<lambda>r. tr_version r = 5 \<and> t_workflow_id (tr_task r) = ''w'' \<and> t_workflow_version (tr_task r) = 1) (db_tasks (dm_db d))
     \<and> load_workflow (dm_db d) ''w'' 1 = Some (sample_code\<lparr>wf_version := 1\<rparr>) \<and> end_row (turn sample_env sample_done d))"

definition checks_row :: "Daemon \<Rightarrow> bool" where
  "checks_row d = (may_arrive d sample_passed \<and> merge_row (turn sample_env sample_passed d))"

lemma sample_two_rows: "two_rows sample_two"
  by code_simp

lemma sample_checks_row: "checks_row sample_checks"
  by code_simp

lemma sample_team_reachable: "reachable (sample_team toml repo)"
proof -
  have "reachable (sample_member sample_start)"
    unfolding sample_start_def sample_member_def
    by (rule reachable.others [OF reachable.first]) (simp add: others_change_def)
  then show ?thesis unfolding sample_team_def sample_create_def by (auto intro!: reachable.input)
qed

lemma sample_reachable: "reachable sample_two" "reachable sample_merge" "reachable sample_finished"
proof -
  show "reachable sample_two"
    unfolding sample_two_def sample_create_def by (rule reachable.input [OF sample_team_reachable]) simp
  have c: "reachable sample_checks"
    unfolding sample_checks_def by (rule reachable.input [OF sample_team_reachable]) simp
  have m: "may_arrive sample_checks sample_passed" "may_arrive sample_merge sample_done"
    using sample_checks_row by (simp_all only: checks_row_def merge_row_def sample_merge_def)
  show r: "reachable sample_merge" unfolding sample_merge_def by (rule reachable.input [OF c m(1)])
  show "reachable sample_finished" unfolding sample_finished_def by (rule reachable.input [OF r m(2)])
qed

section \<open>Stored tasks\<close>

text \<open>C3: Refinement of the engine by the store. In every reachable state of the daemon, after any sequence of inputs,
  refusals, failed store calls, crashes and restarts, the row of a task holds exactly the snapshot of a state
  that the pure engine reaches by an accepted run of the workflow version the task is pinned to, a workflow
  that passed the daemon's checks; the run is shorter than the row's version, the merge commit of the row is
  the one of the run, and a row that says done belongs to a run that ended done. The bound on the version
  keeps the attempt counters of 32 bits from wrapping.\<close>

theorem stored_task_is_a_run:
  assumes "reachable d" and "r \<in> set (db_tasks (dm_db d))" and "unat (tr_version r) < 2 ^ 32 - 2"
  shows "\<exists>wfl evs st. load_workflow (dm_db d) (t_workflow_id (tr_task r)) (t_workflow_version (tr_task r)) = Some wfl
    \<and> daemon_validate wfl = Some wfl \<and> run_of (t_id (tr_task r)) wfl evs st \<and> length evs < unat (tr_version r)
    \<and> tr_pipeline r = Some (Encoded (snapshot st)) \<and> t_merge_commit (tr_task r) = merge_commit st
    \<and> (t_status (tr_task r) = TaskStatus.Done \<longrightarrow> status st = PipelineStatus.Done)
    \<and> (is_terminal (status st) \<longrightarrow> closed (tr_task r))"
proof -
  from assms obtain wfl evs st where w: "load_workflow (dm_db d) (t_workflow_id (tr_task r)) (t_workflow_version (tr_task r)) = Some wfl"
    "daemon_validate wfl = Some wfl" "run_of (t_id (tr_task r)) wfl evs st" "length evs < unat (tr_version r)"
    "tr_pipeline r = Some (Encoded (snapshot st))" and ok: "status_ok (tr_task r) st" by (rule reachable_run)
  from ok have "t_status (tr_task r) = TaskStatus.Done \<longrightarrow> status st = PipelineStatus.Done"
    "is_terminal (status st) \<longrightarrow> closed (tr_task r)" "t_merge_commit (tr_task r) = merge_commit st"
    by (cases "status st"; auto simp: status_ok_def closed_def closed_status_def)+
  with w show ?thesis by blast
qed

theorem stored_task_is_a_run_witness:
  "\<exists>wfl evs st. load_workflow (dm_db sample_two) ''w'' 1 = Some wfl \<and> run_of ''t-1'' wfl evs st \<and> length evs < 3"
proof -
  obtain r r' where r: "db_tasks (dm_db sample_two) = [r, r']" "tr_version r = 3" "t_id (tr_task r) = ''t-1''"
    "t_workflow_id (tr_task r) = ''w''" "t_workflow_version (tr_task r) = 1"
    using sample_two_rows by (auto simp: two_rows_def split: list.splits)
  from stored_task_is_a_run [OF sample_reachable(1), of r] r show ?thesis by auto
qed

lemma reachable_loads:
  assumes "reachable d" and "r \<in> set (db_tasks (dm_db d))" and "unat (tr_version r) < 2 ^ 32 - 2"
    and "\<forall>n. \<not> ev_store_fails w n"
  shows "\<exists>l. fst (load_pipeline w (t_id (tr_task r)) d) = Inr l \<and> ld_task l = tr_task r \<and> ld_version l = tr_version r
    \<and> tr_pipeline r = Some (Encoded (snapshot (ld_state l)))"
proof -
  from assms(1-3) obtain wfl evs st where w: "load_workflow (dm_db d) (t_workflow_id (tr_task r)) (t_workflow_version (tr_task r)) = Some wfl"
    "daemon_validate wfl = Some wfl" "pinned_to wfl (tr_task r)" "run_of (t_id (tr_task r)) wfl evs st"
    "tr_pipeline r = Some (Encoded (snapshot st))" "belongs (t_id (tr_task r)) st" "id_ok (t_id (tr_task r))"
    by (rule reachable_run)
  obtain roles where "validate wfl roles = []" using daemon_validateD(2) [OF w(2)] by blast
  note s = run_state [OF this w(4)]
  have "budget 1 st" by (rule budget_mono [OF s(6)]) simp
  then have restore: "restore (snapshot st) wfl = Inr st"
    using restore_snapshot [of st] s id_ok_chars(3) [OF w(7)] by simp
  note row = reachable_row [OF assms(1,2)]
  obtain r' where f: "find_task (dm_db d) (t_id (tr_task r)) = Some r'" "tr_task r' = tr_task r" "tr_version r' = tr_version r"
    "tr_pipeline r' = tr_pipeline r" by (rule find_task_ex [OF invD(1) [OF row(1)] row(2)])
  have read: "store_read w g x = (Inr (g (dm_db x)), x\<lparr>dm_tick := Suc (dm_tick x)\<rparr>)" for g :: "Db \<Rightarrow> 'b" and x
    using assms(4) by (simp add: store_read_def bind_op_def ask_def gets_def)
  show ?thesis
    using f w restore
    by (simp add: load_pipeline_def bind_op_def read require_def ret_def load_task_def progress_def restore_text_def)
qed

text \<open>C7: A stored task always loads: while the store answers, reading back the row of a reachable daemon never
  fails its workflow, its snapshot or its branch, and gives the state whose snapshot the row holds. So a
  restart fails no task because of what is stored.\<close>

theorem stored_task_loads:
  assumes "reachable d" and "r \<in> set (db_tasks (dm_db d))" and "unat (tr_version r) < 2 ^ 32 - 2"
    and "\<forall>n. \<not> ev_store_fails w n"
  shows "\<exists>l. fst (load_pipeline w (t_id (tr_task r)) d) = Inr l \<and> ld_task l = tr_task r \<and> ld_version l = tr_version r
    \<and> tr_pipeline r = Some (Encoded (snapshot (ld_state l)))"
  using assms by (rule reachable_loads)

theorem stored_task_loads_witness:
  "\<exists>l. fst (load_pipeline sample_env ''t-1'' sample_two) = Inr l \<and> t_assignee (ld_task l) = Some ''i'' \<and> ld_version l = 3"
proof -
  obtain r r' where r: "db_tasks (dm_db sample_two) = [r, r']" "tr_version r = 3" "t_id (tr_task r) = ''t-1''"
    "t_assignee (tr_task r) = Some ''i''"
    using sample_two_rows by (auto simp: two_rows_def split: list.splits)
  from stored_task_loads [OF sample_reachable(1), of r sample_env] r show ?thesis by (auto simp: sample_env_def)
qed

text \<open>C8: A task of a reachable daemon that is stored as done, under a workflow with a merge stage, has a recorded
  merge commit.\<close>

theorem done_task_is_merged:
  assumes "reachable d" and "r \<in> set (db_tasks (dm_db d))" and "unat (tr_version r) < 2 ^ 32 - 2"
    and "t_status (tr_task r) = TaskStatus.Done"
    and "load_workflow (dm_db d) (t_workflow_id (tr_task r)) (t_workflow_version (tr_task r)) = Some wfl"
    and "s \<in> set (wf_stages wfl)" and "ws_stage s = Stage.Merge"
  shows "t_merge_commit (tr_task r) \<noteq> None"
proof -
  from assms(1-3) obtain wfl' evs st where w: "load_workflow (dm_db d) (t_workflow_id (tr_task r)) (t_workflow_version (tr_task r)) = Some wfl'"
    "daemon_validate wfl' = Some wfl'" "run_of (t_id (tr_task r)) wfl' evs st" "status_ok (tr_task r) st"
    by (rule reachable_run)
  obtain roles where "validate wfl' roles = []" using daemon_validateD(2) [OF w(2)] by blast
  note st = run_state [OF this w(3)]
  have "status st = PipelineStatus.Done" "t_merge_commit (tr_task r) = merge_commit st"
    using w(4) assms(4) by (cases "status st"; simp add: status_ok_def)+
  moreover have "has_merge st" using assms(5-7) w(1) st(2) by (auto simp: has_merge_def list_ex_iff kind_simps)
  ultimately show ?thesis using st(5) by (simp add: state_inv_def done_inv_def)
qed

theorem done_task_is_merged_witness:
  "\<exists>r. db_tasks (dm_db sample_finished) = [r] \<and> t_status (tr_task r) = TaskStatus.Done \<and> t_merge_commit (tr_task r) \<noteq> None"
proof -
  have e: "end_row sample_finished" using sample_checks_row by (simp only: checks_row_def merge_row_def sample_merge_def sample_finished_def)
  then obtain r where r: "db_tasks (dm_db sample_finished) = [r]" "tr_version r = 7" "t_status (tr_task r) = TaskStatus.Done"
    "load_workflow (dm_db sample_finished) (t_workflow_id (tr_task r)) (t_workflow_version (tr_task r)) = Some (sample_code\<lparr>wf_version := 1\<rparr>)"
    by (auto simp: end_row_def split: list.splits)
  have "t_merge_commit (tr_task r) \<noteq> None"
    by (rule done_task_is_merged [OF sample_reachable(3) _ _ r(3,4), of "WorkflowStage_new ''m'' Stage.Merge"])
      (simp_all add: r sample_code_def WorkflowStage_new_def)
  with r show ?thesis by blast
qed

section \<open>Merges\<close>

lemma earned_history:
  assumes valid: "daemon_validate wfl = Some wfl" and run: "run_of task wfl evs st" and m: "merge_in_flight st" "current_head st = Some h"
    and s: "s \<in> set (wf_stages wfl)"
  shows "(stage_kind s = StageKind.Command \<longrightarrow> (\<exists>att. CommandFinished (ws_id s) att (Some h) (Some 0) \<in> set evs))
    \<and> (\<forall>by count bd. ws_stage s = Stage.Approval by count bd \<longrightarrow> (\<exists>rec. ar_stage_id rec = ws_id s
        \<and> (bd \<longrightarrow> ar_head rec = Some h) \<and> distinct (ar_reviewers rec) \<and> length (ar_reviewers rec) = unat count
        \<and> (\<forall>r \<in> set (ar_reviewers rec). granted evs rec r)))"
proof -
  obtain roles where v: "validate wfl roles = []" using daemon_validateD(2) [OF valid] by blast
  note st = run_state [OF v run]
  have "well_formed (workflow st)" "s \<in> set (stages st)" using st(2,4) s by simp_all
  from in_flight_earned [OF this(1) st(5) run_history [OF v run] m this(2)] show ?thesis by blast
qed



section \<open>Holders\<close>

text \<open>C4: No instance ever holds two unfinished tasks, whatever the order of assignments, handoffs, results, failures and
  restarts; and no two rows have the same id.\<close>

theorem one_task_per_instance:
  assumes "reachable d" and "r \<in> set (db_tasks (dm_db d))" and "r' \<in> set (db_tasks (dm_db d))" and "r \<noteq> r'"
    and "\<not> closed (tr_task r)" and "\<not> closed (tr_task r')" and "t_assignee (tr_task r) = Some i"
  shows "t_id (tr_task r) \<noteq> t_id (tr_task r') \<and> t_assignee (tr_task r') \<noteq> Some i"
proof -
  note row = reachable_row [OF assms(1)]
  have "map row_id (core_rows (dm_db d)) = map (\<lambda>r. t_id (tr_task r)) (db_tasks (dm_db d))"
    by (simp add: core_rows_def row_id_def)
  with invD(1) [OF row(1) [OF assms(2)]] have "inj_on (\<lambda>r. t_id (tr_task r)) (set (db_tasks (dm_db d)))"
    by (metis distinct_map)
  then have "t_id (tr_task r) \<noteq> t_id (tr_task r')" using assms(2-4) by (auto dest: inj_onD)
  moreover have "holder_free (core_rows (dm_db d)) (tr_task r)" by (rule invD(3) [OF row(1,2) [OF assms(2)]])
  ultimately show ?thesis using row(2) [OF assms(3)] assms(5-7) unfolding holder_free_def by fastforce
qed

theorem one_task_per_instance_witness:
  "\<exists>r r'. db_tasks (dm_db sample_two) = [r, r'] \<and> t_assignee (tr_task r) = Some ''i'' \<and> t_assignee (tr_task r') \<noteq> Some ''i''"
proof -
  obtain r r' where r: "db_tasks (dm_db sample_two) = [r, r']" "t_id (tr_task r) = ''t-1''" "t_id (tr_task r') = ''t-2''"
    "t_assignee (tr_task r) = Some ''i''" "\<not> closed (tr_task r)" "\<not> closed (tr_task r')"
    using sample_two_rows by (auto simp: two_rows_def split: list.splits)
  then have "r \<noteq> r'" by auto
  with one_task_per_instance [OF sample_reachable(1), of r r' "''i''"] r show ?thesis by auto
qed

section \<open>Who may act\<close>

text \<open>C22: A request that answers a notification is refused without any effect on the tables or on what runs, unless the
  task still has the version and the attention revision that were notified and the item is still the same
  apart from its waiting time. So a stale button press changes nothing.\<close>

theorem stale_answer_changes_nothing:
  assumes "\<not> version_matches (dm_db d) (ad_task_id expected) version
    \<or> (\<forall>n i item. ev_attention w n i = Some item \<longrightarrow> \<not> same_attention item expected)"
  shows "\<exists>e d'. guarded w expected version req d = (Inl e, d') \<and> dm_db d' = dm_db d \<and> dm_spawned d' = dm_spawned d
    \<and> dm_running d' = dm_running d \<and> dm_timers d' = dm_timers d"
proof -
  let ?r = "if ev_store_fails w (dm_tick d) then Inl INVALID else Inr (version_matches (dm_db d) (ad_task_id expected) version)"
  let ?d = "d\<lparr>dm_tick := Suc (dm_tick d)\<rparr>"
  have r: "try_op (store_read w (\<lambda>db. version_matches db (ad_task_id expected) version)) d = (Inr ?r, ?d)"
    by (simp add: try_op_def store_read_def bind_op_def ask_def gets_def refuse_def)
  obtain c n where c: "(case ad_attention_id expected of None \<Rightarrow> ret None | Some i \<Rightarrow> ask (\<lambda>n. ev_attention w n i)) ?d
      = (Inr c, d\<lparr>dm_tick := n\<rparr>)" "c = None \<or> (\<exists>n i. c = ev_attention w n i)"
    by (cases "ad_attention_id expected") (auto simp: ret_def ask_def)
  have "?r \<noteq> Inr True \<or> \<not> (case c of Some x \<Rightarrow> same_attention x expected | None \<Rightarrow> False)"
    using assms c(2) by (auto split: option.split)
  then show ?thesis unfolding guarded_def by (simp add: bind_op_def r c(1) refuse_def)
qed

theorem stale_answer_changes_nothing_witness:
  "\<exists>e d'. guarded sample_env \<lparr>ad_reason = [], ad_task_id = Some ''t-1'', ad_ask = None, ad_recap = None, ad_attention_id = Some ''x'',
      ad_unblocks = None, ad_waiting_since = None, ad_if_ignored = None, ad_actions = [Approve], ad_instance_id = None\<rparr>
      (Some (1, 0)) (GuardedResolve ''x'' Approve None) sample_two = (Inl e, d') \<and> dm_db d' = dm_db sample_two"
proof -
  have "\<not> version_matches (dm_db sample_two) (Some ''t-1'') (Some (1, 0))"
    using sample_two_rows
    by (auto simp: two_rows_def version_matches_def load_task_def find_task_def has_task_def split: list.splits option.splits)
  with stale_answer_changes_nothing [of sample_two "\<lparr>ad_reason = [], ad_task_id = Some ''t-1'', ad_ask = None, ad_recap = None,
      ad_attention_id = Some ''x'', ad_unblocks = None, ad_waiting_since = None, ad_if_ignored = None, ad_actions = [Approve],
      ad_instance_id = None\<rparr>" "Some (1, 0)" sample_env "GuardedResolve ''x'' Approve None"]
  show ?thesis by auto
qed

lemma keeps_still:
  assumes "\<And>J :: Db \<Rightarrow> Spawned list \<Rightarrow> bool. keeps J m"
  shows "dm_db (snd (m d)) = dm_db d" "dm_spawned (snd (m d)) = dm_spawned d"
  using keepsD [OF assms [of "\<lambda>db sp. db = dm_db d \<and> sp = dm_spawned d"], of d] by simp_all

lemma refused_bind:
  assumes "m d = (Inl e, d')"
  shows "bind_op m f d = (Inl e, d')"
  using assms by (simp add: bind_op_def)

text \<open>C20: The result of work counts only from the current holder of an unfinished task and only for the current attempt
  of the running stage: in every other case the command is refused and leaves the tables and the background
  work alone.\<close>

theorem foreign_result_changes_nothing:
  assumes "\<And>l. fst (load_pipeline w task d) = Inr l \<Longrightarrow> t_assignee (ld_task l) \<noteq> Some caller \<or> closed (ld_task l)
      \<or> status (ld_state l) \<noteq> PipelineStatus.Running \<or> ident = None \<or> ident \<noteq> result_identity (ld_state l)"
    and "cmd = AgentCommand.Done task ident \<or> (\<exists>summary out. cmd = Result task summary out ident)"
  shows "\<exists>e d'. agent_command w caller cmd d = (Inl e, d') \<and> dm_db d' = dm_db d \<and> dm_spawned d' = dm_spawned d"
proof -
  obtain e d' where e: "owned_result w caller task ident False d = (Inl e, d')"
  proof (cases "load_pipeline w task d")
    case (Pair r d1)
    show thesis
    proof (cases r)
      case (Inl x)
      show thesis by (rule that) (simp add: owned_result_def bind_op_def Pair Inl)
    next
      case (Inr l)
      show thesis
      proof (rule that)
        show "owned_result w caller task ident False d
            = (Inl (if closed (ld_task l) \<or> ident = None \<or> ident \<noteq> result_identity (ld_state l)
                \<or> status (ld_state l) \<noteq> PipelineStatus.Running then STALE_RESULT else FORBIDDEN), d1)"
          using assms(1) [of l]
          by (auto simp: owned_result_def bind_op_def may_report_def Pair Inr refuse_def ret_def)
      qed
    qed
  qed
  have "dm_db d' = dm_db d" "dm_spawned d' = dm_spawned d"
    using keeps_still [OF keeps_owned(3) [of _ w caller task ident False], of d] e
    by simp_all
  moreover have "agent_command w caller cmd d = (Inl e, d')"
    using assms(2) e by (auto simp: accepted_def done_command_def result_command_def refused_bind)
  ultimately show ?thesis by blast
qed

theorem foreign_result_changes_nothing_witness:
  "\<exists>e d'. agent_command sample_env ''j'' (AgentCommand.Done ''t-1'' (Some \<lparr>ri_stage_id = ''a'', ri_attempt = 1\<rparr>)) sample_two = (Inl e, d')
    \<and> dm_db d' = dm_db sample_two"
proof -
  obtain r r' where r: "db_tasks (dm_db sample_two) = [r, r']" "tr_version r = 3" "t_id (tr_task r) = ''t-1''"
    "t_assignee (tr_task r) = Some ''i''"
    using sample_two_rows by (auto simp: two_rows_def split: list.splits)
  then have "t_assignee (ld_task l) \<noteq> Some ''j''" if "fst (load_pipeline sample_env ''t-1'' sample_two) = Inr l" for l
    using reachable_loads [OF sample_reachable(1), of r sample_env] that by (auto simp: sample_env_def)
  with foreign_result_changes_nothing [of sample_env "''t-1''" sample_two "''j''" "Some \<lparr>ri_stage_id = ''a'', ri_attempt = 1\<rparr>"
      "AgentCommand.Done ''t-1'' (Some \<lparr>ri_stage_id = ''a'', ri_attempt = 1\<rparr>)"] show ?thesis by blast
qed

end
