(* ===== verification/Telegram_Outbox.thy ===== *)
theory Telegram_Outbox
  imports Daemon_Ops
begin

text \<open>
  Notifications that leave for Telegram: how a notification is cut into messages
  (\<^verbatim>\<open>agend-core/src/telegram.rs\<close>), the outbox, the notices and the ledger of updates
  (\<^verbatim>\<open>agend-daemon/src/store/telegram.rs\<close>, \<^verbatim>\<open>store/telegram_inbound.rs\<close>). The store keeps a delivery as JSON and
  checks it whenever it is read or written; here a row is the delivery and the check is \<open>delivery_valid\<close>.
  A store operation is one transaction: it returns the new tables or an error that changes nothing.
  Rows are never deleted (\<^verbatim>\<open>store/retention.rs\<close>). Chat, topic, message and update numbers are \<^verbatim>\<open>i64\<close>, kept as
  integers: they are only compared.
\<close>

section \<open>Deliveries\<close>

datatype NotificationSeverity = Info | Attention | Error

record Notification =
  nt_severity :: NotificationSeverity
  nt_title :: string
  nt_body :: string
  nt_task_id :: "string option"

record TelegramDestination =
  ds_bot_id :: u64
  ds_chat_id :: int
  ds_topic_id :: "int option"

record TelegramDelivery =
  td_id :: string
  td_destination :: TelegramDestination
  td_notification :: Notification
  td_parts :: "string list"
  td_next_part :: nat
  td_in_flight :: bool
  td_outcome_unknown :: bool
  td_abandoned_by_operator :: "string option"
  td_message_ids :: "int list"
  td_abandoned :: bool
  td_created_at :: u64
  td_attention :: "AttentionRequiredData option"
  td_task_version :: "(u64 \<times> u64) option"

text \<open>
  A text is cut between characters. In UTF-8 the bytes 0x80 to 0xBF continue a character; characters of four bytes,
  whose first byte is 0xF0 or more, take two UTF-16 units.
\<close>

definition continues :: "char \<Rightarrow> bool" where
  "continues c \<longleftrightarrow> char_in 128 191 c"

function characters :: "string \<Rightarrow> string list" where
  "characters [] = []"
| "characters (c # cs) = (c # takeWhile continues cs) # characters (dropWhile continues cs)"
  by pat_completeness auto
termination
  by (relation "measure length") (auto simp: le_imp_less_Suc length_dropWhile_le)

definition len_utf16 :: "string \<Rightarrow> nat" where
  "len_utf16 c = (case c of b # _ \<Rightarrow> if char_in 240 255 b then 2 else 1 | [] \<Rightarrow> 0)"

fun chunks :: "string \<Rightarrow> nat \<Rightarrow> string list \<Rightarrow> string list" where
  "chunks chunk units [] = [chunk]"
| "chunks chunk units (c # cs) =
     (if 4000 < units + len_utf16 c then chunk # chunks c (len_utf16 c) cs
      else chunks (chunk @ c) (units + len_utf16 c) cs)"

lemma chunks_code [code]:
  "chunks chunk units [] = [chunk]"
  "chunks chunk units (c # cs) =
     (if 4000 < int (units + len_utf16 c) then chunk # chunks c (len_utf16 c) cs
      else chunks (chunk @ c) (units + len_utf16 c) cs)"
  by simp_all

definition EM_DASH :: string where
  "EM_DASH = [CHR 0xE2, CHR 0x80, CHR 0x94]"

definition framed :: "nat \<Rightarrow> nat \<times> string \<Rightarrow> string" where
  "framed parts part = (case part of (index, chunk) \<Rightarrow>
     ''AgEnD '' @ [CHR 0xC2, CHR 0xB7] @ '' '' @ show_nat (index + 1) @ ''/'' @ show_nat parts @ [CHR 0x0A]
     @ chunk @ [CHR 0x0A] @ EM_DASH @ EM_DASH)"

definition payload :: "Notification \<Rightarrow> string" where
  "payload note =
     ''['' @ (case nt_severity note of Info \<Rightarrow> ''Info'' | Attention \<Rightarrow> ''Attention'' | Error \<Rightarrow> ''Error'') @ '']'' @ [CHR 0x0A]
     @ ''Title: '' @ nt_title note @ [CHR 0x0A]
     @ ''Task: '' @ (case nt_task_id note of Some t \<Rightarrow> t | None \<Rightarrow> EM_DASH) @ [CHR 0x0A, CHR 0x0A] @ nt_body note"

definition render :: "Notification \<Rightarrow> string list" where
  "render note =
     (let cs = chunks [] 0 (characters (payload note)) in map (framed (length cs)) (enumerate 0 cs))"

definition TelegramDelivery_new :: "string \<Rightarrow> TelegramDestination \<Rightarrow> Notification \<Rightarrow> u64 \<Rightarrow> TelegramDelivery" where
  "TelegramDelivery_new ident dest note time =
     \<lparr>td_id = ident, td_destination = dest, td_notification = note, td_parts = render note, td_next_part = 0,
      td_in_flight = False, td_outcome_unknown = False, td_abandoned_by_operator = None, td_message_ids = [],
      td_abandoned = False, td_created_at = time, td_attention = None, td_task_version = None\<rparr>"

definition complete :: "TelegramDelivery \<Rightarrow> bool" where
  "complete d \<longleftrightarrow> td_next_part d = length (td_parts d) \<and> \<not> td_in_flight d \<and> \<not> td_abandoned d"

definition delivery_valid :: "TelegramDelivery \<Rightarrow> bool" where
  "delivery_valid d \<longleftrightarrow>
     td_id d \<noteq> []
     \<and> 0 < ds_bot_id (td_destination d) \<and> ds_bot_id (td_destination d) < 2 ^ 52
     \<and> ds_chat_id (td_destination d) \<noteq> 0 \<and> \<bar>ds_chat_id (td_destination d)\<bar> < 2 ^ 52
     \<and> (case ds_topic_id (td_destination d) of Some t \<Rightarrow> 0 < t | None \<Rightarrow> True)
     \<and> td_parts d = render (td_notification d) \<and> td_parts d \<noteq> []
     \<and> td_next_part d \<le> length (td_parts d) \<and> length (td_message_ids d) = td_next_part d
     \<and> list_all (\<lambda>i. 0 < i) (td_message_ids d)
     \<and> (td_outcome_unknown d \<longrightarrow> td_in_flight d)
     \<and> (td_abandoned_by_operator d = None \<or> (td_abandoned d \<and> td_outcome_unknown d))
     \<and> (td_in_flight d \<longrightarrow> td_next_part d < length (td_parts d))"

section \<open>The outbox\<close>

record TelegramNotice =
  no_topic_id :: "int option"
  no_key :: string
  no_attention :: "AttentionRequiredData option"
  no_task_version :: "(u64 \<times> u64) option"
  no_notification :: Notification

record NoticeRow =
  nr_source :: string
  nr_delivery :: string
  nr_active :: bool

record UpdateRow =
  ur_bot :: u64
  ur_update :: int
  ur_fingerprint :: string
  ur_outcome :: "string option"
  ur_delivery :: "string option"

record Outbox =
  ob_rows :: "TelegramDelivery list"
  ob_notices :: "NoticeRow list"
  ob_updates :: "UpdateRow list"

definition empty_outbox :: Outbox where
  "empty_outbox = \<lparr>ob_rows = [], ob_notices = [], ob_updates = []\<rparr>"

definition row_of :: "Outbox \<Rightarrow> string \<Rightarrow> TelegramDelivery option" where
  "row_of ob ident = List.find (\<lambda>d. td_id d = ident) (ob_rows ob)"

definition load_delivery :: "Outbox \<Rightarrow> string \<Rightarrow> StoreError + TelegramDelivery option" where
  "load_delivery ob ident =
     (case row_of ob ident of
        None \<Rightarrow> Inr None
      | Some d \<Rightarrow> if delivery_valid d then Inr (Some d) else Inl InvalidValue)"

definition save_delivery :: "Outbox \<Rightarrow> TelegramDelivery \<Rightarrow> StoreError + Outbox" where
  "save_delivery ob d =
     (if \<not> delivery_valid d then Inl InvalidValue
      else Inr (ob\<lparr>ob_rows := map (\<lambda>x. if td_id x = td_id d then d else x) (ob_rows ob)\<rparr>))"

definition insert_delivery :: "Outbox \<Rightarrow> TelegramDelivery \<Rightarrow> StoreError + Outbox" where
  "insert_delivery ob d =
     (if row_of ob (td_id d) \<noteq> None then Inl ConstraintFailed else Inr (ob\<lparr>ob_rows := ob_rows ob @ [d]\<rparr>))"

definition abandon_incomplete :: "Outbox \<Rightarrow> TelegramDelivery option \<Rightarrow> StoreError + Outbox" where
  "abandon_incomplete ob old =
     (case old of
        Some d \<Rightarrow> if complete d then Inr ob else save_delivery ob (d\<lparr>td_abandoned := True\<rparr>)
      | None \<Rightarrow> Inr ob)"

definition put_notice :: "NoticeRow \<Rightarrow> NoticeRow list \<Rightarrow> NoticeRow list" where
  "put_notice r rs =
     (if list_ex (\<lambda>x. nr_source x = nr_source r) rs then map (\<lambda>x. if nr_source x = nr_source r then r else x) rs
      else rs @ [r])"

definition same_notice :: "TelegramDelivery \<Rightarrow> TelegramNotice \<Rightarrow> bool" where
  "same_notice d n \<longleftrightarrow>
     td_notification d = no_notification n \<and> td_attention d = no_attention n \<and> td_task_version d = no_task_version n"

definition routed :: "TelegramDestination \<Rightarrow> TelegramNotice \<Rightarrow> TelegramDestination" where
  "routed dest n = dest\<lparr>ds_topic_id := or_else (no_topic_id n) (ds_topic_id dest)\<rparr>"

definition new_delivery ::
    "TelegramDestination \<Rightarrow> u64 \<Rightarrow> TelegramNotice \<Rightarrow> Outbox \<Rightarrow> string \<Rightarrow> StoreError + Outbox \<times> TelegramDelivery" where
  "new_delivery dest time n ob ident =
     (let d = (TelegramDelivery_new ident (routed dest n) (no_notification n) time)
                \<lparr>td_attention := no_attention n, td_task_version := no_task_version n\<rparr>
      in if \<not> delivery_valid d then Inl InvalidValue
         else and_then (insert_delivery ob d) (\<lambda>ob'.
           Inr (ob'\<lparr>ob_notices := put_notice \<lparr>nr_source = no_key n, nr_delivery = ident, nr_active = True\<rparr> (ob_notices ob')\<rparr>, d)))"

text \<open>
  One notice: a delivery that still says the same is kept. Otherwise the old one is given up and a new one with the
  fresh id \<open>ident\<close>, if there is one, takes its place.
\<close>

definition observe_one ::
    "TelegramDestination \<Rightarrow> u64 \<Rightarrow> NoticeRow list \<Rightarrow> string option \<Rightarrow> TelegramNotice \<Rightarrow> Outbox
       \<Rightarrow> StoreError + Outbox \<times> TelegramDelivery" where
  "observe_one dest time previous ident n ob =
     (let old = List.find (\<lambda>r. nr_source r = no_key n) previous;
          anew = (\<lambda>ob'. and_then (ok_or ident InvalidValue) (new_delivery dest time n ob'))
      in and_then (case old of Some r \<Rightarrow> load_delivery ob (nr_delivery r) | None \<Rightarrow> Inr None) (\<lambda>existing.
         case existing of
           None \<Rightarrow> anew ob
         | Some d \<Rightarrow>
             if (case old of Some r \<Rightarrow> nr_active r | None \<Rightarrow> False) \<and> same_notice d n then Inr (ob, d)
             else and_then (abandon_incomplete ob existing) anew))"

fun observe_all ::
    "TelegramDestination \<Rightarrow> u64 \<Rightarrow> NoticeRow list \<Rightarrow> (nat \<Rightarrow> string option) \<Rightarrow> nat \<Rightarrow> TelegramNotice list \<Rightarrow> Outbox
       \<Rightarrow> StoreError + Outbox \<times> TelegramDelivery list" where
  "observe_all dest time previous ids k [] ob = Inr (ob, [])"
| "observe_all dest time previous ids k (n # ns) ob =
     and_then (observe_one dest time previous (ids k) n ob) (\<lambda>(ob', d).
     and_then (observe_all dest time previous ids (Suc k) ns ob') (\<lambda>(ob'', ds). Inr (ob'', d # ds)))"

text \<open>Notices that are no longer there: their delivery is given up unless it is complete.\<close>

definition resolve_notice :: "string list \<Rightarrow> NoticeRow \<Rightarrow> Outbox \<Rightarrow> StoreError + Outbox" where
  "resolve_notice keys r ob =
     (if nr_active r \<and> nr_source r \<notin> set keys
      then and_then (load_delivery ob (nr_delivery r)) (\<lambda>d.
           and_then (abandon_incomplete ob d) (\<lambda>ob'.
             Inr (ob'\<lparr>ob_notices := map (\<lambda>x. if nr_source x = nr_source r then x\<lparr>nr_active := False\<rparr> else x) (ob_notices ob')\<rparr>)))
      else Inr ob)"

primrec resolve_all :: "string list \<Rightarrow> NoticeRow list \<Rightarrow> Outbox \<Rightarrow> StoreError + Outbox" where
  "resolve_all keys [] ob = Inr ob"
| "resolve_all keys (r # rs) ob = and_then (resolve_notice keys r ob) (resolve_all keys rs)"

definition observe_telegram ::
    "Outbox \<Rightarrow> TelegramNotice list \<Rightarrow> TelegramDestination \<Rightarrow> u64 \<Rightarrow> (nat \<Rightarrow> string option)
       \<Rightarrow> StoreError + Outbox \<times> TelegramDelivery list" where
  "observe_telegram ob notices dest time ids =
     (if [] \<in> set (map no_key notices) \<or> has_duplicate (map no_key notices) then Inl InvalidValue
      else let previous = ob_notices ob in
        and_then (observe_all dest time previous ids 0 notices ob) (\<lambda>(ob', pending).
        and_then (resolve_all (map no_key notices) previous ob') (\<lambda>ob''. Inr (ob'', pending))))"

definition enqueue_telegram :: "Outbox \<Rightarrow> TelegramDelivery \<Rightarrow> StoreError + Outbox \<times> TelegramDelivery" where
  "enqueue_telegram ob d =
     (if \<not> delivery_valid d \<or> td_next_part d \<noteq> 0 \<or> td_in_flight d \<or> td_abandoned d then Inl InvalidValue
      else and_then (load_delivery ob (td_id d)) (\<lambda>found.
        case found of
          Some old \<Rightarrow>
            if td_destination old \<noteq> td_destination d \<or> td_notification old \<noteq> td_notification d \<or> td_parts old \<noteq> td_parts d
               \<or> td_attention old \<noteq> td_attention d \<or> td_task_version old \<noteq> td_task_version d
            then Inl InvalidValue else Inr (ob, old)
        | None \<Rightarrow> and_then (insert_delivery ob d) (\<lambda>ob'. Inr (ob', d))))"

definition waiting_for :: "TelegramDestination \<Rightarrow> Outbox \<Rightarrow> TelegramDelivery \<Rightarrow> bool" where
  "waiting_for dest ob d \<longleftrightarrow>
     td_id d \<notin> nr_delivery ` set (ob_notices ob) \<and> td_attention d = None \<and> \<not> td_abandoned d \<and> \<not> td_in_flight d
     \<and> td_next_part d < length (td_parts d) \<and> td_destination d = dest"

primrec load_deliveries :: "Outbox \<Rightarrow> string list \<Rightarrow> StoreError + TelegramDelivery list" where
  "load_deliveries ob [] = Inr []"
| "load_deliveries ob (i # rest) =
     and_then (load_delivery ob i) (\<lambda>found. and_then (ok_or found InvalidValue) (\<lambda>d.
       and_then (load_deliveries ob rest) (\<lambda>ds. Inr (d # ds))))"

definition pending_telegram :: "Outbox \<Rightarrow> TelegramDestination \<Rightarrow> nat \<Rightarrow> StoreError + TelegramDelivery list" where
  "pending_telegram ob dest limit =
     (if limit < 1 \<or> 100 < limit then Inl InvalidValue
      else load_deliveries ob (take limit (map td_id (filter (waiting_for dest ob) (ob_rows ob)))))"

section \<open>Sending\<close>

text \<open>A claim is written before the part is handed to Telegram; only its receipt frees the delivery again.\<close>

definition claim_telegram_part :: "Outbox \<Rightarrow> string \<Rightarrow> nat \<Rightarrow> StoreError + Outbox \<times> bool" where
  "claim_telegram_part ob ident part =
     and_then (load_delivery ob ident) (\<lambda>found.
       case found of
         None \<Rightarrow> Inr (ob, False)
       | Some d \<Rightarrow>
           if td_next_part d \<noteq> part \<or> td_in_flight d \<or> complete d \<or> td_abandoned d then Inr (ob, False)
           else and_then (save_delivery ob (d\<lparr>td_in_flight := True\<rparr>)) (\<lambda>ob'. Inr (ob', True)))"

definition mark_telegram_unknown :: "Outbox \<Rightarrow> string \<Rightarrow> StoreError + Outbox" where
  "mark_telegram_unknown ob ident =
     and_then (load_delivery ob ident) (\<lambda>found.
       case found of
         Some d \<Rightarrow> if td_in_flight d then save_delivery ob (d\<lparr>td_outcome_unknown := True\<rparr>) else Inr ob
       | None \<Rightarrow> Inr ob)"

definition confirm_telegram_part :: "Outbox \<Rightarrow> string \<Rightarrow> nat \<Rightarrow> int \<Rightarrow> StoreError + Outbox \<times> bool" where
  "confirm_telegram_part ob ident part message =
     and_then (load_delivery ob ident) (\<lambda>found.
       case found of
         None \<Rightarrow> Inr (ob, False)
       | Some d \<Rightarrow>
           if td_next_part d \<noteq> part \<or> \<not> td_in_flight d \<or> td_abandoned d \<or> message \<le> 0 \<or> message \<in> set (td_message_ids d)
           then Inr (ob, False)
           else and_then (save_delivery ob (d\<lparr>td_next_part := td_next_part d + 1, td_in_flight := False,
                  td_outcome_unknown := False, td_message_ids := td_message_ids d @ [message]\<rparr>)) (\<lambda>ob'. Inr (ob', True)))"

text \<open>At boot every part in flight becomes one whose outcome is unknown.\<close>

definition recover_telegram_attempts :: "Outbox \<Rightarrow> Outbox" where
  "recover_telegram_attempts ob =
     ob\<lparr>ob_rows := map (\<lambda>d. if td_in_flight d then d\<lparr>td_outcome_unknown := True\<rparr> else d) (ob_rows ob)\<rparr>"

definition unknown_telegram_after :: "Outbox \<Rightarrow> string \<Rightarrow> StoreError + TelegramDelivery list" where
  "unknown_telegram_after ob after =
     load_deliveries ob (take 100 (sort (map td_id (filter (\<lambda>d. after < td_id d \<and> td_outcome_unknown d
       \<and> td_abandoned_by_operator d = None) (ob_rows ob)))))"

definition abandon_unknown_telegram :: "Outbox \<Rightarrow> string \<Rightarrow> string \<Rightarrow> StoreError + Outbox \<times> bool" where
  "abandon_unknown_telegram ob ident reason =
     (if trim reason = [] \<or> 4096 < length reason then Inl InvalidValue
      else and_then (load_delivery ob ident) (\<lambda>found.
        case found of
          None \<Rightarrow> Inr (ob, False)
        | Some d \<Rightarrow>
            if \<not> td_outcome_unknown d \<or> td_abandoned_by_operator d \<noteq> None then Inr (ob, False)
            else and_then (save_delivery ob (d\<lparr>td_abandoned := True, td_abandoned_by_operator := Some reason\<rparr>)) (\<lambda>ob'.
                   Inr (ob', True))))"

section \<open>Updates from Telegram\<close>

definition update_row :: "Outbox \<Rightarrow> u64 \<Rightarrow> int \<Rightarrow> UpdateRow option" where
  "update_row ob bot_id upd = List.find (\<lambda>r. ur_bot r = bot_id \<and> ur_update r = upd) (ob_updates ob)"

definition telegram_offset :: "Outbox \<Rightarrow> u64 \<Rightarrow> int" where
  "telegram_offset ob bot_id =
     foldl (\<lambda>m r. if ur_bot r = bot_id then max m (ur_update r + 1) else m) 0 (ob_updates ob)"

definition is_ascii_hexdigit :: "char \<Rightarrow> bool" where
  "is_ascii_hexdigit c \<longleftrightarrow> is_ascii_digit c \<or> char_in 97 102 c \<or> char_in 65 70 c"

definition claim_telegram_update :: "Outbox \<Rightarrow> u64 \<Rightarrow> int \<Rightarrow> string \<Rightarrow> StoreError + Outbox \<times> bool" where
  "claim_telegram_update ob bot_id upd hash =
     (if bot_id = 0 \<or> 2 ^ 52 \<le> bot_id \<or> upd < 0 \<or> upd = 2 ^ 63 - 1 \<or> length hash \<noteq> 64
         \<or> \<not> list_all is_ascii_hexdigit hash
      then Inl InvalidValue
      else case update_row ob bot_id upd of
        Some old \<Rightarrow> if ur_fingerprint old \<noteq> hash then Inl InvalidValue else Inr (ob, False)
      | None \<Rightarrow> Inr (ob\<lparr>ob_updates := ob_updates ob @ [\<lparr>ur_bot = bot_id, ur_update = upd, ur_fingerprint = hash,
                                  ur_outcome = None, ur_delivery = None\<rparr>]\<rparr>, True))"

definition unused_update :: "u64 \<Rightarrow> int \<Rightarrow> UpdateRow \<Rightarrow> bool" where
  "unused_update bot_id upd r \<longleftrightarrow> ur_bot r = bot_id \<and> ur_update r = upd \<and> ur_outcome r = None \<and> ur_delivery r = None"

definition claim_telegram_action :: "Outbox \<Rightarrow> u64 \<Rightarrow> int \<Rightarrow> string \<Rightarrow> Outbox \<times> bool" where
  "claim_telegram_action ob bot_id upd delivery =
     (if list_ex (unused_update bot_id upd) (ob_updates ob)
         \<and> \<not> list_ex (\<lambda>x. ur_delivery x = Some delivery) (ob_updates ob)
         \<and> list_ex (\<lambda>x. nr_delivery x = delivery \<and> nr_active x) (ob_notices ob)
      then (ob\<lparr>ob_updates := map (\<lambda>x. if unused_update bot_id upd x then x\<lparr>ur_delivery := Some delivery\<rparr> else x)
                             (ob_updates ob)\<rparr>, True)
      else (ob, False))"

definition finish_telegram_update :: "Outbox \<Rightarrow> u64 \<Rightarrow> int \<Rightarrow> string \<Rightarrow> StoreError + Outbox \<times> bool" where
  "finish_telegram_update ob bot_id upd outcome =
     (if outcome = [] \<or> 4096 < length outcome then Inl InvalidValue
      else case update_row ob bot_id upd of
        None \<Rightarrow> Inr (ob, False)
      | Some r \<Rightarrow>
          if ur_outcome r \<noteq> None then Inr (ob, False)
          else Inr (ob\<lparr>ob_updates := map (\<lambda>x. if ur_bot x = bot_id \<and> ur_update x = upd then x\<lparr>ur_outcome := Some outcome\<rparr> else x)
                                     (ob_updates ob),
                       ob_notices := map (\<lambda>x. if ur_delivery r = Some (nr_delivery x) then x\<lparr>nr_active := False\<rparr> else x)
                                     (ob_notices ob)\<rparr>, True))"

text \<open>The delivery that a message of the bot belongs to, while it is current and unused.\<close>

definition open_delivery :: "Outbox \<Rightarrow> u64 \<Rightarrow> int \<Rightarrow> int \<Rightarrow> TelegramDelivery \<Rightarrow> bool" where
  "open_delivery ob bot_id chat message d \<longleftrightarrow>
     list_ex (\<lambda>r. nr_delivery r = td_id d \<and> nr_active r) (ob_notices ob)
     \<and> \<not> list_ex (\<lambda>u. ur_delivery u = Some (td_id d)) (ob_updates ob)
     \<and> ds_bot_id (td_destination d) = bot_id \<and> ds_chat_id (td_destination d) = chat \<and> message \<in> set (td_message_ids d)"

definition telegram_message :: "Outbox \<Rightarrow> u64 \<Rightarrow> int \<Rightarrow> int \<Rightarrow> StoreError + TelegramDelivery option" where
  "telegram_message ob bot_id chat message =
     (case filter (open_delivery ob bot_id chat message) (ob_rows ob) of
        [] \<Rightarrow> Inr None
      | [d] \<Rightarrow> if \<not> delivery_valid d \<or> td_abandoned d then Inl InvalidValue else Inr (Some d)
      | _ \<Rightarrow> Inl InvalidValue)"

end
