(* ===== verification/Telegram_Sending.thy ===== *)
theory Telegram_Sending
  imports Telegram_Outbox
begin

text \<open>
  What the outbox promises to the sender and to the handler of updates, over every sequence of store operations:
  a part of a notification is claimed at most once, a part only after the receipts of those before it, an update
  of Telegram at most once and a notification for at most one action. So neither a crash nor a restart nor two
  senders repeat anything. How a notification is cut loses nothing and keeps every message within the limit.
\<close>

section \<open>How a notification is cut\<close>

text \<open>The UTF-16 units of a text: one for each character of up to three bytes, two for one of four.\<close>

definition byte_units :: "char \<Rightarrow> nat" where
  "byte_units b = (if continues b then 0 else if char_in 240 255 b then 2 else 1)"

definition utf16_units :: "string \<Rightarrow> nat" where
  "utf16_units s = sum_list (map byte_units s)"

lemma utf16_units_append [simp]: "utf16_units (a @ b) = utf16_units a + utf16_units b"
  by (simp add: utf16_units_def)

lemma utf16_units_Nil [simp]: "utf16_units [] = 0"
  by (simp add: utf16_units_def)

lemma utf16_units_Cons [simp]: "utf16_units (c # s) = byte_units c + utf16_units s"
  by (simp add: utf16_units_def)

lemma utf16_units_takeWhile: "utf16_units (takeWhile continues cs) = 0"
  by (induction cs) (simp_all add: byte_units_def)

lemma concat_characters: "concat (characters s) = s"
  by (induction s rule: characters.induct) simp_all

text \<open>A character that may stand in a text: not empty, with its first byte at the start.\<close>

definition whole :: "string \<Rightarrow> bool" where
  "whole c \<longleftrightarrow> c \<noteq> [] \<and> \<not> continues (hd c)"

lemma characters_whole: "s = [] \<or> \<not> continues (hd s) \<Longrightarrow> list_all (\<lambda>c. whole c \<and> utf16_units c \<le> len_utf16 c) (characters s)"
proof (induction s rule: characters.induct)
  case 1
  show ?case by simp
next
  case (2 c cs)
  have "dropWhile continues cs = [] \<or> \<not> continues (hd (dropWhile continues cs))"
    using hd_dropWhile by blast
  with 2 have "list_all (\<lambda>c. whole c \<and> utf16_units c \<le> len_utf16 c) (characters (dropWhile continues cs))" by blast
  moreover have "utf16_units (c # takeWhile continues cs) = byte_units c"
    using utf16_units_takeWhile [of cs] by (simp add: utf16_units_def)
  ultimately show ?case using 2 by (simp add: whole_def len_utf16_def byte_units_def)
qed

lemma chunks_ok:
  assumes "list_all (\<lambda>c. whole c \<and> utf16_units c \<le> len_utf16 c) cs" and "utf16_units chunk \<le> units" and "units \<le> 4000"
    and "whole chunk \<or> chunk = [] \<and> units = 0 \<and> cs \<noteq> []"
  shows "concat (chunks chunk units cs) = chunk @ concat cs
    \<and> (\<forall>c \<in> set (chunks chunk units cs). whole c \<and> utf16_units c \<le> 4000)"
  using assms
proof (induction chunk units cs rule: chunks.induct)
  case (1 chunk units)
  then show ?case by auto
next
  case (2 chunk units c cs)
  have u: "len_utf16 c \<le> 2" by (simp add: len_utf16_def split: list.split)
  show ?case
  proof (cases "4000 < units + len_utf16 c")
    case True
    with u have "chunk \<noteq> []" using 2(6) by (auto simp: whole_def)
    moreover have "concat (chunks c (len_utf16 c) cs) = c @ concat cs
        \<and> (\<forall>x \<in> set (chunks c (len_utf16 c) cs). whole x \<and> utf16_units x \<le> 4000)"
      by (rule 2(1) [OF True]) (use 2(3) u in auto)
    ultimately show ?thesis using True 2(4-6) by auto
  next
    case False
    have "whole (chunk @ c)" using 2(3,6) by (auto simp: whole_def)
    then have "concat (chunks (chunk @ c) (units + len_utf16 c) cs) = (chunk @ c) @ concat cs
        \<and> (\<forall>x \<in> set (chunks (chunk @ c) (units + len_utf16 c) cs). whole x \<and> utf16_units x \<le> 4000)"
      by (intro 2(2) [OF False]) (use 2(3,4) False in auto)
    then show ?thesis using False by simp
  qed
qed

lemma length_concat_nonempty: "\<forall>c \<in> set cs. c \<noteq> [] \<Longrightarrow> length cs \<le> length (concat cs)"
proof (induction cs)
  case (Cons c cs)
  then show ?case by (cases c) auto
qed simp

lemma show_nat_length: "n < 10 ^ k \<Longrightarrow> length (show_nat n) \<le> max 1 k"
proof (induction k arbitrary: n)
  case 0
  then show ?case by (simp add: show_nat.simps)
next
  case (Suc k)
  show ?case
  proof (cases "n < 10")
    case True
    then show ?thesis by (simp add: show_nat.simps)
  next
    case False
    with Suc.prems have k: "n div 10 < 10 ^ k" "k \<noteq> 0" by (auto intro: Nat.gr0I)
    with False Suc.IH [OF k(1)] show ?thesis by (subst show_nat.simps) simp
  qed
qed

lemma utf16_units_digits:
  assumes "list_all is_ascii_digit ds"
  shows "utf16_units ds = length ds"
  using assms by (induction ds) (auto simp: utf16_units_def byte_units_def continues_def is_ascii_digit_def char_in_def)

lemma framed_units:
  assumes "i < n" and "n < 10 ^ 41"
  shows "utf16_units (framed n (i, c)) \<le> utf16_units c + 95"
proof -
  have "utf16_units (show_nat m) \<le> 41" if "m \<le> n" for m
    using show_nat_length [of m 41] that assms(2) utf16_units_digits [OF show_nat_digits(2) [of m]] by simp
  then have "utf16_units (show_nat (i + 1)) \<le> 41" "utf16_units (show_nat n) \<le> 41" using assms(1) by simp_all
  moreover have "utf16_units ''AgEnD '' = 6" "utf16_units [CHR 0xC2, CHR 0xB7] = 1" "utf16_units '' '' = 1" "utf16_units ''/'' = 1"
    "utf16_units [CHR 0x0A] = 1" "utf16_units EM_DASH = 1"
    by (simp_all add: utf16_units_def byte_units_def continues_def char_in_def EM_DASH_def)
  ultimately show ?thesis by (simp add: framed_def)
qed

text \<open>C28: Cutting a notification loses nothing and fits. The messages of a notification are the pieces of its text, numbered
  and framed; the pieces put together are exactly the text, none is empty or starts inside a character and
  none has more than 4000 UTF-16 units; with the frame a message has at most 4096, the limit of Telegram, for
  every text of less than 10 to the 41 bytes.\<close>

theorem render_loses_nothing:
  "\<exists>cs. render note = map (framed (length cs)) (enumerate 0 cs) \<and> concat cs = payload note
    \<and> (\<forall>c \<in> set cs. c \<noteq> [] \<and> \<not> continues (hd c) \<and> utf16_units c \<le> 4000)
    \<and> (length (payload note) < 10 ^ 41 \<longrightarrow> (\<forall>m \<in> set (render note). utf16_units m \<le> 4096))"
proof -
  let ?cs = "chunks [] 0 (characters (payload note))"
  have p: "payload note = CHR ''['' # tl (payload note)" by (simp add: payload_def)
  have hd: "\<not> continues (hd (payload note))" by (subst p) (simp add: continues_def char_in_def)
  have "characters (payload note) \<noteq> []" by (subst p) simp
  then have ok: "concat ?cs = payload note" "\<forall>c \<in> set ?cs. whole c \<and> utf16_units c \<le> 4000"
    using chunks_ok [OF characters_whole [of "payload note"], of "[]" 0] hd by (simp_all add: concat_characters)
  have r: "render note = map (framed (length ?cs)) (enumerate 0 ?cs)" by (simp add: render_def Let_def)
  have "utf16_units m \<le> 4096" if m: "m \<in> set (render note)" and l: "length (payload note) < 10 ^ 41" for m
  proof -
    have "length ?cs \<le> length (payload note)"
      using length_concat_nonempty [of ?cs] ok by (auto simp: whole_def)
    with l have n: "length ?cs < 10 ^ 41" by linarith
    from m obtain i where i: "i < length ?cs" "m = framed (length ?cs) (i, ?cs ! i)"
      by (auto simp: r in_set_enumerate_eq)
    with framed_units [OF i(1) n, of "?cs ! i"] ok(2) nth_mem [OF i(1)] show ?thesis by fastforce
  qed
  with r ok show ?thesis by (intro exI [of _ ?cs]) (auto simp: whole_def)
qed

theorem render_loses_nothing_witness:
  "list_all (\<lambda>m. utf16_units m \<le> 4096) (render \<lparr>nt_severity = Info, nt_title = ''t'', nt_body = ''b'', nt_task_id = None\<rparr>)"
proof -
  let ?n = "\<lparr>nt_severity = Info, nt_title = ''t'', nt_body = ''b'', nt_task_id = None\<rparr> :: Notification"
  have "length (payload ?n) < 10 ^ 41" by (simp add: payload_def EM_DASH_def)
  with render_loses_nothing [of ?n] show ?thesis by (auto simp: list_all_iff)
qed

section \<open>What is spent stays spent\<close>

text \<open>
  From one state to a later one the keys of a list are spent: none was spent before, all are spent after, and none occurs
  twice. Steps of this kind compose when being spent survives what states go through.
\<close>

definition spends :: "('s \<Rightarrow> 's \<Rightarrow> bool) \<Rightarrow> ('s \<Rightarrow> 'k \<Rightarrow> bool) \<Rightarrow> 's \<Rightarrow> 'k list \<Rightarrow> 's \<Rightarrow> bool" where
  "spends grows spent s ks t \<longleftrightarrow> grows s t \<and> distinct ks \<and> (\<forall>k \<in> set ks. \<not> spent s k \<and> spent t k)"

locale at_most_once =
  fixes grows :: "'s \<Rightarrow> 's \<Rightarrow> bool" and spent :: "'s \<Rightarrow> 'k \<Rightarrow> bool"
  assumes grows_trans: "grows s t \<Longrightarrow> grows t u \<Longrightarrow> grows s u"
    and spent_stays: "spent s k \<Longrightarrow> grows s t \<Longrightarrow> spent t k"
begin

lemma spends_none: "grows s t \<Longrightarrow> spends grows spent s [] t"
  by (simp add: spends_def)

lemma spends_one: "grows s t \<Longrightarrow> \<not> spent s k \<Longrightarrow> spent t k \<Longrightarrow> spends grows spent s [k] t"
  by (simp add: spends_def)

lemma spends_trans:
  assumes "spends grows spent s ks t" and "spends grows spent t ls u"
  shows "spends grows spent s (ks @ ls) u"
proof -
  have g: "grows s t" "grows t u" using assms by (simp_all add: spends_def)
  have "set ks \<inter> set ls = {}" using assms by (auto simp: spends_def)
  moreover have "\<not> spent s k \<and> spent u k" if "k \<in> set ks \<union> set ls" for k
    using that assms spent_stays [OF _ g(1)] spent_stays [OF _ g(2)] by (auto simp: spends_def)
  ultimately show ?thesis using assms grows_trans [OF g] by (simp add: spends_def)
qed

lemma spends_after: "grows s t \<Longrightarrow> spends grows spent t ks u \<Longrightarrow> spends grows spent s ks u"
  using spends_trans [OF spends_none [of s t]] by simp

lemma spends_before: "spends grows spent s ks t \<Longrightarrow> grows t u \<Longrightarrow> spends grows spent s ks u"
  using spends_trans [OF _ spends_none [of t u]] by simp

end

section \<open>Operations of the outbox\<close>

datatype OutboxOp =
    ObserveOp "TelegramNotice list" TelegramDestination u64 "nat \<Rightarrow> string option"
  | EnqueueOp TelegramDelivery
  | ClaimPartOp string nat
  | MarkUnknownOp string
  | ConfirmPartOp string nat int
  | RecoverOp
  | AbandonUnknownOp string string
  | ClaimUpdateOp u64 int string
  | ClaimActionOp u64 int string
  | FinishUpdateOp u64 int string

fun outbox_step :: "Outbox \<Rightarrow> OutboxOp \<Rightarrow> StoreError + Outbox \<times> bool list" where
  "outbox_step ob (ObserveOp ns dest time ids) = and_then (observe_telegram ob ns dest time ids) (\<lambda>(ob', _). Inr (ob', []))"
| "outbox_step ob (EnqueueOp d) = and_then (enqueue_telegram ob d) (\<lambda>(ob', _). Inr (ob', []))"
| "outbox_step ob (ClaimPartOp ident part) = and_then (claim_telegram_part ob ident part) (\<lambda>(ob', b). Inr (ob', [b]))"
| "outbox_step ob (MarkUnknownOp ident) = and_then (mark_telegram_unknown ob ident) (\<lambda>ob'. Inr (ob', []))"
| "outbox_step ob (ConfirmPartOp ident part m) = and_then (confirm_telegram_part ob ident part m) (\<lambda>(ob', b). Inr (ob', [b]))"
| "outbox_step ob RecoverOp = Inr (recover_telegram_attempts ob, [])"
| "outbox_step ob (AbandonUnknownOp ident reason) = and_then (abandon_unknown_telegram ob ident reason) (\<lambda>(ob', b). Inr (ob', [b]))"
| "outbox_step ob (ClaimUpdateOp b u h) = and_then (claim_telegram_update ob b u h) (\<lambda>(ob', r). Inr (ob', [r]))"
| "outbox_step ob (ClaimActionOp b u d) = (case claim_telegram_action ob b u d of (ob', r) \<Rightarrow> Inr (ob', [r]))"
| "outbox_step ob (FinishUpdateOp b u out) = and_then (finish_telegram_update ob b u out) (\<lambda>(ob', r). Inr (ob', [r]))"

text \<open>Other users of the outbox between two calls: an operation that fails changes nothing.\<close>

primrec run_ops :: "OutboxOp list \<Rightarrow> Outbox \<Rightarrow> Outbox" where
  "run_ops [] ob = ob"
| "run_ops (op # ops) ob = run_ops ops (case outbox_step ob op of Inl _ \<Rightarrow> ob | Inr (ob', _) \<Rightarrow> ob')"

lemma run_ops_accepts: "\<exists>done. accepts outbox_step ob done (run_ops ops ob)"
proof (induction ops arbitrary: ob)
  case Nil
  show ?case using accepts_nil by (intro exI [of _ "[]"]) simp
next
  case (Cons op ops)
  show ?case
  proof (cases "outbox_step ob op")
    case (Inl e)
    with Cons.IH [of ob] show ?thesis by simp
  next
    case (Inr x)
    obtain ob' out where x: "x = (ob', out)" by (cases x)
    obtain ran where "accepts outbox_step ob' ran (run_ops ops ob')" using Cons.IH by blast
    with accepts_Cons [of outbox_step ob op ob' out] Inr x show ?thesis by auto
  qed
qed

section \<open>Rows only move forward\<close>

definition later :: "TelegramDelivery \<Rightarrow> TelegramDelivery \<Rightarrow> bool" where
  "later d d' \<longleftrightarrow>
     (td_next_part d < td_next_part d' \<or> td_next_part d = td_next_part d' \<and> (td_in_flight d \<longrightarrow> td_in_flight d'))
     \<and> (td_abandoned d \<longrightarrow> td_abandoned d')"

definition rows_grow :: "Outbox \<Rightarrow> Outbox \<Rightarrow> bool" where
  "rows_grow ob ob' \<longleftrightarrow> (\<forall>i d. row_of ob i = Some d \<longrightarrow> (\<exists>d'. row_of ob' i = Some d' \<and> later d d'))"

text \<open>An operation on deliveries: the ledger of updates stays as it is.\<close>

definition delivers :: "Outbox \<Rightarrow> Outbox \<Rightarrow> bool" where
  "delivers ob ob' \<longleftrightarrow> rows_grow ob ob' \<and> ob_updates ob' = ob_updates ob"

lemma later_refl [simp]: "later d d"
  by (simp add: later_def)

lemma later_trans: "later a b \<Longrightarrow> later b c \<Longrightarrow> later a c"
  by (auto simp: later_def)

lemma rows_grow_same: "ob_rows ob' = ob_rows ob \<Longrightarrow> rows_grow ob ob'"
  by (simp add: rows_grow_def row_of_def)

lemma rows_grow_trans: "rows_grow a b \<Longrightarrow> rows_grow b c \<Longrightarrow> rows_grow a c"
  unfolding rows_grow_def by (meson later_trans)

lemma delivers_same: "ob_rows ob' = ob_rows ob \<Longrightarrow> ob_updates ob' = ob_updates ob \<Longrightarrow> delivers ob ob'"
  by (simp add: delivers_def rows_grow_same)

lemma delivers_trans: "delivers a b \<Longrightarrow> delivers b c \<Longrightarrow> delivers a c"
  unfolding delivers_def by (metis rows_grow_trans)

lemma row_of_id: "row_of ob i = Some d \<Longrightarrow> td_id d = i"
  by (auto simp: row_of_def dest: find_SomeD)

lemma row_of_map:
  assumes "\<And>d. td_id (f d) = td_id d"
  shows "row_of (ob\<lparr>ob_rows := map f (ob_rows ob)\<rparr>) i = map_option f (row_of ob i)"
proof -
  have "List.find (\<lambda>d. td_id d = i) (map f xs) = map_option f (List.find (\<lambda>d. td_id d = i) xs)" for xs
    by (induction xs) (simp_all add: assms)
  then show ?thesis by (simp add: row_of_def)
qed

lemma row_of_save:
  assumes "save_delivery ob d = Inr ob'"
  shows "row_of ob' i = (if i = td_id d then map_option (\<lambda>_. d) (row_of ob i) else row_of ob i)"
    "ob_notices ob' = ob_notices ob" "ob_updates ob' = ob_updates ob"
proof -
  let ?f = "\<lambda>x. if td_id x = td_id d then d else x"
  from assms have ob': "ob' = ob\<lparr>ob_rows := map ?f (ob_rows ob)\<rparr>" by (simp add: save_delivery_def split: if_splits)
  show "ob_notices ob' = ob_notices ob" "ob_updates ob' = ob_updates ob" by (simp_all add: ob')
  have "row_of ob' i = map_option ?f (row_of ob i)" unfolding ob' by (rule row_of_map) simp
  then show "row_of ob' i = (if i = td_id d then map_option (\<lambda>_. d) (row_of ob i) else row_of ob i)"
    by (cases "row_of ob i") (auto dest: row_of_id)
qed

lemma delivers_save:
  assumes "save_delivery ob d' = Inr ob'" and "row_of ob (td_id d') = Some d" and "later d d'"
  shows "delivers ob ob'"
  using assms(2,3) by (simp add: delivers_def rows_grow_def row_of_save [OF assms(1)])

lemma find_in_append: "List.find P (xs @ ys) = or_else (List.find P xs) (List.find P ys)"
  by (induction xs) simp_all

lemma delivers_insert: "insert_delivery ob d = Inr ob' \<Longrightarrow> delivers ob ob'"
  by (auto simp: insert_delivery_def delivers_def rows_grow_def row_of_def find_in_append split: if_splits option.splits)

lemma load_SomeD: "load_delivery ob i = Inr (Some d) \<Longrightarrow> row_of ob i = Some d \<and> td_id d = i \<and> delivery_valid d"
  by (auto simp: load_delivery_def dest: row_of_id split: option.splits if_splits)

lemma delivers_abandon:
  assumes "abandon_incomplete ob old = Inr ob'" and "\<And>d. old = Some d \<Longrightarrow> row_of ob (td_id d) = Some d"
  shows "delivers ob ob'"
proof (cases old)
  case None
  with assms(1) show ?thesis by (simp add: abandon_incomplete_def delivers_same)
next
  case (Some d)
  show ?thesis
  proof (cases "complete d")
    case True
    with assms(1) Some show ?thesis by (simp add: abandon_incomplete_def delivers_same)
  next
    case False
    with assms(1) Some have "save_delivery ob (d\<lparr>td_abandoned := True\<rparr>) = Inr ob'" by (simp add: abandon_incomplete_def)
    then show ?thesis by (rule delivers_save [of _ _ _ d]) (use assms(2) [OF Some] in \<open>simp_all add: later_def\<close>)
  qed
qed

lemma delivers_new: "new_delivery dest time n ob ident = Inr (ob', d) \<Longrightarrow> delivers ob ob'"
  by (auto simp: new_delivery_def Let_def result_split split: if_splits
      intro: delivers_trans [OF delivers_insert delivers_same])

lemma delivers_observe_one:
  assumes "observe_one dest time previous ident n ob = Inr (ob', d)"
  shows "delivers ob ob'"
proof -
  let ?old = "List.find (\<lambda>r. nr_source r = no_key n) previous"
  from assms obtain found where f: "(case ?old of Some r \<Rightarrow> load_delivery ob (nr_delivery r) | None \<Rightarrow> Inr None) = Inr found"
    by (auto simp: observe_one_def Let_def result_split)
  then have row: "row_of ob (td_id x) = Some x" if "found = Some x" for x
    using that by (auto split: option.splits dest: load_SomeD)
  have "ob' = ob \<or> (\<exists>ob1 i. (ob1 = ob \<or> abandon_incomplete ob found = Inr ob1) \<and> new_delivery dest time n ob1 i = Inr (ob', d))"
    using assms f by (auto simp: observe_one_def Let_def result_split split: option.splits if_splits)
  then show ?thesis
    using delivers_same [of ob ob] delivers_new delivers_abandon [OF _ row] delivers_trans by metis
qed

lemma delivers_observe_all: "observe_all dest time previous ids k ns ob = Inr (ob', ds) \<Longrightarrow> delivers ob ob'"
proof (induction ns arbitrary: k ob ds)
  case Nil
  then show ?case by (simp add: delivers_same)
next
  case (Cons n ns)
  then obtain ob1 d ds' where "observe_one dest time previous (ids k) n ob = Inr (ob1, d)"
    "observe_all dest time previous ids (Suc k) ns ob1 = Inr (ob', ds')" by (auto simp: result_split)
  with Cons.IH delivers_observe_one delivers_trans show ?case by blast
qed

lemma delivers_resolve_notice:
  assumes "resolve_notice keys r ob = Inr ob'"
  shows "delivers ob ob'"
proof (cases "nr_active r \<and> nr_source r \<notin> set keys")
  case True
  with assms obtain d ob1 where d: "load_delivery ob (nr_delivery r) = Inr d" "abandon_incomplete ob d = Inr ob1"
    "ob_rows ob' = ob_rows ob1" "ob_updates ob' = ob_updates ob1" by (auto simp: resolve_notice_def result_split)
  have "delivers ob ob1" by (rule delivers_abandon [OF d(2)]) (use d(1) in \<open>auto dest: load_SomeD\<close>)
  with delivers_same [OF d(3,4)] show ?thesis by (rule delivers_trans [rotated])
next
  case False
  with assms show ?thesis by (auto simp: resolve_notice_def delivers_same)
qed

lemma delivers_resolve_all: "resolve_all keys rs ob = Inr ob' \<Longrightarrow> delivers ob ob'"
proof (induction rs arbitrary: ob)
  case Nil
  then show ?case by (simp add: delivers_same)
next
  case (Cons r rs)
  then show ?case by (auto simp: result_split intro: delivers_trans [OF delivers_resolve_notice])
qed

lemma delivers_observe: "observe_telegram ob ns dest time ids = Inr (ob', ds) \<Longrightarrow> delivers ob ob'"
  by (auto simp: observe_telegram_def Let_def result_split split: if_splits
      intro: delivers_trans [OF delivers_observe_all delivers_resolve_all])

lemma delivers_enqueue: "enqueue_telegram ob d = Inr (ob', d') \<Longrightarrow> delivers ob ob'"
  by (auto simp: enqueue_telegram_def result_split split: if_splits option.splits
      intro: delivers_same delivers_insert)

lemma delivers_claim: "claim_telegram_part ob i k = Inr (ob', b) \<Longrightarrow> delivers ob ob'"
  by (auto simp: claim_telegram_part_def result_split later_def split: if_splits option.splits dest!: load_SomeD
      intro: delivers_same elim!: delivers_save)

lemma delivers_unknown: "mark_telegram_unknown ob i = Inr ob' \<Longrightarrow> delivers ob ob'"
  by (auto simp: mark_telegram_unknown_def result_split later_def split: if_splits option.splits dest!: load_SomeD
      intro: delivers_same elim!: delivers_save)

lemma delivers_confirm: "confirm_telegram_part ob i k m = Inr (ob', b) \<Longrightarrow> delivers ob ob'"
  by (auto simp: confirm_telegram_part_def result_split later_def split: if_splits option.splits dest!: load_SomeD
      intro: delivers_same elim!: delivers_save)

lemma delivers_abandon_unknown: "abandon_unknown_telegram ob i reason = Inr (ob', b) \<Longrightarrow> delivers ob ob'"
  by (auto simp: abandon_unknown_telegram_def result_split later_def split: if_splits option.splits dest!: load_SomeD
      intro: delivers_same elim!: delivers_save)

lemma delivers_recover: "delivers ob (recover_telegram_attempts ob)"
  unfolding delivers_def rows_grow_def recover_telegram_attempts_def by (subst row_of_map) (auto simp: later_def)

lemma step_delivers:
  assumes "outbox_step ob op = Inr (ob', out)"
  shows "delivers ob ob' \<or> (\<exists>b u h r. op = ClaimUpdateOp b u h \<and> claim_telegram_update ob b u h = Inr (ob', r))
    \<or> (\<exists>b u d r. op = ClaimActionOp b u d \<and> claim_telegram_action ob b u d = (ob', r))
    \<or> (\<exists>b u x r. op = FinishUpdateOp b u x \<and> finish_telegram_update ob b u x = Inr (ob', r))"
  using assms
  by (cases op)
    (auto simp: result_split delivers_recover split: prod.splits
      intro: delivers_observe delivers_enqueue delivers_claim delivers_unknown delivers_confirm delivers_abandon_unknown)

lemma ledger_rows:
  "claim_telegram_update ob b u h = Inr (ob', r) \<Longrightarrow> ob_rows ob' = ob_rows ob"
  "claim_telegram_action ob b u d = (ob', r) \<Longrightarrow> ob_rows ob' = ob_rows ob"
  "finish_telegram_update ob b u x = Inr (ob', r) \<Longrightarrow> ob_rows ob' = ob_rows ob"
  by (auto simp: claim_telegram_update_def claim_telegram_action_def finish_telegram_update_def
      split: if_splits option.splits)

lemma rows_grow_step: "outbox_step ob op = Inr (ob', out) \<Longrightarrow> rows_grow ob ob'"
  using step_delivers [of ob op ob' out] ledger_rows rows_grow_same by (metis delivers_def)

lemma rows_grow_run: "accepts outbox_step ob ops ob' \<Longrightarrow> rows_grow ob ob'"
proof (induction rule: accepts.induct)
  case (accepts_nil s)
  show ?case by (simp add: rows_grow_same)
next
  case (accepts_snoc s ins t i u os)
  then show ?case by (meson rows_grow_step rows_grow_trans)
qed

lemma claim_part_True:
  assumes "claim_telegram_part ob ident part = Inr (ob', True)"
  obtains d where "row_of ob ident = Some d" "delivery_valid d" "td_next_part d = part" "\<not> td_in_flight d" "\<not> td_abandoned d"
    "part < length (td_parts d)" "row_of ob' ident = Some (d\<lparr>td_in_flight := True\<rparr>)"
proof -
  from assms obtain d where d: "row_of ob ident = Some d" "td_id d = ident" "delivery_valid d" "td_next_part d = part"
    "\<not> td_in_flight d" "\<not> td_abandoned d" "\<not> complete d" "save_delivery ob (d\<lparr>td_in_flight := True\<rparr>) = Inr ob'"
    by (auto simp: claim_telegram_part_def result_split dest!: load_SomeD split: option.splits if_splits)
  moreover have "part < length (td_parts d)" using d by (auto simp: complete_def delivery_valid_def)
  moreover have "row_of ob' ident = Some (d\<lparr>td_in_flight := True\<rparr>)" using d by (simp add: row_of_save(1) [OF d(8)])
  ultimately show thesis using that by blast
qed

text \<open>A sample outbox: one notice was observed. Its only part is claimed and its receipt is lost in a restart.\<close>

definition sample_notice :: TelegramNotice where
  "sample_notice = \<lparr>no_topic_id = None, no_key = ''k'', no_attention = None, no_task_version = None,
     no_notification = \<lparr>nt_severity = Info, nt_title = ''t'', nt_body = ''b'', nt_task_id = None\<rparr>\<rparr>"

definition sample_outbox :: Outbox where
  "sample_outbox = \<lparr>ob_rows = [TelegramDelivery_new ''d'' \<lparr>ds_bot_id = 5, ds_chat_id = 7, ds_topic_id = None\<rparr>
     (no_notification sample_notice) 1], ob_notices = [\<lparr>nr_source = ''k'', nr_delivery = ''d'', nr_active = True\<rparr>], ob_updates = []\<rparr>"

definition sample_claimed :: Outbox where
  "sample_claimed = sample_outbox\<lparr>ob_rows := map (\<lambda>d. d\<lparr>td_in_flight := True\<rparr>) (ob_rows sample_outbox)\<rparr>"

lemma sample_observed:
  "outbox_step empty_outbox (ObserveOp [sample_notice] \<lparr>ds_bot_id = 5, ds_chat_id = 7, ds_topic_id = None\<rparr> 1 (\<lambda>_. Some ''d''))
     = Inr (sample_outbox, [])"
  by code_simp

lemma sample_claim: "claim_telegram_part sample_outbox ''d'' 0 = Inr (sample_claimed, True)"
  by code_simp

text \<open>A part is spent once it was claimed.\<close>

definition claimed :: "Outbox \<Rightarrow> string \<times> nat \<Rightarrow> bool" where
  "claimed ob key \<longleftrightarrow> (case key of (ident, part) \<Rightarrow>
     \<exists>d. row_of ob ident = Some d \<and> (part < td_next_part d \<or> part = td_next_part d \<and> td_in_flight d))"

lemma claimed_stays: "claimed ob key \<Longrightarrow> rows_grow ob ob' \<Longrightarrow> claimed ob' key"
  unfolding claimed_def rows_grow_def later_def by (cases key) fastforce

interpretation parts: at_most_once rows_grow claimed
  by unfold_locales (blast intro: rows_grow_trans claimed_stays)+

lemma claim_part_spends:
  assumes "claim_telegram_part ob ident part = Inr (ob', True)"
  shows "spends rows_grow claimed ob [(ident, part)] ob'"
proof (rule parts.spends_one)
  show "rows_grow ob ob'" using delivers_claim [OF assms] by (simp add: delivers_def)
  from assms obtain d where "row_of ob ident = Some d" "td_next_part d = part" "\<not> td_in_flight d"
    "row_of ob' ident = Some (d\<lparr>td_in_flight := True\<rparr>)" by (rule claim_part_True)
  then show "\<not> claimed ob (ident, part)" "claimed ob' (ident, part)" by (auto simp: claimed_def)
qed

text \<open>A part of a notification is handed to Telegram at most once. A claim succeeds only for the next part of a
  valid delivery that is not given up, and only when every earlier part has its receipt; after it succeeded,
  no claim of the same part ever succeeds again, whatever the store does in between: other senders, lost
  receipts, reboots, an operator who gives up the delivery. An unknown outcome is never sent again.\<close>

theorem part_is_claimed_once:
  assumes "claim_telegram_part ob ident part = Inr (ob1, True)" and "accepts outbox_step ob1 ops ob2"
  shows "(\<exists>d. row_of ob ident = Some d \<and> part < length (render (td_notification d)) \<and> length (td_message_ids d) = part \<and> \<not> td_abandoned d)
    \<and> claim_telegram_part ob2 ident part \<noteq> Inr (ob3, True)"
proof -
  from assms(1) obtain d where d: "row_of ob ident = Some d" "delivery_valid d" "td_next_part d = part" "\<not> td_abandoned d"
    "part < length (td_parts d)" "row_of ob1 ident = Some (d\<lparr>td_in_flight := True\<rparr>)" by (rule claim_part_True)
  obtain d2 where d2: "row_of ob2 ident = Some d2" "later (d\<lparr>td_in_flight := True\<rparr>) d2"
    using rows_grow_run [OF assms(2)] d(6) unfolding rows_grow_def by blast
  have "claim_telegram_part ob2 ident part \<noteq> Inr (ob3, True)"
  proof
    assume "claim_telegram_part ob2 ident part = Inr (ob3, True)"
    then obtain x where "row_of ob2 ident = Some x" "td_next_part x = part" "\<not> td_in_flight x" by (rule claim_part_True)
    with d2 d(3) show False by (simp add: later_def)
  qed
  with d show ?thesis by (auto simp: delivery_valid_def)
qed

theorem part_is_claimed_once_witness:
  "claim_telegram_part sample_outbox ''d'' 0 = Inr (sample_claimed, True)
    \<and> claim_telegram_part (recover_telegram_attempts sample_claimed) ''d'' 0 \<noteq> Inr (sample_claimed, True)"
proof -
  have "accepts outbox_step sample_claimed [RecoverOp] (recover_telegram_attempts sample_claimed)"
    by (rule accepts_Cons) (simp, rule accepts_nil)
  from part_is_claimed_once [OF sample_claim this] sample_claim show ?thesis by simp
qed

section \<open>Updates and actions\<close>

definition carries :: "UpdateRow \<Rightarrow> UpdateRow \<Rightarrow> bool" where
  "carries r r' \<longleftrightarrow> ur_bot r' = ur_bot r \<and> ur_update r' = ur_update r \<and> (ur_delivery r \<noteq> None \<longrightarrow> ur_delivery r' = ur_delivery r)"

definition ledger_grows :: "Outbox \<Rightarrow> Outbox \<Rightarrow> bool" where
  "ledger_grows ob ob' \<longleftrightarrow> (\<forall>r \<in> set (ob_updates ob). \<exists>r' \<in> set (ob_updates ob'). carries r r')"

definition ledger_keys :: "Outbox \<Rightarrow> (u64 \<times> int) list" where
  "ledger_keys ob = map (\<lambda>r. (ur_bot r, ur_update r)) (ob_updates ob)"

definition updates_ok :: "Outbox \<Rightarrow> bool" where
  "updates_ok ob \<longleftrightarrow> distinct (ledger_keys ob)"

lemma carries_refl [simp]: "carries r r"
  by (simp add: carries_def)

lemma carries_trans: "carries a b \<Longrightarrow> carries b c \<Longrightarrow> carries a c"
  by (auto simp: carries_def)

lemma ledger_grows_trans: "ledger_grows a b \<Longrightarrow> ledger_grows b c \<Longrightarrow> ledger_grows a c"
  unfolding ledger_grows_def by (meson carries_trans)

lemma update_row_None: "update_row ob b u = None \<longleftrightarrow> (b, u) \<notin> set (ledger_keys ob)"
  by (auto simp: update_row_def ledger_keys_def find_None_iff)

text \<open>Every operation maps the rows of the ledger, keeping key and delivery, and may add one with a new key.\<close>

lemma step_ledger:
  assumes "outbox_step ob op = Inr (ob', out)"
  obtains f new where "ob_updates ob' = map f (ob_updates ob) @ new" "\<forall>r. carries r (f r)"
    "new = [] \<or> (\<exists>r. new = [r] \<and> update_row ob (ur_bot r) (ur_update r) = None)"
proof -
  let ?g = "\<lambda>b u d x. if unused_update b u x then x\<lparr>ur_delivery := Some d\<rparr> else x"
  let ?h = "\<lambda>b u out x. if ur_bot x = b \<and> ur_update x = u then x\<lparr>ur_outcome := Some out\<rparr> else x"
  have g: "\<forall>r. carries r (?g b u d r)" "\<forall>r. carries r (?h b u y r)" for b u d y
    by (auto simp: carries_def unused_update_def)
  from step_delivers [OF assms] consider "ob_updates ob' = ob_updates ob"
    | b u h r where "claim_telegram_update ob b u h = Inr (ob', r)"
    | b u d r where "claim_telegram_action ob b u d = (ob', r)"
    | b u x r where "finish_telegram_update ob b u x = Inr (ob', r)" by (auto simp: delivers_def)
  then show thesis
  proof cases
    case 1
    with that [of id "[]"] show thesis by simp
  next
    case 2
    then show thesis
      using that [of id "[]"] that [of id "[\<lparr>ur_bot = b, ur_update = u, ur_fingerprint = h, ur_outcome = None, ur_delivery = None\<rparr>]"]
      by (auto simp: claim_telegram_update_def split: if_splits option.splits)
  next
    case 3
    then show thesis
      using that [of id "[]"] that [of "?g b u d" "[]"] g(1) by (auto simp: claim_telegram_action_def split: if_splits)
  next
    case 4
    then show thesis
      using that [of id "[]"] that [of "?h b u x" "[]"] g(2)
      by (auto simp: finish_telegram_update_def split: if_splits option.splits)
  qed
qed

lemma ledger_grows_step: "outbox_step ob op = Inr (ob', out) \<Longrightarrow> ledger_grows ob ob'"
  by (erule step_ledger) (auto simp: ledger_grows_def)

lemma updates_ok_step: "updates_ok ob \<Longrightarrow> outbox_step ob op = Inr (ob', out) \<Longrightarrow> updates_ok ob'"
proof (erule step_ledger)
  fix f new
  assume ok: "updates_ok ob" and new: "ob_updates ob' = map f (ob_updates ob) @ new" "\<forall>r. carries r (f r)"
    "new = [] \<or> (\<exists>r. new = [r] \<and> update_row ob (ur_bot r) (ur_update r) = None)"
  have "map (\<lambda>r. (ur_bot (f r), ur_update (f r))) (ob_updates ob) = ledger_keys ob"
    using new(2) by (simp add: ledger_keys_def carries_def)
  then have "ledger_keys ob' = ledger_keys ob @ map (\<lambda>r. (ur_bot r, ur_update r)) new"
    using new(1) by (simp add: ledger_keys_def o_def)
  with ok new(3) show "updates_ok ob'" by (auto simp: updates_ok_def update_row_None)
qed

interpretation outbox: invariant_transition outbox_step updates_ok
  by unfold_locales (rule updates_ok_step)

lemma ledger_grows_run: "accepts outbox_step ob ops ob' \<Longrightarrow> ledger_grows ob ob'"
proof (induction rule: accepts.induct)
  case (accepts_nil s)
  show ?case unfolding ledger_grows_def by (blast intro: carries_refl)
next
  case (accepts_snoc s ins t i u os)
  then show ?case by (meson ledger_grows_step ledger_grows_trans)
qed

lemma claim_action_True:
  assumes "claim_telegram_action ob b u d = (ob', True)"
  obtains r where "r \<in> set (ob_updates ob')" "ur_bot r = b" "ur_update r = u" "ur_delivery r = Some d"
proof -
  from assms obtain x where "x \<in> set (ob_updates ob)" "unused_update b u x"
    and "ob' = ob\<lparr>ob_updates := map (\<lambda>x. if unused_update b u x then x\<lparr>ur_delivery := Some d\<rparr> else x) (ob_updates ob)\<rparr>"
    by (auto simp: claim_telegram_action_def list_ex_iff split: if_splits)
  with that [of "x\<lparr>ur_delivery := Some d\<rparr>"] show thesis by (force simp: unused_update_def)
qed

text \<open>C21: What arrives from Telegram acts at most once. In every reachable outbox, after an update was claimed no
  later claim of it succeeds; after an update was allowed to act on a notification, no update ever acts on
  that notification again and that update acts on nothing else. A restart between claim and effect therefore
  loses the effect instead of repeating it.\<close>

theorem update_acts_once:
  assumes "accepts outbox_step empty_outbox before ob"
  shows "(claim_telegram_update ob b u h = Inr (ob1, True) \<longrightarrow> accepts outbox_step ob1 ops ob2 \<longrightarrow>
      claim_telegram_update ob2 b u h' \<noteq> Inr (ob3, True))
    \<and> (claim_telegram_action ob b u d = (ob1, True) \<longrightarrow> accepts outbox_step ob1 ops ob2 \<longrightarrow>
      \<not> snd (claim_telegram_action ob2 b' u' d) \<and> \<not> snd (claim_telegram_action ob2 b u d'))"
proof (intro conjI impI)
  assume "claim_telegram_update ob b u h = Inr (ob1, True)" and run: "accepts outbox_step ob1 ops ob2"
  then have "(b, u) \<in> set (ledger_keys ob1)"
    by (auto simp: claim_telegram_update_def ledger_keys_def split: if_splits option.splits)
  then obtain r where "r \<in> set (ob_updates ob1)" "ur_bot r = b" "ur_update r = u" by (auto simp: ledger_keys_def)
  with ledger_grows_run [OF run] have "\<exists>x \<in> set (ob_updates ob2). ur_bot x = b \<and> ur_update x = u"
    unfolding ledger_grows_def carries_def by metis
  then have "(b, u) \<in> set (ledger_keys ob2)" by (force simp: ledger_keys_def)
  then show "claim_telegram_update ob2 b u h' \<noteq> Inr (ob3, True)"
    using update_row_None [of ob2 b u] by (auto simp: claim_telegram_update_def split: if_splits)
next
  assume c: "claim_telegram_action ob b u d = (ob1, True)" and run: "accepts outbox_step ob1 ops ob2"
  from c obtain r where r: "r \<in> set (ob_updates ob1)" "ur_bot r = b" "ur_update r = u" "ur_delivery r = Some d"
    by (rule claim_action_True)
  obtain x where x: "x \<in> set (ob_updates ob2)" "carries r x"
    using ledger_grows_run [OF run] r(1) by (auto simp: ledger_grows_def)
  with r(4) show "\<not> snd (claim_telegram_action ob2 b' u' d)"
    by (auto simp: claim_telegram_action_def list_ex_iff carries_def)
  have "outbox_step ob (ClaimActionOp b u d) = Inr (ob1, [True])" by (simp add: c)
  from accepts_Cons [of outbox_step, OF this run] have "accepts outbox_step empty_outbox (before @ ClaimActionOp b u d # ops) ob2"
    by (rule accepts_append [OF assms])
  then have "updates_ok ob2" by (rule outbox.run_inv) (simp add: updates_ok_def ledger_keys_def empty_outbox_def)
  then have one: "y = x" if "y \<in> set (ob_updates ob2)" "ur_bot y = b" "ur_update y = u" for y
    using x r that by (auto simp: updates_ok_def ledger_keys_def carries_def distinct_map inj_on_def)
  have "\<not> unused_update b u y" if "y \<in> set (ob_updates ob2)" for y
  proof
    assume y: "unused_update b u y"
    then have "y = x" by (intro one that) (simp_all add: unused_update_def)
    with y x(2) r(4) show False by (simp add: unused_update_def carries_def)
  qed
  then show "\<not> snd (claim_telegram_action ob2 b u d')"
    by (auto simp: claim_telegram_action_def list_ex_iff)
qed

definition sample_hash :: string where
  "sample_hash = replicate 64 CHR ''a''"

definition sample_updated :: Outbox where
  "sample_updated = sample_outbox\<lparr>ob_updates := [\<lparr>ur_bot = 5, ur_update = 1, ur_fingerprint = sample_hash, ur_outcome = None,
     ur_delivery = None\<rparr>]\<rparr>"

theorem update_acts_once_witness:
  "claim_telegram_update sample_outbox 5 1 sample_hash = Inr (sample_updated, True)
    \<and> claim_telegram_update (recover_telegram_attempts sample_updated) 5 1 sample_hash \<noteq> Inr (sample_updated, True)"
proof -
  have run: "accepts outbox_step empty_outbox [ObserveOp [sample_notice] \<lparr>ds_bot_id = 5, ds_chat_id = 7, ds_topic_id = None\<rparr> 1
      (\<lambda>_. Some ''d'')] sample_outbox"
    using sample_observed by (rule accepts_Cons) (rule accepts_nil)
  have claim: "claim_telegram_update sample_outbox 5 1 sample_hash = Inr (sample_updated, True)" by code_simp
  have "accepts outbox_step sample_updated [RecoverOp] (recover_telegram_attempts sample_updated)"
    by (rule accepts_Cons) (simp, rule accepts_nil)
  with update_acts_once [OF run] claim show ?thesis by blast
qed

end
