(* ===== verification/Telegram_Pairing.thy ===== *)
theory Telegram_Pairing
  imports Daemon_Ops
begin

text \<open>
  How a Telegram chat is paired with the daemon: the settings (\<^verbatim>\<open>agend-core/src/config.rs\<close>), the pairing session
  (\<^verbatim>\<open>agend-core/src/telegram/pairing.rs\<close>), its single row in the store
  (\<^verbatim>\<open>agend-daemon/src/store/telegram_pairing.rs\<close>) and the service that runs the operator's requests
  (\<^verbatim>\<open>notifier/pairing.rs\<close>, \<^verbatim>\<open>notifier/pairing_service.rs\<close>). What Telegram answers and what the clock says
  at each reading are arguments; a message is the record of the JSON members that the code looks at. Chat, topic,
  message and update numbers are \<^verbatim>\<open>i64\<close>, kept as integers.
\<close>

section \<open>Settings\<close>

datatype SecretRef = Env string | File string

record TelegramConfig =
  tc_token :: SecretRef
  tc_chat_id :: int
  tc_allow_user_ids :: "u64 list"
  tc_needs_you_topic :: "int option"
  tc_team_topics :: "(string \<times> int) list"

datatype PairingError = InvalidConfig | InvalidIdentity | ClockExhausted | PairingExpired | ManyDestinations
  | DestinationChanged | NotConfirmed | NoDestination | InvalidSession | PairingChanged | PairingPending | TransportFailed

definition valid_chat :: "int \<Rightarrow> bool" where
  "valid_chat i \<longleftrightarrow> i \<noteq> 0 \<and> \<bar>i\<bar> < 2 ^ 52"

definition bot_name_char :: "char \<Rightarrow> bool" where
  "bot_name_char c \<longleftrightarrow> is_ascii_alphanumeric c \<or> c = CHR ''_''"

fun token_valid :: "SecretRef \<Rightarrow> bool" where
  "token_valid (Env name) \<longleftrightarrow>
     (case name of [] \<Rightarrow> False | c # cs \<Rightarrow> (is_ascii_alphabetic c \<or> c = CHR ''_'') \<and> list_all bot_name_char cs)"
| "token_valid (File path) \<longleftrightarrow> starts_with path ''/'' \<and> CHR 0x00 \<notin> set path"

definition config_validate :: "TelegramConfig \<Rightarrow> PairingError + unit" where
  "config_validate c =
     ensure (valid_chat (tc_chat_id c) \<and> list_all (\<lambda>u. u \<noteq> 0 \<and> u < 2 ^ 52) (tc_allow_user_ids c)
       \<and> (case tc_needs_you_topic c of Some t \<Rightarrow> 0 < t | None \<Rightarrow> True)
       \<and> list_all (\<lambda>(tm, t). tm \<noteq> [] \<and> 0 < t) (tc_team_topics c)
       \<and> token_valid (tc_token c)) InvalidConfig"

definition config_allows :: "TelegramConfig \<Rightarrow> int \<Rightarrow> u64 \<Rightarrow> bool \<Rightarrow> bool" where
  "config_allows c chat user is_bot \<longleftrightarrow> \<not> is_bot \<and> chat = tc_chat_id c \<and> user \<in> set (tc_allow_user_ids c)"

section \<open>The session\<close>

definition PAIRING_WINDOW_MS :: u64 where
  "PAIRING_WINDOW_MS = 600000"

record PairingCandidate =
  pc_chat_id :: int
  pc_user_id :: u64
  pc_topic_id :: "int option"

record TelegramPairing =
  tp_id :: string
  tp_token :: SecretRef
  tp_bot_id :: u64
  tp_bot_username :: string
  tp_created_at :: u64
  tp_expires_at :: u64
  tp_offset :: int
  tp_candidate :: "PairingCandidate option"

definition config_for :: "TelegramPairing \<Rightarrow> PairingCandidate \<Rightarrow> PairingError + TelegramConfig" where
  "config_for p c =
     (let config = \<lparr>tc_token = tp_token p, tc_chat_id = pc_chat_id c, tc_allow_user_ids = [pc_user_id c],
                    tc_needs_you_topic = pc_topic_id c, tc_team_topics = []\<rparr>
      in and_then (config_validate config) (\<lambda>_. Inr config))"

definition TelegramPairing_new :: "string \<Rightarrow> SecretRef \<Rightarrow> u64 \<Rightarrow> string \<Rightarrow> u64 \<Rightarrow> PairingError + TelegramPairing" where
  "TelegramPairing_new ident token bot_id username time =
     (if \<not> is_uuid_v4 ident \<or> bot_id = 0 \<or> 2 ^ 52 \<le> bot_id \<or> length username < 5 \<or> 32 < length username
         \<or> \<not> list_all bot_name_char username
      then Inl InvalidIdentity
      else if time + PAIRING_WINDOW_MS < time then Inl ClockExhausted
      else let p = \<lparr>tp_id = ident, tp_token = token, tp_bot_id = bot_id, tp_bot_username = username, tp_created_at = time,
                    tp_expires_at = time + PAIRING_WINDOW_MS, tp_offset = 0, tp_candidate = None\<rparr>
        in and_then (config_for p \<lparr>pc_chat_id = 1, pc_user_id = 1, pc_topic_id = None\<rparr>) (\<lambda>_. Inr p))"

definition check_time :: "TelegramPairing \<Rightarrow> u64 \<Rightarrow> PairingError + unit" where
  "check_time p time = ensure (tp_created_at p \<le> time \<and> time < tp_expires_at p) PairingExpired"

text \<open>The text that proves a destination: the start command with the id of the session.\<close>

definition proves :: "TelegramPairing \<Rightarrow> string \<Rightarrow> bool" where
  "proves p text \<longleftrightarrow>
     (case split_once (CHR '' '') text of
        None \<Rightarrow> False
      | Some (command, val) \<Rightarrow>
          val = ''agend_'' @ tp_id p
          \<and> (command = ''/start'' \<or> eq_ignore_ascii_case command (''/start@'' @ tp_bot_username p)))"

definition observe_candidate ::
    "TelegramPairing \<Rightarrow> PairingCandidate \<Rightarrow> string \<Rightarrow> u64 \<Rightarrow> u64 \<Rightarrow> u64 \<Rightarrow> PairingError + TelegramPairing \<times> bool" where
  "observe_candidate p c text date time time' =
     and_then (check_time p time) (\<lambda>_.
       if \<not> proves p text then Inr (p, False)
       else if date < tp_created_at p div 1000 \<or> time' div 1000 < date then Inr (p, False)
       else and_then (config_for p c) (\<lambda>_.
         if tp_candidate p \<noteq> None \<and> tp_candidate p \<noteq> Some c then Inl ManyDestinations
         else Inr (p\<lparr>tp_candidate := Some c\<rparr>, True)))"

definition pairing_confirm :: "TelegramPairing \<Rightarrow> PairingCandidate \<Rightarrow> u64 \<Rightarrow> PairingError + TelegramConfig" where
  "pairing_confirm p expected time =
     and_then (check_time p time) (\<lambda>_.
       if tp_candidate p \<noteq> Some expected then Inl DestinationChanged else config_for p expected)"

datatype PairingPhase = Pending | Confirmed | Cancelled

record PairingRecord =
  pd_session :: TelegramPairing
  pd_phase :: PairingPhase

definition configuration :: "PairingRecord \<Rightarrow> PairingError + TelegramConfig" where
  "configuration r =
     (if pd_phase r \<noteq> Confirmed then Inl NotConfirmed
      else and_then (ok_or (tp_candidate (pd_session r)) NoDestination) (config_for (pd_session r)))"

section \<open>The row in the store\<close>

text \<open>The store holds at most one record; a row that does not check is an error, not a pairing.\<close>

definition session_validate :: "TelegramPairing \<Rightarrow> PairingError + unit" where
  "session_validate s =
     and_then (TelegramPairing_new (tp_id s) (tp_token s) (tp_bot_id s) (tp_bot_username s) (tp_created_at s)) (\<lambda>rebuilt.
       if tp_offset s < 0 then Inl InvalidSession
       else if rebuilt\<lparr>tp_offset := tp_offset s, tp_candidate := tp_candidate s\<rparr> \<noteq> s then Inl InvalidSession
       else (case tp_candidate s of
               Some c \<Rightarrow> and_then (pairing_confirm s c (tp_created_at s)) (\<lambda>_. Inr ())
             | None \<Rightarrow> Inr ()))"

definition pairing_read :: "PairingRecord option \<Rightarrow> PairingError + PairingRecord option" where
  "pairing_read row =
     (case row of
        None \<Rightarrow> Inr None
      | Some r \<Rightarrow>
          and_then (session_validate (pd_session r)) (\<lambda>_.
            if pd_phase r = Confirmed \<and> tp_candidate (pd_session r) = None then Inl InvalidSession else Inr (Some r)))"

definition session_id :: "PairingRecord option \<Rightarrow> string option" where
  "session_id row = map_option (\<lambda>r. tp_id (pd_session r)) row"

text \<open>A new session may not replace one that is still pending, nor use the id of the one that is there.\<close>

definition taken :: "string \<Rightarrow> u64 \<Rightarrow> PairingRecord option \<Rightarrow> bool" where
  "taken ident time row \<longleftrightarrow>
     (case row of
        Some r \<Rightarrow> tp_id (pd_session r) = ident \<or> (pd_phase r = Pending \<and> time < tp_expires_at (pd_session r))
      | None \<Rightarrow> False)"

definition begin_telegram_pairing ::
    "PairingRecord option \<Rightarrow> TelegramPairing \<Rightarrow> string option \<Rightarrow> u64 \<Rightarrow> PairingError + PairingRecord" where
  "begin_telegram_pairing row session previous time =
     and_then (session_validate session) (\<lambda>_.
     and_then (check_time session time) (\<lambda>_.
       if tp_offset session \<noteq> 0 \<or> tp_candidate session \<noteq> None then Inl InvalidSession
       else and_then (pairing_read row) (\<lambda>current.
         if session_id current \<noteq> previous then Inl PairingChanged
         else if taken (tp_id session) time current then Inl PairingPending
         else Inr \<lparr>pd_session = session, pd_phase = Pending\<rparr>)))"

text \<open>The candidate and the next cursor are written together, and a candidate that is there stays.\<close>

definition observe_telegram_pairing ::
    "PairingRecord option \<Rightarrow> PairingRecord \<Rightarrow> TelegramPairing \<Rightarrow> u64 \<Rightarrow> PairingError + PairingRecord" where
  "observe_telegram_pairing row expected observed time =
     and_then (session_validate observed) (\<lambda>_.
     and_then (check_time observed time) (\<lambda>_.
       let old = pd_session expected in
       if observed\<lparr>tp_offset := tp_offset old, tp_candidate := tp_candidate old\<rparr> \<noteq> old
          \<or> tp_offset observed < tp_offset old
          \<or> (tp_candidate old \<noteq> None \<and> tp_candidate observed \<noteq> tp_candidate old)
          \<or> (tp_candidate observed \<noteq> tp_candidate old \<and> tp_offset observed = tp_offset old)
       then Inl InvalidSession
       else and_then (pairing_read row) (\<lambda>current.
         if pd_phase expected \<noteq> Pending \<or> current \<noteq> Some expected then Inl PairingChanged
         else Inr \<lparr>pd_session = observed, pd_phase = Pending\<rparr>)))"

definition close_telegram_pairing :: "PairingRecord option \<Rightarrow> PairingRecord \<Rightarrow> PairingPhase \<Rightarrow> PairingError + PairingRecord" where
  "close_telegram_pairing row expected phase =
     and_then (pairing_read row) (\<lambda>current.
       if pd_phase expected \<noteq> Pending \<or> current \<noteq> Some expected then Inl PairingChanged
       else Inr (expected\<lparr>pd_phase := phase\<rparr>))"

definition confirm_telegram_pairing ::
    "PairingRecord option \<Rightarrow> PairingRecord \<Rightarrow> PairingCandidate \<Rightarrow> u64 \<Rightarrow> PairingError + PairingRecord" where
  "confirm_telegram_pairing row expected c time =
     and_then (pairing_confirm (pd_session expected) c time) (\<lambda>_. close_telegram_pairing row expected Confirmed)"

section \<open>Messages\<close>

record PairingMessage =
  pm_is_bot :: "bool option"
  pm_keys :: "string list"
  pm_automatic_forward :: "bool option"
  pm_chat_type :: "string option"
  pm_message_id :: "int option"
  pm_thread :: "int option option"
  pm_is_topic :: "bool option"
  pm_chat_id :: "int option"
  pm_user_id :: "u64 option"
  pm_text :: "string option"
  pm_date :: "u64 option"

text \<open>
  Only a message that a person wrote in a chat counts: not one of a bot or a channel, nor a forwarded or edited one. The
  topic is \<open>None\<close> when the message is not usable, and otherwise the topic, if any.
\<close>

definition message_topic :: "PairingMessage \<Rightarrow> int option option" where
  "message_topic m =
     (case pm_thread m of
        Some v \<Rightarrow>
          if pm_chat_type m = Some ''supergroup'' \<and> pm_is_topic m = Some True
          then (case v of Some i \<Rightarrow> if 0 < i then Some (Some i) else None | None \<Rightarrow> None) else None
      | None \<Rightarrow> if pm_is_topic m = Some True then None else Some None)"

definition direct :: "PairingMessage \<Rightarrow> bool" where
  "direct m \<longleftrightarrow>
     pm_is_bot m = Some False
     \<and> \<not> list_ex (\<lambda>k. k \<in> set (pm_keys m)) [''sender_chat'', ''forward_origin'', ''forward_from'', ''forward_from_chat'', ''edit_date'']
     \<and> pm_automatic_forward m \<noteq> Some True
     \<and> pm_chat_type m \<in> {Some ''private'', Some ''group'', Some ''supergroup''}
     \<and> (case pm_message_id m of Some i \<Rightarrow> 0 < i | None \<Rightarrow> False)"

definition pairing_message :: "PairingMessage \<Rightarrow> (PairingCandidate \<times> string \<times> u64) option" where
  "pairing_message m =
     (if \<not> direct m then None
      else case (message_topic m, pm_chat_id m, pm_user_id m, pm_text m, pm_date m) of
        (Some topic, Some chat, Some user, Some text, Some date) \<Rightarrow>
          Some (\<lparr>pc_chat_id = chat, pc_user_id = user, pc_topic_id = topic\<rparr>, text, date)
      | _ \<Rightarrow> None)"

text \<open>The whole answer is checked before anything is read: at most 100 updates with rising numbers.\<close>

fun rising :: "int \<Rightarrow> int option list \<Rightarrow> bool" where
  "rising previous [] \<longleftrightarrow> True"
| "rising previous (i # rest) \<longleftrightarrow>
     (case i of Some n \<Rightarrow> 0 \<le> n \<and> n < 2 ^ 63 - 1 \<and> previous < n \<and> rising n rest | None \<Rightarrow> False)"

definition validated_batch :: "(int option \<times> 'a) list \<Rightarrow> int \<Rightarrow> (int \<times> 'a) list option" where
  "validated_batch updates offset =
     (if 100 < length updates \<or> offset - 1 < - (2 ^ 63) \<or> \<not> rising (offset - 1) (map fst updates) then None
      else Some (List.map_filter (\<lambda>(i, u). map_option (\<lambda>n. (n, u)) i) updates))"

section \<open>The service\<close>

record BotIdentity =
  bi_is_bot :: "bool option"
  bi_id :: "u64 option"
  bi_username :: "string option"

text \<open>What Telegram answers and what the clock says during one request.\<close>

record PairingWorld =
  pw_me :: "BotIdentity option"
  pw_updates :: "(int option \<times> PairingMessage option) list option"
  pw_token_resolves :: bool
  pw_clock :: "nat \<Rightarrow> u64"

definition verify_bot :: "PairingWorld \<Rightarrow> TelegramPairing \<Rightarrow> PairingError + unit" where
  "verify_bot w p =
     (case pw_me w of
        None \<Rightarrow> Inl TransportFailed
      | Some me \<Rightarrow> ensure (bi_is_bot me = Some True \<and> bi_id me = Some (tp_bot_id p) \<and> bi_username me = Some (tp_bot_username p))
                    InvalidIdentity)"

definition pairing_begin :: "PairingWorld \<Rightarrow> string \<Rightarrow> SecretRef \<Rightarrow> u64 \<Rightarrow> PairingError + TelegramPairing" where
  "pairing_begin w ident token time =
     (case pw_me w of
        None \<Rightarrow> Inl TransportFailed
      | Some me \<Rightarrow>
          if bi_is_bot me \<noteq> Some True then Inl InvalidIdentity
          else and_then (ok_or (bi_id me) InvalidIdentity) (\<lambda>bot_id.
               and_then (ok_or (bi_username me) InvalidIdentity) (\<lambda>username.
                 TelegramPairing_new ident token bot_id username time)))"

fun observe_batch ::
    "(nat \<Rightarrow> u64) \<Rightarrow> nat \<Rightarrow> (int \<times> PairingMessage option) list \<Rightarrow> TelegramPairing \<Rightarrow> PairingError + TelegramPairing" where
  "observe_batch clock k [] p = Inr p"
| "observe_batch clock k ((i, m) # rest) p =
     and_then (case Option.bind m pairing_message of
         Some (c, text, date) \<Rightarrow> map_sum id fst (observe_candidate p c text date (clock k) (clock (k + 1)))
       | None \<Rightarrow> Inr p) (\<lambda>p'.
       observe_batch clock (k + 2) rest (p'\<lparr>tp_offset := i + 1\<rparr>))"

definition pairing_poll :: "PairingWorld \<Rightarrow> TelegramPairing \<Rightarrow> PairingError + TelegramPairing" where
  "pairing_poll w p =
     and_then (check_time p (pw_clock w 1)) (\<lambda>_.
       if tp_candidate p \<noteq> None then Inr p
       else and_then (verify_bot w p) (\<lambda>_.
            and_then (check_time p (pw_clock w 2)) (\<lambda>_.
            and_then (ok_or (pw_updates w) TransportFailed) (\<lambda>updates.
            and_then (check_time p (pw_clock w 3)) (\<lambda>_.
            and_then (ok_or (validated_batch updates (tp_offset p)) TransportFailed) (\<lambda>batch.
              observe_batch (pw_clock w) 20 batch p))))))"

definition pairing_confirm_service :: "PairingWorld \<Rightarrow> TelegramPairing \<Rightarrow> PairingCandidate \<Rightarrow> PairingError + TelegramConfig" where
  "pairing_confirm_service w p c =
     and_then (pairing_confirm p c (pw_clock w 1)) (\<lambda>_.
     and_then (verify_bot w p) (\<lambda>_. pairing_confirm p c (pw_clock w 2)))"

datatype PairingOperation = Status | Begin string SecretRef "string option" | Poll string | Confirm string PairingCandidate | Cancel string

fun names_session :: "PairingOperation \<Rightarrow> string option" where
  "names_session (Poll i) = Some i"
| "names_session (Confirm i _) = Some i"
| "names_session (Cancel i) = Some i"
| "names_session _ = None"

text \<open>The row after a request; \<open>configured\<close> says that the daemon runs with Telegram settings.\<close>

definition pairing_run :: "bool \<Rightarrow> PairingRecord option \<Rightarrow> PairingOperation \<Rightarrow> PairingWorld \<Rightarrow> PairingError + PairingRecord option" where
  "pairing_run configured row op w =
     and_then (pairing_read row) (\<lambda>current.
       if op = Status then Inr row
       else if configured \<and> (case op of Cancel _ \<Rightarrow> False | _ \<Rightarrow> True) then Inl InvalidConfig
       else case op of
         Begin ident token previous \<Rightarrow>
           and_then (TelegramPairing_new ident token 1 ''validation_bot'' (pw_clock w 10)) (\<lambda>_.
             if session_id current \<noteq> previous \<or> taken ident (pw_clock w 11) current then Inl PairingChanged
             else if \<not> pw_token_resolves w then Inl InvalidConfig
             else and_then (pairing_begin w ident token (pw_clock w 12)) (\<lambda>p.
                  and_then (begin_telegram_pairing row p previous (pw_clock w 13)) (\<lambda>r. Inr (Some r))))
       | _ \<Rightarrow>
           and_then (ok_or current NoDestination) (\<lambda>r.
             if names_session op \<noteq> Some (tp_id (pd_session r)) \<or> pd_phase r \<noteq> Pending then Inl PairingChanged
             else and_then (case op of
                 Poll _ \<Rightarrow>
                   and_then (check_time (pd_session r) (pw_clock w 0)) (\<lambda>_.
                     if \<not> pw_token_resolves w then Inl InvalidConfig
                     else and_then (pairing_poll w (pd_session r)) (\<lambda>p.
                       observe_telegram_pairing row r p (pw_clock w 14)))
               | Confirm _ c \<Rightarrow>
                   and_then (pairing_confirm (pd_session r) c (pw_clock w 0)) (\<lambda>_.
                     if \<not> pw_token_resolves w then Inl InvalidConfig
                     else and_then (pairing_confirm_service w (pd_session r) c) (\<lambda>_.
                       confirm_telegram_pairing row r c (pw_clock w 14)))
               | _ \<Rightarrow> close_telegram_pairing row r Cancelled) (\<lambda>r'. Inr (Some r'))))"

section \<open>A confirmed destination was proven\<close>

fun pairing_step :: "bool \<Rightarrow> PairingRecord option \<Rightarrow> PairingOperation \<times> PairingWorld \<Rightarrow> PairingError + PairingRecord option \<times> unit list" where
  "pairing_step configured row (op, w) = map_sum id (\<lambda>r. (r, [])) (pairing_run configured row op w)"

definition proof_message :: "TelegramPairing \<Rightarrow> PairingCandidate \<Rightarrow> PairingMessage \<Rightarrow> bool" where
  "proof_message p c m \<longleftrightarrow>
     (\<exists>text date. pairing_message m = Some (c, text, date) \<and> proves p text \<and> tp_created_at p div 1000 \<le> date)"

definition polled :: "(PairingOperation \<times> PairingWorld) list \<Rightarrow> TelegramPairing \<Rightarrow> PairingCandidate \<Rightarrow> bool" where
  "polled ops p c \<longleftrightarrow>
     (\<exists>w ups i m. (Poll (tp_id p), w) \<in> set ops \<and> pw_updates w = Some ups \<and> (i, Some m) \<in> set ups \<and> proof_message p c m)"

definition proven :: "(PairingOperation \<times> PairingWorld) list \<Rightarrow> PairingRecord \<Rightarrow> bool" where
  "proven ops r \<longleftrightarrow>
     (\<forall>c. tp_candidate (pd_session r) = Some c \<longrightarrow> polled ops (pd_session r) c)
     \<and> (pd_phase r = Confirmed \<longrightarrow> (\<exists>c w. tp_candidate (pd_session r) = Some c \<and> (Confirm (tp_id (pd_session r)) c, w) \<in> set ops))"

definition same_session :: "TelegramPairing \<Rightarrow> TelegramPairing \<Rightarrow> bool" where
  "same_session p q \<longleftrightarrow> tp_id q = tp_id p \<and> tp_bot_username q = tp_bot_username p \<and> tp_created_at q = tp_created_at p"

lemma same_session_proof: "same_session p q \<Longrightarrow> proof_message q c m = proof_message p c m"
  unfolding same_session_def proof_message_def proves_def by (elim conjE) (simp only:)

lemma observe_candidate_Inr:
  assumes "observe_candidate p c text date t t' = Inr (p', b)"
  shows "same_session p p' \<and> (tp_candidate p' = tp_candidate p
    \<or> tp_candidate p' = Some c \<and> proves p text \<and> tp_created_at p div 1000 \<le> date)"
  using assms by (auto simp: observe_candidate_def result_split same_session_def not_less split: if_splits)

lemma observe_batch_Inr:
  "observe_batch clock k batch p = Inr p' \<Longrightarrow>
     same_session p p' \<and> (tp_candidate p' = tp_candidate p
       \<or> (\<exists>c i m. tp_candidate p' = Some c \<and> (i, Some m) \<in> set batch \<and> proof_message p c m))"
proof (induction clock k batch p rule: observe_batch.induct)
  case (1 clock k p)
  then show ?case by (simp add: same_session_def)
next
  case (2 clock k i m rest p)
  obtain p1 where p1: "(case Option.bind m pairing_message of
         Some (c, text, date) \<Rightarrow> map_sum id fst (observe_candidate p c text date (clock k) (clock (k + 1)))
       | None \<Rightarrow> Inr p) = Inr p1" "observe_batch clock (k + 2) rest (p1\<lparr>tp_offset := i + 1\<rparr>) = Inr p'"
    using 2(2) by (auto simp: result_split)
  have "same_session p p1 \<and> (tp_candidate p1 = tp_candidate p
      \<or> (\<exists>c n. tp_candidate p1 = Some c \<and> m = Some n \<and> proof_message p c n))"
  proof (cases "Option.bind m pairing_message")
    case None
    with p1(1) show ?thesis by (simp add: same_session_def)
  next
    case (Some x)
    then obtain n c tx date where n: "m = Some n" "pairing_message n = Some (c, tx, date)" "x = (c, tx, date)"
      by (cases x) (auto simp: bind_eq_Some_conv)
    with p1(1) Some obtain b where "observe_candidate p c tx date (clock k) (clock (k + 1)) = Inr (p1, b)"
      by (cases "observe_candidate p c tx date (clock k) (clock (k + 1))") auto
    from observe_candidate_Inr [OF this] n show ?thesis by (auto simp: proof_message_def)
  qed
  then have a: "same_session p p1" "tp_candidate p1 = tp_candidate p
      \<or> (\<exists>c n. tp_candidate p1 = Some c \<and> m = Some n \<and> proof_message p c n)" by simp_all
  have s: "same_session p (p1\<lparr>tp_offset := i + 1\<rparr>)" using a(1) by (simp add: same_session_def)
  have b: "same_session (p1\<lparr>tp_offset := i + 1\<rparr>) p' \<and> (tp_candidate p' = tp_candidate p1
       \<or> (\<exists>c i m. tp_candidate p' = Some c \<and> (i, Some m) \<in> set rest \<and> proof_message p c m))"
    using "2.IH" [OF p1(2)] same_session_proof [OF s] by simp
  have "same_session p p'" using s b by (auto simp: same_session_def)
  then show ?case using a(2) b by (metis list.set_intros)
qed

lemma validated_batch_set: "validated_batch ups off = Some batch \<Longrightarrow> (i, u) \<in> set batch \<Longrightarrow> (Some i, u) \<in> set ups"
  by (auto simp: validated_batch_def List.map_filter_def split: if_splits)

lemma pairing_poll_Inr:
  assumes "pairing_poll w p = Inr p'"
  shows "same_session p p' \<and> (tp_candidate p' = tp_candidate p
    \<or> (\<exists>c ups i m. tp_candidate p' = Some c \<and> pw_updates w = Some ups \<and> (i, Some m) \<in> set ups \<and> proof_message p c m))"
proof (cases "tp_candidate p = None")
  case True
  with assms obtain ups batch where b: "pw_updates w = Some ups" "validated_batch ups (tp_offset p) = Some batch"
    "observe_batch (pw_clock w) 20 batch p = Inr p'" by (auto simp: pairing_poll_def result_split)
  from observe_batch_Inr [OF b(3)] validated_batch_set [OF b(2)] b(1) show ?thesis by blast
next
  case False
  with assms show ?thesis by (auto simp: pairing_poll_def result_split same_session_def)
qed

lemma pairing_read_Inr: "pairing_read row = Inr current \<Longrightarrow> current = row"
  by (auto simp: pairing_read_def result_split split: option.splits if_splits)

lemma polled_more: "polled ops p c \<Longrightarrow> polled (ops @ others) p c"
  unfolding polled_def set_append by blast

lemma polled_session: "same_session p q \<Longrightarrow> polled ops q c = polled ops p c"
  using same_session_proof [of p q] by (simp add: polled_def same_session_def)

lemma proven_more: "proven ops r \<Longrightarrow> proven (ops @ others) r"
  unfolding proven_def polled_def set_append by blast

lemma proven_step:
  assumes "\<And>r. row = Some r \<Longrightarrow> proven ops r" and "pairing_run configured row op w = Inr (Some r')"
  shows "proven (ops @ [(op, w)]) r'"
proof -
  from assms(2) have read: "pairing_read row = Inr row" by (auto simp: pairing_run_def result_split dest: pairing_read_Inr)
  show ?thesis
  proof (cases op)
    case Status
    with assms read show ?thesis by (auto simp: pairing_run_def intro: proven_more)
  next
    case (Begin i tok prev)
    with assms(2) read obtain p where "begin_telegram_pairing row p prev (pw_clock w 13) = Inr r'"
      by (auto simp: pairing_run_def result_split split: if_splits)
    then show ?thesis by (auto simp: begin_telegram_pairing_def result_split proven_def split: if_splits)
  next
    case (Poll i)
    with assms(2) read obtain r p where r: "row = Some r" "i = tp_id (pd_session r)"
      "pairing_poll w (pd_session r) = Inr p" "observe_telegram_pairing row r p (pw_clock w 14) = Inr r'"
      by (auto simp: pairing_run_def result_split split: if_splits)
    have r': "r' = \<lparr>pd_session = p, pd_phase = Pending\<rparr>"
      using r(4) by (auto simp: observe_telegram_pairing_def result_split Let_def split: if_splits)
    note poll = pairing_poll_Inr [OF r(3)]
    have "polled (ops @ [(op, w)]) (pd_session r) c" if c: "tp_candidate p = Some c" for c
    proof (cases "tp_candidate (pd_session r) = Some c")
      case True
      with assms(1) [OF r(1)] show ?thesis by (simp add: proven_def polled_more)
    next
      case False
      with poll c Poll r(2) show ?thesis unfolding polled_def by auto
    qed
    then have "polled (ops @ [(op, w)]) p c" if "tp_candidate p = Some c" for c
      using polled_session conjunct1 [OF poll] that by blast
    then show ?thesis by (simp add: proven_def r')
  next
    case (Confirm i c)
    with assms(2) read obtain r where r: "row = Some r" "i = tp_id (pd_session r)"
      "confirm_telegram_pairing row r c (pw_clock w 14) = Inr r'"
      by (auto simp: pairing_run_def result_split split: if_splits)
    then have "r' = r\<lparr>pd_phase := Confirmed\<rparr>" "tp_candidate (pd_session r) = Some c"
      by (auto simp: confirm_telegram_pairing_def close_telegram_pairing_def pairing_confirm_def result_split split: if_splits)
    with proven_more [OF assms(1) [OF r(1)], of "[(op, w)]"] Confirm r(2) show ?thesis by (auto simp: proven_def)
  next
    case (Cancel i)
    with assms(2) read obtain r where r: "row = Some r" "r' = r\<lparr>pd_phase := Cancelled\<rparr>"
      by (auto simp: pairing_run_def close_telegram_pairing_def result_split split: if_splits)
    with proven_more [OF assms(1) [OF r(1)], of "[(op, w)]"] show ?thesis by (simp add: proven_def)
  qed
qed

lemma proven_run: "accepts (pairing_step configured) None ops row \<Longrightarrow> row = Some r \<Longrightarrow> proven ops r"
proof (induction "None :: PairingRecord option" ops row arbitrary: r rule: accepts.induct)
  case accepts_nil
  then show ?case by simp
next
  case (accepts_snoc ins t i u os)
  obtain op w where i: "i = (op, w)" by (cases i)
  with accepts_snoc have "pairing_run configured t op w = Inr (Some r)" by (auto simp: map_sum_def split: sum.splits)
  from proven_step [OF accepts_snoc(2) this] i show ?case by simp
qed

text \<open>C17: Only a proven destination becomes the operator's. Whenever a pairing yields settings, after any requests, answers of
  Telegram, clock readings and restarts, the settings name exactly one chat and allow exactly one user; the
  operator confirmed this very destination in the session, and a poll of the session saw a message that this
  user wrote in this chat, not a bot's and not forwarded or edited, sent after the session began, whose text is
  the start command with the secret id of the session.\<close>

theorem paired_destination_is_proven:
  assumes "accepts (pairing_step configured) None ops (Some r)" and "configuration r = Inr config"
  shows "\<exists>c w w' ups i m text date.
      tc_chat_id config = pc_chat_id c \<and> tc_allow_user_ids config = [pc_user_id c] \<and> tc_needs_you_topic config = pc_topic_id c
    \<and> (Confirm (tp_id (pd_session r)) c, w) \<in> set ops
    \<and> (Poll (tp_id (pd_session r)), w') \<in> set ops \<and> pw_updates w' = Some ups \<and> (i, Some m) \<in> set ups
    \<and> direct m \<and> pm_chat_id m = Some (pc_chat_id c) \<and> pm_user_id m = Some (pc_user_id c) \<and> pm_text m = Some text
    \<and> proves (pd_session r) text \<and> pm_date m = Some date \<and> tp_created_at (pd_session r) div 1000 \<le> date"
proof -
  from assms(2) obtain c where c: "pd_phase r = Confirmed" "tp_candidate (pd_session r) = Some c"
    "tc_chat_id config = pc_chat_id c" "tc_allow_user_ids config = [pc_user_id c]" "tc_needs_you_topic config = pc_topic_id c"
    by (auto simp: configuration_def config_for_def Let_def result_split split: if_splits)
  have "proven ops r" by (rule proven_run [OF assms(1)]) simp
  with c(1,2) obtain w w' ups i m where p: "(Confirm (tp_id (pd_session r)) c, w) \<in> set ops"
    "(Poll (tp_id (pd_session r)), w') \<in> set ops" "pw_updates w' = Some ups" "(i, Some m) \<in> set ups" "proof_message (pd_session r) c m"
    unfolding proven_def polled_def by fastforce
  then obtain tx date where m: "pairing_message m = Some (c, tx, date)" "proves (pd_session r) tx"
    "tp_created_at (pd_session r) div 1000 \<le> date" by (auto simp: proof_message_def)
  from m(1) have "direct m" "pm_chat_id m = Some (pc_chat_id c)" "pm_user_id m = Some (pc_user_id c)" "pm_text m = Some tx"
    "pm_date m = Some date" by (auto simp: pairing_message_def split: if_splits option.splits)
  with p m c show ?thesis by blast
qed

definition sample_id :: string where
  "sample_id = ''00000000-0000-4000-8000-000000000000''"

definition sample_pairing_world :: PairingWorld where
  "sample_pairing_world = \<lparr>pw_me = Some \<lparr>bi_is_bot = Some True, bi_id = Some 5, bi_username = Some ''abcde''\<rparr>,
     pw_updates = Some [(Some 8, Some \<lparr>pm_is_bot = Some False, pm_keys = [], pm_automatic_forward = None,
       pm_chat_type = Some ''private'', pm_message_id = Some 1, pm_thread = None, pm_is_topic = None, pm_chat_id = Some 7,
       pm_user_id = Some 9, pm_text = Some (''/start agend_'' @ sample_id), pm_date = Some 1\<rparr>)],
     pw_token_resolves = True, pw_clock = (\<lambda>_. 1000)\<rparr>"

definition sample_candidate :: PairingCandidate where
  "sample_candidate = \<lparr>pc_chat_id = 7, pc_user_id = 9, pc_topic_id = None\<rparr>"

definition sample_session :: "int \<Rightarrow> PairingCandidate option \<Rightarrow> PairingPhase \<Rightarrow> PairingRecord" where
  "sample_session off c phase = \<lparr>pd_session = \<lparr>tp_id = sample_id, tp_token = Env ''T'', tp_bot_id = 5, tp_bot_username = ''abcde'',
     tp_created_at = 1000, tp_expires_at = 601000, tp_offset = off, tp_candidate = c\<rparr>, pd_phase = phase\<rparr>"

lemma sample_begin:
  "pairing_run False None (Begin sample_id (Env ''T'') None) sample_pairing_world = Inr (Some (sample_session 0 None Pending))"
  by code_simp

lemma sample_poll:
  "pairing_run False (Some (sample_session 0 None Pending)) (Poll sample_id) sample_pairing_world
     = Inr (Some (sample_session 9 (Some sample_candidate) Pending))"
  by code_simp

lemma sample_confirm:
  "pairing_run False (Some (sample_session 9 (Some sample_candidate) Pending)) (Confirm sample_id sample_candidate) sample_pairing_world
     = Inr (Some (sample_session 9 (Some sample_candidate) Confirmed))"
  by code_simp

theorem paired_destination_is_proven_witness:
  "\<exists>config c w ops. configuration (sample_session 9 (Some sample_candidate) Confirmed) = Inr config
    \<and> accepts (pairing_step False) None ops (Some (sample_session 9 (Some sample_candidate) Confirmed))
    \<and> (Confirm sample_id c, w) \<in> set ops \<and> tc_allow_user_ids config = [pc_user_id c] \<and> tc_chat_id config = 7"
proof -
  let ?r = "sample_session 9 (Some sample_candidate) Confirmed"
  let ?ops = "[(Begin sample_id (Env ''T'') None, sample_pairing_world), (Poll sample_id, sample_pairing_world),
    (Confirm sample_id sample_candidate, sample_pairing_world)]"
  have run: "accepts (pairing_step False) None ?ops (Some ?r)"
    by (rule accepts_Cons [where os = "[]"], simp add: sample_begin, rule accepts_Cons [where os = "[]"], simp add: sample_poll,
        rule accepts_Cons [where os = "[]"], simp add: sample_confirm, rule accepts_nil)
  have config: "configuration ?r = Inr \<lparr>tc_token = Env ''T'', tc_chat_id = 7, tc_allow_user_ids = [9],
      tc_needs_you_topic = None, tc_team_topics = []\<rparr>" by code_simp
  have "tp_id (pd_session ?r) = sample_id" by (simp add: sample_session_def)
  with paired_destination_is_proven [OF run config] config run show ?thesis by fastforce
qed

end
