(* ===== verification/Telegram_Inbound.thy ===== *)
theory Telegram_Inbound
  imports Telegram_Sending Telegram_Pairing Daemon_Commands
begin

text \<open>
  What a person may do from Telegram: the buttons below a notification and the admission of what comes back
  (\<^verbatim>\<open>agend-daemon/src/notifier/inbound.rs\<close>), and the handling of a batch of updates (\<^verbatim>\<open>notifier/poll.rs\<close>). An update
  is the record of the JSON members that the code looks at; a member that is missing or of another type is
  \<open>None\<close>. While an update is handled other tasks of the daemon may use the outbox: the operations that run before
  each store call are an argument. What the handlers outside the pipeline do is an argument, too; the answer that
  tells the sender what became of the request is left out.
\<close>

section \<open>Requests\<close>

datatype ClientRequest =
    MarkAttentionRead string string string
  | ResolveAttention string string AttentionAction "string option"
  | AnswerAsk string string AnswerSource AskReply

fun attention_action_text :: "AttentionAction \<Rightarrow> string" where
  "attention_action_text Retry = ''retry''"
| "attention_action_text Approve = ''approve''"
| "attention_action_text RequestChanges = ''request_changes''"
| "attention_action_text Acknowledge = ''acknowledge''"
| "attention_action_text AttentionAction.Abandon = ''abandon''"
| "attention_action_text UnknownAction = ''unknown''"

fun is_question :: "AskEntry \<Rightarrow> bool" where
  "is_question (Question _ _ _) = True"
| "is_question (FollowUp _ _ _) = True"
| "is_question _ = False"

definition read_key :: "AttentionRequiredData \<Rightarrow> string option" where
  "read_key item =
     map_option (\<lambda>i. i @ ''#'' @ show_nat (case ad_ask item of Some a \<Rightarrow> length (filter is_question (at_entries a)) | None \<Rightarrow> 0))
       (or_else (ad_attention_id item) (map_option at_ask_id (ad_ask item)))"

section \<open>Buttons\<close>

text \<open>The payload of a button names the delivery and the position of what it offers, nothing else.\<close>

definition callback_data :: "string \<Rightarrow> TelegramDelivery \<Rightarrow> nat \<Rightarrow> string" where
  "callback_data kd d i = kd @ '':'' @ td_id d @ '':'' @ show_nat i"

definition offer_buttons :: "TelegramDelivery \<Rightarrow> AttentionRequiredData \<Rightarrow> (string \<times> string) list" where
  "offer_buttons d item =
     (case ad_ask item of
        Some th \<Rightarrow>
          (case ask_options th of
             Some os \<Rightarrow> map (\<lambda>(i, opt). (opt, callback_data ''c'' d i)) (enumerate 0 os)
           | None \<Rightarrow> [])
      | None \<Rightarrow> map (\<lambda>(i, a). (attention_action_text a, callback_data ''a'' d i)) (enumerate 0 (ad_actions item)))"

definition keyboard :: "TelegramDelivery \<Rightarrow> (string \<times> string) list option" where
  "keyboard d =
     Option.bind (td_attention d) (\<lambda>item.
       let buttons = offer_buttons d item
             @ (if read_key item \<noteq> None then [(''Mark read'', callback_data ''r'' d 0)] else [])
       in if buttons = [] then None else Some buttons)"

section \<open>Updates\<close>

record TelegramUser =
  us_id :: "u64 option"
  us_is_bot :: "bool option"

record TelegramMessage =
  gm_from :: TelegramUser
  gm_chat :: "int option"
  gm_message_id :: "int option"
  gm_thread :: "int option"

record TelegramCallback =
  cb_id :: "string option"
  cb_from :: TelegramUser
  cb_message :: TelegramMessage
  cb_data :: "string option"

record TelegramReply =
  rp_from :: TelegramUser
  rp_chat :: "int option"
  rp_thread :: "int option"
  rp_text :: "string option"
  rp_reply_to :: TelegramMessage

record TelegramUpdate =
  ud_id :: "int option"
  ud_callback :: "TelegramCallback option"
  ud_message :: "TelegramReply option"

record Admitted =
  am_delivery_id :: string
  am_task_version :: "(u64 \<times> u64) option"
  am_request :: ClientRequest
  am_expected :: AttentionRequiredData

definition of_bot :: "u64 \<Rightarrow> TelegramMessage \<Rightarrow> bool" where
  "of_bot bot_id m \<longleftrightarrow> us_id (gm_from m) = Some bot_id \<and> us_is_bot (gm_from m) = Some True"

definition callback_feedback :: "TelegramConfig \<Rightarrow> u64 \<Rightarrow> TelegramUpdate \<Rightarrow> string option" where
  "callback_feedback config bot_id u =
     Option.bind (ud_callback u) (\<lambda>q.
     Option.bind (gm_chat (cb_message q)) (\<lambda>chat.
     Option.bind (us_id (cb_from q)) (\<lambda>user.
       if \<not> config_allows config chat user (case us_is_bot (cb_from q) of Some b \<Rightarrow> b | None \<Rightarrow> True)
          \<or> \<not> of_bot bot_id (cb_message q)
       then None
       else Option.bind (cb_id q) (\<lambda>i. if i \<noteq> [] \<and> length i \<le> 256 then Some i else None))))"

text \<open>\<open>str::parse::<usize>\<close>: an optional plus sign, digits, no overflow.\<close>

definition parse_usize :: "string \<Rightarrow> nat option" where
  "parse_usize s =
     (let ds = (case s of c # cs \<Rightarrow> if c = CHR ''+'' then cs else s | [] \<Rightarrow> [])
      in if ds = [] \<or> \<not> list_all is_ascii_digit ds \<or> 2 ^ 64 \<le> digits_value ds then None
         else Some (digits_value ds))"

lemma parse_usize_code [code]:
  "parse_usize s =
     (let ds = (case s of c # cs \<Rightarrow> if c = CHR ''+'' then cs else s | [] \<Rightarrow> []); n = digits_value ds
      in if ds = [] \<or> \<not> list_all is_ascii_digit ds \<or> 18446744073709551616 \<le> int n then None else Some n)"
proof -
  have "(18446744073709551616 \<le> int n) = (2 ^ 64 \<le> n)" for n by simp
  then show ?thesis by (simp only: parse_usize_def Let_def)
qed

text \<open>The kind and the position of a payload that belongs to the delivery.\<close>

definition callback_fields :: "string \<Rightarrow> string \<Rightarrow> (string \<times> nat) option" where
  "callback_fields delivery s =
     (case split_on (CHR '':'') s of
        [kd, i, n] \<Rightarrow> if i = delivery then map_option (\<lambda>k. (kd, k)) (parse_usize n) else None
      | _ \<Rightarrow> None)"

definition callback_request ::
    "string \<Rightarrow> string \<Rightarrow> AttentionRequiredData \<Rightarrow> string option \<Rightarrow> ClientRequest option" where
  "callback_request rid delivery item data =
     Option.bind data (\<lambda>s.
       if 64 < length s then None
       else Option.bind (callback_fields delivery s) (\<lambda>(kd, n).
         if kd = ''r'' \<and> n = 0
         then Option.bind (ad_attention_id item) (\<lambda>a. map_option (MarkAttentionRead rid a) (read_key item))
         else if kd = ''a'' \<and> ad_ask item = None
         then Option.bind (slice_get (ad_actions item) n) (\<lambda>act.
              map_option (\<lambda>a. ResolveAttention rid a act None) (ad_attention_id item))
         else if kd = ''c''
         then Option.bind (ad_ask item) (\<lambda>th.
              Option.bind (ask_options th) (\<lambda>os.
                map_option (\<lambda>opt. AnswerAsk rid (at_ask_id th) AnswerSource.Telegram (Choice opt)) (slice_get os n)))
         else None))"

definition reply_request :: "string \<Rightarrow> AttentionRequiredData \<Rightarrow> string option \<Rightarrow> ClientRequest option" where
  "reply_request rid item text =
     Option.bind text (\<lambda>s.
       if trim s = [] then None
       else case ad_ask item of
         Some th \<Rightarrow>
           if ask_accepts th (Text s) then Some (AnswerAsk rid (at_ask_id th) AnswerSource.Telegram (Text s)) else None
       | None \<Rightarrow>
           if RequestChanges \<in> set (ad_actions item)
           then map_option (\<lambda>a. ResolveAttention rid a RequestChanges (Some s)) (ad_attention_id item)
           else None)"

text \<open>The sender, the message of the bot that is answered and the chat. A button is pressed, or a message replied to.\<close>

definition update_parts :: "TelegramUpdate \<Rightarrow> (TelegramUser \<times> TelegramMessage \<times> int) option" where
  "update_parts u =
     (case ud_callback u of
        Some q \<Rightarrow> map_option (\<lambda>chat. (cb_from q, cb_message q, chat)) (gm_chat (cb_message q))
      | None \<Rightarrow> Option.bind (ud_message u) (\<lambda>r. map_option (\<lambda>chat. (rp_from r, rp_reply_to r, chat)) (rp_chat r)))"

definition sender_allowed :: "TelegramConfig \<Rightarrow> int \<Rightarrow> TelegramUser \<Rightarrow> bool" where
  "sender_allowed config chat user \<longleftrightarrow>
     config_allows config chat (case us_id user of Some i \<Rightarrow> i | None \<Rightarrow> 0)
       (case us_is_bot user of Some b \<Rightarrow> b | None \<Rightarrow> True)"

text \<open>The answered message stands where the notification was sent to and, for a button, is its last part.\<close>

definition in_place :: "TelegramDelivery \<Rightarrow> TelegramUpdate \<Rightarrow> TelegramMessage \<Rightarrow> int \<Rightarrow> int \<Rightarrow> bool" where
  "in_place d u m chat message \<longleftrightarrow>
     gm_chat m = Some chat \<and> gm_thread m = ds_topic_id (td_destination d)
     \<and> (ud_callback u = None \<longrightarrow> Option.bind (ud_message u) rp_thread = ds_topic_id (td_destination d))
     \<and> complete d
     \<and> (ud_callback u \<noteq> None \<longrightarrow> td_message_ids d \<noteq> [] \<and> last (td_message_ids d) = message)"

definition admit_answer :: "TelegramConfig \<Rightarrow> u64 \<Rightarrow> TelegramUpdate \<Rightarrow> int \<Rightarrow> TelegramDelivery \<Rightarrow> Admitted option" where
  "admit_answer config bot_id u update_id d =
     Option.bind (td_attention d) (\<lambda>item.
       let rid = ''telegram:'' @ show_nat (unat bot_id) @ '':'' @ show_int update_id
       in map_option (\<lambda>req. \<lparr>am_delivery_id = td_id d, am_task_version = td_task_version d, am_request = req, am_expected = item\<rparr>)
            (case ud_callback u of
               Some q \<Rightarrow> if callback_feedback config bot_id u = None then None
                         else callback_request rid (td_id d) item (cb_data q)
             | None \<Rightarrow> reply_request rid item (Option.bind (ud_message u) rp_text)))"

definition admit :: "Outbox \<Rightarrow> TelegramConfig \<Rightarrow> u64 \<Rightarrow> TelegramUpdate \<Rightarrow> Admitted option" where
  "admit ob config bot_id u =
     Option.bind (ud_id u) (\<lambda>update_id.
     Option.bind (if 0 \<le> update_id then update_parts u else None) (\<lambda>(sender, m, chat).
       if \<not> sender_allowed config chat sender \<or> \<not> of_bot bot_id m then None
       else Option.bind (gm_message_id m) (\<lambda>message.
         case (if 0 < message then telegram_message ob bot_id chat message else Inr None) of
           Inr (Some d) \<Rightarrow> if in_place d u m chat message then admit_answer config bot_id u update_id d else None
         | _ \<Rightarrow> None)))"

definition needs_reason :: "Admitted \<Rightarrow> bool" where
  "needs_reason a \<longleftrightarrow> (case am_request a of ResolveAttention _ _ act note \<Rightarrow> act = RequestChanges \<and> note = None | _ \<Rightarrow> False)"

section \<open>Effects\<close>

text \<open>An admitted request is checked once more against the current item before it has an effect.\<close>

datatype TelegramEffect =
    ReadMark string
  | RetryInstance AttentionRequiredData
  | OtherHandler ClientRequest
  | PipelineInput EngineInput

fun guarded_request :: "ClientRequest \<Rightarrow> GuardedRequest" where
  "guarded_request (ResolveAttention _ i act note) = GuardedResolve i act note"
| "guarded_request (AnswerAsk _ i source reply) = GuardedAnswer i source reply"
| "guarded_request (MarkAttentionRead _ _ _) = OtherRequest"

definition OTHER_PREFIXES :: "string list" where
  "OTHER_PREFIXES = [''backend-version:'', ''backend-registry:'', ''claude-delivery:'', ''opencode-delivery:'', ''opencode-permission:'']"

definition dispatch :: "(string \<Rightarrow> AttentionRequiredData option) \<Rightarrow> Admitted \<Rightarrow> TelegramEffect option" where
  "dispatch attention a =
     Option.bind (ad_attention_id (am_expected a)) (\<lambda>i.
     Option.bind (attention i) (\<lambda>current.
       if \<not> same_attention current (am_expected a) then None
       else case am_request a of
         MarkAttentionRead _ j key \<Rightarrow>
           Option.bind (attention j) (\<lambda>item. if read_key item = Some key then Some (ReadMark key) else None)
       | req \<Rightarrow>
           if starts_with i ''instance-failed:''
           then (case req of ResolveAttention _ _ Retry _ \<Rightarrow> Some (RetryInstance (am_expected a)) | _ \<Rightarrow> None)
           else if list_ex (starts_with i) OTHER_PREFIXES then Some (OtherHandler req)
           else Some (PipelineInput (Guarded (am_expected a) (am_task_version a) (guarded_request req)))))"

section \<open>A batch of updates\<close>

text \<open>What happens around one update: its hash, what other tasks do, the current items, whether the effect succeeds.\<close>

record PollWorld =
  po_hash :: string
  po_others :: "nat \<Rightarrow> OutboxOp list"
  po_attention :: "string \<Rightarrow> AttentionRequiredData option"
  po_succeeds :: bool

definition marks_read :: "Admitted \<Rightarrow> bool" where
  "marks_read a \<longleftrightarrow> (case am_request a of MarkAttentionRead _ _ _ \<Rightarrow> True | _ \<Rightarrow> False)"

text \<open>The outbox, the effects of the admitted request, and the status that is recorded.\<close>

definition act_on :: "PollWorld \<Rightarrow> u64 \<Rightarrow> int \<Rightarrow> Admitted option \<Rightarrow> Outbox \<Rightarrow> Outbox \<times> (Admitted \<times> TelegramEffect) list \<times> string" where
  "act_on w bot_id upd admitted ob =
     (let effect = (\<lambda>a ok. case dispatch (po_attention w) a of
                 Some e \<Rightarrow> ([(a, e)], if po_succeeds w then ok else ''refused'')
               | None \<Rightarrow> ([], ''refused''))
      in case admitted of
        None \<Rightarrow> (ob, [], ''refused'')
      | Some a \<Rightarrow>
          if needs_reason a then (ob, [], ''reason_required'')
          else if marks_read a then (ob, effect a ''read'')
          else (case claim_telegram_action (run_ops (po_others w 2) ob) bot_id upd (am_delivery_id a) of
                  (ob', True) \<Rightarrow> (ob', effect a ''accepted'')
                | (ob', False) \<Rightarrow> (ob', [], ''refused'')))"

text \<open>One update; the last component says whether the batch goes on.\<close>

definition handle_update ::
    "TelegramConfig \<Rightarrow> u64 \<Rightarrow> PollWorld \<Rightarrow> int \<Rightarrow> TelegramUpdate \<Rightarrow> Outbox
       \<Rightarrow> Outbox \<times> (Admitted \<times> TelegramEffect) list \<times> bool" where
  "handle_update config bot_id w upd u ob =
     (case claim_telegram_update (run_ops (po_others w 0) ob) bot_id upd (po_hash w) of
        Inl _ \<Rightarrow> (run_ops (po_others w 0) ob, [], False)
      | Inr (ob1, False) \<Rightarrow> (ob1, [], True)
      | Inr (ob1, True) \<Rightarrow>
          let ob2 = run_ops (po_others w 1) ob1;
              (ob3, effects, st) = act_on w bot_id upd (admit ob2 config bot_id u) ob2;
              ob4 = run_ops (po_others w 3) ob3
          in case finish_telegram_update ob4 bot_id upd st of
               Inl _ \<Rightarrow> (ob4, effects, False)
             | Inr (ob5, done) \<Rightarrow> (ob5, effects, done))"

fun poll_updates ::
    "TelegramConfig \<Rightarrow> u64 \<Rightarrow> (int \<times> TelegramUpdate \<times> PollWorld) list \<Rightarrow> Outbox
       \<Rightarrow> Outbox \<times> (Admitted \<times> TelegramEffect) list" where
  "poll_updates config bot_id [] ob = (ob, [])"
| "poll_updates config bot_id ((upd, u, w) # rest) ob =
     (case handle_update config bot_id w upd u ob of
        (ob', effects, False) \<Rightarrow> (ob', effects)
      | (ob', effects, True) \<Rightarrow>
          (case poll_updates config bot_id rest ob' of (ob'', others) \<Rightarrow> (ob'', effects @ others)))"

end
