(* ===== verification/Telegram_Actions.thy ===== *)
theory Telegram_Actions
  imports Telegram_Inbound
begin

text \<open>
  What a person can and cannot do from Telegram: only an allowed person acts, only on what the current notification
  offers, a button does what it shows, and a notification acts at most once.
\<close>

section \<open>Only what is offered\<close>

fun offered :: "AttentionRequiredData \<Rightarrow> ClientRequest \<Rightarrow> bool" where
  "offered item (MarkAttentionRead _ i key) \<longleftrightarrow> ad_attention_id item = Some i \<and> read_key item = Some key"
| "offered item (ResolveAttention _ i act note) \<longleftrightarrow>
     ad_attention_id item = Some i \<and> ad_ask item = None \<and> act \<in> set (ad_actions item) \<and> (note \<noteq> None \<longrightarrow> act = RequestChanges)"
| "offered item (AnswerAsk _ i source reply) \<longleftrightarrow>
     source = AnswerSource.Telegram
     \<and> (\<exists>th. ad_ask item = Some th \<and> at_ask_id th = i
         \<and> (case reply of Choice opt \<Rightarrow> \<exists>os. ask_options th = Some os \<and> opt \<in> set os
            | Text s \<Rightarrow> ask_accepts th reply | UnknownReply \<Rightarrow> False))"

lemma callback_request_offered: "callback_request rid delivery item data = Some req \<Longrightarrow> offered item req"
  by (auto simp: callback_request_def bind_eq_Some_conv slice_get_eq_Some split: if_splits)

lemma reply_request_offered: "reply_request rid item s = Some req \<Longrightarrow> offered item req"
  by (auto simp: reply_request_def bind_eq_Some_conv split: if_splits option.splits)

lemma telegram_message_Some:
  assumes "telegram_message ob bot_id chat message = Inr (Some d)"
  shows "d \<in> set (ob_rows ob) \<and> open_delivery ob bot_id chat message d"
proof -
  have "filter (open_delivery ob bot_id chat message) (ob_rows ob) = [d]"
    using assms by (auto simp: telegram_message_def split: list.splits if_splits)
  then have "d \<in> set (filter (open_delivery ob bot_id chat message) (ob_rows ob))" by (simp only: list.set_intros)
  then show ?thesis by simp
qed

lemma admit_answer_Some:
  assumes "admit_answer config bot_id u update_id d = Some a"
  shows "td_attention d = Some (am_expected a) \<and> am_delivery_id a = td_id d \<and> offered (am_expected a) (am_request a)"
proof -
  from assms obtain rid item req where a: "td_attention d = Some item"
    "a = \<lparr>am_delivery_id = td_id d, am_task_version = td_task_version d, am_request = req, am_expected = item\<rparr>"
    "(case ud_callback u of
        Some q \<Rightarrow> if callback_feedback config bot_id u = None then None else callback_request rid (td_id d) item (cb_data q)
      | None \<Rightarrow> reply_request rid item (Option.bind (ud_message u) rp_text)) = Some req"
    unfolding admit_answer_def Let_def bind_eq_Some_conv map_option_eq_Some by blast
  from a(3) have "offered item req"
    using callback_request_offered reply_request_offered by (auto split: option.splits if_splits)
  with a(1,2) show ?thesis by simp
qed

lemma admit_Some:
  assumes "admit ob config bot_id u = Some a"
  obtains sender m chat message d where "update_parts u = Some (sender, m, chat)" "sender_allowed config chat sender"
    "telegram_message ob bot_id chat message = Inr (Some d)" "in_place d u m chat message"
    "td_attention d = Some (am_expected a)" "am_delivery_id a = td_id d" "offered (am_expected a) (am_request a)"
proof -
  from assms obtain i sender m chat message where p: "update_parts u = Some (sender, m, chat)" "sender_allowed config chat sender"
    "(case telegram_message ob bot_id chat message of
        Inr (Some d) \<Rightarrow> if in_place d u m chat message then admit_answer config bot_id u i d else None
      | _ \<Rightarrow> None) = Some a"
    unfolding admit_def by (auto simp: bind_eq_Some_conv split: if_splits)
  from p(3) obtain d where d: "telegram_message ob bot_id chat message = Inr (Some d)" "in_place d u m chat message"
    "admit_answer config bot_id u i d = Some a" by (auto split: if_splits sum.splits option.splits)
  from that [OF p(1,2) d(1,2)] admit_answer_Some [OF d(3)] show thesis by blast
qed

text \<open>A sample: a notification with one action that was delivered, and the press of its button.\<close>

definition sample_config :: TelegramConfig where
  "sample_config = \<lparr>tc_token = Env ''T'', tc_chat_id = 7, tc_allow_user_ids = [9], tc_needs_you_topic = None, tc_team_topics = []\<rparr>"

definition sample_item :: AttentionRequiredData where
  "sample_item = \<lparr>ad_reason = ''r'', ad_task_id = Some ''t'', ad_ask = None, ad_recap = None, ad_attention_id = Some ''x'',
     ad_unblocks = None, ad_waiting_since = None, ad_if_ignored = None, ad_actions = [Approve], ad_instance_id = None\<rparr>"

definition sample_delivered :: TelegramDelivery where
  "sample_delivered = (TelegramDelivery_new ''d'' \<lparr>ds_bot_id = 5, ds_chat_id = 7, ds_topic_id = None\<rparr> (no_notification sample_notice) 1)
     \<lparr>td_next_part := 1, td_message_ids := [3], td_attention := Some sample_item\<rparr>"

definition sample_open :: Outbox where
  "sample_open = sample_outbox\<lparr>ob_rows := [sample_delivered]\<rparr>"

definition sample_press :: TelegramUpdate where
  "sample_press = \<lparr>ud_id = Some 1, ud_callback = Some \<lparr>cb_id = Some ''q'', cb_from = \<lparr>us_id = Some 9, us_is_bot = Some False\<rparr>,
     cb_message = \<lparr>gm_from = \<lparr>us_id = Some 5, us_is_bot = Some True\<rparr>, gm_chat = Some 7, gm_message_id = Some 3, gm_thread = None\<rparr>,
     cb_data = Some ''a:d:0''\<rparr>, ud_message = None\<rparr>"

definition sample_admitted :: Admitted where
  "sample_admitted = \<lparr>am_delivery_id = ''d'', am_task_version = None,
     am_request = ResolveAttention ''telegram:5:1'' ''x'' Approve None, am_expected = sample_item\<rparr>"

lemma sample_admit: "admit sample_open sample_config 5 sample_press = Some sample_admitted"
  by code_simp



section \<open>At most once\<close>

definition acted :: "(Admitted \<times> TelegramEffect) list \<Rightarrow> string list" where
  "acted effects = map (\<lambda>(a, _). am_delivery_id a) (filter (\<lambda>(a, _). \<not> marks_read a) effects)"

definition used_up :: "Outbox \<Rightarrow> string \<Rightarrow> bool" where
  "used_up ob d \<longleftrightarrow> (\<exists>r \<in> set (ob_updates ob). ur_delivery r = Some d)"

lemma acted_append [simp]: "acted (a @ b) = acted a @ acted b"
  by (simp add: acted_def)

lemma acted_Nil [simp]: "acted [] = []"
  by (simp add: acted_def)

lemma used_mono: "used_up ob d \<Longrightarrow> ledger_grows ob ob' \<Longrightarrow> used_up ob' d"
  unfolding used_up_def ledger_grows_def carries_def by (metis option.distinct(1))

interpretation ledger: at_most_once ledger_grows used_up
  by unfold_locales (blast intro: ledger_grows_trans used_mono)+

lemma ledger_grows_refl [simp]: "ledger_grows ob ob"
  unfolding ledger_grows_def by (blast intro: carries_refl)

lemma ledger_grows_ops: "ledger_grows ob (run_ops ops ob)"
  using run_ops_accepts ledger_grows_run by blast

lemma ledger_ops:
  "claim_telegram_update ob b u h = Inr (ob', r) \<Longrightarrow> ledger_grows ob ob'"
  "claim_telegram_action ob b u d = (ob', r) \<Longrightarrow> ledger_grows ob ob'"
  "finish_telegram_update ob b u st = Inr (ob', r) \<Longrightarrow> ledger_grows ob ob'"
  using ledger_grows_step [of ob "ClaimUpdateOp b u h" ob' "[r]"] ledger_grows_step [of ob "ClaimActionOp b u d" ob' "[r]"]
    ledger_grows_step [of ob "FinishUpdateOp b u st" ob' "[r]"] by simp_all

abbreviation fresh :: "Outbox \<Rightarrow> (Admitted \<times> TelegramEffect) list \<Rightarrow> Outbox \<Rightarrow> bool" where
  "fresh ob effects ob' \<equiv> spends ledger_grows used_up ob (acted effects) ob'"

lemma fresh_none: "ledger_grows ob ob' \<Longrightarrow> acted es = [] \<Longrightarrow> fresh ob es ob'"
  by (simp add: ledger.spends_none)

lemma act_on_fresh:
  assumes "act_on w b u admitted ob = (ob', es, st)"
  shows "fresh ob es ob'"
proof (cases admitted)
  case None
  with assms show ?thesis by (auto simp: act_on_def intro!: fresh_none ledger.spends_none)
next
  case (Some a)
  show ?thesis
  proof (cases "needs_reason a \<or> marks_read a")
    case True
    with assms Some have "ob' = ob" "acted es = []"
      by (auto simp: act_on_def Let_def acted_def split: if_splits option.splits)
    then show ?thesis by (auto intro!: fresh_none ledger.spends_none)
  next
    case False
    let ?ob1 = "run_ops (po_others w 2) ob"
    obtain ob1 r where c: "claim_telegram_action ?ob1 b u (am_delivery_id a) = (ob1, r)" by (cases "claim_telegram_action ?ob1 b u (am_delivery_id a)")
    have g: "ledger_grows ob ob'" "ledger_grows ob ?ob1"
      using assms Some False ledger_ops(2) [OF c] ledger_grows_trans [OF ledger_grows_ops]
      by (auto simp: act_on_def Let_def c ledger_grows_ops split: bool.splits option.splits)
    show ?thesis
    proof (cases r)
      case True
      then have "\<not> used_up ?ob1 (am_delivery_id a)" "used_up ob1 (am_delivery_id a)"
        using c claim_action_True [of ?ob1 b u "am_delivery_id a" ob1]
        by (auto simp: used_up_def claim_telegram_action_def list_ex_iff split: if_splits)
      then have "\<not> used_up ob (am_delivery_id a)" "used_up ob1 (am_delivery_id a)" using used_mono g(2) by blast+
      moreover have "ob' = ob1" "acted es \<in> {[], [am_delivery_id a]}"
        using assms Some False True by (auto simp: act_on_def Let_def c acted_def split: option.splits)
      ultimately show ?thesis using g(1) by (auto simp: spends_def)
    next
      case False
      with assms Some \<open>\<not> (needs_reason a \<or> marks_read a)\<close> have "es = []" by (auto simp: act_on_def Let_def c)
      with g(1) show ?thesis by (simp add: ledger.spends_none)
    qed
  qed
qed

lemma handle_update_fresh:
  assumes "handle_update config b w u upd ob = (ob', es, goes)"
  shows "fresh ob es ob'"
proof -
  let ?ob0 = "run_ops (po_others w 0) ob"
  show ?thesis
  proof (cases "claim_telegram_update ?ob0 b u (po_hash w)")
    case (Inl e)
    with assms show ?thesis by (auto simp: handle_update_def ledger_grows_ops intro!: fresh_none ledger.spends_none)
  next
    case (Inr x)
    obtain ob1 r where x: "x = (ob1, r)" by (cases x)
    have g1: "ledger_grows ob ob1" using ledger_ops(1) Inr x ledger_grows_trans [OF ledger_grows_ops] by blast
    show ?thesis
    proof (cases r)
      case False
      with assms Inr x g1 show ?thesis by (auto simp: handle_update_def intro!: fresh_none ledger.spends_none)
    next
      case True
      let ?ob2 = "run_ops (po_others w 1) ob1"
      obtain ob3 es' st where a: "act_on w b u (admit ?ob2 config b upd) ?ob2 = (ob3, es', st)"
        by (cases "act_on w b u (admit ?ob2 config b upd) ?ob2") auto
      have f: "fresh ob es' (run_ops (po_others w 3) ob3)"
        by (rule ledger.spends_after [OF ledger_grows_trans [OF g1 ledger_grows_ops]
            ledger.spends_before [OF act_on_fresh [OF a] ledger_grows_ops]])
      have "es = es' \<and> (ob' = run_ops (po_others w 3) ob3 \<or> finish_telegram_update (run_ops (po_others w 3) ob3) b u st = Inr (ob', goes))"
        using assms Inr x True a by (auto simp: handle_update_def Let_def split: sum.splits)
      with f ledger.spends_before ledger_ops(3) show ?thesis by blast
    qed
  qed
qed

lemma poll_updates_fresh: "poll_updates config b items ob = (ob', es) \<Longrightarrow> fresh ob es ob'"
proof (induction items arbitrary: ob ob' es)
  case Nil
  then show ?case by (simp add: ledger.spends_none)
next
  case (Cons item rest)
  obtain u upd w where item: "item = (u, upd, w)" by (cases item)
  obtain ob1 es1 goes where h: "handle_update config b w u upd ob = (ob1, es1, goes)"
    by (cases "handle_update config b w u upd ob") auto
  note f = handle_update_fresh [OF h]
  show ?case
  proof (cases goes)
    case True
    obtain ob2 es2 where r: "poll_updates config b rest ob1 = (ob2, es2)" by (cases "poll_updates config b rest ob1")
    with h True Cons.prems item have "ob' = ob2" "es = es1 @ es2" by simp_all
    with ledger.spends_trans [OF f Cons.IH [OF r]] show ?thesis by simp
  next
    case False
    with h f Cons.prems item show ?thesis by simp
  qed
qed

text \<open>C9: A notification acts at most once. Whatever updates arrive, in one batch or in two with any other use of the
  outbox, crashes or restarts in between and at every store call of the handler, the effects that were started
  belong to pairwise different notifications; only marking an item as read may be repeated.\<close>

theorem notification_acts_once:
  assumes "poll_updates config bot_id items ob = (ob1, first)" and "accepts outbox_step ob1 ops ob2"
    and "poll_updates config' bot_id' items' ob2 = (ob3, second)"
  shows "distinct (acted (first @ second))"
proof -
  have "fresh ob first ob2"
    by (rule ledger.spends_before [OF poll_updates_fresh [OF assms(1)] ledger_grows_run [OF assms(2)]])
  from ledger.spends_trans [OF this poll_updates_fresh [OF assms(3)]] show ?thesis by (simp add: spends_def)
qed

definition sample_poll_world :: PollWorld where
  "sample_poll_world = \<lparr>po_hash = sample_hash, po_others = (\<lambda>_. []), po_attention = (\<lambda>_. Some sample_item), po_succeeds = True\<rparr>"

lemma sample_acts: "acted (snd (poll_updates sample_config 5 [(1, sample_press, sample_poll_world)] sample_open)) = [''d'']"
  by code_simp

theorem notification_acts_once_witness:
  "\<exists>ob1 first ob2 second. poll_updates sample_config 5 [(1, sample_press, sample_poll_world)] sample_open = (ob1, first)
    \<and> acted first = [''d''] \<and> poll_updates sample_config 5 [(2, sample_press, sample_poll_world)] ob1 = (ob2, second)
    \<and> ''d'' \<notin> set (acted second)"
proof -
  obtain ob1 es where p: "poll_updates sample_config 5 [(1, sample_press, sample_poll_world)] sample_open = (ob1, es)"
    by (cases "poll_updates sample_config 5 [(1, sample_press, sample_poll_world)] sample_open")
  obtain ob2 es' where q: "poll_updates sample_config 5 [(2, sample_press, sample_poll_world)] ob1 = (ob2, es')"
    by (cases "poll_updates sample_config 5 [(2, sample_press, sample_poll_world)] ob1")
  from notification_acts_once [OF p accepts_nil q] sample_acts p q show ?thesis by auto
qed

section \<open>Buttons do what they show\<close>

fun shows_button :: "string \<Rightarrow> ClientRequest \<Rightarrow> bool" where
  "shows_button s (ResolveAttention _ _ act note) \<longleftrightarrow> note = None \<and> s = attention_action_text act"
| "shows_button s (AnswerAsk _ _ _ reply) \<longleftrightarrow> reply = Choice s"
| "shows_button s (MarkAttentionRead _ _ _) \<longleftrightarrow> s = ''Mark read''"

lemma parse_show_usize: "n < 2 ^ 64 \<Longrightarrow> parse_usize (show_nat n) = Some n"
proof -
  assume n: "n < 2 ^ 64"
  obtain c cs where s: "show_nat n = c # cs" using show_nat_digits(1) by (meson neq_Nil_conv)
  have "c \<noteq> CHR ''+''" using show_nat_digits(4) [of n] unfolding s by auto
  then show ?thesis using show_nat_digits(2,3) [of n] n unfolding s by (simp add: parse_usize_def)
qed

lemma callback_fields_data:
  assumes "n < 10 ^ 19" and "CHR '':'' \<notin> set (td_id d)" and "CHR '':'' \<notin> set kd"
  shows "callback_fields (td_id d) (callback_data kd d n) = Some (kd, n)"
proof -
  have digits: "CHR '':'' \<notin> set (show_nat n)"
    using show_nat_digits(2) [of n] by (auto simp: list_all_iff is_ascii_digit_def char_in_def)
  have "split_on (CHR '':'') (callback_data kd d n) = [kd, td_id d, show_nat n]"
    unfolding callback_data_def using assms(2,3) digits by (simp add: split_on_snoc_no_sep split_on_plain)
  moreover have "n < 2 ^ 64" using assms(1) by simp
  ultimately show ?thesis by (simp add: callback_fields_def parse_show_usize)
qed

lemma callback_data_length:
  assumes "n < 10 ^ 19" and "length (td_id d) \<le> 36"
  shows "length (callback_data [c] d n) \<le> 64"
  using show_nat_length [of n 19] assms by (simp add: callback_data_def)

text \<open>C31: A button does what it shows. For every button below a notification, the payload that comes back when it is
  pressed is understood, and the request it stands for is the action, the option or the reading mark whose
  text the button shows, of the item that the notification was about.\<close>

theorem buttons_do_what_they_show:
  assumes "keyboard d = Some buttons" and "td_attention d = Some item" and "ad_attention_id item \<noteq> None"
    and "CHR '':'' \<notin> set (td_id d)" and "length (td_id d) \<le> 36" and "n < length buttons" and "length buttons < 10 ^ 19"
  shows "\<exists>req. callback_request rid (td_id d) item (Some (snd (buttons ! n))) = Some req
    \<and> shows_button (fst (buttons ! n)) req \<and> offered item req"
proof -
  obtain aid where aid: "ad_attention_id item = Some aid" using assms(3) by blast
  let ?offers = "offer_buttons d item"
  have b: "buttons = ?offers @ [(''Mark read'', callback_data ''r'' d 0)]"
    using assms(1,2) aid by (auto simp: keyboard_def read_key_def Let_def split: if_splits)
  have n: "n < 10 ^ 19" using assms(6,7) by linarith
  have f: "callback_fields (td_id d) (callback_data [c] d k) = Some ([c], k)" "\<not> 64 < length (callback_data [c] d k)"
    if "c \<in> set ''acr''" "k < 10 ^ 19" for c k
    using that callback_fields_data [of k d "[c]"] callback_data_length [of k d c] assms(4,5) by auto
  have "\<exists>req. callback_request rid (td_id d) item (Some (snd (buttons ! n))) = Some req \<and> shows_button (fst (buttons ! n)) req"
  proof (cases "n < length ?offers")
    case False
    with assms(6) b have "buttons ! n = (''Mark read'', callback_data ''r'' d 0)" by (simp add: nth_append)
    with f [of "CHR ''r''" 0] aid show ?thesis by (simp add: callback_request_def read_key_def)
  next
    case True
    then have nth: "buttons ! n = ?offers ! n" by (simp add: b nth_append)
    show ?thesis
    proof (cases "ad_ask item")
      case None
      with True nth f [of "CHR ''a''" n] n aid show ?thesis
        by (simp add: offer_buttons_def callback_request_def nth_enumerate_eq)
    next
      case (Some th)
      then obtain os where "ask_options th = Some os" using True by (auto simp: offer_buttons_def split: option.splits)
      with Some True nth f [of "CHR ''c''" n] n show ?thesis
        by (simp add: offer_buttons_def callback_request_def nth_enumerate_eq)
    qed
  qed
  with callback_request_offered show ?thesis by blast
qed

theorem buttons_do_what_they_show_witness:
  "\<exists>req. callback_request ''r'' ''d'' sample_item (Some ''a:d:0'') = Some req \<and> shows_button ''approve'' req"
proof -
  have k: "keyboard sample_delivered = Some [(''approve'', ''a:d:0''), (''Mark read'', ''r:d:0'')]" by code_simp
  have d: "td_id sample_delivered = ''d''" "td_attention sample_delivered = Some sample_item"
    by (simp_all add: sample_delivered_def TelegramDelivery_new_def)
  from buttons_do_what_they_show [OF k d(2), of 0 "''r''"] d(1) show ?thesis by (auto simp: sample_item_def)
qed

end
