(* ===== verification/Telegram_Sender.thy ===== *)
theory Telegram_Sender
  imports Telegram_Inbound
begin

text \<open>
  How a notification is sent, \<^verbatim>\<open>agend-daemon/src/notifier/delivery.rs\<close>: every part is claimed in the outbox, handed to
  Telegram, and confirmed with the receipt, which must name the very chat, topic, bot and text. What Telegram
  answers and which operations of other tasks run in between are arguments; the requests that were made are
  part of the result. The bot's identity is asked at most once per sender; here it is what was answered.
\<close>

section \<open>Sending\<close>

record TelegramReceipt =
  rc_message_id :: "int option"
  rc_chat :: "int option"
  rc_from_id :: "u64 option"
  rc_from_is_bot :: "bool option"
  rc_text :: "string option"
  rc_thread :: "int option"

record SendRequest =
  sr_delivery :: string
  sr_part :: nat
  sr_chat :: int
  sr_thread :: "int option"
  sr_text :: string
  sr_markup :: "(string \<times> string) list option"

record SendWorld =
  sw_others :: "nat \<Rightarrow> OutboxOp list"
  sw_me :: "BotIdentity option"
  sw_reply :: "nat \<Rightarrow> TelegramReceipt option"
  sw_stop :: "nat \<Rightarrow> bool"

datatype SendResult = SendOk | SendFailed | SendPanic

definition send_request :: "TelegramDelivery \<Rightarrow> string \<Rightarrow> SendRequest" where
  "send_request d text =
     \<lparr>sr_delivery = td_id d, sr_part = td_next_part d, sr_chat = ds_chat_id (td_destination d),
      sr_thread = ds_topic_id (td_destination d), sr_text = text,
      sr_markup = (if td_next_part d + 1 = length (td_parts d) then keyboard d else None)\<rparr>"

definition receipt_message :: "TelegramDelivery \<Rightarrow> string \<Rightarrow> TelegramReceipt \<Rightarrow> int option" where
  "receipt_message d text r =
     Option.bind (rc_message_id r) (\<lambda>i.
       if i \<le> 0 \<or> rc_chat r \<noteq> Some (ds_chat_id (td_destination d)) \<or> rc_from_id r \<noteq> Some (ds_bot_id (td_destination d))
          \<or> rc_from_is_bot r \<noteq> Some True \<or> rc_text r \<noteq> Some text \<or> rc_thread r \<noteq> ds_topic_id (td_destination d)
       then None else Some i)"

definition next_row :: "TelegramDelivery \<Rightarrow> int \<Rightarrow> TelegramDelivery" where
  "next_row d i = d\<lparr>td_next_part := td_next_part d + 1, td_message_ids := td_message_ids d @ [i]\<rparr>"

text \<open>
  The loop over the parts, on the sender's own copy of the row. The result says whether a part was handed over and is not
  confirmed.
\<close>

function send_parts ::
    "SendWorld \<Rightarrow> bool \<Rightarrow> nat \<Rightarrow> TelegramDelivery \<Rightarrow> Outbox \<Rightarrow> Outbox \<times> SendRequest list \<times> SendResult \<times> bool" where
  "send_parts w one k d ob =
     (if complete d \<or> sw_stop w k then (ob, [], SendOk, False)
      else let ob0 = run_ops (sw_others w (3 * k)) ob in
        case claim_telegram_part ob0 (td_id d) (td_next_part d) of
          Inl _ \<Rightarrow> (ob0, [], SendFailed, False)
        | Inr (ob1, False) \<Rightarrow> (ob1, [], SendFailed, False)
        | Inr (ob1, True) \<Rightarrow>
            (case slice_get (td_parts d) (td_next_part d) of
               None \<Rightarrow> (ob1, [], SendPanic, True)
             | Some text \<Rightarrow>
                 let req = send_request d text; ob2 = run_ops (sw_others w (3 * k + 1)) ob1 in
                 case Option.bind (sw_reply w k) (receipt_message d text) of
                   None \<Rightarrow> (ob2, [req], SendFailed, True)
                 | Some i \<Rightarrow>
                     let ob3 = run_ops (sw_others w (3 * k + 2)) ob2 in
                     case confirm_telegram_part ob3 (td_id d) (td_next_part d) i of
                       Inl _ \<Rightarrow> (ob3, [req], SendFailed, True)
                     | Inr (ob4, False) \<Rightarrow> (ob4, [req], SendFailed, True)
                     | Inr (ob4, True) \<Rightarrow>
                         if one then (ob4, [req], SendOk, False)
                         else (case send_parts w one (k + 1) (next_row d i) ob4 of
                                 (ob5, reqs, r, pending) \<Rightarrow> (ob5, req # reqs, r, pending))))"
  by pat_completeness auto
termination
  by (relation "measure (\<lambda>(w, one, k, d, ob). length (td_parts d) - td_next_part d)")
    (auto simp: slice_get_eq_Some next_row_def)

declare send_parts.simps [simp del]

definition send_pending ::
    "SendWorld \<Rightarrow> TelegramDestination \<Rightarrow> bool \<Rightarrow> TelegramDelivery \<Rightarrow> Outbox \<Rightarrow> Outbox \<times> SendRequest list \<times> SendResult" where
  "send_pending w destination one d ob =
     (if td_destination d \<noteq> destination \<or> td_abandoned d \<or> td_in_flight d then (ob, [], SendFailed)
      else if complete d \<or> sw_stop w 0 then (ob, [], SendOk)
      else if (case sw_me w of Some me \<Rightarrow> bi_is_bot me = Some True \<and> bi_id me = Some (ds_bot_id (td_destination d))
                   \<and> (0 < ds_bot_id (td_destination d) \<and> ds_bot_id (td_destination d) < 2 ^ 52) | None \<Rightarrow> False)
      then (case send_parts w one 1 d ob of
              (ob', reqs, r, pending) \<Rightarrow>
                if r = SendFailed \<and> pending
                then (case mark_telegram_unknown ob' (td_id d) of Inl _ \<Rightarrow> (ob', reqs, r) | Inr ob'' \<Rightarrow> (ob'', reqs, r))
                else (ob', reqs, r))
      else (ob, [], SendFailed))"

definition notify_with_id ::
    "SendWorld \<Rightarrow> TelegramDestination \<Rightarrow> string \<Rightarrow> Notification \<Rightarrow> u64 \<Rightarrow> Outbox \<Rightarrow> Outbox \<times> SendRequest list \<times> SendResult" where
  "notify_with_id w destination ident note time ob =
     (case enqueue_telegram ob (TelegramDelivery_new ident destination note time) of
        Inl _ \<Rightarrow> (ob, [], SendFailed)
      | Inr (ob', d) \<Rightarrow> send_pending w destination False d ob')"

definition resume_one ::
    "SendWorld \<Rightarrow> TelegramDestination \<Rightarrow> string \<Rightarrow> Outbox \<Rightarrow> Outbox \<times> SendRequest list \<times> SendResult" where
  "resume_one w destination ident ob =
     (case load_delivery ob ident of
        Inr (Some d) \<Rightarrow> send_pending w destination True d ob
      | _ \<Rightarrow> (ob, [], SendFailed))"

section \<open>No part is sent twice\<close>

definition sent :: "SendRequest list \<Rightarrow> (string \<times> nat) list" where
  "sent reqs = map (\<lambda>r. (sr_delivery r, sr_part r)) reqs"

lemma sent_simps [simp]: "sent [] = []" "sent (r # rs) = (sr_delivery r, sr_part r) # sent rs" "sent (rs @ qs) = sent rs @ sent qs"
  by (simp_all add: sent_def)

lemma rows_grow_ops: "rows_grow ob (run_ops ops ob)"
  using run_ops_accepts rows_grow_run by blast

lemma rows_grow_confirm: "confirm_telegram_part ob i k m = Inr (ob', b) \<Longrightarrow> rows_grow ob ob'"
  using delivers_confirm by (auto simp: delivers_def)

lemma rows_grow_claim: "claim_telegram_part ob i k = Inr (ob', b) \<Longrightarrow> rows_grow ob ob'"
  using delivers_claim by (auto simp: delivers_def)

lemma send_parts_spends:
  "send_parts w one k d ob = (ob', reqs, r, pending) \<Longrightarrow>
     spends rows_grow claimed ob (sent reqs) ob' \<and> length reqs \<le> length (td_parts d) - td_next_part d"
proof (induction w one k d ob arbitrary: ob' reqs r pending rule: send_parts.induct)
  case (1 w one k d ob)
  let ?ob0 = "run_ops (sw_others w (3 * k)) ob"
  show ?case
  proof (cases "complete d \<or> sw_stop w k")
    case True
    with "1.prems" show ?thesis by (simp add: send_parts.simps [of w one k d] parts.spends_none rows_grow_same)
  next
    case run: False
    show ?thesis
    proof (cases "claim_telegram_part ?ob0 (td_id d) (td_next_part d)")
      case (Inl e)
      with run "1.prems" show ?thesis
        by (auto simp: send_parts.simps [of w one k d] Let_def intro: parts.spends_none rows_grow_ops)
    next
      case (Inr x)
      obtain ob1 b where c: "claim_telegram_part ?ob0 (td_id d) (td_next_part d) = Inr (ob1, b)" using Inr by (cases x) simp
      show ?thesis
      proof (cases "b \<and> td_next_part d < length (td_parts d)")
        case False
        with run c "1.prems" have "ob' = ob1 \<and> reqs = []"
          by (cases b) (auto simp: send_parts.simps [of w one k d] Let_def)
        with c show ?thesis by (auto intro!: parts.spends_none rows_grow_trans [OF rows_grow_ops rows_grow_claim])
      next
        case True
        then have b: "b" and n: "td_next_part d < length (td_parts d)" by simp_all
        let ?text = "td_parts d ! td_next_part d"
        let ?req = "send_request d ?text"
        let ?ob2 = "run_ops (sw_others w (3 * k + 1)) ob1"
        let ?ob3 = "run_ops (sw_others w (3 * k + 2)) ?ob2"
        have key: "sent [?req] = [(td_id d, td_next_part d)]" by (simp add: send_request_def)
        have s1: "spends rows_grow claimed ob (sent [?req]) ob1"
          unfolding key using c b by (intro parts.spends_after [OF rows_grow_ops claim_part_spends]) simp
        have s3: "spends rows_grow claimed ob (sent [?req]) ?ob3"
          by (rule parts.spends_before [OF s1 rows_grow_trans [OF rows_grow_ops rows_grow_ops]])
        have s2: "spends rows_grow claimed ob (sent [?req]) ?ob2" by (rule parts.spends_before [OF s1 rows_grow_ops])
        show ?thesis
        proof (cases "Option.bind (sw_reply w k) (receipt_message d ?text)")
          case None
          with run c b n "1.prems" have "ob' = ?ob2 \<and> reqs = [?req]" by (auto simp: send_parts.simps [of w one k d] Let_def)
          with s2 n show ?thesis by auto
        next
          case (Some i)
          show ?thesis
          proof (cases "confirm_telegram_part ?ob3 (td_id d) (td_next_part d) i")
            case (Inl e)
            with run c b n Some "1.prems" have "ob' = ?ob3 \<and> reqs = [?req]" by (auto simp: send_parts.simps [of w one k d] Let_def)
            with s3 n show ?thesis by auto
          next
            case (Inr y)
            obtain ob4 ok where f: "confirm_telegram_part ?ob3 (td_id d) (td_next_part d) i = Inr (ob4, ok)" using Inr by (cases y) simp
            have s4: "spends rows_grow claimed ob (sent [?req]) ob4" by (rule parts.spends_before [OF s3 rows_grow_confirm [OF f]])
            show ?thesis
            proof (cases "ok \<and> \<not> one")
              case False
              with run c b n Some f "1.prems" have "ob' = ob4 \<and> reqs = [?req]"
                by (cases ok) (auto simp: send_parts.simps [of w one k d] Let_def)
              with s4 n show ?thesis by auto
            next
              case True
              obtain ob5 reqs' r' p' where rest: "send_parts w one (k + 1) (next_row d i) ob4 = (ob5, reqs', r', p')"
                by (cases "send_parts w one (k + 1) (next_row d i) ob4") auto
              with run c b n Some f True "1.prems" have e: "ob' = ob5" "reqs = ?req # reqs'"
                by (auto simp: send_parts.simps [of w False k d ob] Let_def)
              have "spends rows_grow claimed ob4 (sent reqs') ob5 \<and> length reqs' \<le> length (td_parts (next_row d i)) - td_next_part (next_row d i)"
                using "1.IH" run c b n Some f True rest by (simp add: Let_def)
              then have s5: "spends rows_grow claimed ob4 (sent reqs') ob5" and l5: "length reqs' \<le> length (td_parts d) - (td_next_part d + 1)"
                by (simp_all add: next_row_def)
              have "spends rows_grow claimed ob (sent (?req # reqs')) ob5" using parts.spends_trans [OF s4 s5] by simp
              with e l5 n show ?thesis by simp
            qed
          qed
        qed
      qed
    qed
  qed
qed

lemma rows_grow_unknown: "mark_telegram_unknown ob i = Inr ob' \<Longrightarrow> rows_grow ob ob'"
  using delivers_unknown by (auto simp: delivers_def)

lemma send_pending_spends:
  assumes "send_pending w destination one d ob = (ob', reqs, r)"
  shows "spends rows_grow claimed ob (sent reqs) ob' \<and> length reqs \<le> length (td_parts d) - td_next_part d"
proof -
  obtain ob1 rs q pending where p: "send_parts w one 1 d ob = (ob1, rs, q, pending)" by (cases "send_parts w one 1 d ob")
  note s = send_parts_spends [OF p]
  from assms p consider "ob' = ob" "reqs = []" | "ob' = ob1" "reqs = rs" | "mark_telegram_unknown ob1 (td_id d) = Inr ob'" "reqs = rs"
    by (auto simp: send_pending_def split: if_splits sum.splits)
  then show ?thesis
  proof cases
    case 1
    then show ?thesis by (simp add: parts.spends_none rows_grow_same)
  next
    case 2
    with s show ?thesis by simp
  next
    case 3
    with s show ?thesis by (auto intro: parts.spends_before rows_grow_unknown)
  qed
qed

text \<open>C11: No part of a notification is handed to Telegram twice. However two senders' runs interleave with other
  operations on the outbox, whatever Telegram answers or fails to answer, and whichever copies of the row they
  start from, the requests of both runs are for different parts; and one run makes at most as many requests
  as its row has parts left. So a lost answer costs a message, never a second copy of it.\<close>

theorem parts_are_sent_once:
  assumes "send_pending w destination one d ob = (ob1, first, r)" and "accepts outbox_step ob1 ops ob2"
    and "send_pending w' destination' one' d' ob2 = (ob3, second, r')"
  shows "distinct (sent (first @ second)) \<and> length first \<le> length (td_parts d) - td_next_part d"
proof -
  note a = send_pending_spends [OF assms(1)]
  note b = send_pending_spends [OF assms(3)]
  have "spends rows_grow claimed ob1 (sent second) ob3" using b by (intro parts.spends_after [OF rows_grow_run [OF assms(2)]]) simp
  with a have "spends rows_grow claimed ob (sent first @ sent second) ob3" by (intro parts.spends_trans) simp_all
  with a show ?thesis by (simp add: spends_def)
qed

section \<open>An undisturbed notification is delivered\<close>

definition receipt_for :: "TelegramDelivery \<Rightarrow> int \<Rightarrow> string \<Rightarrow> TelegramReceipt" where
  "receipt_for d m text =
     \<lparr>rc_message_id = Some m, rc_chat = Some (ds_chat_id (td_destination d)), rc_from_id = Some (ds_bot_id (td_destination d)),
      rc_from_is_bot = Some True, rc_text = Some text, rc_thread = ds_topic_id (td_destination d)\<rparr>"

lemma receipt_for_accepted: "0 < m \<Longrightarrow> receipt_message d text (receipt_for d m text) = Some m"
  by (simp add: receipt_message_def receipt_for_def)

definition row_ready :: "Outbox \<Rightarrow> TelegramDelivery \<Rightarrow> bool" where
  "row_ready ob d \<longleftrightarrow> row_of ob (td_id d) = Some d \<and> delivery_valid d \<and> \<not> td_in_flight d \<and> \<not> td_abandoned d"

lemma claim_ready:
  assumes "row_ready ob d" and "td_next_part d < length (td_parts d)"
  obtains ob1 where "claim_telegram_part ob (td_id d) (td_next_part d) = Inr (ob1, True)"
    "row_of ob1 (td_id d) = Some (d\<lparr>td_in_flight := True\<rparr>)"
proof -
  have v: "delivery_valid (d\<lparr>td_in_flight := True\<rparr>)" using assms by (auto simp: row_ready_def delivery_valid_def)
  then obtain ob1 where s: "save_delivery ob (d\<lparr>td_in_flight := True\<rparr>) = Inr ob1" by (simp add: save_delivery_def)
  have "claim_telegram_part ob (td_id d) (td_next_part d) = Inr (ob1, True)"
    using assms s by (simp add: claim_telegram_part_def load_delivery_def row_ready_def complete_def)
  moreover have "row_of ob1 (td_id d) = Some (d\<lparr>td_in_flight := True\<rparr>)"
    using assms(1) row_of_save(1) [OF s] by (simp add: row_ready_def)
  ultimately show thesis by (rule that)
qed

lemma confirm_ready:
  assumes "row_ready ob d" and "td_next_part d < length (td_parts d)" and "row_of ob1 (td_id d) = Some (d\<lparr>td_in_flight := True\<rparr>)"
    and "0 < m" and "m \<notin> set (td_message_ids d)"
  obtains ob2 where "confirm_telegram_part ob1 (td_id d) (td_next_part d) m = Inr (ob2, True)" "row_ready ob2 (next_row d m)"
proof -
  let ?d = "d\<lparr>td_in_flight := True\<rparr>"
  have v: "delivery_valid ?d" "delivery_valid (next_row d m)"
    using assms by (auto simp: row_ready_def delivery_valid_def next_row_def)
  have e: "?d\<lparr>td_next_part := td_next_part ?d + 1, td_in_flight := False, td_outcome_unknown := False,
      td_message_ids := td_message_ids ?d @ [m]\<rparr> = next_row d m"
    using assms(1) by (cases d) (auto simp: next_row_def row_ready_def delivery_valid_def)
  from v(2) obtain ob2 where s: "save_delivery ob1 (next_row d m) = Inr ob2" by (simp add: save_delivery_def)
  have "confirm_telegram_part ob1 (td_id d) (td_next_part d) m = Inr (ob2, True)"
    using assms v(1) s e by (simp add: confirm_telegram_part_def load_delivery_def row_ready_def)
  moreover have "row_ready ob2 (next_row d m)"
    using assms row_of_save(1) [OF s] v(2) by (simp add: row_ready_def next_row_def)
  ultimately show thesis by (rule that)
qed

lemma valid_prefix:
  assumes "delivery_valid d"
  shows "td_next_part d \<le> length (td_parts d)" "length (td_message_ids d) = td_next_part d"
  using assms unfolding delivery_valid_def by blast+

definition answers :: "SendWorld \<Rightarrow> nat \<Rightarrow> TelegramDelivery \<Rightarrow> (nat \<Rightarrow> int) \<Rightarrow> bool" where
  "answers w k d m \<longleftrightarrow>
     sw_others w = (\<lambda>_. []) \<and> sw_stop w = (\<lambda>_. False) \<and> inj m \<and> (\<forall>j. 0 < m j \<and> m j \<notin> set (td_message_ids d))
     \<and> (\<forall>j. j < length (td_parts d) - td_next_part d \<longrightarrow>
          sw_reply w (k + j) = Some (receipt_for d (m j) (td_parts d ! (td_next_part d + j))))"

lemma send_parts_delivers:
  "row_ready ob d \<Longrightarrow> answers w k d m \<Longrightarrow> td_next_part d + n = length (td_parts d) \<Longrightarrow>
     \<exists>ob' reqs d'. send_parts w False k d ob = (ob', reqs, SendOk, False) \<and> map sr_text reqs = drop (td_next_part d) (td_parts d)
       \<and> row_ready ob' d' \<and> complete d' \<and> td_id d' = td_id d \<and> td_message_ids d' = td_message_ids d @ map m [0..<n]"
proof (induction n arbitrary: ob d k m)
  case 0
  then have "complete d" by (simp add: row_ready_def complete_def)
  with 0 show ?case by (intro exI [of _ ob] exI [of _ "[]"] exI [of _ d]) (simp add: send_parts.simps [of w False k d ob])
next
  case (Suc n)
  have lt: "td_next_part d < length (td_parts d)" using Suc.prems(3) by simp
  note a = Suc.prems(2) [unfolded answers_def]
  let ?text = "td_parts d ! td_next_part d"
  let ?d = "next_row d (m 0)"
  obtain ob1 where c: "claim_telegram_part ob (td_id d) (td_next_part d) = Inr (ob1, True)"
    "row_of ob1 (td_id d) = Some (d\<lparr>td_in_flight := True\<rparr>)" using claim_ready [OF Suc.prems(1) lt] .
  obtain ob2 where f: "confirm_telegram_part ob1 (td_id d) (td_next_part d) (m 0) = Inr (ob2, True)" "row_ready ob2 ?d"
    using confirm_ready [OF Suc.prems(1) lt c(2)] a by metis
  have reply: "sw_reply w k = Some (receipt_for d (m 0) ?text)" using a lt by (metis Nat.add_0_right zero_less_diff)
  have "answers w (k + 1) ?d (\<lambda>j. m (Suc j))"
    unfolding answers_def
  proof (intro conjI allI impI)
    show "sw_others w = (\<lambda>_. [])" "sw_stop w = (\<lambda>_. False)" using a by simp_all
    show "inj (\<lambda>j. m (Suc j))" using a by (auto simp: inj_def)
    show "0 < m (Suc j)" for j using a by simp
    show "m (Suc j) \<notin> set (td_message_ids ?d)" for j using a by (auto simp: next_row_def inj_def)
    fix j assume "j < length (td_parts ?d) - td_next_part ?d"
    then have "Suc j < length (td_parts d) - td_next_part d" by (simp add: next_row_def)
    then have "sw_reply w (k + Suc j) = Some (receipt_for d (m (Suc j)) (td_parts d ! (td_next_part d + Suc j)))" using a by blast
    then show "sw_reply w (k + 1 + j) = Some (receipt_for ?d (m (Suc j)) (td_parts ?d ! (td_next_part ?d + j)))"
      by (simp add: next_row_def receipt_for_def)
  qed
  with Suc.IH [OF f(2) this] Suc.prems(3) obtain ob' reqs d' where r: "send_parts w False (k + 1) ?d ob2 = (ob', reqs, SendOk, False)"
    "map sr_text reqs = drop (td_next_part ?d) (td_parts ?d)" "row_ready ob' d'" "complete d'" "td_id d' = td_id ?d"
    "td_message_ids d' = td_message_ids ?d @ map (\<lambda>j. m (Suc j)) [0..<n]" by (auto simp: next_row_def)
  have "\<not> complete d" using lt by (simp add: complete_def)
  moreover have "Option.bind (sw_reply w k) (receipt_message d ?text) = Some (m 0)" using a by (simp add: reply receipt_for_accepted)
  moreover have "sw_others w = (\<lambda>_. [])" "sw_stop w = (\<lambda>_. False)" using a by simp_all
  moreover have "slice_get (td_parts d) (td_next_part d) = Some ?text" using lt by (simp add: slice_get_def)
  ultimately have "send_parts w False k d ob = (ob', send_request d ?text # reqs, SendOk, False)"
    by (simp add: send_parts.simps [of w False k d ob] c(1) f(1) r(1) [simplified])
  moreover have "map sr_text (send_request d ?text # reqs) = drop (td_next_part d) (td_parts d)"
    using r(2) lt by (simp add: next_row_def send_request_def Cons_nth_drop_Suc)
  moreover have "map m [0..<Suc n] = m 0 # map (\<lambda>j. m (Suc j)) [0..<n]" by (rule map_upt_Suc)
  ultimately show ?case using r(3-6) by (intro exI [of _ ob'] exI [of _ "send_request d ?text # reqs"] exI [of _ d'])
    (simp add: next_row_def del: upt_Suc)
qed

text \<open>C19: The sender terminates, and an undisturbed send delivers the whole notification: when nothing else touches the
  outbox, nobody asks to stop, the bot is the intended one and Telegram answers every request with the receipt
  of a new message, then sending a pending row succeeds, the texts that were sent are exactly the parts that were left,
  in order, and the row in the outbox is complete, with one message for each part.\<close>

theorem undisturbed_send_completes:
  assumes "row_ready ob d" and "answers w 1 d m" and "sw_me w = Some \<lparr>bi_is_bot = Some True, bi_id = Some (ds_bot_id (td_destination d)), bi_username = name\<rparr>"
  shows "\<exists>ob' reqs d'. send_pending w (td_destination d) False d ob = (ob', reqs, SendOk)
    \<and> map sr_text reqs = drop (td_next_part d) (td_parts d)
    \<and> row_of ob' (td_id d) = Some d' \<and> complete d' \<and> length (td_message_ids d') = length (td_parts d)"
proof -
  have v: "delivery_valid d" "\<not> td_in_flight d" "\<not> td_abandoned d" using assms(1) by (simp_all add: row_ready_def)
  have n: "td_next_part d + (length (td_parts d) - td_next_part d) = length (td_parts d)" using valid_prefix [OF v(1)] by simp
  obtain ob' reqs d' where r: "send_parts w False 1 d ob = (ob', reqs, SendOk, False)"
    "map sr_text reqs = drop (td_next_part d) (td_parts d)" "row_ready ob' d'" "complete d'" "td_id d' = td_id d"
    "td_message_ids d' = td_message_ids d @ map m [0..<length (td_parts d) - td_next_part d]"
    using send_parts_delivers [OF assms(1,2) n] by blast
  have l: "length (td_message_ids d') = length (td_parts d)" using r(6) n valid_prefix(2) [OF v(1)] by simp
  have s: "send_pending w (td_destination d) False d ob = (ob', reqs, SendOk)"
  proof (cases "complete d")
    case True
    with r(1) have "ob' = ob" "reqs = []" by (simp_all add: send_parts.simps [of w False _ d ob])
    with True v show ?thesis by (simp add: send_pending_def)
  next
    case False
    have "0 < ds_bot_id (td_destination d) \<and> ds_bot_id (td_destination d) < 2 ^ 52" using v(1) unfolding delivery_valid_def by blast
    with False r(1) v assms(2,3) show ?thesis by (simp add: send_pending_def answers_def)
  qed
  from r(3,5) have "row_of ob' (td_id d) = Some d'" by (simp add: row_ready_def)
  with s r(2,4) l show ?thesis by blast
qed

text \<open>The sample row is sent to a bot that answers.\<close>

definition sample_row :: TelegramDelivery where
  "sample_row = TelegramDelivery_new ''d'' \<lparr>ds_bot_id = 5, ds_chat_id = 7, ds_topic_id = None\<rparr> (no_notification sample_notice) 1"

definition sample_send_world :: SendWorld where
  "sample_send_world = \<lparr>sw_others = (\<lambda>_. []), sw_me = Some \<lparr>bi_is_bot = Some True, bi_id = Some 5, bi_username = None\<rparr>,
     sw_reply = (\<lambda>k. Some (receipt_for sample_row (int k) (td_parts sample_row ! (k - 1)))), sw_stop = (\<lambda>_. False)\<rparr>"

lemma sample_ready: "row_ready sample_outbox sample_row" "td_destination sample_row = \<lparr>ds_bot_id = 5, ds_chat_id = 7, ds_topic_id = None\<rparr>"
    "td_next_part sample_row = 0" "td_message_ids sample_row = []" "td_id sample_row = ''d''"
  by code_simp+

lemma sample_answers: "answers sample_send_world 1 sample_row (\<lambda>j. int (Suc j))"
  by (auto simp: answers_def sample_send_world_def sample_ready inj_def)

theorem undisturbed_send_completes_witness:
  "\<exists>ob' reqs d'. send_pending sample_send_world (td_destination sample_row) False sample_row sample_outbox = (ob', reqs, SendOk)
    \<and> map sr_text reqs = drop 0 (td_parts sample_row)
    \<and> row_of ob' ''d'' = Some d' \<and> complete d' \<and> length (td_message_ids d') = length (td_parts sample_row)"
  using undisturbed_send_completes [OF sample_ready(1) sample_answers] by (simp add: sample_send_world_def sample_ready)

theorem parts_are_sent_once_witness:
  "\<exists>ob1 first r. send_pending sample_send_world (td_destination sample_row) True sample_row sample_outbox = (ob1, first, r)
    \<and> sent first = [(''d'', 0)]
    \<and> (\<exists>ob3 second r'. send_pending sample_send_world (td_destination sample_row) True sample_row ob1 = (ob3, second, r')
      \<and> distinct (sent (first @ second)))"
proof -
  obtain ob1 first r where p: "send_pending sample_send_world (td_destination sample_row) True sample_row sample_outbox = (ob1, first, r)"
    by (cases "send_pending sample_send_world (td_destination sample_row) True sample_row sample_outbox")
  obtain ob3 second r' where q: "send_pending sample_send_world (td_destination sample_row) True sample_row ob1 = (ob3, second, r')"
    by (cases "send_pending sample_send_world (td_destination sample_row) True sample_row ob1")
  have "sent (fst (snd (send_pending sample_send_world (td_destination sample_row) True sample_row sample_outbox))) = [(''d'', 0)]"
    by code_simp
  with parts_are_sent_once [OF p accepts_nil q] p q show ?thesis by auto
qed

end
