(* ===== verification/Spec2Isabelle.thy ===== *)
theory Spec2Isabelle
  imports Pipeline_Properties Pipeline_Progress Task_Relations Assignment Wait_Graph Agent_Policies Shim_Plan
    Github_Ledger Client_Protocol Daemon_Properties Telegram_Actions Telegram_Sender
begin

text \<open>
  AgEnD runs teams of coding agents. A daemon takes tasks through the stages of a workflow (work, submit,
  command, approval, fanout, merge), assigns them to agent instances and performs what the workflow engine
  asks for; each agent works in a git worktree of its own, and a shim in front of \<^verbatim>\<open>git\<close>, \<^verbatim>\<open>gh\<close> and \<^verbatim>\<open>kill\<close>
  keeps it there. This library models the three parts that decide: the core crate
  (\<^verbatim>\<open>crates/agend-core/src\<close>, pure code: state machine, save rules, policies), the pipeline engine of the
  daemon with the tables it writes and its Telegram side (\<^verbatim>\<open>crates/agend-daemon/src\<close>) and the command shim
  (\<^verbatim>\<open>crates/agend-shim/src\<close>). The daemon calls the core with events and stores what it returns; the shim
  reads the binding that the daemon wrote for the agent.

  \<^bold>\<open>Conventions.\<close> A struct is a record, an enum a datatype, \<^verbatim>\<open>Result<T, E>\<close> the sum \<open>'e + 'a\<close> with the error
  on the left; \<^verbatim>\<open>u8\<close>, \<^verbatim>\<open>u32\<close> and \<^verbatim>\<open>u64\<close> are words of their width; a text is the list of its UTF-8 bytes, a
  path the list of its components. Names are those of the source, with a suffix or the type's name in front
  where two of them clash. Arguments that a function only clones or borrows are values. A panic is a result
  of its own (\<open>Panic\<close>), so that its absence is a theorem.

  \<^bold>\<open>Core.\<close>
  \<^item> \<open>Prelude\<close>: results, list functions of the standard library, and the locales \<open>transition\<close>,
    \<open>invariant_transition\<close>, \<open>counted_transition\<close> and \<open>terminal_transition\<close> for runs of guarded steps. Every
    state machine below is an interpretation of them.
  \<^item> \<open>Domain_Model\<close> (\<^verbatim>\<open>model.rs\<close>): backends, delivery states, branch and worktree names.
  \<^item> \<open>Merge_Gate\<close> (\<^verbatim>\<open>policy/merge_gate.rs\<close>): the gate, exactly characterised, and which approvals survive a
    rebase. The engine relies on it through the locale \<open>merge_policy\<close>.
  \<^item> \<open>Workflow_Spec\<close> (\<^verbatim>\<open>pipeline/stage.rs\<close>, \<^verbatim>\<open>pipeline/workflow.rs\<close>): workflows, command templates, the static
    save rules, the built-in workflows. \<open>Workflow_Rules\<close>: what the static rules mean for the order of stages
    (\<open>well_formed\<close>). \<open>Command_Template\<close>: the shell's reading of an expanded command.
  \<^item> \<open>Pipeline_State\<close> (\<^verbatim>\<open>pipeline/state.rs\<close>): \<open>PipelineState\<close>, \<open>PipelineEvent\<close>, \<open>PipelineAction\<close>, one definition
    per handler and helper, \<open>step\<close>. \<open>Pipeline_Snapshot\<close>: \<open>snapshot\<close>, \<open>restore\<close>, \<open>outstanding_actions\<close>.
    \<open>Workflow_Validation\<close>: the trial runs of \<open>validate\<close>, which drive the same \<open>step\<close>.
  \<^item> \<open>Pipeline_Lemmas\<close>, \<open>Pipeline_Invariant\<close>, \<open>Pipeline_Entry\<close>, \<open>Pipeline_Heads\<close>, \<open>Pipeline_Steps\<close>: the
    invariant of the machine and that entering a stage, head changes, rework and every event keep it.
    \<open>Pipeline_History\<close>: where the records of a state come from. \<open>Pipeline_Safety\<close>, \<open>Pipeline_Properties\<close>,
    \<open>Pipeline_Progress\<close>: the theorems over runs (a merge is earned, answers count once, no internal failure,
    done is covered, restore, and that no task gets stuck).
  \<^item> \<open>Task_Relations\<close> (\<^verbatim>\<open>pipeline/task.rs\<close>): task records and their operations.
  \<^item> \<open>Assignment\<close>, \<open>Wait_Graph\<close> (\<^verbatim>\<open>policy/assign.rs\<close>): who gets a task or a review, and the wait-cycle check
    with its graph search. \<open>Agent_Policies\<close> (\<^verbatim>\<open>policy/busy.rs\<close>, \<^verbatim>\<open>debounce.rs\<close>, \<^verbatim>\<open>conflict.rs\<close>, \<^verbatim>\<open>attention.rs\<close>).

  \<^bold>\<open>Shim.\<close>
  \<^item> \<open>Rust_Text\<close>, \<open>Rust_Path\<close>: the functions of \<^verbatim>\<open>str\<close> and \<^verbatim>\<open>std::path\<close> that the shim uses.
  \<^item> \<open>Shim_Hooks\<close> (\<^verbatim>\<open>agend-core/src/binding.rs\<close>, \<^verbatim>\<open>binding.rs\<close>, \<^verbatim>\<open>protected_ref.rs\<close>, \<^verbatim>\<open>hook.rs\<close>): the binding and
    the decision of the ref and push hooks.
  \<^item> \<open>Shim_Location\<close> (\<^verbatim>\<open>location.rs\<close>), \<open>Shim_Args\<close> and \<open>Shim_Classify\<close> (\<^verbatim>\<open>classify.rs\<close>), \<open>Shim_Team\<close>
    (\<^verbatim>\<open>team.rs\<close>): where a git call acts, how its arguments are read, whether it runs and where, and which remote
    is the team's.
  \<^item> \<open>Shim_Gh\<close> (\<^verbatim>\<open>gh.rs\<close>), \<open>Shim_Kill\<close> (\<^verbatim>\<open>kill_guard.rs\<close>): the guards of the other tools.
  \<^item> \<open>Shim_Plan\<close> (\<^verbatim>\<open>lib.rs\<close>, \<^verbatim>\<open>git.rs\<close>, \<^verbatim>\<open>ctx.rs\<close>, \<^verbatim>\<open>snapshot.rs\<close>, \<^verbatim>\<open>audit.rs\<close>): the whole call, from the environment
    to the command that is executed, with the snapshot that precedes a destructive command.

  \<^bold>\<open>Daemon.\<close>
  \<^item> \<open>Github_Ledger\<close> (\<^verbatim>\<open>agend-core/src/github.rs\<close>, \<^verbatim>\<open>store/github.rs\<close>): what a task owns on GitHub and its
    compare-and-swap store. \<open>Client_Protocol\<close> (\<^verbatim>\<open>protocol.rs\<close>, \<^verbatim>\<open>protocol/client.rs\<close>, \<^verbatim>\<open>holder.rs\<close>, \<^verbatim>\<open>ask.rs\<close>):
    version negotiation, tickets, message ids, replies to an ask.
  \<^item> \<open>Task_Store\<close> (\<^verbatim>\<open>store.rs\<close> and \<^verbatim>\<open>store/task_row.rs\<close>, \<^verbatim>\<open>pipeline.rs\<close>, \<^verbatim>\<open>messages.rs\<close>, \<^verbatim>\<open>pipeline_ports.rs\<close>):
    the tables as the record \<open>Db\<close>, one definition per statement, errors of the store as values.
  \<^item> \<open>Daemon_Ops\<close>, \<open>Daemon_Lifecycle\<close>, \<open>Daemon_Engine\<close>, \<open>Daemon_Commands\<close> (\<^verbatim>\<open>pipeline.rs\<close>, \<^verbatim>\<open>pipeline/*.rs\<close>,
    \<^verbatim>\<open>bindings.rs\<close>): the worker of the pipeline. An operation takes the record \<open>Daemon\<close> (tables, running checks,
    timers, what was started in the background) to a result and the next daemon; it keeps what it wrote when it
    fails later, as the code does. \<open>turn\<close> is one round of the worker, \<open>boot\<close> what happens before the first.
  \<^item> \<open>Daemon_Logic\<close>: a program logic of partial results for these operations (\<open>spec\<close>, \<open>keeps\<close>). \<open>Pipeline_Frame\<close>:
    what no event of the engine changes. \<open>Daemon_Invariant\<close>: the invariant of the tables, chiefly that a row
    stores a state that the engine reaches. \<open>Daemon_Quiet\<close>, \<open>Daemon_Transitions\<close>, \<open>Daemon_Events\<close>, \<open>Daemon_Inputs\<close>:
    every operation keeps it. \<open>Daemon_Properties\<close>: the runs of the daemon (\<open>reachable\<close>) with restarts in between,
    and what holds in all of them.

  \<^bold>\<open>Telegram.\<close> Notifications leave the daemon and decisions come back through a chat.
  \<^item> \<open>Telegram_Outbox\<close> (\<^verbatim>\<open>agend-core/src/telegram.rs\<close>, \<^verbatim>\<open>store/telegram.rs\<close>, \<^verbatim>\<open>store/telegram_inbound.rs\<close>): how
    a notification is cut into messages, and the tables \<open>Outbox\<close> (deliveries, notices, updates) with one
    definition per store operation. \<open>Telegram_Sending\<close>: no text is lost, and the locale \<open>at_most_once\<close> with what is
    spent at most once over the runs of the outbox: a part of a delivery, an update, a notification.
  \<^item> \<open>Telegram_Sender\<close> (\<^verbatim>\<open>notifier/delivery.rs\<close>): claim, send and confirm the parts of a delivery.
  \<^item> \<open>Telegram_Pairing\<close> (\<^verbatim>\<open>config.rs\<close>, \<^verbatim>\<open>telegram/pairing.rs\<close>, \<^verbatim>\<open>store/telegram_pairing.rs\<close>, \<^verbatim>\<open>notifier/pairing.rs\<close>,
    \<^verbatim>\<open>notifier/pairing_service.rs\<close>): settings, the pairing session and its service.
  \<^item> \<open>Telegram_Inbound\<close>, \<open>Telegram_Actions\<close> (\<^verbatim>\<open>notifier/inbound.rs\<close>, \<^verbatim>\<open>notifier/poll.rs\<close>): buttons, admission and
    dispatch of what comes back, and what it can do at most.

  The theorems over runs of the daemon rest on those over runs of the engine: the store is shown to hold a
  run of the engine (\<open>stored_task_is_a_run\<close>), so the results of \<open>Pipeline_Safety\<close> speak of what the daemon
  has stored and asked for.

  \<^bold>\<open>Bounds.\<close> Attempt counters are \<^verbatim>\<open>u32\<close> and wrap. Theorems over runs of the engine therefore bound the number
  of accepted events a little below \<open>2 ^ 32\<close>, and theorems over runs of the daemon bound the version of a row,
  which counts its writes, by \<open>2 ^ 32 - 2\<close>; nothing else bounds a run. A stage needs at most 255 further events to
  be completed because the number of approvals is a \<^verbatim>\<open>u8\<close>. The trial runs of \<open>validate\<close> use the round limit of
  the source, eight per stage and sixteen. Every loop that is not structural has a termination proof.

  \<^bold>\<open>Parameters.\<close> What git, the file system, the environment and the JSON decoder answer is passed in as
  functions (\<open>World\<close>, \<open>Fs\<close>, \<open>Anchors\<close>, \<open>Probe\<close>); no theorem assumes more of them than its statement says. For the
  daemon the record \<open>Env\<close> answers for git, the forge, the drivers, the clock, the id source and the TOML and JSON
  codecs; an answer may depend on when it is asked, and each store call may fail. A crash is a run of an
  operation whose remaining store calls fail, followed by \<open>boot\<close>. An input that the daemon sent to itself may
  arrive late, in any order and more than once. For Telegram the answers of its server, the clock, the current items
  and the outbox operations of other tasks between two store calls are arguments.

  \<^bold>\<open>Not modelled.\<close> The texts of refusals (a refusal is its code) and of \<open>NotCompletable\<close>; time stamps, argument
  lists and working directories of audit records; running commands, reading standard input and installing
  the hooks; texts that are not UTF-8. Of the core: the encoding of messages, most of configuration and setup,
  the screen readers, the input rules for Codex, and traits without code. Of the daemon's
  engine: the view of open attention items (\<open>pipeline/attention.rs\<close> outside \<open>resolve\<close>, which reads it through
  \<open>Env\<close>), the view for clients and the log. Of Telegram: the HTTP transport, reading
  the token, the loop that schedules sending and polling, and the notices of results. The rest of the daemon (SQLite,
  git and forge calls, drivers of the agents, supervisor, sockets), the holder of terminals, the clients and the test kit are input and
  output around the decisions modelled here.

  \<^bold>\<open>Next.\<close> The attention view, the supervisor's restart decisions and the loop of the notifier.
\<close>

section \<open>What saving a workflow guarantees\<close>

text \<open>The rules for one stage: known roles, a positive count of approvals, a command that can be expanded,
  a rework target among the earlier work stages and no zero timeout.\<close>

definition stage_saved :: "Workflow \<Rightarrow> string list \<Rightarrow> nat \<Rightarrow> bool" where
  "stage_saved wfl team_roles i \<longleftrightarrow>
     (let w = wf_stages wfl ! i in
      ws_timeout_ms w \<noteq> Some 0
      \<and> (\<forall>target. ws_on_fail w = Some target \<longrightarrow>
           (\<exists>t < i. ws_id (wf_stages wfl ! t) = target \<and> stage_kind (wf_stages wfl ! t) = StageKind.Work))
      \<and> (case ws_stage w of
           Stage.Work role _ _ \<Rightarrow> role \<in> set team_roles
         | Stage.Approval by n _ \<Rightarrow> n \<noteq> 0 \<and> (\<forall>role. by = Role role \<longrightarrow> role \<in> set team_roles)
         | Stage.Command c \<Rightarrow>
             (\<exists>used. command_placeholders c = Inr used \<and> (\<forall>name \<in> set used. has_placeholder_source wfl i name))
         | Stage.Submit forge \<Rightarrow> forge \<in> {''local'', ''github''} \<and> forge = forge_kind wfl
         | _ \<Rightarrow> True))"

lemma static_errors_stage_saved:
  assumes s: "static_errors wfl team_roles = ([] :: 'r WorkflowError list)" and i: "i < length (wf_stages wfl)"
  shows "stage_saved wfl team_roles i"
proof -
  let ?w = "wf_stages wfl ! i"
  have e: "stage_errors wfl team_roles i = ([] :: 'r WorkflowError list)" using s i by (auto simp: static_errors_Nil)
  then have t: "ws_timeout_ms ?w \<noteq> Some 0" and f: "on_fail_errors wfl i ?w = ([] :: 'r WorkflowError list)"
    and k: "stage_rule_errors wfl team_roles i (ws_id ?w) (ws_stage ?w) = ([] :: 'r WorkflowError list)"
    by (auto simp: stage_errors_def Let_def split: if_splits)
  have target: "\<exists>t < i. ws_id (wf_stages wfl ! t) = target \<and> stage_kind (wf_stages wfl ! t) = StageKind.Work"
    if "ws_on_fail ?w = Some target" for target
    using f that by (auto simp: on_fail_errors_def position_eq_Some split: option.splits if_splits)
  have rules: "case ws_stage ?w of
      Stage.Work role _ _ \<Rightarrow> role \<in> set team_roles
    | Stage.Approval by n _ \<Rightarrow> n \<noteq> 0 \<and> (\<forall>role. by = Role role \<longrightarrow> role \<in> set team_roles)
    | Stage.Command c \<Rightarrow>
        (\<exists>used. command_placeholders c = Inr used \<and> (\<forall>name \<in> set used. has_placeholder_source wfl i name))
    | Stage.Submit forge \<Rightarrow> forge \<in> {''local'', ''github''} \<and> forge = forge_kind wfl
    | _ \<Rightarrow> True"
  proof (cases "ws_stage ?w")
    case (Command c)
    from accepted_command [OF s i Command] obtain used where "command_placeholders c = Inr used"
      "\<And>name. name \<in> set used \<Longrightarrow> has_placeholder_source wfl i name" by blast
    with Command show ?thesis by simp
  next
    case (Approval "by" n bd)
    with k show ?thesis by (cases "by") (auto split: if_splits)
  next
    case (Submit forge)
    have "forge \<in> {''local'', ''github''} \<and> forge = forge_kind wfl"
      using k Submit by (simp only: stage_rule_errors.simps) (metis list.distinct(1))
    then show ?thesis unfolding Submit Stage.case .
  next
    case (Work role ins out)
    with k show ?thesis by (simp split: if_splits)
  qed simp_all
  show ?thesis unfolding stage_saved_def Let_def using t target rules by blast
qed



end
